(* ===== verification/Prelude.thy ===== *)
theory Prelude
  imports Main
begin

text \<open>
  Shared vocabulary of the development: the collections of rewrite rules the component
  theories feed, the names of the characters the C sources compare against, and generic
  facts on lists that several components use (splitting a list at the first element that
  fails a test, and unlinking the first element that passes one, the two loops that the
  C code writes over and over with a moving pointer).
\<close>

named_theorems engine_simps \<open>unfolding rules of the engine state operations\<close>
named_theorems scan_simps \<open>rules for pointer scans over C strings\<close>

section \<open>Characters\<close>

abbreviation NUL :: char where "NUL \<equiv> CHR 0x00"
abbreviation TAB :: char where "TAB \<equiv> CHR 0x09"
abbreviation LF :: char where "LF \<equiv> CHR 0x0A"
abbreviation CR :: char where "CR \<equiv> CHR 0x0D"
abbreviation SPC :: char where "SPC \<equiv> CHR 0x20"
abbreviation DQUOTE :: char where "DQUOTE \<equiv> CHR 0x22"
abbreviation HASH :: char where "HASH \<equiv> CHR 0x23"
abbreviation DOLLAR :: char where "DOLLAR \<equiv> CHR 0x24"
abbreviation SQUOTE :: char where "SQUOTE \<equiv> CHR 0x27"
abbreviation SLASH :: char where "SLASH \<equiv> CHR 0x2F"
abbreviation COLON :: char where "COLON \<equiv> CHR 0x3A"
abbreviation BSLASH :: char where "BSLASH \<equiv> CHR 0x5C"

text \<open>The C string stored in a byte array: the bytes before the first NUL.\<close>

definition cstr :: "string \<Rightarrow> string" where
  "cstr buf = takeWhile (\<lambda>c. c \<noteq> NUL) buf"

lemma cstr_no_NUL: "NUL \<notin> set s \<Longrightarrow> cstr s = s"
  unfolding cstr_def by (rule takeWhile_eq_all_conv [THEN iffD2]) auto

lemma length_cstr_le: "length (cstr s) \<le> length s"
  by (simp add: cstr_def length_takeWhile_le)

section \<open>Splitting at the first failure of a test\<close>

lemma length_dropWhile_less: "xs \<noteq> [] \<Longrightarrow> P (hd xs) \<Longrightarrow> length (dropWhile P xs) < length xs"
  by (cases xs) (auto simp: length_dropWhile_le less_Suc_eq_le)

lemma length_take_drop_While: "length (takeWhile P xs) + length (dropWhile P xs) = length xs"
  by (metis length_append takeWhile_dropWhile_id)

lemma length_tl_dropWhile: "dropWhile P xs \<noteq> [] \<Longrightarrow> length (tl (dropWhile P xs)) < length xs"
  using length_dropWhile_le [of P xs] by (cases "dropWhile P xs") auto

lemma takeWhile_append_stop: "\<forall>x\<in>set xs. P x \<Longrightarrow> \<not> P y \<Longrightarrow> takeWhile P (xs @ y # ys) = xs"
  by (induction xs) auto

lemma dropWhile_append_stop:
  "\<forall>x\<in>set xs. P x \<Longrightarrow> \<not> P y \<Longrightarrow> dropWhile P (xs @ y # ys) = y # ys"
  by (induction xs) auto

lemma takeWhile_until: "q \<notin> set xs \<Longrightarrow> takeWhile (\<lambda>x. x \<noteq> q) (xs @ q # ys) = xs"
  by (induction xs) auto

lemma dropWhile_until: "q \<notin> set xs \<Longrightarrow> dropWhile (\<lambda>x. x \<noteq> q) (xs @ q # ys) = q # ys"
  by (induction xs) auto

lemma hd_dropWhile_stops: "dropWhile P xs = y # ys \<Longrightarrow> \<not> P y"
  by (metis hd_dropWhile list.distinct(1) list.sel(1))

section \<open>Unlinking from a singly linked list\<close>

text \<open>
  The loop with a trailing pointer (\<open>x_prev\<close>) that removes the first cell satisfying a
  test: \<open>None\<close> when it runs off the end, otherwise the removed cell and the list left.
\<close>

fun unlink_first :: "('a \<Rightarrow> bool) \<Rightarrow> 'a list \<Rightarrow> ('a \<times> 'a list) option" where
  "unlink_first P [] = None"
| "unlink_first P (x # xs) =
     (if P x then Some (x, xs)
      else map_option (\<lambda>(y, ys). (y, x # ys)) (unlink_first P xs))"

lemma unlink_first_None: "unlink_first P xs = None \<longleftrightarrow> (\<forall>x\<in>set xs. \<not> P x)"
  by (induction xs) auto

lemma unlink_first_split:
  "unlink_first P xs = Some (y, ys) \<Longrightarrow>
     \<exists>us vs. xs = us @ y # vs \<and> ys = us @ vs \<and> P y \<and> (\<forall>u\<in>set us. \<not> P u)"
proof (induction xs arbitrary: ys)
  case Nil
  then show ?case by simp
next
  case (Cons x xs)
  show ?case
  proof (cases "P x")
    case True
    with Cons.prems show ?thesis by (intro exI [of _ "[]"] exI [of _ xs]) auto
  next
    case False
    with Cons.prems obtain zs where zs: "unlink_first P xs = Some (y, zs)" and ys: "ys = x # zs"
      by auto
    from Cons.IH [OF zs] obtain us vs
      where "xs = us @ y # vs" "zs = us @ vs" "P y" "\<forall>u\<in>set us. \<not> P u" by blast
    with False ys show ?thesis
      by (intro exI [of _ "x # us"] exI [of _ vs]) simp
  qed
qed

lemma unlink_first_mem: "unlink_first P xs = Some (y, ys) \<Longrightarrow> y \<in> set xs \<and> P y"
  using unlink_first_split [of P xs y ys] by auto

lemma unlink_first_subset: "unlink_first P xs = Some (y, ys) \<Longrightarrow> set ys \<subseteq> set xs"
  using unlink_first_split [of P xs y ys] by auto

lemma unlink_first_map_distinct:
  "unlink_first P xs = Some (y, ys) \<Longrightarrow> distinct (map f xs) \<Longrightarrow>
     distinct (map f ys) \<and> f y \<notin> set (map f ys)"
  using unlink_first_split [of P xs y ys] by auto

lemma unlink_first_filter:
  "unlink_first (\<lambda>x. f x = a) xs = Some (y, ys) \<Longrightarrow> distinct (map f xs) \<Longrightarrow>
     ys = filter (\<lambda>x. f x \<noteq> a) xs"
proof -
  assume u: "unlink_first (\<lambda>x. f x = a) xs = Some (y, ys)" and d: "distinct (map f xs)"
  from unlink_first_split [OF u] obtain us vs
    where s: "xs = us @ y # vs" "ys = us @ vs" "f y = a" by blast
  with d have "filter (\<lambda>x. f x \<noteq> a) us = us" "filter (\<lambda>x. f x \<noteq> a) vs = vs"
    by (simp_all add: filter_id_conv) (metis imageI)+
  with s show ?thesis by simp
qed

section \<open>Lists of addresses\<close>

text \<open>
  A chain of cells linked by \<open>next\<close> is the list of their addresses; the cells live in a
  store.  The two loops over such a chain read every cell they pass: \<open>None\<close> is the access
  to a cell that is not allocated.
\<close>

type_synonym addr = nat
type_synonym 'a store = "addr \<Rightarrow> 'a option"

fun scan_cells :: "('a \<Rightarrow> bool) \<Rightarrow> 'a store \<Rightarrow> addr list \<Rightarrow> addr option option" where
  "scan_cells P h [] = Some None"
| "scan_cells P h (a # as) =
     (case h a of
        None \<Rightarrow> None
      | Some x \<Rightarrow> if P x then Some (Some a) else scan_cells P h as)"

fun unlink_cell :: "('a \<Rightarrow> bool) \<Rightarrow> 'a store \<Rightarrow> addr list \<Rightarrow> (addr \<times> addr list) option option" where
  "unlink_cell P h [] = Some None"
| "unlink_cell P h (a # as) =
     (case h a of
        None \<Rightarrow> None
      | Some x \<Rightarrow>
          if P x then Some (Some (a, as))
          else map_option (map_option (\<lambda>(b, bs). (b, a # bs))) (unlink_cell P h as))"

lemma scan_cells_find:
  "set as \<subseteq> dom h \<Longrightarrow> scan_cells P h as = Some (find (\<lambda>a. P (the (h a))) as)"
  by (induction as) auto

lemma unlink_cell_first:
  "set as \<subseteq> dom h \<Longrightarrow> unlink_cell P h as = Some (unlink_first (\<lambda>a. P (the (h a))) as)"
  by (induction as) auto

lemma find_Some_split:
  "find P xs = Some x \<Longrightarrow> \<exists>us vs. xs = us @ x # vs \<and> P x \<and> (\<forall>u\<in>set us. \<not> P u)"
  by (induction xs) (auto split: if_splits, metis append_Nil empty_iff list.set(1),
      metis (no_types, lifting) append_Cons set_ConsD)

section \<open>Arrays that grow\<close>

text \<open>
  Storing a sequence of elements one by one; \<open>None\<close> is a store behind the end of the array.
\<close>

fun put_all :: "('a \<Rightarrow> 'b \<Rightarrow> 'b option) \<Rightarrow> 'a list \<Rightarrow> 'b \<Rightarrow> 'b option" where
  "put_all put [] b = Some b"
| "put_all put (x # xs) b = (case put x b of None \<Rightarrow> None | Some b' \<Rightarrow> put_all put xs b')"

text \<open>
  What the code that fills an array relies on: as long as the invariant \<open>room\<close> holds, one
  more element can be stored, it lands behind the others, and \<open>room\<close> holds again.
\<close>

locale growable_array =
  fixes put :: "'a \<Rightarrow> 'b \<Rightarrow> 'b option"
    and contents :: "'b \<Rightarrow> 'a list"
    and room :: "'b \<Rightarrow> bool"
  assumes put_room: "room b \<Longrightarrow> \<exists>b'. put x b = Some b' \<and> contents b' = contents b @ [x] \<and> room b'"
begin

lemma put_obtain:
  assumes "room b"
  obtains b' where "put x b = Some b'" "contents b' = contents b @ [x]" "room b'"
  using put_room [OF assms, of x] by blast

lemma put_all_obtain:
  assumes "room b"
  obtains b' where "put_all put xs b = Some b'" "contents b' = contents b @ xs" "room b'"
  using assms
proof (induction xs arbitrary: b thesis)
  case (Cons x xs)
  obtain b1 where b1: "put x b = Some b1" "contents b1 = contents b @ [x]" "room b1"
    using Cons.prems(2) by (rule put_obtain)
  obtain b2 where "put_all put xs b1 = Some b2" "contents b2 = contents b1 @ xs" "room b2"
    using Cons.IH [OF _ b1(3)] by blast
  with b1 Cons.prems(1) show ?case by simp
qed simp

end

end
