(* ===== verification/Jconf_File.thy ===== *)
theory Jconf_File
  imports Prelude
begin

text \<open>
  Reading a jconf file (\<open>m_jconf.c\<close>): the line reader \<open>fgets_jconf\<close> with its escaped
  newlines, \<open>get_dirname\<close>, the environment expansion \<open>expand_env\<close> with its growing target
  buffer, and \<open>config_file_parse\<close> with its quoting, escaping and comment rules.  The model
  is of the build without \<open>_WIN32\<close>.  A file is the list of the bytes still to be read, so
  end of file is the empty list; a C string is a list without its terminating NUL; an
  access outside an array, or a string left without its NUL, is a value of its own.
  \<open>getenv\<close>, the file system and \<open>opt_parse\<close> (\<open>m_options.c\<close> is not part of the
  repository) are parameters.
\<close>

section \<open>Definitions\<close>

subsection \<open>Lines\<close>

datatype fgets_result =
    Fgets_Null
  | Fgets_Buf string
  | Fgets_Underflow

text \<open>
  A CR swallows a following LF; any other byte after it is pushed back, but stays in the
  variable \<open>c\<close> and so becomes the next \<open>prev_c\<close>.
\<close>

definition newline_rest :: "char \<Rightarrow> string \<Rightarrow> char option \<times> string" where
  "newline_rest c fp =
     (if c = CR then
        (case fp of
           [] \<Rightarrow> (None, [])
         | d # fp' \<Rightarrow> if d = LF then (Some d, fp') else (Some d, fp))
      else (Some c, fp))"

lemma newline_rest_length: "length (snd (newline_rest c fp)) \<le> length fp"
  by (simp add: newline_rest_def split: list.split)

lemma newline_rest_length_eq: "newline_rest c fp = (x, fp') \<Longrightarrow> length fp' \<le> length fp"
  using newline_rest_length [of c fp] by simp

function fgets_jconf_loop ::
  "nat \<Rightarrow> string \<Rightarrow> char option \<Rightarrow> string \<Rightarrow> fgets_result \<times> string" where
  "fgets_jconf_loop bsize buf prev_c fp =
     (if length buf \<ge> bsize then
        (if buf = [] then (Fgets_Underflow, fp) else (Fgets_Buf (butlast buf), fp))
      else
        (case fp of
           [] \<Rightarrow> (if buf = [] then Fgets_Null else Fgets_Buf buf, [])
         | c # fp1 \<Rightarrow>
             if c = LF \<or> c = CR then
               (case newline_rest c fp1 of
                  (c', fp2) \<Rightarrow>
                    if prev_c = Some BSLASH then
                      (if buf = [] then (Fgets_Underflow, fp2)
                       else fgets_jconf_loop bsize (butlast buf) c' fp2)
                    else (Fgets_Buf buf, fp2))
             else fgets_jconf_loop bsize (buf @ [c]) (Some c) fp1))"
  by pat_completeness auto
termination
  by (relation "measure (\<lambda>(bsize, buf, prev_c, fp). length fp)")
    (auto simp: less_Suc_eq_le newline_rest_length_eq split: prod.split)

declare fgets_jconf_loop.simps [simp del]

definition fgets_jconf :: "nat \<Rightarrow> string \<Rightarrow> fgets_result \<times> string" where
  "fgets_jconf bsize fp = fgets_jconf_loop bsize [] (Some NUL) fp"

subsection \<open>Directory names\<close>

text \<open>The scan of \<open>p\<close> from the last byte down to a slash or to the first byte.\<close>

fun dirname_scan :: "string \<Rightarrow> nat \<Rightarrow> nat" where
  "dirname_scan path p =
     (if path ! p \<noteq> SLASH \<and> p \<noteq> 0 then dirname_scan path (p - 1) else p)"

declare dirname_scan.simps [simp del]

text \<open>\<open>None\<close>: with an empty path the scan starts at the byte before the array.\<close>

definition get_dirname :: "string \<Rightarrow> string option" where
  "get_dirname path =
     (if path = [] then None
      else
        let p = dirname_scan path (length path - 1)
        in if p = 0 \<and> path ! p \<noteq> SLASH then Some [] else Some (take (p + 1) path))"

subsection \<open>Environment expansion\<close>

datatype env_result =
    Env_Same
  | Env_New string bool
  | Env_Overflow

text \<open>
  \<open>Env_Same\<close>: the argument itself is returned.  \<open>Env_New s b\<close>: a new array holding \<open>s\<close> is
  returned, with a terminating NUL behind it if \<open>b\<close>.  \<open>Env_Overflow\<close>: a byte was stored
  behind the end of the array.
\<close>

fun has_dollar :: "bool \<Rightarrow> string \<Rightarrow> bool" where
  "has_dollar inbrace [] = False"
| "has_dollar inbrace (c # cs) =
     (if c = SQUOTE then has_dollar (\<not> inbrace) cs
      else if \<not> inbrace then
        (if c = BSLASH then (case cs of [] \<Rightarrow> False | d # ds \<Rightarrow> has_dollar inbrace ds)
         else if c = DOLLAR then True
         else has_dollar inbrace cs)
      else has_dollar inbrace cs)"

text \<open>The target array: the bytes stored so far (\<open>q - target\<close> of them) and its size.\<close>

type_synonym target = "string \<times> nat"

definition target_put :: "char \<Rightarrow> target \<Rightarrow> target option" where
  "target_put c t =
     (case t of (out, cap) \<Rightarrow>
        if length out < cap
        then Some (out @ [c], if length out + 1 \<ge> cap then cap * 2 else cap)
        else None)"

fun copy_to_dollar :: "bool \<Rightarrow> string \<Rightarrow> target \<Rightarrow> (bool \<times> string \<times> target) option" where
  "copy_to_dollar inbrace [] t = Some (inbrace, [], t)"
| "copy_to_dollar inbrace (c # cs) t =
     (if c = SQUOTE then copy_to_dollar (\<not> inbrace) cs t
      else if \<not> inbrace \<and> c = BSLASH then
        (case cs of
           [] \<Rightarrow> Some (inbrace, [], t)
         | d # ds \<Rightarrow>
             (case target_put d t of None \<Rightarrow> None | Some t' \<Rightarrow> copy_to_dollar inbrace ds t'))
      else if \<not> inbrace \<and> c = DOLLAR then Some (inbrace, c # cs, t)
      else
        (case target_put c t of None \<Rightarrow> None | Some t' \<Rightarrow> copy_to_dollar inbrace cs t'))"

definition is_env_char :: "char \<Rightarrow> bool" where
  "is_env_char c \<longleftrightarrow>
     c = CHR ''_''
     \<or> of_char (CHR ''0'') \<le> (of_char c :: nat) \<and> (of_char c :: nat) \<le> of_char (CHR ''9'')
     \<or> of_char (CHR ''a'') \<le> (of_char c :: nat) \<and> (of_char c :: nat) \<le> of_char (CHR ''z'')
     \<or> of_char (CHR ''A'') \<le> (of_char c :: nat) \<and> (of_char c :: nat) \<le> of_char (CHR ''Z'')"

text \<open>
  The variable name behind a dollar, and where the scan goes on: behind the closing brace
  if there is one.  \<open>None\<close>: an opening brace is never closed.
\<close>

definition env_name :: "string \<Rightarrow> (string \<times> string) option" where
  "env_name p =
     (case p of
        [] \<Rightarrow> Some ([], [])
      | c # cs \<Rightarrow>
          if c = CHR ''('' \<or> c = CHR ''{'' then
            (let eb = (if c = CHR ''('' then CHR '')'' else CHR ''}'') in
             case dropWhile (\<lambda>x. x \<noteq> eb) cs of
               [] \<Rightarrow> None
             | _ # rest \<Rightarrow> Some (takeWhile (\<lambda>x. x \<noteq> eb) cs, rest))
          else Some (takeWhile is_env_char p, dropWhile is_env_char p))"

lemma env_name_length: "env_name p = Some (name, rest) \<Longrightarrow> length rest \<le> length p"
proof (cases p)
  case Nil
  then show "env_name p = Some (name, rest) \<Longrightarrow> ?thesis" by (simp add: env_name_def)
next
  case (Cons c cs)
  assume e: "env_name p = Some (name, rest)"
  have brace: "length ys \<le> length cs" if "dropWhile Q cs = y # ys" for Q y ys
    using that length_dropWhile_le [of Q cs] by simp
  have plain: "length (dropWhile is_env_char p) \<le> length p"
    by (rule length_dropWhile_le)
  from e Cons show ?thesis
    using brace plain by (auto simp: env_name_def Let_def split: if_splits list.splits intro: le_SucI)
qed

lemma copy_to_dollar_length:
  "copy_to_dollar b p t = Some (b', p', t') \<Longrightarrow> length p' \<le> length p"
proof (induction b p t rule: copy_to_dollar.induct)
  case (2 inbrace c cs t)
  consider "c = SQUOTE" | "c \<noteq> SQUOTE" "\<not> inbrace" "c = BSLASH"
    | "c \<noteq> SQUOTE" "\<not> inbrace" "c = DOLLAR"
    | "c \<noteq> SQUOTE" "inbrace \<or> c \<noteq> BSLASH \<and> c \<noteq> DOLLAR" by blast
  then show ?case
  proof cases
    case 1
    with 2 show ?thesis by simp
  next
    case c: 2
    show ?thesis
    proof (cases cs)
      case (Cons d ds)
      with c "2.prems" obtain t1 where "target_put d t = Some t1"
        "copy_to_dollar inbrace ds t1 = Some (b', p', t')" by (auto split: option.splits)
      with c Cons "2.IH"(2) [of d ds t1] show ?thesis by simp
    qed (use c "2.prems" in auto)
  next
    case 3
    with "2.prems" show ?thesis by simp
  next
    case c: 4
    with "2.prems" obtain t1 where "target_put c t = Some t1"
      "copy_to_dollar inbrace cs t1 = Some (b', p', t')" by (auto split: option.splits)
    with c "2.IH"(3) [of t1] show ?thesis by auto
  qed
qed simp

function expand_loop ::
  "(string \<Rightarrow> string option) \<Rightarrow> bool \<Rightarrow> string \<Rightarrow> target \<Rightarrow> env_result" where
  "expand_loop getenv inbrace p t =
     (if p = [] then Env_New (fst t) False
      else
        (case copy_to_dollar inbrace p t of
           None \<Rightarrow> Env_Overflow
         | Some (inbrace', p', t') \<Rightarrow>
             (case p' of
                [] \<Rightarrow> (if length (fst t') < snd t' then Env_New (fst t') True else Env_Overflow)
              | _ # p1 \<Rightarrow>
                  (case env_name p1 of
                     None \<Rightarrow> Env_Same
                   | Some (name, p2) \<Rightarrow>
                       if length name \<ge> 256 - 1 then Env_Same
                       else
                         (case getenv name of
                            None \<Rightarrow> Env_Same
                          | Some v \<Rightarrow>
                              (case put_all target_put v t' of
                                 None \<Rightarrow> Env_Overflow
                               | Some t2 \<Rightarrow> expand_loop getenv inbrace' p2 t2))))))"
  by pat_completeness auto
termination
  by (relation "measure (\<lambda>(getenv, b, p, t). length p)")
    (auto dest!: copy_to_dollar_length env_name_length)

declare expand_loop.simps [simp del]

definition expand_env :: "(string \<Rightarrow> string option) \<Rightarrow> string \<Rightarrow> env_result" where
  "expand_env getenv str =
     (if \<not> has_dollar False str then Env_Same
      else expand_loop getenv False str ([], length str * 2))"

subsection \<open>The arguments of a jconf file\<close>

definition ISTOKEN :: "char \<Rightarrow> bool" where
  "ISTOKEN c \<longleftrightarrow> c = SPC \<or> c = TAB \<or> c = LF"

text \<open>One argument: \<open>acc\<close> is what lies between \<open>dst_from\<close> and \<open>dst\<close>.\<close>

function parse_word :: "string \<Rightarrow> string \<Rightarrow> string \<times> string" where
  "parse_word [] acc = (acc, [])"
| "parse_word (c # cs) acc =
     (if ISTOKEN c then (acc, c # cs)
      else if c = BSLASH then
        (case cs of [] \<Rightarrow> (acc, []) | d # ds \<Rightarrow> parse_word ds (acc @ [d]))
      else if c = DQUOTE \<or> c = SQUOTE then
        (case dropWhile (\<lambda>x. x \<noteq> c) cs of
           [] \<Rightarrow> (acc @ takeWhile (\<lambda>x. x \<noteq> c) cs, [])
         | _ # rest \<Rightarrow> parse_word rest (acc @ takeWhile (\<lambda>x. x \<noteq> c) cs))
      else if c = HASH then (acc, [])
      else parse_word cs (acc @ [c]))"
  by pat_completeness auto
termination
proof (relation "measure (\<lambda>(p, acc). length p)", goal_cases)
  case (3 c cs acc y ys)
  then show ?case using length_dropWhile_le [of "\<lambda>x. x \<noteq> c" cs] by simp
qed auto

declare parse_word.simps(2) [simp del]

text \<open>One turn of the loop, by the byte it looks at.\<close>

lemma parse_word_blank [scan_simps]: "ISTOKEN c \<Longrightarrow> parse_word (c # cs) acc = (acc, c # cs)"
  by (simp add: parse_word.simps(2))

lemma parse_word_escape [scan_simps]:
  "parse_word (BSLASH # d # ds) acc = parse_word ds (acc @ [d])"
  "parse_word [BSLASH] acc = (acc, [])"
  by (simp_all add: parse_word.simps(2) ISTOKEN_def)

lemma parse_word_quote:
  "c = DQUOTE \<or> c = SQUOTE \<Longrightarrow>
     parse_word (c # cs) acc =
       (case dropWhile (\<lambda>x. x \<noteq> c) cs of
          [] \<Rightarrow> (acc @ takeWhile (\<lambda>x. x \<noteq> c) cs, [])
        | _ # rest \<Rightarrow> parse_word rest (acc @ takeWhile (\<lambda>x. x \<noteq> c) cs))"
  by (elim disjE) (simp_all only: parse_word.simps(2) ISTOKEN_def char.inject simp_thms if_True if_False)

lemma parse_word_hash [scan_simps]: "parse_word (HASH # cs) acc = (acc, [])"
  by (simp add: parse_word.simps(2) ISTOKEN_def)

lemma parse_word_plain [scan_simps]:
  "\<not> ISTOKEN c \<Longrightarrow> c \<notin> {BSLASH, DQUOTE, SQUOTE, HASH} \<Longrightarrow>
     parse_word (c # cs) acc = parse_word cs (acc @ [c])"
  by (simp add: parse_word.simps(2))

lemma parse_word_turn:
  assumes "\<not> ISTOKEN c"
  shows "(\<exists>a. parse_word (c # cs) acc = (a, []))
    \<or> (\<exists>q a. length q \<le> length cs \<and> parse_word (c # cs) acc = parse_word q a)"
proof -
  consider "c = BSLASH" | "c = DQUOTE \<or> c = SQUOTE" | "c = HASH"
    | "c \<notin> {BSLASH, DQUOTE, SQUOTE, HASH}" by auto
  then show ?thesis
  proof cases
    case 1
    then show ?thesis by (cases cs) (auto simp: scan_simps intro: le_SucI)
  next
    case c: 2
    show ?thesis
    proof (cases "dropWhile (\<lambda>x. x \<noteq> c) cs")
      case Nil
      then show ?thesis by (simp only: parse_word_quote [OF c] list.case) blast
    next
      case (Cons d rest)
      then have "length rest \<le> length cs" using length_dropWhile_le [of "\<lambda>x. x \<noteq> c" cs] by simp
      then show ?thesis by (simp only: parse_word_quote [OF c] Cons list.case) blast
    qed
  next
    case 3
    then show ?thesis by (simp add: scan_simps)
  next
    case 4
    then show ?thesis using parse_word_plain [OF assms] by auto
  qed
qed

lemma parse_word_length: "length (snd (parse_word p acc)) \<le> length p"
proof (induction p arbitrary: acc rule: length_induct)
  case (1 p)
  show ?case
  proof (cases p)
    case (Cons c cs)
    show ?thesis
    proof (cases "ISTOKEN c")
      case False
      from parse_word_turn [OF False, of cs acc] show ?thesis
      proof (elim disjE exE conjE)
        fix q a assume q: "length q \<le> length cs" "parse_word (c # cs) acc = parse_word q a"
        then have "length (snd (parse_word q a)) \<le> length q" using 1 Cons by simp
        with q Cons show ?thesis by simp
      qed (simp add: Cons)
    qed (simp add: Cons scan_simps)
  qed simp
qed

text \<open>Every byte that is not blank makes the scan advance.\<close>

lemma parse_word_consumes:
  assumes "\<not> ISTOKEN c"
  shows "length (snd (parse_word (c # cs) acc)) < length (c # cs)"
  using parse_word_turn [OF assms, of cs acc]
proof (elim disjE exE conjE)
  fix q a assume "length q \<le> length cs" "parse_word (c # cs) acc = parse_word q a"
  then show ?thesis using parse_word_length [of q a] by simp
qed simp

function parse_line :: "string \<Rightarrow> string list" where
  "parse_line p =
     (case dropWhile ISTOKEN p of
        [] \<Rightarrow> []
      | c # cs \<Rightarrow>
          (case parse_word (c # cs) [] of
             (w, rest) \<Rightarrow> (if w = [] then [] else [w]) @ parse_line rest))"
  by pat_completeness auto
termination
proof (relation "measure length", goal_cases)
  case (2 p c cs w rest)
  from 2(1) have "\<not> ISTOKEN c" by (rule hd_dropWhile_stops)
  from parse_word_consumes [OF this, of cs "[]"] 2(2) [symmetric]
  have "length rest < length (c # cs)" by simp
  also have "\<dots> \<le> length p" using 2(1) length_dropWhile_le [of ISTOKEN p] by simp
  finally show ?case by simp
qed auto

declare parse_line.simps [simp del]

text \<open>The line reader never gives back more than it was given.\<close>

lemma fgets_jconf_loop_length: "length (snd (fgets_jconf_loop bsize buf prev_c fp)) \<le> length fp"
proof (induction bsize buf prev_c fp rule: fgets_jconf_loop.induct)
  case (1 bsize buf prev_c fp)
  show ?case
  proof (cases fp)
    case Nil
    then show ?thesis by (subst fgets_jconf_loop.simps) simp
  next
    case (Cons c fp1)
    obtain c' fp2 where n: "newline_rest c fp1 = (c', fp2)" by (cases "newline_rest c fp1")
    then have "length fp2 \<le> length fp1" by (rule newline_rest_length_eq)
    with Cons n 1 show ?thesis
      by (subst fgets_jconf_loop.simps) (fastforce intro: le_SucI le_trans)
  qed
qed

lemma fgets_jconf_progress:
  assumes "fgets_jconf bsize fp = (Fgets_Buf s, fp')" and "0 < bsize"
  shows "length fp' < length fp"
proof (cases fp)
  case Nil
  with assms show ?thesis by (simp add: fgets_jconf_def fgets_jconf_loop.simps)
next
  case (Cons c fp1)
  obtain c' fp2 where n: "newline_rest c fp1 = (c', fp2)" by (cases "newline_rest c fp1")
  then have "length fp2 \<le> length fp1" by (rule newline_rest_length_eq)
  with assms Cons n show ?thesis
    using fgets_jconf_loop_length [of bsize "[c]" "Some c" fp1]
    by (auto simp: fgets_jconf_def fgets_jconf_loop.simps [of bsize "[]"] less_Suc_eq_le
        split: if_splits)
qed

text \<open>
  The argument vector: what has been stored and the number of slots allocated, enlarged by
  \<open>step = 20\<close> when full.  \<open>None\<close>: an argument was stored behind the last slot.
\<close>

type_synonym argv = "string list \<times> nat"

definition argv_push :: "string \<Rightarrow> argv \<Rightarrow> argv option" where
  "argv_push w a =
     (case a of (c_argv, maxnum) \<Rightarrow>
        let maxnum' = (if length c_argv \<ge> maxnum then maxnum + 20 else maxnum)
        in if length c_argv < maxnum' then Some (c_argv @ [w], maxnum') else None)"

definition LINE_LEN :: nat where "LINE_LEN = 512"

text \<open>The loop over the lines of the file; \<open>None\<close> is an access outside an array.\<close>

function read_args :: "string \<Rightarrow> argv \<Rightarrow> argv option" where
  "read_args fp a =
     (case fgets_jconf LINE_LEN fp of
        (Fgets_Null, _) \<Rightarrow> Some a
      | (Fgets_Underflow, _) \<Rightarrow> None
      | (Fgets_Buf buf, fp') \<Rightarrow>
          if cstr buf = [] then read_args fp' a
          else
            (case put_all argv_push (parse_line (cstr buf)) a of
               None \<Rightarrow> None
             | Some a' \<Rightarrow> read_args fp' a'))"
  by pat_completeness auto
termination
  by (relation "measure (\<lambda>(fp, a). length fp)")
    (auto dest!: fgets_jconf_progress [OF sym] simp: LINE_LEN_def)

declare read_args.simps [simp del]

text \<open>
  What \<open>opt_parse\<close> is handed for an argument: a C string, or an array that lacks its NUL.
\<close>

datatype carg = CStr string | Unterminated string

definition expand_arg :: "(string \<Rightarrow> string option) \<Rightarrow> string \<Rightarrow> carg option" where
  "expand_arg getenv w =
     (case expand_env getenv w of
        Env_Same \<Rightarrow> Some (CStr w)
      | Env_New s terminated \<Rightarrow> Some (if terminated then CStr s else Unterminated s)
      | Env_Overflow \<Rightarrow> None)"

datatype 'jconf config_result =
    Config_Bad_Access
  | Config_Return bool 'jconf

definition config_file_parse ::
  "(string \<Rightarrow> string option) \<Rightarrow> (string \<Rightarrow> string option) \<Rightarrow> bool
    \<Rightarrow> (carg list \<Rightarrow> string option \<Rightarrow> 'jconf \<Rightarrow> bool \<times> 'jconf)
    \<Rightarrow> string \<Rightarrow> 'jconf \<Rightarrow> 'jconf config_result" where
  "config_file_parse getenv fopen fclose_ok opt_parse conffile jconf =
     (case fopen conffile of
        None \<Rightarrow> Config_Return False jconf
      | Some fp \<Rightarrow>
          (case read_args fp ([conffile], 20) of
             None \<Rightarrow> Config_Bad_Access
           | Some (c_argv, maxnum) \<Rightarrow>
               if \<not> fclose_ok then Config_Return False jconf
               else
                 (case those (map (expand_arg getenv) (tl c_argv)) of
                    None \<Rightarrow> Config_Bad_Access
                  | Some args \<Rightarrow>
                      (case get_dirname conffile of
                         None \<Rightarrow> Config_Bad_Access
                       | Some cdir \<Rightarrow>
                           (case opt_parse (CStr conffile # args)
                                   (if cdir = [] then None else Some cdir) jconf of
                              (ret, jconf') \<Rightarrow> Config_Return ret jconf')))))"

section \<open>Lines: what the reader returns\<close>

text \<open>
  The backslash that escapes a newline is always in the buffer (or is the byte just pushed
  back), so taking it out never moves before the start of the array.
\<close>

definition escape_inv :: "string \<Rightarrow> char option \<Rightarrow> string \<Rightarrow> bool" where
  "escape_inv buf prev_c fp \<longleftrightarrow>
     (prev_c = Some BSLASH \<longrightarrow> buf \<noteq> [] \<or> (fp \<noteq> [] \<and> hd fp = BSLASH))"

lemma escape_inv_newline:
  "c = LF \<or> c = CR \<Longrightarrow> newline_rest c fp1 = (c', fp2) \<Longrightarrow> escape_inv buf' c' fp2"
  by (auto simp: newline_rest_def escape_inv_def split: if_splits list.splits)

lemma fgets_jconf_loop_safe:
  assumes "0 < bsize" and "escape_inv buf prev_c fp"
    and "length buf \<le> bsize"
  shows "fst (fgets_jconf_loop bsize buf prev_c fp) \<noteq> Fgets_Underflow
    \<and> (\<forall>s. fst (fgets_jconf_loop bsize buf prev_c fp) = Fgets_Buf s \<longrightarrow> length s < bsize)"
  using assms
proof (induction bsize buf prev_c fp rule: fgets_jconf_loop.induct)
  case (1 bsize buf prev_c fp)
  show ?case
  proof (cases "length buf \<ge> bsize")
    case True
    with 1 show ?thesis by (auto simp: fgets_jconf_loop.simps [of bsize])
  next
    case False
    show ?thesis
    proof (cases fp)
      case Nil
      with False show ?thesis by (simp add: fgets_jconf_loop.simps [of bsize])
    next
      case (Cons c fp1)
      obtain c' fp2 where n: "newline_rest c fp1 = (c', fp2)" by (cases "newline_rest c fp1")
      show ?thesis
      proof (cases "c = LF \<or> c = CR")
        case nl: True
        then have e: "escape_inv (butlast buf) c' fp2" using n by (rule escape_inv_newline)
        have "buf \<noteq> []" if "prev_c = Some BSLASH"
          using that nl Cons "1.prems"(2) by (auto simp: escape_inv_def)
        with nl False Cons n e "1.prems"(1) "1.IH"(1) [OF False Cons nl n [symmetric]]
        show ?thesis by (auto simp: fgets_jconf_loop.simps [of bsize buf])
      next
        case other: False
        with False Cons "1.prems"(1) "1.IH"(2) [OF False Cons other] show ?thesis
          by (simp add: fgets_jconf_loop.simps [of bsize buf] escape_inv_def)
      qed
    qed
  qed
qed

text \<open>Bytes that are no newlines go to the buffer one by one.\<close>

lemma fgets_jconf_loop_plain:
  "LF \<notin> set s \<Longrightarrow> CR \<notin> set s \<Longrightarrow> length buf + length s \<le> bsize \<Longrightarrow>
     fgets_jconf_loop bsize buf prev_c (s @ rest) =
     fgets_jconf_loop bsize (buf @ s) (if s = [] then prev_c else Some (last s)) rest"
proof (induction s arbitrary: buf prev_c)
  case (Cons c s)
  then have "fgets_jconf_loop bsize buf prev_c (c # s @ rest) =
      fgets_jconf_loop bsize (buf @ [c]) (Some c) (s @ rest)"
    by (subst fgets_jconf_loop.simps) auto
  with Cons show ?case by simp
qed simp

lemma fgets_jconf_loop_newline:
  "length buf < bsize \<Longrightarrow> prev_c \<noteq> Some BSLASH \<Longrightarrow>
     fgets_jconf_loop bsize buf prev_c (LF # rest) = (Fgets_Buf buf, rest)"
  "length buf < bsize \<Longrightarrow> prev_c \<noteq> Some BSLASH \<Longrightarrow>
     fgets_jconf_loop bsize buf prev_c (CR # LF # rest) = (Fgets_Buf buf, rest)"
  "length buf + 1 < bsize \<Longrightarrow> fgets_jconf_loop bsize (buf @ [BSLASH]) (Some BSLASH) (LF # rest) =
     fgets_jconf_loop bsize buf (Some LF) rest"
  by (simp_all add: fgets_jconf_loop.simps [of bsize _ _ "_ # _"] newline_rest_def)

section \<open>Arguments: bounds and round trip\<close>

text \<open>The scratch array \<open>cpy\<close> holds each argument with its NUL.\<close>

definition cpy_used :: "string list \<Rightarrow> nat" where
  "cpy_used ws = sum_list (map (\<lambda>w. length w + 1) ws)"

lemma cpy_used_simps [simp]:
  "cpy_used [] = 0" "cpy_used (w # ws) = length w + 1 + cpy_used ws"
  "cpy_used (us @ ws) = cpy_used us + cpy_used ws"
  by (simp_all add: cpy_used_def)

text \<open>What a word stores, and where it stops: at the end or before a blank.\<close>

lemma parse_word_stored:
  "length (fst (parse_word p acc)) + length (snd (parse_word p acc)) \<le> length acc + length p
    \<and> (snd (parse_word p acc) = [] \<or> ISTOKEN (hd (snd (parse_word p acc))))"
proof (induction p arbitrary: acc rule: length_induct)
  case (1 p)
  show ?case
  proof (cases p)
    case (Cons c cs)
    consider "ISTOKEN c" | "\<not> ISTOKEN c" "c = BSLASH" | "\<not> ISTOKEN c" "c = DQUOTE \<or> c = SQUOTE"
      | "\<not> ISTOKEN c" "c = HASH" | "\<not> ISTOKEN c" "c \<notin> {BSLASH, DQUOTE, SQUOTE, HASH}" by auto
    then show ?thesis
    proof cases
      case 2
      show ?thesis
      proof (cases cs)
        case c: (Cons d ds)
        from 1 [rule_format, of ds "acc @ [d]"] Cons c
        show ?thesis using 2 by (simp add: scan_simps)
      qed (simp add: 2 Cons scan_simps)
    next
      case 3
      define w where "w = takeWhile (\<lambda>x. x \<noteq> c) cs"
      have l: "length w + length (dropWhile (\<lambda>x. x \<noteq> c) cs) = length cs"
        by (simp add: w_def length_take_drop_While)
      show ?thesis
      proof (cases "dropWhile (\<lambda>x. x \<noteq> c) cs")
        case Nil
        with l show ?thesis by (simp only: Cons parse_word_quote [OF 3(2)] w_def [symmetric]) simp
      next
        case c: (Cons d rest)
        with l Cons 1 [rule_format, of rest "acc @ w"] show ?thesis
          by (simp only: Cons parse_word_quote [OF 3(2)] w_def [symmetric] c list.case) simp
      qed
    next
      case 5
      from 1 [rule_format, of cs "acc @ [c]"] Cons show ?thesis
        by (simp add: parse_word_plain [OF 5])
    qed (simp_all add: Cons scan_simps)
  qed simp
qed

lemma parse_line_stored: "cpy_used (parse_line p) \<le> length (dropWhile ISTOKEN p) + 1"
proof (induction p rule: parse_line.induct)
  case (1 p)
  show ?case
  proof (cases "dropWhile ISTOKEN p")
    case Nil
    then show ?thesis by (subst parse_line.simps) (simp only: list.case cpy_used_simps)
  next
    case (Cons c cs)
    obtain w rest where w: "parse_word (c # cs) [] = (w, rest)" by fastforce
    with parse_word_stored [of "c # cs" "[]"]
    have b: "length w + length rest \<le> length (c # cs)" "rest = [] \<or> ISTOKEN (hd rest)" by auto
    from 1 [OF Cons w [symmetric]] have ih: "cpy_used (parse_line rest) \<le> length (dropWhile ISTOKEN rest) + 1" .
    have "w = [] \<and> rest = [] \<or> cpy_used (parse_line rest) \<le> length rest"
    proof (cases rest)
      case Nil
      have "cpy_used (parse_line rest) = 0" using Nil by (simp add: parse_line.simps [of "[]"])
      then show ?thesis by simp
    next
      case (Cons x xs)
      with b(2) have "length (dropWhile ISTOKEN rest) < length rest"
        by (intro length_dropWhile_less) auto
      with ih show ?thesis by simp
    qed
    with b(1) Cons w show ?thesis
      by (subst parse_line.simps) (auto simp: parse_line.simps [of "[]"])
  qed
qed

text \<open>A printer: plain words as they are, words without double quotes between them, and
  all others with every byte escaped.\<close>

definition plain_char :: "char \<Rightarrow> bool" where
  "plain_char c \<longleftrightarrow> \<not> ISTOKEN c \<and> c \<notin> {BSLASH, DQUOTE, SQUOTE, HASH}"

definition print_word :: "string \<Rightarrow> string" where
  "print_word w =
     (if list_all plain_char w then w
      else if DQUOTE \<notin> set w then DQUOTE # w @ [DQUOTE]
      else concat (map (\<lambda>c. [BSLASH, c]) w))"

definition print_line :: "string list \<Rightarrow> string" where
  "print_line ws = concat (map (\<lambda>w. print_word w @ [SPC]) ws)"

lemma parse_word_plain_word:
  "list_all plain_char w \<Longrightarrow> parse_word (w @ rest) acc = parse_word rest (acc @ w)"
  by (induction w arbitrary: acc) (simp_all add: plain_char_def parse_word_plain)

lemma parse_word_escaped_word:
  "parse_word (concat (map (\<lambda>c. [BSLASH, c]) w) @ rest) acc = parse_word rest (acc @ w)"
  by (induction w arbitrary: acc) (simp_all add: scan_simps)

lemma parse_word_quoted_word:
  "DQUOTE \<notin> set w \<Longrightarrow> parse_word (DQUOTE # w @ DQUOTE # rest) acc = parse_word rest (acc @ w)"
  by (simp only: parse_word_quote [OF disjI1 [OF refl]] takeWhile_until dropWhile_until list.case
      not_False_eq_True)

lemma parse_word_print: "parse_word (print_word w @ rest) acc = parse_word rest (acc @ w)"
  by (simp add: print_word_def parse_word_plain_word parse_word_escaped_word
      parse_word_quoted_word)

lemma print_word_head: "w \<noteq> [] \<Longrightarrow> \<exists>c cs. print_word w = c # cs \<and> \<not> ISTOKEN c"
  by (cases w) (auto simp: print_word_def plain_char_def ISTOKEN_def)

lemma parse_line_print: "[] \<notin> set ws \<Longrightarrow> parse_line (print_line ws) = ws"
proof (induction ws)
  case Nil
  then show ?case by (simp add: print_line_def parse_line.simps)
next
  case (Cons w ws)
  then obtain c cs where h: "print_word w = c # cs" "\<not> ISTOKEN c"
    using print_word_head [of w] by auto
  have "parse_word (print_word w @ SPC # print_line ws) [] = (w, SPC # print_line ws)"
    by (simp add: parse_word_print scan_simps ISTOKEN_def)
  moreover have "parse_line (SPC # print_line ws) = parse_line (print_line ws)"
    by (simp add: parse_line.simps [of "SPC # _"] parse_line.simps [of "print_line ws"] ISTOKEN_def)
  moreover have "print_line (w # ws) = print_word w @ SPC # print_line ws"
    by (simp add: print_line_def)
  moreover have "w \<noteq> []" using Cons.prems by auto
  ultimately show ?case
    using Cons h by (simp add: parse_line.simps [of "c # _"])
qed

section \<open>Environment expansion against a specification\<close>

text \<open>
  What the scan sees in a string: bytes copied as they are (behind a backslash, inside
  single quotes or plain), quote signs and a final backslash that are dropped, variables,
  and a brace that is never closed.
\<close>

datatype piece = Skip | Lit char | Var string | Unclosed

function env_pieces :: "bool \<Rightarrow> string \<Rightarrow> piece list" where
  "env_pieces inbrace [] = []"
| "env_pieces inbrace (c # cs) =
     (if c = SQUOTE then Skip # env_pieces (\<not> inbrace) cs
      else if \<not> inbrace \<and> c = BSLASH then
        (case cs of [] \<Rightarrow> [Skip] | d # ds \<Rightarrow> Lit d # env_pieces inbrace ds)
      else if \<not> inbrace \<and> c = DOLLAR then
        (case env_name cs of
           None \<Rightarrow> [Unclosed]
         | Some (name, rest) \<Rightarrow> Var name # env_pieces inbrace rest)
      else Lit c # env_pieces inbrace cs)"
  by pat_completeness auto
termination
  by (relation "measure (\<lambda>(b, p). length p)") (auto dest!: env_name_length)

fun piece_value :: "(string \<Rightarrow> string option) \<Rightarrow> piece \<Rightarrow> string option" where
  "piece_value getenv Skip = Some []"
| "piece_value getenv (Lit c) = Some [c]"
| "piece_value getenv (Var name) = (if length name \<ge> 255 then None else getenv name)"
| "piece_value getenv Unclosed = None"

fun is_reference :: "piece \<Rightarrow> bool" where
  "is_reference Skip = False"
| "is_reference (Lit c) = False"
| "is_reference (Var name) = True"
| "is_reference Unclosed = True"

definition expansion :: "(string \<Rightarrow> string option) \<Rightarrow> piece list \<Rightarrow> string option" where
  "expansion getenv ps = map_option concat (those (map (piece_value getenv) ps))"

lemma expansion_simps [simp]:
  "expansion getenv [] = Some []"
  "expansion getenv (x # ps) =
     (case piece_value getenv x of
        None \<Rightarrow> None
      | Some v \<Rightarrow> map_option (\<lambda>s. v @ s) (expansion getenv ps))"
  by (cases "piece_value getenv x"; cases "those (map (piece_value getenv) ps)";
      simp add: expansion_def)+

lemma has_dollar_pieces: "has_dollar b p \<longleftrightarrow> (\<exists>x\<in>set (env_pieces b p). is_reference x)"
  by (induction b p rule: has_dollar.induct)
    (auto split: list.split option.split intro: exI [of _ "Var _"])

text \<open>The room invariant: there is always a free slot for the next byte, or for the NUL.\<close>

interpretation tgt: growable_array target_put fst "\<lambda>t. length (fst t) < snd t"
  by unfold_locales (auto simp: target_put_def split: prod.splits)

text \<open>The copying loop handles the pieces up to the next reference.\<close>

definition copied :: "bool \<Rightarrow> string \<Rightarrow> target \<Rightarrow> bool \<times> string \<times> target \<Rightarrow> bool" where
  "copied b p t r =
     (case r of (b', p', t') \<Rightarrow>
        length (fst t') < snd t'
        \<and> (p' = [] \<or> (\<not> b' \<and> hd p' = DOLLAR))
        \<and> (\<exists>ps s. env_pieces b p = ps @ env_pieces b' p'
             \<and> \<not> (\<exists>x\<in>set ps. is_reference x) \<and> (p \<noteq> [] \<and> p' = [] \<longrightarrow> ps \<noteq> [])
             \<and> (\<forall>getenv. expansion getenv ps = Some s) \<and> fst t' = fst t @ s))"

lemma copied_refl:
  "length (fst t) < snd t \<Longrightarrow> p = [] \<or> (\<not> b \<and> hd p = DOLLAR) \<Longrightarrow> copied b p t (b, p, t)"
  unfolding copied_def by (auto intro!: exI [of _ "[]"])

lemma copied_step:
  assumes "copied b1 p1 t1 r" and "env_pieces b p = x # env_pieces b1 p1"
    and "piece_value (\<lambda>_. None) x = Some v" and "fst t1 = fst t @ v"
  shows "copied b p t r"
proof -
  from assms(3) have x: "\<not> is_reference x" "\<And>getenv. piece_value getenv x = Some v"
    by (cases x; simp split: if_splits)+
  obtain b' p' t' where r: "r = (b', p', t')" by (cases r)
  note a = assms(1) [unfolded copied_def r prod.case]
  from a obtain ps s where ps: "env_pieces b1 p1 = ps @ env_pieces b' p'"
    "\<not> (\<exists>x\<in>set ps. is_reference x)" "\<forall>getenv. expansion getenv ps = Some s"
    "fst t' = fst t1 @ s" by blast
  show ?thesis unfolding copied_def r prod.case
  proof (intro conjI exI [of _ "x # ps"] exI [of _ "v @ s"])
    show "\<forall>getenv. expansion getenv (x # ps) = Some (v @ s)" using ps x by simp
  qed (use a ps x assms(2,4) in auto)
qed

lemma copy_to_dollar_copied:
  "length (fst t) < snd t \<Longrightarrow> \<exists>r. copy_to_dollar b p t = Some r \<and> copied b p t r"
proof (induction b p t rule: copy_to_dollar.induct)
  case (1 b t)
  then show ?case by (auto intro: copied_refl)
next
  case (2 b c cs t)
  consider "c = SQUOTE" | "\<not> b" "c = BSLASH" | "\<not> b" "c = DOLLAR"
    | "c \<noteq> SQUOTE" "\<not> (\<not> b \<and> c = BSLASH)" "\<not> (\<not> b \<and> c = DOLLAR)" by blast
  then show ?case
  proof cases
    case 1
    with 2 obtain r where r: "copy_to_dollar (\<not> b) cs t = Some r" "copied (\<not> b) cs t r" by auto
    from r(2) have "copied b (c # cs) t r" by (rule copied_step [where x = Skip]) (use 1 in simp_all)
    with r 1 show ?thesis by simp
  next
    case c: 2
    show ?thesis
    proof (cases cs)
      case Nil
      have "copied b [] t (b, [], t)" using 2 by (simp add: copied_refl)
      then have "copied b (c # cs) t (b, [], t)"
        by (rule copied_step [where x = Skip]) (use c Nil in simp_all)
      with c Nil show ?thesis by simp
    next
      case (Cons d ds)
      obtain t1 where t1: "target_put d t = Some t1"
        "fst t1 = fst t @ [d]" "length (fst t1) < snd t1" using "2.prems" by (rule tgt.put_obtain)
      with c Cons "2.IH"(2) [of d ds t1] obtain r
        where r: "copy_to_dollar b ds t1 = Some r" "copied b ds t1 r" by auto
      from r(2) have "copied b (c # cs) t r"
        by (rule copied_step [where x = "Lit d"]) (use c Cons t1 in simp_all)
      with r c Cons t1 show ?thesis by simp
    qed
  next
    case c: 3
    with "2.prems" show ?thesis by (auto intro: copied_refl)
  next
    case c: 4
    obtain t1 where t1: "target_put c t = Some t1"
      "fst t1 = fst t @ [c]" "length (fst t1) < snd t1" using "2.prems" by (rule tgt.put_obtain)
    with c "2.IH"(3) [of t1] obtain r
      where r: "copy_to_dollar b cs t1 = Some r" "copied b cs t1 r" by auto
    from r(2) have "copied b (c # cs) t r"
      by (rule copied_step [where x = "Lit c"]) (use c t1 in auto)
    with r c t1 show ?thesis by (intro exI [of _ r]) auto
  qed
qed

lemma expansion_append:
  "expansion getenv ps = Some s \<Longrightarrow>
     expansion getenv (ps @ qs) = map_option (\<lambda>u. s @ u) (expansion getenv qs)"
proof (induction ps arbitrary: s)
  case (Cons x ps)
  then show ?case by (cases "expansion getenv qs") (auto split: option.splits)
qed (cases "expansion getenv qs"; simp)

text \<open>
  The whole loop: the expansion of the pieces, and a NUL behind it exactly when the last
  piece is no variable.
\<close>

lemma expand_loop_spec:
  "length (fst t) < snd t \<Longrightarrow>
     expand_loop getenv b p t =
       (case expansion getenv (env_pieces b p) of
          None \<Rightarrow> Env_Same
        | Some s \<Rightarrow> Env_New (fst t @ s) (p \<noteq> [] \<and> \<not> is_reference (last (env_pieces b p))))"
proof (induction getenv b p t rule: expand_loop.induct)
  case (1 getenv b p t)
  show ?case
  proof (cases "p = []")
    case True
    then show ?thesis by (simp add: expand_loop.simps)
  next
    case False
    from copy_to_dollar_copied [OF "1.prems", of b p] obtain b' p' t' ps s where
      cp: "copy_to_dollar b p t = Some (b', p', t')" and room: "length (fst t') < snd t'"
      and stop: "p' = [] \<or> (\<not> b' \<and> hd p' = DOLLAR)"
      and ps: "env_pieces b p = ps @ env_pieces b' p'" "\<not> (\<exists>x\<in>set ps. is_reference x)"
        "p' = [] \<longrightarrow> ps \<noteq> []" "expansion getenv ps = Some s" "fst t' = fst t @ s"
      using False unfolding copied_def by (auto split: prod.splits)
    show ?thesis
    proof (cases p')
      case Nil
      with ps have "\<not> is_reference (last (env_pieces b p))" by simp
      with Nil False cp room ps show ?thesis
        by (subst expand_loop.simps) simp
    next
      case (Cons d p1)
      with stop have d: "d = DOLLAR" "\<not> b'" by auto
      show ?thesis
      proof (cases "env_name p1")
        case None
        with d Cons False cp room ps show ?thesis
          by (subst expand_loop.simps) (simp add: expansion_append)
      next
        case (Some np)
        obtain name p2 where np: "np = (name, p2)" by (cases np)
        show ?thesis
        proof (cases "length name \<ge> 255 \<or> getenv name = None")
          case True
          with Some np d Cons False cp ps show ?thesis
            by (subst expand_loop.simps) (auto simp: expansion_append)
        next
          case ok: False
          then obtain v where v: "getenv name = Some v" by auto
          obtain t2 where t2: "put_all target_put v t' = Some t2"
            "fst t2 = fst t' @ v" "length (fst t2) < snd t2" using room by (rule tgt.put_all_obtain)
          have eq: "expand_loop getenv b p t = expand_loop getenv b' p2 t2"
            using False cp Cons Some np ok v t2 by (subst expand_loop.simps) auto
          have pc: "env_pieces b p = ps @ Var name # env_pieces b' p2"
            using ps Cons d Some np by simp
          have "expand_loop getenv b' p2 t2 = (case expansion getenv (env_pieces b' p2) of
              None \<Rightarrow> Env_Same
            | Some u \<Rightarrow> Env_New (fst t2 @ u) (p2 \<noteq> [] \<and> \<not> is_reference (last (env_pieces b' p2))))"
            using "1.IH" [OF False cp refl refl Cons Some [unfolded np] refl _ v t2(1)] ok t2(3)
            by auto
          moreover have "env_pieces b' p2 = [] \<longleftrightarrow> p2 = []"
            by (cases p2) (auto split: list.split option.split)
          ultimately show ?thesis
            using eq pc ps ok v t2 False
            by (auto simp: expansion_append split: option.split)
        qed
      qed
    qed
  qed
qed

section \<open>Properties\<close>

text \<open>The argument vector always has a slot for every argument stored.\<close>

interpretation argv: growable_array argv_push fst "\<lambda>a. length (fst a) \<le> snd a"
  by unfold_locales (auto simp: argv_push_def Let_def split: prod.splits)

lemma print_word_chars: "set (print_word w) \<subseteq> set w \<union> {BSLASH, DQUOTE}"
  by (auto simp: print_word_def)

lemma print_line_Cons: "print_line (w # ws) = print_word w @ SPC # print_line ws"
  by (simp add: print_line_def)

lemma print_line_chars: "set (print_line ws) \<subseteq> \<Union>(set ` set ws) \<union> {BSLASH, DQUOTE, SPC}"
proof (induction ws)
  case (Cons w ws)
  with print_word_chars [of w] show ?case by (auto simp: print_line_Cons)
qed (simp add: print_line_def)

lemma print_line_last: "print_line ws \<noteq> [] \<Longrightarrow> last (print_line ws) = SPC"
  by (induction ws rule: rev_induct) (simp_all add: print_line_def)

lemma fgets_jconf_printed:
  assumes "\<forall>w\<in>set ws. LF \<notin> set w \<and> CR \<notin> set w" and "length (print_line ws) < LINE_LEN"
  shows "fgets_jconf LINE_LEN (print_line ws @ LF # rest) = (Fgets_Buf (print_line ws), rest)"
proof -
  have "LF \<notin> set (print_line ws)" "CR \<notin> set (print_line ws)"
    using print_line_chars [of ws] assms(1) by auto
  then show ?thesis using assms(2) print_line_last [of ws]
    by (simp add: fgets_jconf_def fgets_jconf_loop_plain fgets_jconf_loop_newline(1))
qed

lemma read_args_total: "length (fst a) \<le> snd a \<Longrightarrow> \<exists>a'. read_args fp a = Some a'"
proof (induction fp a rule: read_args.induct)
  case (1 fp a)
  obtain r fp' where f: "fgets_jconf LINE_LEN fp = (r, fp')" by fastforce
  then have "r \<noteq> Fgets_Underflow"
    using fgets_jconf_loop_safe [of LINE_LEN "[]" "Some NUL" fp]
    by (auto simp: fgets_jconf_def escape_inv_def LINE_LEN_def)
  then show ?case
  proof (cases r)
    case (Fgets_Buf buf)
    obtain a' where "put_all argv_push (parse_line (cstr buf)) a = Some a'"
      "length (fst a') \<le> snd a'" using "1.prems" by (rule argv.put_all_obtain)
    with f Fgets_Buf 1 show ?thesis by (subst read_args.simps) auto
  qed (use f in \<open>simp_all add: read_args.simps\<close>)
qed

lemma expand_env_spec:
  "expand_env getenv str =
     (if \<exists>x\<in>set (env_pieces False str). is_reference x then
        (case expansion getenv (env_pieces False str) of
           None \<Rightarrow> Env_Same
         | Some s \<Rightarrow> Env_New s (\<not> is_reference (last (env_pieces False str))))
      else Env_Same)"
proof (cases "has_dollar False str")
  case True
  then have "str \<noteq> []" by auto
  with True show ?thesis
    using expand_loop_spec [of "([], length str * 2)" getenv False str]
    by (simp add: expand_env_def has_dollar_pieces split: option.split)
next
  case False
  then show ?thesis by (simp add: expand_env_def has_dollar_pieces)
qed

text \<open>Reading a line (\<open>fgets_jconf\<close>) never stores outside its buffer: no position before
  the start of the array is ever used, and the text returned leaves room for the NUL, whatever
  bytes the file holds, including escaped newlines and lone carriage returns.\<close>

theorem fgets_jconf_in_bounds:
  assumes "0 < n"
  shows "fst (fgets_jconf n fp) \<noteq> Fgets_Underflow
    \<and> (\<forall>s. fst (fgets_jconf n fp) = Fgets_Buf s \<longrightarrow> length s < n)"
  unfolding fgets_jconf_def
  by (rule fgets_jconf_loop_safe) (use assms in \<open>simp_all add: escape_inv_def\<close>)

theorem fgets_jconf_in_bounds_witness:
  "fgets_jconf 4 [CHR ''a'', CHR ''b'', CHR ''c'', CHR ''d'', LF] = (Fgets_Buf ''abc'', [LF])
    \<and> length ''abc'' < (4::nat)"
proof -
  have v: "fgets_jconf 4 [CHR ''a'', CHR ''b'', CHR ''c'', CHR ''d'', LF] = (Fgets_Buf ''abc'', [LF])"
    by (simp add: fgets_jconf_def fgets_jconf_loop.simps)
  have "(0::nat) < 4" by simp
  from fgets_jconf_in_bounds [OF this, of "[CHR ''a'', CHR ''b'', CHR ''c'', CHR ''d'', LF]"]
  show ?thesis by (simp add: v)
qed

text \<open>A backslash before the end of a line joins it with the next one: reading the text
  \<open>s\<close>, a backslash, a newline, the text \<open>u\<close> and a newline returns \<open>s\<close> followed by \<open>u\<close>, without
  backslash and newline, and leaves exactly the text behind, provided the line fits.\<close>

theorem fgets_jconf_joins_lines:
  assumes "LF \<notin> set (s @ u)" "CR \<notin> set (s @ u)" "length (s @ u) + 1 < n"
    and "u \<noteq> []" "last u \<noteq> BSLASH"
  shows "fgets_jconf n (s @ BSLASH # LF # u @ LF # rest) = (Fgets_Buf (s @ u), rest)"
proof -
  have "fgets_jconf n ((s @ [BSLASH]) @ LF # u @ LF # rest) =
      fgets_jconf_loop n (s @ [BSLASH]) (Some BSLASH) (LF # u @ LF # rest)"
    using assms unfolding fgets_jconf_def by (subst fgets_jconf_loop_plain) auto
  also have "\<dots> = fgets_jconf_loop n s (Some LF) (u @ LF # rest)"
    using assms by (intro fgets_jconf_loop_newline(3)) auto
  also have "\<dots> = fgets_jconf_loop n (s @ u) (Some (last u)) (LF # rest)"
    using assms by (subst fgets_jconf_loop_plain) auto
  also have "\<dots> = (Fgets_Buf (s @ u), rest)"
    using assms by (intro fgets_jconf_loop_newline(1)) auto
  finally show ?thesis by simp
qed

theorem fgets_jconf_joins_lines_witness:
  "fgets_jconf 512 (''-v'' @ BSLASH # LF # '' dict'' @ LF # ''-h'') = (Fgets_Buf ''-v dict'', ''-h'')"
  using fgets_jconf_joins_lines [of "''-v''" "'' dict''" 512 "''-h''"] by simp

text \<open>A line as long as the buffer loses a byte: when \<open>n - 1\<close> bytes without a newline
  are followed by another one, that byte is read from the file, stored in the last slot and
  then overwritten by the NUL, so neither this call nor the next one returns it.\<close>

theorem fgets_jconf_drops_byte:
  assumes "LF \<notin> set (s @ [c])" "CR \<notin> set (s @ [c])" "length s + 1 = n"
  shows "fgets_jconf n (s @ c # rest) = (Fgets_Buf s, rest)"
proof -
  have "fgets_jconf n ((s @ [c]) @ rest) = fgets_jconf_loop n (s @ [c]) (Some c) rest"
    using assms unfolding fgets_jconf_def by (subst fgets_jconf_loop_plain) auto
  also have "\<dots> = (Fgets_Buf s, rest)"
    using assms by (simp add: fgets_jconf_loop.simps)
  finally show ?thesis by simp
qed

theorem fgets_jconf_drops_byte_witness:
  "fgets_jconf 4 (''abc'' @ CHR ''d'' # ''ef'') = (Fgets_Buf ''abc'', ''ef'')"
  using fgets_jconf_drops_byte [of "''abc''" "CHR ''d''" 4 "''ef''"] by simp

text \<open>The scratch array \<open>cpy\<close> of \<open>config_file_parse\<close>, as long as the line buffer, is
  never overrun: for every line the reader can return, all the arguments found in it,
  each with its NUL, fit into its 512 bytes.\<close>

theorem parse_line_fits_cpy:
  assumes "fgets_jconf LINE_LEN fp = (Fgets_Buf buf, fp')"
  shows "cpy_used (parse_line (cstr buf)) \<le> LINE_LEN"
proof -
  have "length buf < LINE_LEN"
    using fgets_jconf_loop_safe [of LINE_LEN "[]" "Some NUL" fp] assms
    by (simp add: fgets_jconf_def escape_inv_def LINE_LEN_def)
  moreover have "length (dropWhile ISTOKEN (cstr buf)) \<le> length buf"
    using length_dropWhile_le [of ISTOKEN "cstr buf"] length_cstr_le [of buf] by linarith
  ultimately show ?thesis using parse_line_stored [of "cstr buf"] by linarith
qed

theorem parse_line_fits_cpy_witness:
  "cpy_used (parse_line (cstr ''-v x'')) \<le> LINE_LEN"
  by (rule parse_line_fits_cpy [of "''-v x'' @ [LF]" _ "[]"])
    (simp add: fgets_jconf_def LINE_LEN_def fgets_jconf_loop.simps newline_rest_def)

text \<open>C9: Writing arguments and reading them back is the identity: for lines of non-empty
  arguments (without NUL and newline bytes) whose printed form, quoted or escaped where
  needed, fits the line buffer, reading the file appends exactly those arguments, in order,
  to the argument vector.\<close>

theorem read_args_roundtrip:
  assumes "\<forall>l\<in>set ls. [] \<notin> set l \<and> length (print_line l) < LINE_LEN
      \<and> (\<forall>w\<in>set l. NUL \<notin> set w \<and> LF \<notin> set w \<and> CR \<notin> set w)"
    and "length a \<le> n"
  shows "map_option fst (read_args (concat (map (\<lambda>l. print_line l @ [LF]) ls)) (a, n))
    = Some (a @ concat ls)"
  using assms
proof (induction ls arbitrary: a n)
  case Nil
  have "fgets_jconf LINE_LEN [] = (Fgets_Null, [])"
    by (simp add: fgets_jconf_def LINE_LEN_def fgets_jconf_loop.simps)
  then show ?case by (simp add: read_args.simps)
next
  case (Cons l ls)
  define rest where "rest = concat (map (\<lambda>l. print_line l @ [LF]) ls)"
  have g: "fgets_jconf LINE_LEN (print_line l @ LF # rest) = (Fgets_Buf (print_line l), rest)"
    using Cons.prems by (intro fgets_jconf_printed) auto
  have "NUL \<notin> set (print_line l)" using print_line_chars [of l] Cons.prems by auto
  then have c: "cstr (print_line l) = print_line l" by (rule cstr_no_NUL)
  have pl: "parse_line (print_line l) = l" using Cons.prems by (intro parse_line_print) auto
  then have e: "l = []" if "print_line l = []" using that by (simp add: parse_line.simps)
  have "length (fst (a, n)) \<le> snd (a, n)" using Cons.prems(2) by simp
  then obtain r where "put_all argv_push l (a, n) = Some r" "fst r = fst (a, n) @ l"
    "length (fst r) \<le> snd r" by (rule argv.put_all_obtain)
  then obtain n' where n': "put_all argv_push l (a, n) = Some (a @ l, n')" "length (a @ l) \<le> n'"
    by (cases r) auto
  have "map_option fst (read_args (print_line l @ LF # rest) (a, n)) = Some ((a @ l) @ concat ls)"
    using Cons.IH [of "a @ l" n'] Cons.IH [of a n] n'(2) Cons.prems e
    by (subst read_args.simps) (auto simp: g c pl n'(1) rest_def [symmetric])
  then show ?case by (simp add: rest_def)
qed

theorem read_args_roundtrip_witness:
  "map_option fst (read_args (concat (map (\<lambda>l. print_line l @ [LF]) [[''-C'', ''a b''], [''-v'']]))
      ([''f''], 20)) = Some [''f'', ''-C'', ''a b'', ''-v'']"
  using read_args_roundtrip [of "[[''-C'', ''a b''], [''-v'']]" "[''f'']" 20]
  by (simp add: print_line_def print_word_def plain_char_def ISTOKEN_def LINE_LEN_def)

text \<open>C12: Environment expansion computes its specification: the argument is left alone when
  it has no reference outside single quotes, or when a reference cannot be expanded (unset,
  name of 255 bytes or more, or an unclosed brace); otherwise the returned array holds the
  text with every reference replaced, no byte is ever stored outside the growing array,
  and the array ends in a NUL unless the last thing in the argument is a reference.\<close>

theorem expand_env_correct:
  "expand_env getenv str =
     (if \<exists>x\<in>set (env_pieces False str). is_reference x then
        (case expansion getenv (env_pieces False str) of
           None \<Rightarrow> Env_Same
         | Some s \<Rightarrow> Env_New s (\<not> is_reference (last (env_pieces False str))))
      else Env_Same)"
  by (rule expand_env_spec)

text \<open>An argument that ends in a variable is returned without a terminating NUL: for every
  set variable with a name of plain identifier characters, expanding the dollar sign and the
  name gives an array that holds the value but no NUL, so \<open>opt_parse\<close> reads on behind it.\<close>

theorem expand_env_unterminated:
  assumes "getenv name = Some v" and "\<forall>c\<in>set name. is_env_char c" and "length name < 255"
    and "name \<noteq> []"
  shows "expand_arg getenv (DOLLAR # name) = Some (Unterminated v)"
proof -
  obtain c cs where n: "name = c # cs" using assms(4) by (cases name) auto
  with assms(2) have "is_env_char c" by simp
  then have "c \<noteq> CHR ''(''" "c \<noteq> CHR ''{''" by (auto simp: is_env_char_def)
  moreover have "takeWhile is_env_char name = name" "dropWhile is_env_char name = []"
    using assms(2) by (simp_all add: takeWhile_eq_all_conv dropWhile_eq_Nil_conv)
  ultimately have "env_name name = Some (name, [])" by (simp add: env_name_def n)
  then have "env_pieces False (DOLLAR # name) = [Var name]" by simp
  with assms show ?thesis by (simp add: expand_arg_def expand_env_spec)
qed

theorem expand_env_unterminated_witness:
  "expand_arg (\<lambda>n. if n = ''HOME'' then Some ''/root'' else None) (DOLLAR # ''HOME'')
    = Some (Unterminated ''/root'')"
  by (rule expand_env_unterminated) (simp_all add: is_env_char_def)

text \<open>The directory of a path is everything up to and including its last slash, and is
  empty when there is none.\<close>

theorem get_dirname_correct:
  assumes "path \<noteq> []"
  shows "\<exists>base. get_dirname path = Some (take (length path - length base) path)
    \<and> path = take (length path - length base) path @ base
    \<and> SLASH \<notin> set base
    \<and> (base = path \<or> path ! (length path - length base - 1) = SLASH)"
proof -
  have scan: "dirname_scan path p \<le> p \<and> (\<forall>i. dirname_scan path p < i \<and> i \<le> p \<longrightarrow> path ! i \<noteq> SLASH)
      \<and> (path ! dirname_scan path p = SLASH \<or> dirname_scan path p = 0)" for p
  proof (induction path p rule: dirname_scan.induct)
    case (1 path p)
    show ?case
    proof (cases "path ! p \<noteq> SLASH \<and> p \<noteq> 0")
      case True
      with 1 have ih: "dirname_scan path (p - 1) \<le> p - 1"
        "\<And>i. dirname_scan path (p - 1) < i \<Longrightarrow> i \<le> p - 1 \<Longrightarrow> path ! i \<noteq> SLASH"
        "path ! dirname_scan path (p - 1) = SLASH \<or> dirname_scan path (p - 1) = 0" by auto
      have "path ! i \<noteq> SLASH" if "dirname_scan path (p - 1) < i" "i \<le> p" for i
        using that ih(2) [of i] True by (cases "i = p") auto
      with ih True show ?thesis by (subst (1 2 3 4) dirname_scan.simps) auto
    qed (subst (1 2 3 4) dirname_scan.simps, auto)
  qed
  define p where "p = dirname_scan path (length path - 1)"
  have p: "p < length path" "\<And>i. p < i \<Longrightarrow> i < length path \<Longrightarrow> path ! i \<noteq> SLASH"
    "path ! p = SLASH \<or> p = 0"
    using scan [of "length path - 1"] assms by (auto simp: p_def) (metis Suc_pred less_Suc_eq_le length_greater_0_conv)+
  have pd: "dirname_scan path (length path - Suc 0) = p" by (simp add: p_def)
  show ?thesis
  proof (cases "path ! p = SLASH")
    case True
    have "SLASH \<notin> set (drop (p + 1) path)"
      using p(2) by (auto simp: in_set_conv_nth)
    with True p assms show ?thesis
      by (intro exI [of _ "drop (p + 1) path"]) (auto simp: get_dirname_def pd Let_def)
  next
    case False
    with p(2,3) have "path ! i \<noteq> SLASH" if "i < length path" for i
      using that by (cases i) auto
    then have "SLASH \<notin> set path" by (auto simp: in_set_conv_nth)
    with False p assms show ?thesis
      by (intro exI [of _ path]) (auto simp: get_dirname_def pd Let_def)
  qed
qed

theorem get_dirname_correct_witness:
  "get_dirname ''conf/a.jconf'' = Some ''conf/'' \<and>
   (\<exists>base. get_dirname ''conf/a.jconf'' = Some (take (length ''conf/a.jconf'' - length base) ''conf/a.jconf'')
     \<and> SLASH \<notin> set base)"
  using get_dirname_correct [of "''conf/a.jconf''"]
  by (auto simp: get_dirname_def dirname_scan.simps)

text \<open>Reading a configuration file makes no access outside an array: with a non-empty file
  name \<open>config_file_parse\<close> always returns, whatever the file holds and whatever the
  environment is, and a missing file or a failing close returns FALSE with the configuration
  unchanged.\<close>

theorem config_file_parse_safe:
  assumes "conffile \<noteq> []"
  shows "config_file_parse getenv fopen fclose_ok opt_parse conffile jconf \<noteq> Config_Bad_Access
    \<and> (fopen conffile = None \<or> \<not> fclose_ok \<longrightarrow>
        config_file_parse getenv fopen fclose_ok opt_parse conffile jconf = Config_Return False jconf)"
proof -
  have e: "expand_arg getenv w \<noteq> None" for w
    by (auto simp: expand_arg_def expand_env_spec split: option.split)
  have "those (map (expand_arg getenv) ws) \<noteq> None" for ws
  proof (induction ws)
    case (Cons w ws)
    with e [of w] show ?case by auto
  qed simp
  moreover have "get_dirname conffile \<noteq> None" using assms by (simp add: get_dirname_def Let_def)
  ultimately show ?thesis
    using read_args_total [of "([conffile], 20)"]
    by (auto simp: config_file_parse_def split: option.split prod.split) (metis option.distinct(1))+
qed

theorem config_file_parse_safe_witness:
  "config_file_parse (\<lambda>_. None) (\<lambda>f. if f = ''x'' then Some ''-v d'' else None) True
      (\<lambda>args cdir j. (True, j + length args)) ''x'' (0::nat) \<noteq> Config_Bad_Access"
  using config_file_parse_safe [of "''x''" "\<lambda>_. None" "\<lambda>f. if f = ''x'' then Some ''-v d'' else None"
    True "\<lambda>args cdir j. (True, j + length args)" "0::nat"] by simp

end
