(* ===== verification/Plugin.thy ===== *)
theory Plugin
  imports Complex_Main Prelude
begin

text \<open>
  The plugin registry and the feature vector input module (\<open>plugin.c\<close>, \<open>plugin.h\<close>).  A
  function found in a loaded file is a number; what a plugin function does when it is
  called is a parameter of the operation that calls it, as are \<open>dlopen\<close> with \<open>dlsym\<close>, the
  directory listing and \<open>param_alloc\<close> of libsent.  A result \<open>None\<close> of an operation is an
  access through a NULL pointer or outside an array.  The global variables
  \<open>global_plugin_list\<close> and \<open>global_plugin_loaded_file_num\<close> are the record \<open>plugins\<close>.  The build with
  \<open>EXTERNAL_FV\<close> on a Unix system is modelled.
\<close>

section \<open>The registry\<close>

type_synonym func = nat

type_synonym fptr = "func option"

record PLUGIN_ENTRY =
  pe_id :: nat
  source_id :: nat
  pe_func :: func

record plugins =
  global_plugin_list :: "PLUGIN_ENTRY list list option"
  global_plugin_loaded_file_num :: nat

definition PLUGIN_SUFFIX :: string where
  "PLUGIN_SUFFIX = ''.jpi''"

definition PLUGIN_FUNCTION_NAMELIST :: "string list" where
  "PLUGIN_FUNCTION_NAMELIST =
     [''adin_get_optname'',
      ''adin_get_configuration'', ''adin_standby'',
      ''adin_open'', ''adin_read'', ''adin_close'',
      ''adin_resume'', ''adin_pause'', ''adin_terminate'',
      ''adin_postprocess'', ''adin_postprocess_triggered'',
      ''fvin_get_optname'',
      ''fvin_get_configuration'', ''fvin_standby'',
      ''fvin_open'', ''fvin_read'', ''fvin_close'',
      ''fvin_resume'', ''fvin_pause'', ''fvin_terminate'',
      ''fvin_postprocess'',
      ''calcmix_get_optname'', ''calcmix'', ''calcmix_init'', ''calcmix_free'',
      ''result_best_str'',
      ''startup'']"

definition plugin_namelist_num :: nat where
  "plugin_namelist_num = length PLUGIN_FUNCTION_NAMELIST"

fun index_from :: "nat \<Rightarrow> string list \<Rightarrow> string \<Rightarrow> nat option" where
  "index_from i [] name = None"
| "index_from i (x # xs) name = (if x = name then Some i else index_from (i + 1) xs name)"

text \<open>\<open>None\<close> is the result -1.\<close>

definition plugin_get_id :: "string \<Rightarrow> nat option" where
  "plugin_get_id name = index_from 0 PLUGIN_FUNCTION_NAMELIST name"

text \<open>All entries and the array itself are released.\<close>

definition plugin_free_all :: "plugins \<Rightarrow> plugins" where
  "plugin_free_all st = st\<lparr>global_plugin_list := None\<rparr>"

definition plugin_init :: "plugins \<Rightarrow> plugins" where
  "plugin_init st =
     (let st1 = (if global_plugin_list st \<noteq> None then plugin_free_all st else st)
      in st1\<lparr>global_plugin_list := Some (replicate plugin_namelist_num []),
             global_plugin_loaded_file_num := 0\<rparr>)"

text \<open>
  The comparison of suffix and file name from their ends: \<open>xs\<close> and \<open>ps\<close> are what is left to the
  pointers \<open>x\<close> and \<open>p\<close>, last character first.
\<close>

fun suffix_loop :: "string \<Rightarrow> string \<Rightarrow> string" where
  "suffix_loop (x # xs) (p # ps) = (if x = p then suffix_loop xs ps else x # xs)"
| "suffix_loop xs ps = xs"

definition is_plugin_obj :: "string \<Rightarrow> bool" where
  "is_plugin_obj filename \<longleftrightarrow> suffix_loop (rev PLUGIN_SUFFIX) (rev filename) = []"

text \<open>
  A file that can be opened: the result of \<open>initialize\<close> (if it has one) and of
  \<open>get_plugin_info (0)\<close> (if it has one), and the functions \<open>dlsym\<close> finds.
\<close>

record module =
  initialize_ret :: "int option"
  info_ret :: "int option"
  dlsym :: "string \<Rightarrow> fptr"

definition register_func ::
  "module \<Rightarrow> nat \<Rightarrow> nat \<Rightarrow> PLUGIN_ENTRY list list \<Rightarrow> PLUGIN_ENTRY list list" where
  "register_func h n i gl =
     (case dlsym h (PLUGIN_FUNCTION_NAMELIST ! i) of
        None \<Rightarrow> gl
      | Some fn \<Rightarrow> gl[i := \<lparr>pe_id = i, source_id = n, pe_func = fn\<rparr> # gl ! i])"

definition plugin_load_file :: "(string \<Rightarrow> module option) \<Rightarrow> string \<Rightarrow> plugins \<Rightarrow> bool \<times> plugins" where
  "plugin_load_file dlopen file st0 =
     (let st = (if global_plugin_list st0 = None then plugin_init st0 else st0)
      in case dlopen file of
           None \<Rightarrow> (False, st)
         | Some h \<Rightarrow>
             if initialize_ret h = Some (-1) then (False, st)
             else if info_ret h = None \<or> info_ret h = Some (-1) then (False, st)
             else
               (True, st\<lparr>global_plugin_list :=
                           map_option (fold (register_func h (global_plugin_loaded_file_num st))
                             [0..<plugin_namelist_num]) (global_plugin_list st),
                         global_plugin_loaded_file_num := global_plugin_loaded_file_num st + 1\<rparr>))"

text \<open>The path is cut to what fits in the buffer of 512 bytes.\<close>

definition plugin_path :: "string \<Rightarrow> string \<Rightarrow> string" where
  "plugin_path dir name = take 511 (dir @ SLASH # name)"

definition plugin_load_dir ::
  "(string \<Rightarrow> module option) \<Rightarrow> (string \<Rightarrow> string list option) \<Rightarrow> string \<Rightarrow> plugins
    \<Rightarrow> bool \<times> plugins" where
  "plugin_load_dir dlopen opendir dir st =
     (case opendir dir of
        None \<Rightarrow> (False, st)
      | Some names \<Rightarrow>
          (True, fold (\<lambda>name st'.
             if is_plugin_obj name then snd (plugin_load_file dlopen (plugin_path dir name) st')
             else st') names st))"

text \<open>The loop over the directory list: \<open>p\<close> is the rest of the string.\<close>

function load_dirs_loop :: "(string \<Rightarrow> plugins \<Rightarrow> plugins) \<Rightarrow> string \<Rightarrow> plugins \<Rightarrow> plugins" where
  "load_dirs_loop load p st =
     (let s = takeWhile (\<lambda>c. c \<noteq> COLON) p; q = dropWhile (\<lambda>c. c \<noteq> COLON) p; st' = load s st
      in if q = [] then st'
         else if tl q = [] then st'
         else load_dirs_loop load (tl q) st')"
  by pat_completeness auto
termination
  by (relation "measure (\<lambda>(load, p, st). length p)") (simp_all add: length_tl_dropWhile del: length_tl)

declare load_dirs_loop.simps [simp del]

definition plugin_load_dirs ::
  "(string \<Rightarrow> module option) \<Rightarrow> (string \<Rightarrow> string list option) \<Rightarrow> string option \<Rightarrow> plugins \<Rightarrow> plugins" where
  "plugin_load_dirs dlopen opendir dirent st =
     (case dirent of
        None \<Rightarrow> st
      | Some s \<Rightarrow> load_dirs_loop (\<lambda>d st'. snd (plugin_load_dir dlopen opendir d st')) s st)"

section \<open>Looking up and calling plugin functions\<close>

text \<open>\<open>optname\<close> is the string a function of the list stores in the buffer; \<open>None\<close> is -1.\<close>

definition plugin_find_optname :: "(func \<Rightarrow> string) \<Rightarrow> string \<Rightarrow> string \<Rightarrow> plugins \<Rightarrow> nat option" where
  "plugin_find_optname optname optfuncname str st =
     (case global_plugin_list st of
        None \<Rightarrow> None
      | Some gl \<Rightarrow>
          (case plugin_get_id optfuncname of
             None \<Rightarrow> None
           | Some i \<Rightarrow> map_option source_id (find (\<lambda>p. optname (pe_func p) = str) (gl ! i))))"

text \<open>The list is not compared with NULL before it is read.\<close>

definition plugin_get_func :: "plugins \<Rightarrow> int \<Rightarrow> string \<Rightarrow> fptr option" where
  "plugin_get_func st sid name =
     (case plugin_get_id name of
        None \<Rightarrow> Some None
      | Some i \<Rightarrow>
          (case global_plugin_list st of
             None \<Rightarrow> None
           | Some gl \<Rightarrow> Some (map_option pe_func (find (\<lambda>p. int (source_id p) = sid) (gl ! i)))))"

text \<open>The entries of one function name, newest first.\<close>

definition entries :: "plugins \<Rightarrow> string \<Rightarrow> PLUGIN_ENTRY list" where
  "entries st name =
     (case (global_plugin_list st, plugin_get_id name) of
        (Some gl, Some i) \<Rightarrow> gl ! i
      | _ \<Rightarrow> [])"

fun startup_loop ::
  "(func \<Rightarrow> 'r \<Rightarrow> int \<times> 'r) \<Rightarrow> PLUGIN_ENTRY list \<Rightarrow> bool \<Rightarrow> 'r \<Rightarrow> bool \<times> 'r" where
  "startup_loop call [] ok_p recog = (ok_p, recog)"
| "startup_loop call (p # ps) ok_p recog =
     (case call (pe_func p) recog of (ret, recog') \<Rightarrow>
        startup_loop call ps (if ret \<noteq> 0 then False else ok_p) recog')"

definition plugin_exec_engine_startup ::
  "(func \<Rightarrow> 'r \<Rightarrow> int \<times> 'r) \<Rightarrow> plugins \<Rightarrow> 'r \<Rightarrow> bool \<times> 'r" where
  "plugin_exec_engine_startup call st recog =
     (if global_plugin_list st = None then (True, recog)
      else if plugin_get_id ''startup'' = None then (False, recog)
      else startup_loop call (entries st ''startup'') True recog)"

text \<open>A postprocessing function may change the samples or the vector it is given.\<close>

definition plugin_exec_adin_captured ::
  "(func \<Rightarrow> int list \<Rightarrow> int list) \<Rightarrow> plugins \<Rightarrow> int list \<Rightarrow> int list" where
  "plugin_exec_adin_captured call st buf =
     (if global_plugin_list st = None \<or> plugin_get_id ''adin_postprocess'' = None then buf
      else fold (\<lambda>p. call (pe_func p)) (entries st ''adin_postprocess'') buf)"

definition plugin_exec_adin_triggered ::
  "(func \<Rightarrow> int list \<Rightarrow> int list) \<Rightarrow> plugins \<Rightarrow> int list \<Rightarrow> int list" where
  "plugin_exec_adin_triggered call st buf =
     (if global_plugin_list st = None \<or> plugin_get_id ''adin_postprocess_triggered'' = None then buf
      else fold (\<lambda>p. call (pe_func p)) (entries st ''adin_postprocess_triggered'') buf)"

definition plugin_exec_vector_postprocess ::
  "(func \<Rightarrow> real list \<Rightarrow> nat \<Rightarrow> real list) \<Rightarrow> plugins \<Rightarrow> real list \<Rightarrow> nat \<Rightarrow> real list" where
  "plugin_exec_vector_postprocess call st vecbuf nframe =
     (if global_plugin_list st = None \<or> plugin_get_id ''fvin_postprocess'' = None then vecbuf
      else fold (\<lambda>p v. call (pe_func p) v nframe) (entries st ''fvin_postprocess'') vecbuf)"

definition plugin_exec_vector_postprocess_all ::
  "(func \<Rightarrow> real list \<Rightarrow> nat \<Rightarrow> real list) \<Rightarrow> plugins \<Rightarrow> nat \<Rightarrow> real list list \<Rightarrow> real list list" where
  "plugin_exec_vector_postprocess_all call st samplenum parvec =
     (if global_plugin_list st = None \<or> plugin_get_id ''fvin_postprocess'' = None then parvec
      else fold (\<lambda>t pv.
             pv[t := fold (\<lambda>p v. call (pe_func p) v t) (entries st ''fvin_postprocess'') (pv ! t)])
           [0..<samplenum] parvec)"

section \<open>The best result string\<close>

text \<open>
  A recognition process, as far as the result string needs it: whether it is live, the
  status, the sentences (score and word outputs, already looked up in the dictionary).
\<close>

record result_process =
  rlive :: bool
  rstatus :: int
  rsents :: "(real \<times> string list) list"

definition better_process :: "result_process \<Rightarrow> (real \<times> string list) option
  \<Rightarrow> (real \<times> string list) option" where
  "better_process r s =
     (if \<not> rlive r then s
      else if rstatus r \<ge> 0 \<and> rsents r \<noteq> [] then
        (case s of
           None \<Rightarrow> Some (hd (rsents r))
         | Some b \<Rightarrow> if fst (hd (rsents r)) > fst b then Some (hd (rsents r)) else s)
      else s)"

text \<open>
  The string is built with \<open>strcat\<close> in a buffer of \<open>len\<close> bytes; a store behind the buffer is
  \<open>None\<close>.
\<close>

definition strcat :: "nat \<Rightarrow> string \<Rightarrow> string \<Rightarrow> string option" where
  "strcat len str x = (if length str + length x + 1 \<le> len then Some (str @ x) else None)"

fun join_words :: "nat \<Rightarrow> string \<Rightarrow> string list \<Rightarrow> string option" where
  "join_words len str [] = Some str"
| "join_words len str (w # ws) =
     (if length w = 0 then join_words len str ws
      else
        (case (if length str > 0 then strcat len str [SPC] else Some str) of
           None \<Rightarrow> None
         | Some str1 \<Rightarrow>
             (case strcat len str1 w of
                None \<Rightarrow> None
              | Some str2 \<Rightarrow> join_words len str2 ws)))"

definition result_string :: "string list \<Rightarrow> string option" where
  "result_string words =
     (let len = sum_list (map (\<lambda>w. length w + 1) words)
      in if len < 1 then None else join_words len [] words)"

text \<open>The calls made: function and argument (NULL is \<open>None\<close>).\<close>

definition plugin_exec_process_result ::
  "plugins \<Rightarrow> result_process list \<Rightarrow> (func \<times> string option) list option" where
  "plugin_exec_process_result st process_list =
     (if global_plugin_list st = None then Some []
      else
        (case fold better_process process_list None of
           None \<Rightarrow> Some (map (\<lambda>p. (pe_func p, None)) (entries st ''result_best_str''))
         | Some (score, words) \<Rightarrow>
             map_option (\<lambda>str. map (\<lambda>p. (pe_func p, Some str)) (entries st ''result_best_str''))
               (result_string words)))"

section \<open>The feature vector input module\<close>

record MFCC_funcs =
  fv_standby :: fptr
  fv_begin :: fptr
  fv_read :: fptr
  fv_end :: fptr
  fv_resume :: fptr
  fv_pause :: fptr
  fv_terminate :: fptr

record HTK_Param =
  veclen :: nat
  sampsize :: int
  wshift :: int
  samptype :: int
  parvec :: "real list list"

text \<open>\<open>ext.fv_read\<close> with its \<open>userptr\<close>: the external feature feeder, numbered like a plugin function.\<close>

record MFCCCalc =
  plugin_source :: int
  func :: MFCC_funcs
  ext_fv_read :: fptr
  param :: HTK_Param
  mf :: nat
  segmented_by_input :: bool

definition mfc_module_init :: "plugins \<Rightarrow> int \<Rightarrow> MFCCCalc \<Rightarrow> (bool \<times> MFCCCalc) option" where
  "mfc_module_init st source mfcc0 =
     (let mfcc = mfcc0\<lparr>plugin_source := source\<rparr>
      in if source < 0 then Some (False, mfcc)
         else
     (case plugin_get_func st source ''fvin_standby'' of None \<Rightarrow> None | Some f1 \<Rightarrow>
     (case plugin_get_func st source ''fvin_open'' of None \<Rightarrow> None | Some f2 \<Rightarrow>
     (case plugin_get_func st source ''fvin_read'' of None \<Rightarrow> None | Some f3 \<Rightarrow>
     (case plugin_get_func st source ''fvin_close'' of None \<Rightarrow> None | Some f4 \<Rightarrow>
     (case plugin_get_func st source ''fvin_resume'' of None \<Rightarrow> None | Some f5 \<Rightarrow>
     (case plugin_get_func st source ''fvin_pause'' of None \<Rightarrow> None | Some f6 \<Rightarrow>
     (case plugin_get_func st source ''fvin_terminate'' of None \<Rightarrow> None | Some f7 \<Rightarrow>
        Some (f3 \<noteq> None,
          mfcc\<lparr>func := \<lparr>fv_standby = f1, fv_begin = f2, fv_read = f3, fv_end = f4,
                        fv_resume = f5, fv_pause = f6, fv_terminate = f7\<rparr>\<rparr>)))))))))"

text \<open>The second component of the result is the flag \<open>paramtype_check_flag\<close> of the configuration.\<close>

definition mfc_module_set_header ::
  "plugins \<Rightarrow> (func \<Rightarrow> int \<Rightarrow> int) \<Rightarrow> bool \<Rightarrow> MFCCCalc \<Rightarrow> (bool \<times> bool \<times> MFCCCalc) option" where
  "mfc_module_set_header st call check_flag mfcc =
     (case plugin_get_func st (plugin_source mfcc) ''fvin_get_configuration'' of
        None \<Rightarrow> None
      | Some None \<Rightarrow> Some (False, check_flag, mfcc)
      | Some (Some fn) \<Rightarrow>
          let n = nat (call fn 0);
              p = (param mfcc)\<lparr>veclen := n, sampsize := int n * 4, wshift := call fn 1 * 10000\<rparr>;
              ret = call fn 2 mod 2 ^ 32
          in if ret = 0xffff then Some (True, False, mfcc\<lparr>param := p\<rparr>)
             else Some (True, check_flag, mfcc\<lparr>param := p\<lparr>samptype := ret\<rparr>\<rparr>))"

definition mfc_module_standby :: "(func \<Rightarrow> bool) \<Rightarrow> MFCCCalc \<Rightarrow> bool \<times> MFCCCalc" where
  "mfc_module_standby call mfcc =
     (case fv_standby (func mfcc) of None \<Rightarrow> True | Some fn \<Rightarrow> call fn,
      mfcc\<lparr>segmented_by_input := False\<rparr>)"

definition mfc_module_begin :: "(func \<Rightarrow> bool) \<Rightarrow> MFCCCalc \<Rightarrow> bool \<times> func list" where
  "mfc_module_begin call mfcc =
     (if segmented_by_input mfcc then (True, [])
      else case fv_begin (func mfcc) of None \<Rightarrow> (True, []) | Some fn \<Rightarrow> (call fn, [fn]))"

definition mfc_module_end :: "(func \<Rightarrow> bool) \<Rightarrow> MFCCCalc \<Rightarrow> bool \<times> func list" where
  "mfc_module_end call mfcc =
     (if segmented_by_input mfcc then (True, [])
      else case fv_end (func mfcc) of None \<Rightarrow> (True, []) | Some fn \<Rightarrow> (call fn, [fn]))"

text \<open>
  Reading one vector: the return value, the instance and what is stored in \<open>*new_t\<close> (\<open>None\<close> if
  nothing is).  A reading function gives its return value and the vector it stores.
\<close>

definition mfc_module_read ::
  "(HTK_Param \<Rightarrow> nat \<Rightarrow> HTK_Param option) \<Rightarrow> (func \<Rightarrow> nat \<Rightarrow> int \<times> real list) \<Rightarrow> MFCCCalc
    \<Rightarrow> (int \<times> MFCCCalc \<times> nat option) option" where
  "mfc_module_read param_alloc call mfcc =
     (case param_alloc (param mfcc) (mf mfcc + 1) of
        None \<Rightarrow> Some (-2, mfcc, None)
      | Some p \<Rightarrow>
          (case (case ext_fv_read mfcc of Some e \<Rightarrow> Some e | None \<Rightarrow> fv_read (func mfcc)) of
             None \<Rightarrow> None
           | Some fn \<Rightarrow>
               if length (parvec p) \<le> mf mfcc then None
               else
                 (case call fn (veclen p) of (ret, v) \<Rightarrow>
                    let m = mfcc\<lparr>param := p\<lparr>parvec := (parvec p)[mf mfcc := v]\<rparr>\<rparr>
                    in if ret = -3 then Some (-3, m\<lparr>segmented_by_input := True\<rparr>, Some (mf mfcc))
                       else if ret = -1 then Some (-1, m\<lparr>segmented_by_input := False\<rparr>, Some (mf mfcc))
                       else if ret = -2 then Some (-2, m, None)
                       else Some (0, m, Some (mf mfcc + 1)))))"

section \<open>Well-formed registries\<close>

text \<open>
  There is one slot per function name, an entry knows its slot, and the entries of a slot
  come from different files, the newest first.
\<close>

definition slot_ok :: "nat \<Rightarrow> nat \<Rightarrow> PLUGIN_ENTRY list \<Rightarrow> bool" where
  "slot_ok n i ps \<longleftrightarrow>
     (\<forall>p\<in>set ps. pe_id p = i \<and> source_id p < n) \<and> sorted_wrt (>) (map source_id ps)"

definition wf_plugins :: "plugins \<Rightarrow> bool" where
  "wf_plugins st \<longleftrightarrow>
     (case global_plugin_list st of
        None \<Rightarrow> True
      | Some gl \<Rightarrow> length gl = plugin_namelist_num
          \<and> (\<forall>i < plugin_namelist_num. slot_ok (global_plugin_loaded_file_num st) i (gl ! i)))"

lemma index_from_bounds: "index_from i xs name = Some j \<Longrightarrow> i \<le> j \<and> j < i + length xs \<and> xs ! (j - i) = name"
proof (induction i xs name rule: index_from.induct)
  case (2 i x xs name)
  show ?case
  proof (cases "x = name")
    case False
    with 2 have "i + 1 \<le> j \<and> j < i + 1 + length xs \<and> xs ! (j - (i + 1)) = name" by simp
    moreover from this have "j - i = Suc (j - (i + 1))" by auto
    ultimately show ?thesis by simp
  qed (use 2 in simp)
qed simp

lemma plugin_get_id_nth:
  "plugin_get_id name = Some i \<Longrightarrow> i < plugin_namelist_num \<and> PLUGIN_FUNCTION_NAMELIST ! i = name"
  using index_from_bounds [of 0 PLUGIN_FUNCTION_NAMELIST name i]
  by (simp add: plugin_get_id_def plugin_namelist_num_def)

lemma register_fold:
  "m \<le> length gl \<Longrightarrow>
   length (fold (register_func h n) [0..<m] gl) = length gl
   \<and> (\<forall>i < length gl. fold (register_func h n) [0..<m] gl ! i =
        (if i < m then (case dlsym h (PLUGIN_FUNCTION_NAMELIST ! i) of
            None \<Rightarrow> gl ! i
          | Some fn \<Rightarrow> \<lparr>pe_id = i, source_id = n, pe_func = fn\<rparr> # gl ! i)
         else gl ! i))"
proof (induction m)
  case (Suc m)
  then show ?case by (auto simp: register_func_def nth_list_update less_Suc_eq split: option.split)
qed simp

lemma slot_ok_mono: "slot_ok n i ps \<Longrightarrow> slot_ok (Suc n) i ps"
  by (auto simp: slot_ok_def)

lemma plugin_init_wf: "wf_plugins (plugin_init st)"
  by (simp add: wf_plugins_def plugin_init_def slot_ok_def plugin_free_all_def Let_def)

lemma plugin_init_list [simp]:
  "global_plugin_list (plugin_init st) = Some (replicate plugin_namelist_num [])"
  "global_plugin_loaded_file_num (plugin_init st) = 0"
  by (simp_all add: plugin_init_def Let_def)

definition started :: "plugins \<Rightarrow> plugins" where
  "started st = (if global_plugin_list st = None then plugin_init st else st)"

lemma started_wf:
  assumes "wf_plugins st"
  obtains gl where "global_plugin_list (started st) = Some gl" "length gl = plugin_namelist_num"
    "\<forall>i < plugin_namelist_num. slot_ok (global_plugin_loaded_file_num (started st)) i (gl ! i)"
    "wf_plugins (started st)"
proof (cases "global_plugin_list st")
  case None
  with that plugin_init_wf [of st] show thesis by (simp add: started_def wf_plugins_def)
next
  case (Some gl)
  with that [of gl] assms show thesis by (simp add: started_def wf_plugins_def)
qed

definition loadable :: "module \<Rightarrow> bool" where
  "loadable h \<longleftrightarrow> initialize_ret h \<noteq> Some (-1) \<and> info_ret h \<noteq> None \<and> info_ret h \<noteq> Some (-1)"

lemma plugin_load_file_cases:
  "plugin_load_file dlopen file st =
     (case dlopen file of
        None \<Rightarrow> (False, started st)
      | Some h \<Rightarrow>
          if loadable h then
            (True, (started st)\<lparr>global_plugin_list :=
                map_option (fold (register_func h (global_plugin_loaded_file_num (started st)))
                  [0..<plugin_namelist_num]) (global_plugin_list (started st)),
              global_plugin_loaded_file_num := global_plugin_loaded_file_num (started st) + 1\<rparr>)
          else (False, started st))"
  by (auto simp: plugin_load_file_def started_def loadable_def Let_def split: option.split)

lemma plugin_load_file_wf:
  assumes "wf_plugins st"
  shows "wf_plugins (snd (plugin_load_file dlopen file st))"
proof -
  obtain gl where gl: "global_plugin_list (started st) = Some gl" "length gl = plugin_namelist_num"
    "\<forall>i < plugin_namelist_num. slot_ok (global_plugin_loaded_file_num (started st)) i (gl ! i)"
    "wf_plugins (started st)" using started_wf [OF assms] .
  let ?n = "global_plugin_loaded_file_num (started st)"
  have "slot_ok (Suc ?n) i (fold (register_func h ?n) [0..<plugin_namelist_num] gl ! i)"
    if i: "i < plugin_namelist_num" for h i
  proof -
    have "slot_ok ?n i (gl ! i)" using gl(3) i by blast
    with register_fold [of plugin_namelist_num gl h ?n] gl(2) i slot_ok_mono show ?thesis
      by (auto simp: slot_ok_def split: option.split)
  qed
  with gl register_fold [of plugin_namelist_num gl _ ?n] show ?thesis
    by (auto simp: plugin_load_file_cases wf_plugins_def split: option.split)
qed

lemma plugin_load_dir_wf:
  "wf_plugins st \<Longrightarrow> wf_plugins (snd (plugin_load_dir dlopen opendir dir st))"
proof -
  have "wf_plugins st \<Longrightarrow> wf_plugins (fold (\<lambda>name st'.
     if is_plugin_obj name then snd (plugin_load_file dlopen (plugin_path dir name) st')
     else st') names st)" for names
    by (induction names arbitrary: st) (auto simp: plugin_load_file_wf)
  then show "wf_plugins st \<Longrightarrow> ?thesis" by (simp add: plugin_load_dir_def split: option.split)
qed

section \<open>Joining and splitting\<close>

fun join_with :: "char \<Rightarrow> string list \<Rightarrow> string" where
  "join_with c [] = []"
| "join_with c [x] = x"
| "join_with c (x # y # ys) = x @ c # join_with c (y # ys)"

lemma join_with_Nil: "ds \<noteq> [] \<Longrightarrow> last ds \<noteq> [] \<Longrightarrow> join_with c ds \<noteq> []"
  by (induction c ds rule: join_with.induct) auto

lemma load_dirs_join:
  assumes "ds \<noteq> []" "\<forall>d\<in>set ds. COLON \<notin> set d" "length ds > 1 \<longrightarrow> last ds \<noteq> []"
  shows "load_dirs_loop load (join_with COLON ds) st = fold load ds st"
  using assms
proof (induction COLON ds arbitrary: st rule: join_with.induct)
  case (2 x)
  then have "\<forall>c\<in>set x. c \<noteq> COLON" by auto
  then have "takeWhile (\<lambda>c. c \<noteq> COLON) x = x \<and> dropWhile (\<lambda>c. c \<noteq> COLON) x = []"
    by (induction x) auto
  then show ?case by (subst load_dirs_loop.simps) (simp only: Let_def simp_thms if_True join_with.simps fold_simps)
next
  case (3 x y ys)
  then have "takeWhile (\<lambda>c. c \<noteq> COLON) (x @ COLON # join_with COLON (y # ys)) = x"
    "dropWhile (\<lambda>c. c \<noteq> COLON) (x @ COLON # join_with COLON (y # ys)) = COLON # join_with COLON (y # ys)"
    by (simp_all add: takeWhile_until dropWhile_until)
  moreover have "join_with COLON (y # ys) \<noteq> []" using "3.prems" join_with_Nil by simp
  moreover have "load_dirs_loop load (join_with COLON (y # ys)) (load x st) = fold load (y # ys) (load x st)"
    using "3.prems" by (intro "3.hyps") auto
  ultimately show ?case by (subst load_dirs_loop.simps) simp
qed simp

text \<open>The buffer of the result string is large enough.\<close>

definition needed :: "string \<Rightarrow> string list \<Rightarrow> nat" where
  "needed str ws = length str + sum_list (map (\<lambda>w. length w + 1) ws) + (if str = [] then 0 else 1)"

lemma join_words_ok:
  "needed str ws \<le> len \<Longrightarrow>
   join_words len str ws = Some (join_with SPC (filter (\<lambda>w. w \<noteq> []) (if str = [] then ws else str # ws)))"
proof (induction ws arbitrary: str)
  case Nil
  then show ?case by simp
next
  case (Cons w ws)
  show ?case
  proof (cases "w = []")
    case True
    with Cons.prems have "needed str ws \<le> len" by (simp add: needed_def)
    with Cons.IH [of str] True show ?thesis by simp
  next
    case w: False
    show ?thesis
    proof (cases "str = []")
      case True
      with Cons.prems w have "needed w ws \<le> len" "length w + 1 \<le> len" by (auto simp: needed_def)
      with Cons.IH [of w] w True show ?thesis by (simp add: strcat_def)
    next
      case False
      with Cons.prems w have n: "needed (str @ SPC # w) ws \<le> len"
        and "length str + length w + 2 \<le> len" by (auto simp: needed_def)
      then have "join_words len str (w # ws) = join_words len (str @ SPC # w) ws"
        using w False by (simp add: strcat_def)
      also have "\<dots> = Some (join_with SPC (filter (\<lambda>w. w \<noteq> []) ((str @ SPC # w) # ws)))"
        using Cons.IH [OF n] by simp
      also have "join_with SPC (filter (\<lambda>w. w \<noteq> []) ((str @ SPC # w) # ws)) =
          join_with SPC (filter (\<lambda>w. w \<noteq> []) (str # w # ws))"
        using w False by (cases "filter (\<lambda>w. w \<noteq> []) ws") simp_all
      finally show ?thesis using False by simp
    qed
  qed
qed

section \<open>Properties\<close>

text \<open>Loading a plugin file into a well-formed registry keeps it well-formed, numbers the
  file with the count of files loaded before, and registers exactly the functions of the
  known names that the file has: looking one up under the number of the file gives what
  \<open>dlsym\<close> found, and every look-up under another number gives what it gave before.\<close>

theorem plugin_load_file_lookup:
  assumes "wf_plugins st" "dlopen file = Some h" "loadable h" "plugin_get_id name = Some i"
  shows "\<exists>st'. plugin_load_file dlopen file st = (True, st') \<and> wf_plugins st'
    \<and> global_plugin_loaded_file_num st' = global_plugin_loaded_file_num (started st) + 1
    \<and> plugin_get_func st' (int (global_plugin_loaded_file_num (started st))) name = Some (dlsym h name)
    \<and> (\<forall>sid. sid \<noteq> int (global_plugin_loaded_file_num (started st)) \<longrightarrow>
          plugin_get_func st' sid name = plugin_get_func (started st) sid name)"
proof -
  obtain gl where gl: "global_plugin_list (started st) = Some gl" "length gl = plugin_namelist_num"
    "\<forall>i < plugin_namelist_num. slot_ok (global_plugin_loaded_file_num (started st)) i (gl ! i)"
    using started_wf [OF assms(1)] by blast
  let ?n = "global_plugin_loaded_file_num (started st)"
  from plugin_get_id_nth [OF assms(4)] have i: "i < plugin_namelist_num"
    "PLUGIN_FUNCTION_NAMELIST ! i = name" by auto
  have new: "fold (register_func h ?n) [0..<plugin_namelist_num] gl ! i =
     (case dlsym h name of None \<Rightarrow> gl ! i | Some fn \<Rightarrow> \<lparr>pe_id = i, source_id = ?n, pe_func = fn\<rparr> # gl ! i)"
    using register_fold [of plugin_namelist_num gl h ?n] gl(2) i by simp
  from gl(3) i have "slot_ok ?n i (gl ! i)" by blast
  then have "find (\<lambda>p. int (source_id p) = int ?n) (gl ! i) = None"
    by (auto simp: find_None_iff slot_ok_def)
  then show ?thesis
    using plugin_load_file_wf [OF assms(1), of dlopen "file"] assms gl(1) new
    by (auto simp: plugin_load_file_cases plugin_get_func_def split: option.split)
qed

definition ex_module :: module where
  "ex_module = \<lparr>initialize_ret = None, info_ret = Some 0,
     dlsym = (\<lambda>n. if n = ''fvin_read'' then Some 7 else None)\<rparr>"

theorem plugin_load_file_lookup_witness:
  "\<exists>st'. plugin_load_file (\<lambda>_. Some ex_module) ''x.jpi''
       \<lparr>global_plugin_list = None, global_plugin_loaded_file_num = 0\<rparr> = (True, st')
     \<and> plugin_get_func st' 0 ''fvin_read'' = Some (Some 7)"
proof -
  let ?st = "\<lparr>global_plugin_list = None, global_plugin_loaded_file_num = 0\<rparr> :: plugins"
  have "wf_plugins ?st" by (simp add: wf_plugins_def)
  moreover have "loadable ex_module" by (simp add: loadable_def ex_module_def)
  moreover have "plugin_get_id ''fvin_read'' = Some 15"
    by (simp add: plugin_get_id_def PLUGIN_FUNCTION_NAMELIST_def)
  moreover have "global_plugin_loaded_file_num (started ?st) = 0" by (simp add: started_def)
  ultimately show ?thesis
    using plugin_load_file_lookup [of ?st "\<lambda>_. Some ex_module" "''x.jpi''" ex_module "''fvin_read''" 15]
    by (auto simp: ex_module_def)
qed

text \<open>Directories joined with colons are loaded one by one, each exactly once and in
  their order, when no name contains a colon and the last one is not empty.\<close>

theorem plugin_load_dirs_split:
  assumes "ds \<noteq> []" "\<forall>d\<in>set ds. COLON \<notin> set d" "length ds > 1 \<longrightarrow> last ds \<noteq> []"
  shows "plugin_load_dirs dlopen opendir (Some (join_with COLON ds)) st =
    fold (\<lambda>d st'. snd (plugin_load_dir dlopen opendir d st')) ds st"
  using load_dirs_join [OF assms] by (simp add: plugin_load_dirs_def)

theorem plugin_load_dirs_split_witness:
  "global_plugin_loaded_file_num (plugin_load_dirs (\<lambda>_. Some ex_module)
     (\<lambda>d. if d = ''a'' then Some [''x.jpi''] else Some [''README'', ''y.jpi''])
     (Some ''a:b'') \<lparr>global_plugin_list = None, global_plugin_loaded_file_num = 0\<rparr>) = 2"
  using plugin_load_dirs_split [of "[''a'', ''b'']" "\<lambda>_. Some ex_module"
      "\<lambda>d. if d = ''a'' then Some [''x.jpi''] else Some [''README'', ''y.jpi'']"
      "\<lparr>global_plugin_list = None, global_plugin_loaded_file_num = 0\<rparr>"]
  by (simp add: plugin_load_dir_def is_plugin_obj_def PLUGIN_SUFFIX_def plugin_load_file_cases
      started_def loadable_def ex_module_def)

text \<open>A file is taken for a plugin exactly when its name ends in the plugin suffix.\<close>

theorem is_plugin_obj_suffix: "is_plugin_obj filename \<longleftrightarrow> (\<exists>base. filename = base @ PLUGIN_SUFFIX)"
proof -
  have "suffix_loop xs ps = [] \<longleftrightarrow> (\<exists>b. ps = xs @ b)" for xs ps
    by (induction xs ps rule: suffix_loop.induct) auto
  then have "is_plugin_obj filename \<longleftrightarrow> (\<exists>b. rev filename = rev PLUGIN_SUFFIX @ b)"
    by (simp add: is_plugin_obj_def)
  also have "\<dots> \<longleftrightarrow> (\<exists>base. filename = base @ PLUGIN_SUFFIX)"
    by (metis rev_append rev_rev_ident)
  finally show ?thesis .
qed

text \<open>For a sentence of at least one word the string given to the result plugins is built
  within its buffer, and is the sequence of the non-empty word outputs separated by single
  spaces.\<close>

theorem result_string_joined:
  assumes "words \<noteq> []"
  shows "result_string words = Some (join_with SPC (filter (\<lambda>w. w \<noteq> []) words))"
  using join_words_ok [of "[]" words "sum_list (map (\<lambda>w. length w + 1) words)"] assms
  by (cases words) (auto simp: result_string_def needed_def Let_def)

theorem result_string_joined_witness: "result_string [''<s>'', [], ''yes''] = Some ''<s> yes''"
  using result_string_joined [of "[''<s>'', [], ''yes'']"] by simp

text \<open>The result string for a sentence without words is stored in a buffer of no bytes: the
  terminating NUL is written behind it.\<close>

theorem result_string_empty_sentence:
  "global_plugin_list st \<noteq> None \<Longrightarrow>
     plugin_exec_process_result st [\<lparr>rlive = True, rstatus = 0, rsents = [(0, [])]\<rparr>] = None"
  by (auto simp: plugin_exec_process_result_def better_process_def result_string_def)

theorem result_string_empty_sentence_witness:
  "plugin_exec_process_result \<lparr>global_plugin_list = Some (replicate 27 []),
     global_plugin_loaded_file_num = 0\<rparr> [\<lparr>rlive = True, rstatus = 0, rsents = [(0, [])]\<rparr>] = None"
  using result_string_empty_sentence by simp

text \<open>The candidates for the best result: the first sentence of every live, successful process.\<close>

definition candidates :: "result_process list \<Rightarrow> (real \<times> string list) list" where
  "candidates rs = map (hd \<circ> rsents) (filter (\<lambda>r. rlive r \<and> rstatus r \<ge> 0 \<and> rsents r \<noteq> []) rs)"

definition best_of :: "(real \<times> string list) list \<Rightarrow> (real \<times> string list) option \<Rightarrow> bool" where
  "best_of cs s \<longleftrightarrow>
     (case s of
        None \<Rightarrow> cs = []
      | Some b \<Rightarrow> b \<in> set cs \<and> (\<forall>c\<in>set cs. fst c \<le> fst b))"

lemma best_of_snoc:
  assumes "best_of cs s"
  shows "best_of (cs @ [c]) (case s of None \<Rightarrow> Some c | Some b \<Rightarrow> if fst c > fst b then Some c else s)"
proof (cases s)
  case None
  with assms show ?thesis by (simp add: best_of_def)
next
  case (Some b)
  with assms have "b \<in> set cs" "\<forall>x\<in>set cs. fst x \<le> fst b" by (simp_all add: best_of_def)
  with Some show ?thesis by (simp add: best_of_def) (meson less_imp_le order_trans)
qed

lemma fold_better_process: "best_of (candidates rs) (fold better_process rs None)"
proof (induction rs rule: rev_induct)
  case Nil
  show ?case by (simp add: candidates_def best_of_def)
next
  case (snoc r rs)
  show ?case
  proof (cases "rlive r \<and> rstatus r \<ge> 0 \<and> rsents r \<noteq> []")
    case True
    then have "better_process r s = (case s of None \<Rightarrow> Some (hd (rsents r))
        | Some b \<Rightarrow> if fst (hd (rsents r)) > fst b then Some (hd (rsents r)) else s)" for s
      by (simp add: better_process_def)
    moreover from True have "candidates (rs @ [r]) = candidates rs @ [hd (rsents r)]"
      by (simp add: candidates_def)
    ultimately show ?thesis using best_of_snoc [OF snoc, of "hd (rsents r)"] by simp
  next
    case False
    then have "better_process r s = s" for s by (auto simp: better_process_def)
    moreover from False have "candidates (rs @ [r]) = candidates rs" by (simp add: candidates_def)
    ultimately show ?thesis using snoc by simp
  qed
qed

text \<open>The result plugins get the string of a best sentence: when no live process has a
  result they all get NULL; otherwise the sentence whose words they get is the first sentence
  of a live, successful process, and no such sentence has a greater score.\<close>

theorem plugin_exec_process_result_best:
  assumes "global_plugin_list st \<noteq> None" "\<forall>c\<in>set (candidates rs). snd c \<noteq> []"
  shows "\<exists>arg. plugin_exec_process_result st rs =
      Some (map (\<lambda>p. (pe_func p, arg)) (entries st ''result_best_str''))
    \<and> (case arg of
         None \<Rightarrow> candidates rs = []
       | Some str \<Rightarrow> \<exists>b\<in>set (candidates rs). (\<forall>c\<in>set (candidates rs). fst c \<le> fst b)
           \<and> str = join_with SPC (filter (\<lambda>w. w \<noteq> []) (snd b)))"
proof (cases "fold better_process rs None")
  case None
  with fold_better_process [of rs] assms(1) show ?thesis
    by (auto simp: plugin_exec_process_result_def best_of_def intro!: exI [of _ None])
next
  case (Some b)
  with fold_better_process [of rs] have b: "b \<in> set (candidates rs)"
    "\<forall>c\<in>set (candidates rs). fst c \<le> fst b" by (auto simp: best_of_def)
  have "join_words (sum_list (map (\<lambda>w. length w + 1) (snd b))) [] (snd b) =
      Some (join_with SPC (filter (\<lambda>w. w \<noteq> []) (snd b)))"
    using join_words_ok [of "[]" "snd b"] by (simp add: needed_def)
  moreover from assms(2) b(1) have "snd b \<noteq> []" by blast
  ultimately have "result_string (snd b) = Some (join_with SPC (filter (\<lambda>w. w \<noteq> []) (snd b)))"
    by (cases "snd b") (simp_all add: result_string_def Let_def)
  then have "plugin_exec_process_result st rs = Some (map (\<lambda>p. (pe_func p,
      Some (join_with SPC (filter (\<lambda>w. w \<noteq> []) (snd b))))) (entries st ''result_best_str''))"
    using Some assms(1) by (cases b) (auto simp: plugin_exec_process_result_def)
  with b show ?thesis
    by (intro exI [of _ "Some (join_with SPC (filter (\<lambda>w. w \<noteq> []) (snd b)))"]) auto
qed

theorem plugin_exec_process_result_best_witness:
  "plugin_exec_process_result
      \<lparr>global_plugin_list = Some ((replicate 27 [])[25 := [\<lparr>pe_id = 25, source_id = 0, pe_func = 7\<rparr>]]),
       global_plugin_loaded_file_num = 1\<rparr>
      [\<lparr>rlive = True, rstatus = 0, rsents = [(-10, [''no''])]\<rparr>,
       \<lparr>rlive = True, rstatus = 0, rsents = [(-5, [''yes''])]\<rparr>] =
      Some [(7, Some ''yes'')]"
proof -
  let ?st = "\<lparr>global_plugin_list = Some ((replicate 27 [])[25 := [\<lparr>pe_id = 25, source_id = 0, pe_func = 7\<rparr>]]),
       global_plugin_loaded_file_num = 1\<rparr> :: plugins"
  have "entries ?st ''result_best_str'' = [\<lparr>pe_id = 25, source_id = 0, pe_func = 7\<rparr>]"
    by (simp add: entries_def plugin_get_id_def PLUGIN_FUNCTION_NAMELIST_def eval_nat_numeral)
  then show ?thesis
    using plugin_exec_process_result_best [of ?st
      "[\<lparr>rlive = True, rstatus = 0, rsents = [(-10, [''no''])]\<rparr>,
       \<lparr>rlive = True, rstatus = 0, rsents = [(-5, [''yes''])]\<rparr>]"]
    by (auto simp: candidates_def split: option.splits)
qed

text \<open>Reading a vector from the input module when \<open>param_alloc\<close> makes room for the frame
  and keeps the others: the call returns 0, -1, -2 or -3; on 0 the vector is stored at the
  current frame, the other frames are kept and the frame count grows by one; on -3 (the
  module asks for a segmentation) and on -1 (end of input) the frame count is kept and the flag
  that makes the next begin and end calls skip the module is set or cleared; no access is out
  of range.\<close>

theorem mfc_module_read_contract:
  assumes "param_alloc (param mfcc) (mf mfcc + 1) = Some p" "mf mfcc < length (parvec p)"
    and "(case ext_fv_read mfcc of Some e \<Rightarrow> Some e | None \<Rightarrow> fv_read (func mfcc)) = Some fn"
    and "call fn (veclen p) = (ret, v)"
  shows "\<exists>r m t. mfc_module_read param_alloc call mfcc = Some (r, m, t)
    \<and> r = (if ret \<in> {-3, -2, -1} then ret else 0)
    \<and> parvec (param m) ! mf mfcc = v
    \<and> (\<forall>i. i \<noteq> mf mfcc \<longrightarrow> parvec (param m) ! i = parvec p ! i)
    \<and> (r = 0 \<longrightarrow> t = Some (mf mfcc + 1) \<and> segmented_by_input m = segmented_by_input mfcc)
    \<and> (r = -3 \<longrightarrow> t = Some (mf mfcc) \<and> mfc_module_begin fcall m = (True, [])
          \<and> mfc_module_end fcall m = (True, []))
    \<and> (r = -1 \<longrightarrow> t = Some (mf mfcc) \<and> \<not> segmented_by_input m)
    \<and> (r = -2 \<longrightarrow> t = None)"
  using assms by (simp add: mfc_module_read_def mfc_module_begin_def mfc_module_end_def Let_def)

definition ex_mfcc :: MFCCCalc where
  "ex_mfcc =
     \<lparr>plugin_source = -1,
      func = \<lparr>fv_standby = None, fv_begin = None, fv_read = None, fv_end = None, fv_resume = None,
              fv_pause = None, fv_terminate = None\<rparr>,
      ext_fv_read = Some 1,
      param = \<lparr>veclen = 2, sampsize = 8, wshift = 100000, samptype = 9, parvec = [[0, 0]]\<rparr>,
      mf = 0, segmented_by_input = False\<rparr>"

theorem mfc_module_read_contract_witness:
  "\<exists>m t. mfc_module_read (\<lambda>p n. Some p) (\<lambda>_ _. (0, [1, 2])) ex_mfcc = Some (0, m, t)
    \<and> parvec (param m) ! 0 = [1, 2] \<and> t = Some 1"
  using mfc_module_read_contract [of "\<lambda>p n. Some p" ex_mfcc "param ex_mfcc" 1 "\<lambda>_ _. (0, [1, 2])" 0
      "[1, 2]" "\<lambda>_. True"]
  by (auto simp: ex_mfcc_def)

end
