(* ===== verification/Instances.thy ===== *)
theory Instances
  imports Jconf_File Plugin
begin

text \<open>
  The engine instance and the API functions of \<open>jfunc.c\<close>: requests to pause, terminate and
  resume, loading of configurations, creation of an engine, look-up of configurations,
  activation and removal of recognition, LM and AM processes.  The structures are those of
  \<open>jconf.h\<close> and \<open>recog.h\<close>, with the members these functions use.  Every kind of object has a
  store (address to object), a chain through \<open>next\<close> is the list of its addresses, and NULL is
  \<open>None\<close>.  A result \<open>None\<close> of an operation is the access to an object that is not allocated.
  The functions of libjulius that are not part of the repository (release of an object,
  registration, loading, launching) are parameters.  Log messages are not modelled; the
  objects read for a message are.
\<close>

section \<open>Configurations and processes\<close>

datatype input_type = INPUT_WAVEFORM | INPUT_VECTOR

datatype speech_input =
  SP_RAWFILE | SP_MIC | SP_ADINNET | SP_MFCFILE | SP_NETAUDIO | SP_STDIN | SP_MFCMODULE | SP_EXTERN

record JCONF_AM =
  am_id :: int
  am_name :: string

record JCONF_LM =
  lm_id :: int
  lm_name :: string

record JCONF_SEARCH =
  sc_id :: int
  sc_name :: string
  sc_amconf :: "addr option"
  sc_lmconf :: "addr option"

record Jconf =
  am_confs :: "JCONF_AM store"
  lm_confs :: "JCONF_LM store"
  search_confs :: "JCONF_SEARCH store"
  am_root :: "addr list"
  lm_root :: "addr list"
  search_root :: "addr list"
  input_type :: input_type
  speech_input :: speech_input
  input_plugin_source :: int

record PROCESS_AM =
  pam_config :: addr

record PROCESS_LM =
  plm_config :: addr
  plm_am :: addr
  uniprob :: fptr
  biprob :: fptr
  lmprob :: fptr

record RecogProcess =
  rp_config :: addr
  rp_am :: addr
  rp_lm :: addr
  active :: int
  live :: bool

datatype gram_switch = SM_TERMINATE | SM_PAUSE | SM_WAIT

record ADIn_funcs =
  ad_pause :: fptr
  ad_terminate :: fptr
  ad_resume :: fptr

record Recog =
  jconf :: Jconf
  adin :: ADIn_funcs
  mfcclist :: "MFCCCalc option"
  am_procs :: "PROCESS_AM store"
  lm_procs :: "PROCESS_LM store"
  processes :: "RecogProcess store"
  amlist :: "addr list"
  lmlist :: "addr list"
  process_list :: "addr list"
  process_active :: bool
  process_want_terminate :: bool
  process_want_reload :: bool
  gram_switch_input_method :: gram_switch
  calc_vector :: fptr

section \<open>The switches of messages\<close>

record message_flags =
  debug2_flag :: bool
  verbose_flag :: bool

definition j_enable_debug_message :: "message_flags \<Rightarrow> message_flags" where
  "j_enable_debug_message g = g\<lparr>debug2_flag := True\<rparr>"

definition j_disable_debug_message :: "message_flags \<Rightarrow> message_flags" where
  "j_disable_debug_message g = g\<lparr>debug2_flag := False\<rparr>"

definition j_enable_verbose_message :: "message_flags \<Rightarrow> message_flags" where
  "j_enable_verbose_message g = g\<lparr>verbose_flag := True\<rparr>"

definition j_disable_verbose_message :: "message_flags \<Rightarrow> message_flags" where
  "j_disable_verbose_message g = g\<lparr>verbose_flag := False\<rparr>"

section \<open>Requests to the engine\<close>

text \<open>
  The second half of the three requests: the call of the input module, if it has the
  function.  The result is the list of the functions called; reading \<open>mfcclist->func\<close> through a
  NULL \<open>mfcclist\<close> is \<open>None\<close>.
\<close>

definition control_input ::
  "Recog \<Rightarrow> (ADIn_funcs \<Rightarrow> fptr) \<Rightarrow> (MFCC_funcs \<Rightarrow> fptr) \<Rightarrow> nat list option" where
  "control_input recog ad fv =
     (case input_type (jconf recog) of
        INPUT_WAVEFORM \<Rightarrow> Some (case ad (adin recog) of None \<Rightarrow> [] | Some f \<Rightarrow> [f])
      | INPUT_VECTOR \<Rightarrow>
          if speech_input (jconf recog) = SP_MFCMODULE then
            (case mfcclist recog of
               None \<Rightarrow> None
             | Some m \<Rightarrow> Some (case fv (func m) of None \<Rightarrow> [] | Some f \<Rightarrow> [f]))
          else Some [])"

definition j_request_pause :: "Recog \<Rightarrow> (Recog \<times> nat list) option" where
  "j_request_pause recog =
     (let r = (if process_active recog
               then recog\<lparr>process_want_terminate := False, process_want_reload := True,
                          process_active := False\<rparr>
               else recog)
      in map_option (Pair r) (control_input r ad_pause fv_pause))"

definition j_request_terminate :: "Recog \<Rightarrow> (Recog \<times> nat list) option" where
  "j_request_terminate recog =
     (let r = (if process_active recog
               then recog\<lparr>process_want_terminate := True, process_want_reload := True,
                          process_active := False\<rparr>
               else recog)
      in map_option (Pair r) (control_input r ad_terminate fv_terminate))"

definition j_request_resume :: "Recog \<Rightarrow> (Recog \<times> nat list) option" where
  "j_request_resume recog =
     (let r = (if \<not> process_active recog
               then recog\<lparr>process_want_terminate := False, process_active := True\<rparr>
               else recog)
      in map_option (Pair r) (control_input r ad_resume fv_resume))"

definition schedule_grammar_update :: "Recog \<Rightarrow> Recog" where
  "schedule_grammar_update recog =
     (if process_active recog then
        (case gram_switch_input_method recog of
           SM_TERMINATE \<Rightarrow> recog\<lparr>process_want_terminate := True, process_want_reload := True\<rparr>
         | SM_PAUSE \<Rightarrow> recog\<lparr>process_want_terminate := False, process_want_reload := True\<rparr>
         | SM_WAIT \<Rightarrow> recog\<lparr>process_want_terminate := False, process_want_reload := False\<rparr>)
      else recog)"

definition j_reset_reload :: "Recog \<Rightarrow> Recog" where
  "j_reset_reload recog = recog\<lparr>process_want_reload := False\<rparr>"

section \<open>Loading a configuration\<close>

text \<open>
  If more than one instance of a kind is defined, the initial one (with id 0) is released.
\<close>

definition drop_initial ::
  "('a \<Rightarrow> int) \<Rightarrow> 'a store \<Rightarrow> addr list \<Rightarrow> ('a store \<times> addr list) option" where
  "drop_initial cid h chain =
     (case chain of
        [] \<Rightarrow> None
      | [a] \<Rightarrow> if h a = None then None else Some (h, chain)
      | a # as \<Rightarrow>
          (case h a of
             None \<Rightarrow> None
           | Some c \<Rightarrow> if cid c = 0 then Some (h(a := None), as) else Some (h, chain)))"

definition drop_initial_confs :: "Jconf \<Rightarrow> Jconf option" where
  "drop_initial_confs j =
     (case drop_initial am_id (am_confs j) (am_root j) of
        None \<Rightarrow> None
      | Some (ha, ra) \<Rightarrow>
     (case drop_initial lm_id (lm_confs j) (lm_root j) of
        None \<Rightarrow> None
      | Some (hl, rl) \<Rightarrow>
     (case drop_initial sc_id (search_confs j) (search_root j) of
        None \<Rightarrow> None
      | Some (hs, rs) \<Rightarrow>
          Some (j\<lparr>am_confs := ha, am_root := ra, lm_confs := hl, lm_root := rl,
                  search_confs := hs, search_root := rs\<rparr>))))"

text \<open>
  The option parser \<open>opt_parse\<close> is a parameter: it gets the arguments and the directory of the
  configuration file (NULL for the command line), says whether it succeeded and what it left
  in the configuration.
\<close>

type_synonym opt_parser = "carg list \<Rightarrow> string option \<Rightarrow> Jconf \<Rightarrow> bool \<times> Jconf"

definition j_config_load_args :: "opt_parser \<Rightarrow> carg list \<Rightarrow> Jconf \<Rightarrow> (int \<times> Jconf) option" where
  "j_config_load_args opt_parse argv j =
     (case opt_parse argv None j of (ok, j') \<Rightarrow>
        if \<not> ok then Some (-1, j') else map_option (Pair 0) (drop_initial_confs j'))"

definition j_config_load_file ::
  "(string \<Rightarrow> string option) \<Rightarrow> (string \<Rightarrow> string option) \<Rightarrow> bool \<Rightarrow> opt_parser
    \<Rightarrow> string \<Rightarrow> Jconf \<Rightarrow> (int \<times> Jconf) option" where
  "j_config_load_file getenv fopen fclose_ok opt_parse filename j =
     (case config_file_parse getenv fopen fclose_ok opt_parse filename j of
        Config_Bad_Access \<Rightarrow> None
      | Config_Return ok j' \<Rightarrow>
          if \<not> ok then Some (-1, j') else map_option (Pair 0) (drop_initial_confs j'))"

text \<open>The two functions that make the configuration return NULL after an error.\<close>

definition j_config_load_args_new :: "opt_parser \<Rightarrow> Jconf \<Rightarrow> carg list \<Rightarrow> Jconf option option" where
  "j_config_load_args_new opt_parse new_jconf argv =
     (case opt_parse argv None new_jconf of (ok, j') \<Rightarrow>
        if \<not> ok then Some None else map_option Some (drop_initial_confs j'))"

definition j_config_load_file_new ::
  "(string \<Rightarrow> string option) \<Rightarrow> (string \<Rightarrow> string option) \<Rightarrow> bool \<Rightarrow> opt_parser
    \<Rightarrow> Jconf \<Rightarrow> string \<Rightarrow> Jconf option option" where
  "j_config_load_file_new getenv fopen fclose_ok opt_parse new_jconf filename =
     (case config_file_parse getenv fopen fclose_ok opt_parse filename new_jconf of
        Config_Bad_Access \<Rightarrow> None
      | Config_Return ok j' \<Rightarrow>
          if \<not> ok then Some None else map_option Some (drop_initial_confs j'))"

section \<open>Creating an engine\<close>

text \<open>Result \<open>None\<close> is the NULL returned on an error.\<close>

definition j_create_instance_from_jconf ::
  "(Jconf \<Rightarrow> bool \<times> Jconf) \<Rightarrow> Recog \<Rightarrow> (Recog \<Rightarrow> Jconf \<Rightarrow> bool \<times> Recog) \<Rightarrow> (Recog \<Rightarrow> bool \<times> Recog)
    \<Rightarrow> Jconf \<Rightarrow> Recog option" where
  "j_create_instance_from_jconf finalize new_recog load_all final_fusion j =
     (case finalize j of (ok, j1) \<Rightarrow>
        if \<not> ok then None else
     (case load_all (new_recog\<lparr>jconf := j1\<rparr>) j1 of (ok, r1) \<Rightarrow>
        if \<not> ok then None else
     (case final_fusion r1 of (ok, r2) \<Rightarrow>
        if \<not> ok then None else Some r2)))"

definition j_adin_init ::
  "plugins \<Rightarrow> (func \<Rightarrow> bool) \<Rightarrow> (Recog \<Rightarrow> bool \<times> Recog) \<Rightarrow> Recog \<Rightarrow> (bool \<times> Recog) option" where
  "j_adin_init st call adin_initialize recog =
     (if input_type (jconf recog) = INPUT_VECTOR then
        (if speech_input (jconf recog) = SP_MFCMODULE then
           (case mfcclist recog of
              None \<Rightarrow> None
            | Some mfcc \<Rightarrow>
                (case mfc_module_init st (input_plugin_source (jconf recog)) mfcc of
                   None \<Rightarrow> None
                 | Some (ok, mfcc1) \<Rightarrow>
                     if \<not> ok then Some (False, recog\<lparr>mfcclist := Some mfcc1\<rparr>)
                     else
                       (case mfc_module_standby call mfcc1 of (ret, mfcc2) \<Rightarrow>
                          Some (ret, recog\<lparr>mfcclist := Some mfcc2\<rparr>))))
         else Some (True, recog))
      else Some (adin_initialize recog))"

definition j_regist_user_lm_func ::
  "addr \<Rightarrow> fptr \<Rightarrow> fptr \<Rightarrow> fptr \<Rightarrow> Recog \<Rightarrow> (bool \<times> Recog) option" where
  "j_regist_user_lm_func lm unifunc bifunc probfunc recog =
     (case lm_procs recog lm of
        None \<Rightarrow> None
      | Some l \<Rightarrow>
          Some (True, recog\<lparr>lm_procs := (lm_procs recog)(lm \<mapsto>
            l\<lparr>uniprob := unifunc, biprob := bifunc, lmprob := probfunc\<rparr>)\<rparr>))"

definition j_regist_user_param_func :: "fptr \<Rightarrow> Recog \<Rightarrow> bool \<times> Recog" where
  "j_regist_user_param_func user_calc_vector recog = (True, recog\<lparr>calc_vector := user_calc_vector\<rparr>)"

section \<open>Looking up configurations\<close>

definition j_get_amconf_by_name :: "Jconf \<Rightarrow> string \<Rightarrow> addr option option" where
  "j_get_amconf_by_name j name = scan_cells (\<lambda>c. am_name c = name) (am_confs j) (am_root j)"

definition j_get_amconf_by_id :: "Jconf \<Rightarrow> int \<Rightarrow> addr option option" where
  "j_get_amconf_by_id j i = scan_cells (\<lambda>c. am_id c = i) (am_confs j) (am_root j)"

definition j_get_amconf_default :: "Jconf \<Rightarrow> addr option" where
  "j_get_amconf_default j = (if am_root j = [] then None else Some (last (am_root j)))"

definition j_get_lmconf_by_name :: "Jconf \<Rightarrow> string \<Rightarrow> addr option option" where
  "j_get_lmconf_by_name j name = scan_cells (\<lambda>c. lm_name c = name) (lm_confs j) (lm_root j)"

definition j_get_lmconf_by_id :: "Jconf \<Rightarrow> int \<Rightarrow> addr option option" where
  "j_get_lmconf_by_id j i = scan_cells (\<lambda>c. lm_id c = i) (lm_confs j) (lm_root j)"

definition j_get_searchconf_by_name :: "Jconf \<Rightarrow> string \<Rightarrow> addr option option" where
  "j_get_searchconf_by_name j name =
     scan_cells (\<lambda>c. sc_name c = name) (search_confs j) (search_root j)"

definition j_get_searchconf_by_id :: "Jconf \<Rightarrow> int \<Rightarrow> addr option option" where
  "j_get_searchconf_by_id j i = scan_cells (\<lambda>c. sc_id c = i) (search_confs j) (search_root j)"

section \<open>Activation of recognition processes\<close>

text \<open>
  The common loop: the first process whose search configuration passes the test gets the
  mark, and the engine is told to reload.
\<close>

fun find_process ::
  "(JCONF_SEARCH \<Rightarrow> bool) \<Rightarrow> RecogProcess store \<Rightarrow> JCONF_SEARCH store \<Rightarrow> addr list
    \<Rightarrow> addr option option" where
  "find_process P hp hs [] = Some None"
| "find_process P hp hs (a # as) =
     (case hp a of
        None \<Rightarrow> None
      | Some r \<Rightarrow>
          (case hs (rp_config r) of
             None \<Rightarrow> None
           | Some c \<Rightarrow> if P c then Some (Some a) else find_process P hp hs as))"

definition set_active :: "(JCONF_SEARCH \<Rightarrow> bool) \<Rightarrow> int \<Rightarrow> Recog \<Rightarrow> (bool \<times> Recog) option" where
  "set_active P mark recog =
     (case find_process P (processes recog) (search_confs (jconf recog)) (process_list recog) of
        None \<Rightarrow> None
      | Some None \<Rightarrow> Some (False, recog)
      | Some (Some a) \<Rightarrow>
          Some (True, recog\<lparr>processes := (processes recog)(a := map_option (active_update (\<lambda>_. mark))
                                           (processes recog a)),
                            process_want_reload := True\<rparr>))"

definition j_process_deactivate :: "Recog \<Rightarrow> string \<Rightarrow> (bool \<times> Recog) option" where
  "j_process_deactivate recog name = set_active (\<lambda>c. sc_name c = name) (-1) recog"

definition j_process_deactivate_by_id :: "Recog \<Rightarrow> int \<Rightarrow> (bool \<times> Recog) option" where
  "j_process_deactivate_by_id recog i = set_active (\<lambda>c. sc_id c = i) (-1) recog"

definition j_process_activate :: "Recog \<Rightarrow> string \<Rightarrow> (bool \<times> Recog) option" where
  "j_process_activate recog name = set_active (\<lambda>c. sc_name c = name) 1 recog"

definition j_process_activate_by_id :: "Recog \<Rightarrow> int \<Rightarrow> (bool \<times> Recog) option" where
  "j_process_activate_by_id recog i = set_active (\<lambda>c. sc_id c = i) 1 recog"

section \<open>Adding and removing processes\<close>

text \<open>The functions of libjulius that release an object.\<close>

record free_ops =
  f_process :: "addr \<Rightarrow> Recog \<Rightarrow> Recog"
  f_process_lm :: "addr \<Rightarrow> Recog \<Rightarrow> Recog"
  f_process_am :: "addr \<Rightarrow> Recog \<Rightarrow> Recog"
  f_search_conf :: "addr \<Rightarrow> Jconf \<Rightarrow> Jconf"
  f_lm_conf :: "addr \<Rightarrow> Jconf \<Rightarrow> Jconf"
  f_am_conf :: "addr \<Rightarrow> Jconf \<Rightarrow> Jconf"

text \<open>The functions of libjulius that \<open>j_process_add_lm\<close> calls.\<close>

record build_ops =
  jconf_lm_regist :: "Jconf \<Rightarrow> addr \<Rightarrow> string \<Rightarrow> bool \<times> Jconf"
  jconf_search_regist :: "Jconf \<Rightarrow> addr \<Rightarrow> string \<Rightarrow> bool \<times> Jconf"
  jconf_finalize :: "Jconf \<Rightarrow> bool \<times> Jconf"
  load_lm :: "Recog \<Rightarrow> addr \<Rightarrow> bool \<times> Recog"
  launch_recognition_instance :: "Recog \<Rightarrow> addr \<Rightarrow> bool \<times> Recog"

definition j_process_add_lm ::
  "build_ops \<Rightarrow> free_ops \<Rightarrow> Recog \<Rightarrow> addr \<Rightarrow> addr \<Rightarrow> string \<Rightarrow> (bool \<times> Recog) option" where
  "j_process_add_lm B F recog lmconf sconf name =
     (case jconf_lm_regist B (jconf recog) lmconf name of (ok, j1) \<Rightarrow>
        if \<not> ok then Some (False, recog\<lparr>jconf := j1\<rparr>) else
     (case search_confs j1 sconf of
        None \<Rightarrow> None
      | Some s \<Rightarrow>
          let j2 = j1\<lparr>search_confs := (search_confs j1)(sconf \<mapsto>
                     s\<lparr>sc_amconf := j_get_amconf_default j1, sc_lmconf := Some lmconf\<rparr>)\<rparr>
          in
     (case jconf_search_regist B j2 sconf name of (ok, j3) \<Rightarrow>
        if \<not> ok then Some (False, recog\<lparr>jconf := f_search_conf F sconf j3\<rparr>) else
     (case jconf_finalize B j3 of (ok, j4) \<Rightarrow>
        if \<not> ok then Some (False, recog\<lparr>jconf := j4\<rparr>) else
     (case load_lm B (recog\<lparr>jconf := j4\<rparr>) lmconf of (ok, r5) \<Rightarrow>
        if \<not> ok then Some (False, r5) else
     (case launch_recognition_instance B r5 sconf of (ok, r6) \<Rightarrow>
        if \<not> ok then Some (False, r6) else
        Some (True, r6\<lparr>process_want_reload := True\<rparr>)))))))"

text \<open>
  The loop that takes a configuration out of its chain: every cell that it passes is read for its \<open>next\<close>, also the one
  that is taken out.
\<close>

fun unlink_address :: "addr \<Rightarrow> 'a store \<Rightarrow> addr list \<Rightarrow> (addr \<times> addr list) option option" where
  "unlink_address a h [] = Some None"
| "unlink_address a h (b # bs) =
     (if h b = None then None
      else if b = a then Some (Some (b, bs))
      else map_option (map_option (\<lambda>(c, cs). (c, b # cs))) (unlink_address a h bs))"

definition j_process_remove :: "free_ops \<Rightarrow> Recog \<Rightarrow> addr option \<Rightarrow> (bool \<times> Recog) option" where
  "j_process_remove F recog sconf =
     (case sconf of
        None \<Rightarrow> Some (False, recog)
      | Some s \<Rightarrow>
     (case unlink_cell (\<lambda>r. rp_config r = s) (processes recog) (process_list recog) of
        None \<Rightarrow> None
      | Some None \<Rightarrow> if search_confs (jconf recog) s = None then None else Some (False, recog)
      | Some (Some (r, rs)) \<Rightarrow>
          (case unlink_address s (search_confs (jconf recog)) (search_root (jconf recog)) of
             None \<Rightarrow> None
           | Some unlinked \<Rightarrow>
               if search_confs (jconf recog) s = None then None
               else
                 let chain = (case unlinked of None \<Rightarrow> search_root (jconf recog) | Some (_, as) \<Rightarrow> as);
                     recog1 = f_process F r
                       (recog\<lparr>process_list := rs, jconf := (jconf recog)\<lparr>search_root := chain\<rparr>\<rparr>)
                 in Some (True, recog1\<lparr>jconf := f_search_conf F s (jconf recog1),
                                       process_want_reload := True\<rparr>))))"

definition j_process_lm_remove :: "free_ops \<Rightarrow> Recog \<Rightarrow> addr option \<Rightarrow> (bool \<times> Recog) option" where
  "j_process_lm_remove F recog lmconf =
     (case lmconf of
        None \<Rightarrow> Some (False, recog)
      | Some l \<Rightarrow>
     (case find_process (\<lambda>c. sc_lmconf c = Some l) (processes recog) (search_confs (jconf recog))
             (process_list recog) of
        None \<Rightarrow> None
      | Some (Some _) \<Rightarrow> if lm_confs (jconf recog) l = None then None else Some (False, recog)
      | Some None \<Rightarrow>
     (case unlink_cell (\<lambda>p. plm_config p = l) (lm_procs recog) (lmlist recog) of
        None \<Rightarrow> None
      | Some None \<Rightarrow> if lm_confs (jconf recog) l = None then None else Some (False, recog)
      | Some (Some (p, ps)) \<Rightarrow>
          if lm_confs (jconf recog) l = None then None else
          (case unlink_address l (lm_confs (jconf recog)) (lm_root (jconf recog)) of
             None \<Rightarrow> None
           | Some None \<Rightarrow> Some (False, recog\<lparr>lmlist := ps\<rparr>)
           | Some (Some (_, as)) \<Rightarrow>
               let recog1 = f_process_lm F p
                     (recog\<lparr>lmlist := ps, jconf := (jconf recog)\<lparr>lm_root := as\<rparr>\<rparr>)
               in Some (True, recog1\<lparr>jconf := f_lm_conf F l (jconf recog1),
                                     process_want_reload := True\<rparr>)))))"

text \<open>The check of \<open>j_process_am_remove\<close> that no LM process uses the AM: \<open>lm->am->config\<close>.\<close>

fun find_lm_using_am ::
  "addr \<Rightarrow> PROCESS_LM store \<Rightarrow> PROCESS_AM store \<Rightarrow> addr list \<Rightarrow> addr option option" where
  "find_lm_using_am a hl ha [] = Some None"
| "find_lm_using_am a hl ha (l # ls) =
     (case hl l of
        None \<Rightarrow> None
      | Some p \<Rightarrow>
          (case ha (plm_am p) of
             None \<Rightarrow> None
           | Some m \<Rightarrow> if pam_config m = a then Some (Some l) else find_lm_using_am a hl ha ls))"

definition j_process_am_remove :: "free_ops \<Rightarrow> Recog \<Rightarrow> addr option \<Rightarrow> (bool \<times> Recog) option" where
  "j_process_am_remove F recog amconf =
     (case amconf of
        None \<Rightarrow> Some (False, recog)
      | Some a \<Rightarrow>
     (case find_process (\<lambda>c. sc_amconf c = Some a) (processes recog) (search_confs (jconf recog))
             (process_list recog) of
        None \<Rightarrow> None
      | Some (Some _) \<Rightarrow> if am_confs (jconf recog) a = None then None else Some (False, recog)
      | Some None \<Rightarrow>
     (case find_lm_using_am a (lm_procs recog) (am_procs recog) (lmlist recog) of
        None \<Rightarrow> None
      | Some (Some _) \<Rightarrow> if am_confs (jconf recog) a = None then None else Some (False, recog)
      | Some None \<Rightarrow>
     (case unlink_cell (\<lambda>p. pam_config p = a) (am_procs recog) (amlist recog) of
        None \<Rightarrow> None
      | Some None \<Rightarrow> if am_confs (jconf recog) a = None then None else Some (False, recog)
      | Some (Some (p, ps)) \<Rightarrow>
          if am_confs (jconf recog) a = None then None else
          (case unlink_address a (am_confs (jconf recog)) (am_root (jconf recog)) of
             None \<Rightarrow> None
           | Some None \<Rightarrow> Some (False, recog\<lparr>amlist := ps\<rparr>)
           | Some (Some (_, as)) \<Rightarrow>
               let recog1 = f_process_am F p
                     (recog\<lparr>amlist := ps, jconf := (jconf recog)\<lparr>am_root := as\<rparr>\<rparr>)
               in Some (True, recog1\<lparr>jconf := f_am_conf F a (jconf recog1),
                                     process_want_reload := True\<rparr>))))))"

section \<open>Well-formed engines\<close>

text \<open>
  No dangling pointer: every chain consists of allocated objects without repetition; the
  configuration of a process is in the chain of its kind; a recognition process, its search
  configuration, and its AM and LM processes agree on the AM and LM configurations; no two
  processes of a kind share a configuration.
\<close>

definition proc_ok :: "Recog \<Rightarrow> addr \<Rightarrow> bool" where
  "proc_ok recog r \<longleftrightarrow>
     (\<exists>p c a l. processes recog r = Some p
        \<and> search_confs (jconf recog) (rp_config p) = Some c
        \<and> rp_config p \<in> set (search_root (jconf recog))
        \<and> rp_am p \<in> set (amlist recog) \<and> am_procs recog (rp_am p) = Some a
        \<and> rp_lm p \<in> set (lmlist recog) \<and> lm_procs recog (rp_lm p) = Some l
        \<and> sc_amconf c = Some (pam_config a) \<and> sc_lmconf c = Some (plm_config l))"

definition lm_ok :: "Recog \<Rightarrow> addr \<Rightarrow> bool" where
  "lm_ok recog l \<longleftrightarrow>
     (\<exists>p. lm_procs recog l = Some p \<and> plm_config p \<in> set (lm_root (jconf recog))
        \<and> plm_am p \<in> set (amlist recog))"

definition am_ok :: "Recog \<Rightarrow> addr \<Rightarrow> bool" where
  "am_ok recog a \<longleftrightarrow>
     (\<exists>p. am_procs recog a = Some p \<and> pam_config p \<in> set (am_root (jconf recog)))"

definition chains_ok :: "Recog \<Rightarrow> bool" where
  "chains_ok recog \<longleftrightarrow>
     distinct (am_root (jconf recog)) \<and> set (am_root (jconf recog)) \<subseteq> dom (am_confs (jconf recog))
   \<and> distinct (lm_root (jconf recog)) \<and> set (lm_root (jconf recog)) \<subseteq> dom (lm_confs (jconf recog))
   \<and> distinct (search_root (jconf recog))
   \<and> set (search_root (jconf recog)) \<subseteq> dom (search_confs (jconf recog))
   \<and> distinct (amlist recog) \<and> distinct (lmlist recog) \<and> distinct (process_list recog)
   \<and> inj_on (\<lambda>r. rp_config (the (processes recog r))) (set (process_list recog))
   \<and> inj_on (\<lambda>l. plm_config (the (lm_procs recog l))) (set (lmlist recog))
   \<and> inj_on (\<lambda>a. pam_config (the (am_procs recog a))) (set (amlist recog))"

definition wf_recog :: "Recog \<Rightarrow> bool" where
  "wf_recog recog \<longleftrightarrow>
     chains_ok recog \<and> (\<forall>r\<in>set (process_list recog). proc_ok recog r)
     \<and> (\<forall>l\<in>set (lmlist recog). lm_ok recog l) \<and> (\<forall>a\<in>set (amlist recog). am_ok recog a)"

text \<open>
  What the release functions do (their documentation in libjulius): they take the object
  out of memory and change nothing else.
\<close>

definition releases :: "free_ops \<Rightarrow> bool" where
  "releases F \<longleftrightarrow>
     (\<forall>a recog. f_process F a recog = recog\<lparr>processes := (processes recog)(a := None)\<rparr>)
   \<and> (\<forall>a recog. f_process_lm F a recog = recog\<lparr>lm_procs := (lm_procs recog)(a := None)\<rparr>)
   \<and> (\<forall>a recog. f_process_am F a recog = recog\<lparr>am_procs := (am_procs recog)(a := None)\<rparr>)
   \<and> (\<forall>a j. f_search_conf F a j = j\<lparr>search_confs := (search_confs j)(a := None)\<rparr>)
   \<and> (\<forall>a j. f_lm_conf F a j = j\<lparr>lm_confs := (lm_confs j)(a := None)\<rparr>)
   \<and> (\<forall>a j. f_am_conf F a j = j\<lparr>am_confs := (am_confs j)(a := None)\<rparr>)"

definition free_all :: free_ops where
  "free_all =
     \<lparr>f_process = (\<lambda>a recog. recog\<lparr>processes := (processes recog)(a := None)\<rparr>),
      f_process_lm = (\<lambda>a recog. recog\<lparr>lm_procs := (lm_procs recog)(a := None)\<rparr>),
      f_process_am = (\<lambda>a recog. recog\<lparr>am_procs := (am_procs recog)(a := None)\<rparr>),
      f_search_conf = (\<lambda>a j. j\<lparr>search_confs := (search_confs j)(a := None)\<rparr>),
      f_lm_conf = (\<lambda>a j. j\<lparr>lm_confs := (lm_confs j)(a := None)\<rparr>),
      f_am_conf = (\<lambda>a j. j\<lparr>am_confs := (am_confs j)(a := None)\<rparr>)\<rparr>"

lemma releases_free_all: "releases free_all"
  by (simp add: releases_def free_all_def)

lemma wf_proc: "wf_recog recog \<Longrightarrow> r \<in> set (process_list recog) \<Longrightarrow> proc_ok recog r"
  by (simp add: wf_recog_def)

lemma wf_lm: "wf_recog recog \<Longrightarrow> l \<in> set (lmlist recog) \<Longrightarrow> lm_ok recog l"
  by (simp add: wf_recog_def)

lemma wf_am: "wf_recog recog \<Longrightarrow> a \<in> set (amlist recog) \<Longrightarrow> am_ok recog a"
  by (simp add: wf_recog_def)

lemma wf_chains: "wf_recog recog \<Longrightarrow> chains_ok recog"
  by (simp add: wf_recog_def)

lemma wf_allocated:
  assumes "wf_recog recog"
  shows "set (process_list recog) \<subseteq> dom (processes recog)"
    and "set (lmlist recog) \<subseteq> dom (lm_procs recog)"
    and "set (amlist recog) \<subseteq> dom (am_procs recog)"
  using wf_proc [OF assms] wf_lm [OF assms] wf_am [OF assms]
  unfolding proc_ok_def lm_ok_def am_ok_def dom_def by blast+

definition conf_of :: "Recog \<Rightarrow> addr \<Rightarrow> JCONF_SEARCH" where
  "conf_of recog r = the (search_confs (jconf recog) (rp_config (the (processes recog r))))"

lemma find_process_find:
  assumes "\<forall>r\<in>set rs. proc_ok recog r"
  shows "find_process P (processes recog) (search_confs (jconf recog)) rs =
    Some (find (\<lambda>r. P (conf_of recog r)) rs)"
  using assms by (induction rs) (auto simp: proc_ok_def conf_of_def)

lemma find_lm_using_am_find:
  assumes "\<forall>l\<in>set ls. \<exists>p m. hl l = Some p \<and> ha (plm_am p) = Some m"
  shows "find_lm_using_am a hl ha ls =
    Some (find (\<lambda>l. pam_config (the (ha (plm_am (the (hl l))))) = a) ls)"
  using assms by (induction ls) auto

text \<open>Unlinking the unique process of a configuration is filtering.\<close>

lemma filter_not_member: "a \<notin> set xs \<Longrightarrow> filter (\<lambda>x. x \<noteq> a) xs = xs"
  by (induction xs) auto

lemma unlink_unique:
  assumes "set xs \<subseteq> dom h" "distinct xs" "inj_on (\<lambda>x. cf (the (h x))) (set xs)"
  shows "unlink_cell (\<lambda>v. cf v = a) h xs =
    Some (map_option (\<lambda>x. (x, filter (\<lambda>y. y \<noteq> x) xs)) (find (\<lambda>x. cf (the (h x)) = a) xs))"
  using assms
proof (induction xs)
  case (Cons x xs)
  then have x: "filter (\<lambda>y. y \<noteq> x) xs = xs" and hx: "\<exists>v. h x = Some v"
    and ih: "unlink_cell (\<lambda>v. cf v = a) h xs =
      Some (map_option (\<lambda>x. (x, filter (\<lambda>y. y \<noteq> x) xs)) (find (\<lambda>x. cf (the (h x)) = a) xs))"
    by (auto simp: filter_not_member)
  have "x \<noteq> y" if "find (\<lambda>x. cf (the (h x)) = a) xs = Some y" for y
    using that Cons.prems(2) by (auto simp: find_Some_iff)
  with x hx ih show ?case by (cases "find (\<lambda>x. cf (the (h x)) = a) xs") auto
qed simp

lemma unlink_member:
  "a \<in> set xs \<Longrightarrow> distinct xs \<Longrightarrow> set xs \<subseteq> dom h \<Longrightarrow> unlink_address a h xs = Some (Some (a, filter (\<lambda>x. x \<noteq> a) xs))"
  by (induction xs) (auto simp: filter_not_member)

lemma find_None_iff2: "find P xs = None \<longleftrightarrow> (\<forall>x\<in>set xs. \<not> P x)"
  by (induction xs) auto

lemma filter_unique:
  assumes "inj_on f (set xs)" "x \<in> set xs" "f x = a"
  shows "filter (\<lambda>y. y \<noteq> x) xs = filter (\<lambda>y. f y \<noteq> a) xs"
  using assms by (intro filter_cong) (auto dest: inj_onD)

section \<open>Removal keeps the engine well-formed\<close>

text \<open>The engine after a successful removal.\<close>

definition without_process :: "Recog \<Rightarrow> addr \<Rightarrow> addr \<Rightarrow> Recog" where
  "without_process recog r s =
     recog\<lparr>process_list := filter (\<lambda>x. x \<noteq> r) (process_list recog),
           processes := (processes recog)(r := None),
           jconf := (jconf recog)\<lparr>search_root := filter (\<lambda>x. x \<noteq> s) (search_root (jconf recog)),
                                  search_confs := (search_confs (jconf recog))(s := None)\<rparr>,
           process_want_reload := True\<rparr>"

definition without_lm :: "Recog \<Rightarrow> addr \<Rightarrow> addr \<Rightarrow> Recog" where
  "without_lm recog l c =
     recog\<lparr>lmlist := filter (\<lambda>x. x \<noteq> l) (lmlist recog),
           lm_procs := (lm_procs recog)(l := None),
           jconf := (jconf recog)\<lparr>lm_root := filter (\<lambda>x. x \<noteq> c) (lm_root (jconf recog)),
                                  lm_confs := (lm_confs (jconf recog))(c := None)\<rparr>,
           process_want_reload := True\<rparr>"

definition without_am :: "Recog \<Rightarrow> addr \<Rightarrow> addr \<Rightarrow> Recog" where
  "without_am recog a c =
     recog\<lparr>amlist := filter (\<lambda>x. x \<noteq> a) (amlist recog),
           am_procs := (am_procs recog)(a := None),
           jconf := (jconf recog)\<lparr>am_root := filter (\<lambda>x. x \<noteq> c) (am_root (jconf recog)),
                                  am_confs := (am_confs (jconf recog))(c := None)\<rparr>,
           process_want_reload := True\<rparr>"

lemma find_unique_config:
  assumes "find (\<lambda>x. f x = a) xs = Some x"
  shows "x \<in> set xs \<and> f x = a"
  using assms by (auto simp: find_Some_iff)

lemma proc_okI:
  "processes recog r = Some p \<Longrightarrow> search_confs (jconf recog) (rp_config p) = Some c \<Longrightarrow>
   rp_config p \<in> set (search_root (jconf recog)) \<Longrightarrow>
   rp_am p \<in> set (amlist recog) \<Longrightarrow> am_procs recog (rp_am p) = Some a \<Longrightarrow>
   rp_lm p \<in> set (lmlist recog) \<Longrightarrow> lm_procs recog (rp_lm p) = Some l \<Longrightarrow>
   sc_amconf c = Some (pam_config a) \<Longrightarrow> sc_lmconf c = Some (plm_config l) \<Longrightarrow> proc_ok recog r"
  unfolding proc_ok_def by blast

lemma proc_okE:
  assumes "proc_ok recog r"
  obtains p c a l where "processes recog r = Some p"
    "search_confs (jconf recog) (rp_config p) = Some c"
    "rp_config p \<in> set (search_root (jconf recog))"
    "rp_am p \<in> set (amlist recog)" "am_procs recog (rp_am p) = Some a"
    "rp_lm p \<in> set (lmlist recog)" "lm_procs recog (rp_lm p) = Some l"
    "sc_amconf c = Some (pam_config a)" "sc_lmconf c = Some (plm_config l)" "conf_of recog r = c"
  using assms unfolding proc_ok_def by (auto simp: conf_of_def)

lemma inj_on_removed:
  "inj_on (\<lambda>x. f (the (h x))) (set xs) \<Longrightarrow>
     inj_on (\<lambda>x. f (the (if x = a then None else h x))) {x \<in> set xs. x \<noteq> a}"
  by (simp add: inj_on_def)

lemma subset_removed: "set xs \<subseteq> dom h \<Longrightarrow> {x \<in> set xs. x \<noteq> a} \<subseteq> dom h - {a}"
  by blast

lemma chains_without:
  assumes "chains_ok recog"
  shows "chains_ok (without_process recog r s)" "chains_ok (without_lm recog r s)"
    "chains_ok (without_am recog r s)"
  using assms unfolding chains_ok_def without_process_def without_lm_def without_am_def
  by (simp_all add: inj_on_removed subset_removed)

lemma j_process_remove_cases:
  assumes wf: "wf_recog recog" and F: "releases F" and s: "search_confs (jconf recog) s \<noteq> None"
  shows "j_process_remove F recog (Some s) =
    (case find (\<lambda>r. rp_config (the (processes recog r)) = s) (process_list recog) of
       None \<Rightarrow> Some (False, recog)
     | Some r \<Rightarrow> Some (True, without_process recog r s))"
proof (cases "find (\<lambda>r. rp_config (the (processes recog r)) = s) (process_list recog)")
  case None
  with unlink_unique [OF wf_allocated(1) [OF wf], of rp_config s] wf_chains [OF wf] s
  show ?thesis by (auto simp: j_process_remove_def chains_ok_def)
next
  case (Some r)
  from find_unique_config [OF this] have r: "r \<in> set (process_list recog)"
    "rp_config (the (processes recog r)) = s" by auto
  with wf_proc [OF wf r(1)] have "s \<in> set (search_root (jconf recog))" by (auto simp: proc_ok_def)
  with Some unlink_unique [OF wf_allocated(1) [OF wf], of rp_config s] wf_chains [OF wf] s
  show ?thesis
    using F by (auto simp: j_process_remove_def chains_ok_def unlink_member releases_def
        without_process_def)
qed

lemma wf_without_process:
  assumes wf: "wf_recog recog" and r: "r \<in> set (process_list recog)"
    "rp_config (the (processes recog r)) = s"
  shows "wf_recog (without_process recog r s)"
proof -
  let ?w = "without_process recog r s"
  have other: "rp_config (the (processes recog x)) \<noteq> s" if "x \<in> set (process_list recog)" "x \<noteq> r" for x
    using wf_chains [OF wf] r that by (auto simp: chains_ok_def dest: inj_onD)
  have "proc_ok ?w x" if x: "x \<in> set (process_list recog)" "x \<noteq> r" for x
    using wf_proc [OF wf x(1)]
  proof (rule proc_okE)
    fix p c a l
    assume "processes recog x = Some p" and c: "search_confs (jconf recog) (rp_config p) = Some c"
      "rp_config p \<in> set (search_root (jconf recog))" and o: "rp_am p \<in> set (amlist recog)"
      "am_procs recog (rp_am p) = Some a" "rp_lm p \<in> set (lmlist recog)"
      "lm_procs recog (rp_lm p) = Some l"
      "sc_amconf c = Some (pam_config a)" "sc_lmconf c = Some (plm_config l)"
    moreover from this other [OF x] have "rp_config p \<noteq> s" by simp
    ultimately show ?thesis
      using x by (intro proc_okI [of _ _ p c a l]) (simp_all add: without_process_def)
  qed
  moreover have "chains_ok ?w" by (rule chains_without(1) [OF wf_chains [OF wf]])
  moreover have "lm_ok ?w x" if "x \<in> set (lmlist recog)" for x
    using wf_lm [OF wf that] by (simp add: lm_ok_def without_process_def)
  moreover have "am_ok ?w x" if "x \<in> set (amlist recog)" for x
    using wf_am [OF wf that] by (simp add: am_ok_def without_process_def)
  ultimately show ?thesis by (simp add: wf_recog_def) (simp add: without_process_def)
qed

lemma j_process_lm_remove_cases:
  assumes wf: "wf_recog recog" and F: "releases F" and c: "lm_confs (jconf recog) c \<noteq> None"
  shows "j_process_lm_remove F recog (Some c) =
    (if \<exists>r\<in>set (process_list recog). sc_lmconf (conf_of recog r) = Some c then Some (False, recog)
     else case find (\<lambda>l. plm_config (the (lm_procs recog l)) = c) (lmlist recog) of
       None \<Rightarrow> Some (False, recog)
     | Some l \<Rightarrow> Some (True, without_lm recog l c))"
proof -
  have f: "find_process (\<lambda>k. sc_lmconf k = Some c) (processes recog) (search_confs (jconf recog))
      (process_list recog) = Some (find (\<lambda>r. sc_lmconf (conf_of recog r) = Some c) (process_list recog))"
    using wf_proc [OF wf] by (intro find_process_find) blast
  have u: "unlink_cell (\<lambda>p. plm_config p = c) (lm_procs recog) (lmlist recog) =
      Some (map_option (\<lambda>x. (x, filter (\<lambda>y. y \<noteq> x) (lmlist recog)))
        (find (\<lambda>l. plm_config (the (lm_procs recog l)) = c) (lmlist recog)))"
    using wf_chains [OF wf] by (intro unlink_unique wf_allocated(2) [OF wf]) (simp_all add: chains_ok_def)
  have m: "unlink_address c (lm_confs (jconf recog)) (lm_root (jconf recog)) =
      Some (Some (c, filter (\<lambda>x. x \<noteq> c) (lm_root (jconf recog))))"
    if "find (\<lambda>l. plm_config (the (lm_procs recog l)) = c) (lmlist recog) = Some l" for l
    using find_unique_config [OF that] wf_lm [OF wf, of l] wf_chains [OF wf]
    by (intro unlink_member) (auto simp: lm_ok_def chains_ok_def)
  show ?thesis
  proof (cases "find (\<lambda>r. sc_lmconf (conf_of recog r) = Some c) (process_list recog)")
    case None
    then have "\<not> (\<exists>r\<in>set (process_list recog). sc_lmconf (conf_of recog r) = Some c)"
      by (simp add: find_None_iff2)
    with None c F u m f show ?thesis
      by (cases "find (\<lambda>l. plm_config (the (lm_procs recog l)) = c) (lmlist recog)")
        (auto simp: j_process_lm_remove_def releases_def without_lm_def)
  next
    case (Some r)
    with find_unique_config [OF this] c f show ?thesis by (auto simp: j_process_lm_remove_def)
  qed
qed

lemma wf_without_lm:
  assumes wf: "wf_recog recog" and l: "l \<in> set (lmlist recog)" "plm_config (the (lm_procs recog l)) = c"
    and unused: "\<forall>r\<in>set (process_list recog). sc_lmconf (conf_of recog r) \<noteq> Some c"
  shows "wf_recog (without_lm recog l c)"
proof -
  let ?w = "without_lm recog l c"
  have other: "plm_config (the (lm_procs recog x)) \<noteq> c" if "x \<in> set (lmlist recog)" "x \<noteq> l" for x
    using wf_chains [OF wf] l that by (auto simp: chains_ok_def dest: inj_onD)
  have "proc_ok ?w x" if x: "x \<in> set (process_list recog)" for x
    using wf_proc [OF wf x]
  proof (rule proc_okE)
    fix p k a m
    assume "processes recog x = Some p" "search_confs (jconf recog) (rp_config p) = Some k"
      "rp_config p \<in> set (search_root (jconf recog))" "rp_am p \<in> set (amlist recog)"
      "am_procs recog (rp_am p) = Some a" "rp_lm p \<in> set (lmlist recog)"
      "lm_procs recog (rp_lm p) = Some m"
      "sc_amconf k = Some (pam_config a)" "sc_lmconf k = Some (plm_config m)" "conf_of recog x = k"
    moreover from this unused x l(2) have "rp_lm p \<noteq> l" by auto
    ultimately show ?thesis
      by (intro proc_okI [of _ _ p k a m]) (simp_all add: without_lm_def)
  qed
  moreover have "lm_ok ?w x" if x: "x \<in> set (lmlist recog)" "x \<noteq> l" for x
    using wf_lm [OF wf x(1)] other [OF x] x(2) by (auto simp: lm_ok_def without_lm_def)
  moreover have "am_ok ?w x" if "x \<in> set (amlist recog)" for x
    using wf_am [OF wf that] by (simp add: am_ok_def without_lm_def)
  moreover have "chains_ok ?w" by (rule chains_without(2) [OF wf_chains [OF wf]])
  ultimately show ?thesis by (simp add: wf_recog_def) (simp add: without_lm_def)
qed

definition am_used :: "Recog \<Rightarrow> addr \<Rightarrow> bool" where
  "am_used recog c \<longleftrightarrow>
     (\<exists>r\<in>set (process_list recog). sc_amconf (conf_of recog r) = Some c)
     \<or> (\<exists>l\<in>set (lmlist recog). pam_config (the (am_procs recog (plm_am (the (lm_procs recog l))))) = c)"

lemma j_process_am_remove_cases:
  assumes wf: "wf_recog recog" and F: "releases F" and c: "am_confs (jconf recog) c \<noteq> None"
  shows "j_process_am_remove F recog (Some c) =
    (if am_used recog c then Some (False, recog)
     else case find (\<lambda>a. pam_config (the (am_procs recog a)) = c) (amlist recog) of
       None \<Rightarrow> Some (False, recog)
     | Some a \<Rightarrow> Some (True, without_am recog a c))"
proof -
  let ?P = "\<lambda>r. sc_amconf (conf_of recog r) = Some c"
  let ?Q = "\<lambda>l. pam_config (the (am_procs recog (plm_am (the (lm_procs recog l))))) = c"
  have f: "find_process (\<lambda>k. sc_amconf k = Some c) (processes recog) (search_confs (jconf recog))
      (process_list recog) = Some (find ?P (process_list recog))"
    using wf_proc [OF wf] by (intro find_process_find) blast
  have g: "find_lm_using_am c (lm_procs recog) (am_procs recog) (lmlist recog) =
      Some (find ?Q (lmlist recog))"
  proof (rule find_lm_using_am_find, rule ballI)
    fix l assume "l \<in> set (lmlist recog)"
    from wf_lm [OF wf this] wf_allocated(3) [OF wf]
    show "\<exists>p m. lm_procs recog l = Some p \<and> am_procs recog (plm_am p) = Some m"
      by (auto simp: lm_ok_def)
  qed
  have u: "unlink_cell (\<lambda>p. pam_config p = c) (am_procs recog) (amlist recog) =
      Some (map_option (\<lambda>x. (x, filter (\<lambda>y. y \<noteq> x) (amlist recog)))
        (find (\<lambda>a. pam_config (the (am_procs recog a)) = c) (amlist recog)))"
    using wf_chains [OF wf] by (intro unlink_unique wf_allocated(3) [OF wf]) (simp_all add: chains_ok_def)
  have m: "unlink_address c (am_confs (jconf recog)) (am_root (jconf recog)) =
      Some (Some (c, filter (\<lambda>x. x \<noteq> c) (am_root (jconf recog))))"
    if "find (\<lambda>a. pam_config (the (am_procs recog a)) = c) (amlist recog) = Some a" for a
    using find_unique_config [OF that] wf_am [OF wf, of a] wf_chains [OF wf]
    by (intro unlink_member) (auto simp: am_ok_def chains_ok_def)
  have used: "am_used recog c \<longleftrightarrow> find ?P (process_list recog) \<noteq> None \<or> find ?Q (lmlist recog) \<noteq> None"
    by (auto simp: am_used_def find_None_iff2)
  show ?thesis
  proof (cases "am_used recog c")
    case True
    with used c f g show ?thesis
      by (cases "find ?P (process_list recog)") (auto simp: j_process_am_remove_def)
  next
    case False
    with used c F u m f g show ?thesis
      by (cases "find (\<lambda>a. pam_config (the (am_procs recog a)) = c) (amlist recog)")
        (auto simp: j_process_am_remove_def releases_def without_am_def)
  qed
qed

lemma wf_without_am:
  assumes wf: "wf_recog recog" and a: "a \<in> set (amlist recog)" "pam_config (the (am_procs recog a)) = c"
    and unused: "\<not> am_used recog c"
  shows "wf_recog (without_am recog a c)"
proof -
  let ?w = "without_am recog a c"
  have other: "pam_config (the (am_procs recog x)) \<noteq> c" if "x \<in> set (amlist recog)" "x \<noteq> a" for x
    using wf_chains [OF wf] a that by (auto simp: chains_ok_def dest: inj_onD)
  have "proc_ok ?w x" if x: "x \<in> set (process_list recog)" for x
    using wf_proc [OF wf x]
  proof (rule proc_okE)
    fix p k m l
    assume "processes recog x = Some p" "search_confs (jconf recog) (rp_config p) = Some k"
      "rp_config p \<in> set (search_root (jconf recog))" "rp_am p \<in> set (amlist recog)"
      "am_procs recog (rp_am p) = Some m" "rp_lm p \<in> set (lmlist recog)"
      "lm_procs recog (rp_lm p) = Some l"
      "sc_amconf k = Some (pam_config m)" "sc_lmconf k = Some (plm_config l)" "conf_of recog x = k"
    moreover from this unused x a(2) have "rp_am p \<noteq> a" by (auto simp: am_used_def)
    ultimately show ?thesis
      by (intro proc_okI [of _ _ p k m l]) (simp_all add: without_am_def)
  qed
  moreover have "lm_ok ?w x" if x: "x \<in> set (lmlist recog)" for x
  proof -
    from wf_lm [OF wf x] obtain p where p: "lm_procs recog x = Some p"
      "plm_config p \<in> set (lm_root (jconf recog))" "plm_am p \<in> set (amlist recog)"
      by (auto simp: lm_ok_def)
    moreover from this unused x a(2) have "plm_am p \<noteq> a" by (auto simp: am_used_def)
    ultimately show ?thesis by (simp add: lm_ok_def without_am_def)
  qed
  moreover have "am_ok ?w x" if x: "x \<in> set (amlist recog)" "x \<noteq> a" for x
    using wf_am [OF wf x(1)] other [OF x] x(2) by (auto simp: am_ok_def without_am_def)
  moreover have "chains_ok ?w" by (rule chains_without(3) [OF wf_chains [OF wf]])
  ultimately show ?thesis by (simp add: wf_recog_def) (simp add: without_am_def)
qed

section \<open>An engine of one process\<close>

definition ex_jconf :: Jconf where
  "ex_jconf =
     \<lparr>am_confs = [1 \<mapsto> \<lparr>am_id = 1, am_name = ''am''\<rparr>],
      lm_confs = [2 \<mapsto> \<lparr>lm_id = 1, lm_name = ''lm''\<rparr>, 8 \<mapsto> \<lparr>lm_id = 2, lm_name = ''spare''\<rparr>],
      search_confs =
        [3 \<mapsto> \<lparr>sc_id = 1, sc_name = ''sr'', sc_amconf = Some 1, sc_lmconf = Some 2\<rparr>,
         7 \<mapsto> \<lparr>sc_id = 2, sc_name = ''spare'', sc_amconf = Some 1, sc_lmconf = Some 8\<rparr>],
      am_root = [1], lm_root = [2, 8], search_root = [3, 7],
      input_type = INPUT_VECTOR, speech_input = SP_EXTERN,
      input_plugin_source = -1\<rparr>"

definition ex_recog :: Recog where
  "ex_recog =
     \<lparr>jconf = ex_jconf,
      adin = \<lparr>ad_pause = None, ad_terminate = None, ad_resume = None\<rparr>,
      mfcclist = None,
      am_procs = [4 \<mapsto> \<lparr>pam_config = 1\<rparr>],
      lm_procs = [5 \<mapsto> \<lparr>plm_config = 2, plm_am = 4, uniprob = None, biprob = None, lmprob = None\<rparr>,
                  9 \<mapsto> \<lparr>plm_config = 8, plm_am = 4, uniprob = None, biprob = None, lmprob = None\<rparr>],
      processes = [6 \<mapsto> \<lparr>rp_config = 3, rp_am = 4, rp_lm = 5, active = 0, live = True\<rparr>],
      amlist = [4], lmlist = [5, 9], process_list = [6],
      process_active = True, process_want_terminate = False, process_want_reload = False,
      gram_switch_input_method = SM_PAUSE, calc_vector = None\<rparr>"

lemma wf_ex_recog: "wf_recog ex_recog"
  by (simp add: wf_recog_def chains_ok_def proc_ok_def lm_ok_def am_ok_def ex_recog_def ex_jconf_def)

section \<open>Properties\<close>

text \<open>C14: Removing a recognition process of a well-formed engine accesses only allocated
  objects and leaves a well-formed engine.  It returns TRUE exactly when a process has the
  given search configuration; then that process and that configuration are unlinked and
  released, everything else is kept, and a reload is requested; otherwise nothing changes.\<close>

theorem j_process_remove_safe:
  assumes "wf_recog recog" "releases F" "search_confs (jconf recog) s \<noteq> None"
  shows "\<exists>ok recog'. j_process_remove F recog (Some s) = Some (ok, recog') \<and> wf_recog recog'
    \<and> (ok \<longleftrightarrow> (\<exists>r\<in>set (process_list recog). rp_config (the (processes recog r)) = s))
    \<and> (ok \<longrightarrow> (\<exists>r\<in>set (process_list recog). recog' = without_process recog r s))
    \<and> (\<not> ok \<longrightarrow> recog' = recog)"
proof (cases "find (\<lambda>r. rp_config (the (processes recog r)) = s) (process_list recog)")
  case None
  then have "\<not> (\<exists>r\<in>set (process_list recog). rp_config (the (processes recog r)) = s)"
    by (simp add: find_None_iff2)
  with None assms show ?thesis by (auto simp: j_process_remove_cases)
next
  case (Some r)
  from find_unique_config [OF this] have r: "r \<in> set (process_list recog)"
    "rp_config (the (processes recog r)) = s" by auto
  with Some assms show ?thesis
    using wf_without_process [OF assms(1) r] by (auto simp: j_process_remove_cases)
qed

theorem j_process_remove_safe_witness:
  "\<exists>recog'. j_process_remove free_all ex_recog (Some 3) = Some (True, recog') \<and> wf_recog recog'
     \<and> process_list recog' = [] \<and> search_root (jconf recog') = [7]"
proof -
  have "search_confs (jconf ex_recog) 3 \<noteq> None"
    "process_list ex_recog = [6]" "rp_config (the (processes ex_recog 6)) = 3"
    "search_root (jconf ex_recog) = [3, 7]"
    by (simp_all add: ex_recog_def ex_jconf_def)
  with j_process_remove_safe [OF wf_ex_recog releases_free_all, of 3] show ?thesis
    by (auto simp: j_process_remove_cases [OF wf_ex_recog releases_free_all] without_process_def)
qed

text \<open>Removing an LM process of a well-formed engine accesses only allocated objects and
  leaves a well-formed engine.  It succeeds exactly when an LM process has the given
  configuration and the search configuration of no recognition process refers to it;
  otherwise it returns FALSE and changes nothing.\<close>

theorem j_process_lm_remove_safe:
  assumes "wf_recog recog" "releases F" "lm_confs (jconf recog) c \<noteq> None"
  shows "\<exists>ok recog'. j_process_lm_remove F recog (Some c) = Some (ok, recog') \<and> wf_recog recog'
    \<and> (ok \<longleftrightarrow> (\<exists>l\<in>set (lmlist recog). plm_config (the (lm_procs recog l)) = c)
        \<and> (\<forall>r\<in>set (process_list recog). sc_lmconf (conf_of recog r) \<noteq> Some c))
    \<and> (ok \<longrightarrow> (\<exists>l\<in>set (lmlist recog). recog' = without_lm recog l c))
    \<and> (\<not> ok \<longrightarrow> recog' = recog)"
proof (cases "\<exists>r\<in>set (process_list recog). sc_lmconf (conf_of recog r) = Some c")
  case True
  with assms show ?thesis by (auto simp: j_process_lm_remove_cases)
next
  case False
  show ?thesis
  proof (cases "find (\<lambda>l. plm_config (the (lm_procs recog l)) = c) (lmlist recog)")
    case None
    then have "\<not> (\<exists>l\<in>set (lmlist recog). plm_config (the (lm_procs recog l)) = c)"
      by (simp add: find_None_iff2)
    with None False assms show ?thesis by (auto simp: j_process_lm_remove_cases)
  next
    case (Some l)
    from find_unique_config [OF this] have l: "l \<in> set (lmlist recog)"
      "plm_config (the (lm_procs recog l)) = c" by auto
    with Some False assms wf_without_lm [OF assms(1) l] show ?thesis
      by (auto simp: j_process_lm_remove_cases)
  qed
qed

theorem j_process_lm_remove_safe_witness:
  "j_process_lm_remove free_all ex_recog (Some 2) = Some (False, ex_recog)"
proof -
  have "lm_confs (jconf ex_recog) 2 \<noteq> None" "6 \<in> set (process_list ex_recog)"
    "sc_lmconf (conf_of ex_recog 6) = Some 2"
    by (simp_all add: ex_recog_def ex_jconf_def conf_of_def)
  with j_process_lm_remove_safe [OF wf_ex_recog releases_free_all, of 2] show ?thesis by auto
qed

text \<open>Removing an AM process of a well-formed engine accesses only allocated objects and
  leaves a well-formed engine.  It succeeds exactly when an AM process has the given
  configuration and neither a recognition process nor an LM process uses it; otherwise it
  returns FALSE and changes nothing.\<close>

theorem j_process_am_remove_safe:
  assumes "wf_recog recog" "releases F" "am_confs (jconf recog) c \<noteq> None"
  shows "\<exists>ok recog'. j_process_am_remove F recog (Some c) = Some (ok, recog') \<and> wf_recog recog'
    \<and> (ok \<longleftrightarrow> (\<exists>a\<in>set (amlist recog). pam_config (the (am_procs recog a)) = c) \<and> \<not> am_used recog c)
    \<and> (ok \<longrightarrow> (\<exists>a\<in>set (amlist recog). recog' = without_am recog a c))
    \<and> (\<not> ok \<longrightarrow> recog' = recog)"
proof (cases "am_used recog c")
  case True
  with assms show ?thesis by (auto simp: j_process_am_remove_cases)
next
  case False
  show ?thesis
  proof (cases "find (\<lambda>a. pam_config (the (am_procs recog a)) = c) (amlist recog)")
    case None
    then have "\<not> (\<exists>a\<in>set (amlist recog). pam_config (the (am_procs recog a)) = c)"
      by (simp add: find_None_iff2)
    with None False assms show ?thesis by (auto simp: j_process_am_remove_cases)
  next
    case (Some a)
    from find_unique_config [OF this] have a: "a \<in> set (amlist recog)"
      "pam_config (the (am_procs recog a)) = c" by auto
    with Some False assms wf_without_am [OF assms(1) a] show ?thesis
      by (auto simp: j_process_am_remove_cases)
  qed
qed

theorem j_process_am_remove_safe_witness:
  "j_process_am_remove free_all ex_recog (Some 1) = Some (False, ex_recog)"
proof -
  have "am_confs (jconf ex_recog) 1 \<noteq> None" "am_used ex_recog 1"
    by (simp_all add: ex_recog_def ex_jconf_def conf_of_def am_used_def)
  with j_process_am_remove_safe [OF wf_ex_recog releases_free_all, of 1] show ?thesis by auto
qed

text \<open>The check of \<open>j_process_lm_remove\<close> looks at the configurations of the recognition
  processes only.  A search configuration that is registered but has no process (what a
  failed \<open>j_process_add_lm\<close> leaves behind) keeps its pointer to the released LM configuration.\<close>

theorem j_process_lm_remove_dangling:
  assumes "wf_recog recog" "releases F" "lm_confs (jconf recog) c \<noteq> None"
    and "l \<in> set (lmlist recog)" "plm_config (the (lm_procs recog l)) = c"
    and "\<forall>r\<in>set (process_list recog). sc_lmconf (conf_of recog r) \<noteq> Some c"
    and "s \<in> set (search_root (jconf recog))" "search_confs (jconf recog) s = Some k"
      "sc_lmconf k = Some c"
  shows "\<exists>recog'. j_process_lm_remove F recog (Some c) = Some (True, recog')
    \<and> s \<in> set (search_root (jconf recog')) \<and> search_confs (jconf recog') s = Some k
    \<and> sc_lmconf k = Some c \<and> lm_confs (jconf recog') c = None"
proof (cases "find (\<lambda>l. plm_config (the (lm_procs recog l)) = c) (lmlist recog)")
  case None
  with assms(4,5) show ?thesis by (auto simp: find_None_iff2)
next
  case (Some m)
  with assms show ?thesis by (auto simp: j_process_lm_remove_cases without_lm_def)
qed

theorem j_process_lm_remove_dangling_witness:
  "\<exists>recog'. j_process_lm_remove free_all ex_recog (Some 8) = Some (True, recog')
    \<and> 7 \<in> set (search_root (jconf recog'))
    \<and> map_option sc_lmconf (search_confs (jconf recog') 7) = Some (Some 8)
    \<and> lm_confs (jconf recog') 8 = None"
  using j_process_lm_remove_dangling [OF wf_ex_recog releases_free_all, of 8 9 7
      "\<lparr>sc_id = 2, sc_name = ''spare'', sc_amconf = Some 1, sc_lmconf = Some 8\<rparr>"]
  by (auto simp: ex_recog_def ex_jconf_def conf_of_def)

section \<open>Sequences of requests\<close>

datatype request = Pause | Terminate | Resume | GrammarUpdate | ResetReload

fun do_request :: "request \<Rightarrow> Recog \<Rightarrow> (Recog \<times> nat list) option" where
  "do_request Pause recog = j_request_pause recog"
| "do_request Terminate recog = j_request_terminate recog"
| "do_request Resume recog = j_request_resume recog"
| "do_request GrammarUpdate recog = Some (schedule_grammar_update recog, [])"
| "do_request ResetReload recog = Some (j_reset_reload recog, [])"

fun do_requests :: "request list \<Rightarrow> Recog \<Rightarrow> (Recog \<times> nat list) option" where
  "do_requests [] recog = Some (recog, [])"
| "do_requests (q # qs) recog =
     (case do_request q recog of
        None \<Rightarrow> None
      | Some (recog1, fs) \<Rightarrow> map_option (map_prod id (append fs)) (do_requests qs recog1))"

text \<open>
  The specification: the stop requests since the last resume, and the function of the input
  module a request calls.
\<close>

definition stops :: "request list \<Rightarrow> request list" where
  "stops qs = filter (\<lambda>q. q = Pause \<or> q = Terminate) (rev (takeWhile (\<lambda>q. q \<noteq> Resume) (rev qs)))"

fun input_call :: "Recog \<Rightarrow> request \<Rightarrow> nat list" where
  "input_call recog Pause = the (control_input recog ad_pause fv_pause)"
| "input_call recog Terminate = the (control_input recog ad_terminate fv_terminate)"
| "input_call recog Resume = the (control_input recog ad_resume fv_resume)"
| "input_call recog _ = []"

definition input_ready :: "Recog \<Rightarrow> bool" where
  "input_ready recog \<longleftrightarrow>
     \<not> (input_type (jconf recog) = INPUT_VECTOR \<and> speech_input (jconf recog) = SP_MFCMODULE
        \<and> mfcclist recog = None)"

definition flags_only :: "Recog \<Rightarrow> Recog \<Rightarrow> bool" where
  "flags_only recog recog' \<longleftrightarrow>
     recog' = recog\<lparr>process_active := process_active recog',
                    process_want_terminate := process_want_terminate recog',
                    process_want_reload := process_want_reload recog'\<rparr>"

lemma control_input_flags [simp]:
  "control_input (recog\<lparr>process_active := x\<rparr>) ad fv = control_input recog ad fv"
  "control_input (recog\<lparr>process_want_terminate := x\<rparr>) ad fv = control_input recog ad fv"
  "control_input (recog\<lparr>process_want_reload := x\<rparr>) ad fv = control_input recog ad fv"
  by (auto simp: control_input_def split: input_type.split option.split)

lemma control_input_ready: "input_ready recog \<Longrightarrow> control_input recog ad fv \<noteq> None"
  by (auto simp: input_ready_def control_input_def split: input_type.splits option.splits)

lemma stops_snoc:
  "stops (qs @ [q]) =
     (if q = Resume then [] else stops qs @ (if q = Pause \<or> q = Terminate then [q] else []))"
  by (simp add: stops_def)

lemma append_comp: "map_prod id (append xs) \<circ> map_prod id (append ys) = map_prod id (append (xs @ ys))"
  by (auto simp: fun_eq_iff)

lemma do_requests_snoc:
  "do_requests (qs @ [q]) recog =
     (case do_requests qs recog of
        None \<Rightarrow> None
      | Some (recog1, fs) \<Rightarrow> map_option (map_prod id (append fs)) (do_request q recog1))"
proof (induction qs arbitrary: recog)
  case Nil
  show ?case by (auto split: option.split)
next
  case (Cons p qs)
  show ?case
  proof (cases "do_request p recog")
    case (Some x)
    then show ?thesis
      by (cases x) (auto simp: Cons.IH option.map_comp append_comp split: option.split)
  qed simp
qed

lemma do_request_step:
  assumes "flags_only recog recog1" "input_ready recog"
  shows "\<exists>recog2. do_request q recog1 = Some (recog2, input_call recog q) \<and> flags_only recog recog2
    \<and> process_active recog2 = (q = Resume \<or> process_active recog1 \<and> q \<noteq> Pause \<and> q \<noteq> Terminate)
    \<and> (\<not> process_active recog2 \<longrightarrow> process_want_terminate recog2 =
         (if process_active recog1 then q = Terminate else process_want_terminate recog1))"
proof -
  have r1: "recog1 = recog\<lparr>process_active := process_active recog1,
      process_want_terminate := process_want_terminate recog1,
      process_want_reload := process_want_reload recog1\<rparr>" (is "_ = ?r1")
    using assms(1) by (simp add: flags_only_def)
  have c: "control_input recog ad fv = Some (the (control_input recog ad fv))" for ad fv
    using control_input_ready [OF assms(2)] by simp
  obtain x y z where xyz: "recog1 = recog\<lparr>process_active := x, process_want_terminate := y,
      process_want_reload := z\<rparr>" using r1 by blast
  show ?thesis unfolding xyz
    by (cases q; cases "gram_switch_input_method recog")
      (simp_all add: flags_only_def j_request_pause_def j_request_terminate_def
        j_request_resume_def schedule_grammar_update_def j_reset_reload_def Let_def c [symmetric])
qed

text \<open>Requests to a running engine, in any order: they change the three flags only; the
  engine is active afterwards exactly when no pause or terminate request came since the
  last resume; if it is not, the current input is discarded exactly when the first of those
  was a terminate request; and each request calls its function of the input module once.\<close>

theorem requests_first_stop_wins:
  assumes "process_active recog" "input_ready recog"
  shows "\<exists>recog'. do_requests qs recog = Some (recog', concat (map (input_call recog) qs))
    \<and> flags_only recog recog' \<and> (process_active recog' \<longleftrightarrow> stops qs = [])
    \<and> (\<not> process_active recog' \<longrightarrow> (process_want_terminate recog' \<longleftrightarrow> hd (stops qs) = Terminate))"
proof (induction qs rule: rev_induct)
  case Nil
  with assms show ?case by (simp add: stops_def flags_only_def)
next
  case (snoc q qs)
  then obtain recog1 where r1: "do_requests qs recog = Some (recog1, concat (map (input_call recog) qs))"
    "flags_only recog recog1" "process_active recog1 \<longleftrightarrow> stops qs = []"
    "\<not> process_active recog1 \<longrightarrow> (process_want_terminate recog1 \<longleftrightarrow> hd (stops qs) = Terminate)"
    by blast
  from do_request_step [OF r1(2) assms(2), of q] obtain recog2
    where r2: "do_request q recog1 = Some (recog2, input_call recog q)" "flags_only recog recog2"
    "process_active recog2 = (q = Resume \<or> process_active recog1 \<and> q \<noteq> Pause \<and> q \<noteq> Terminate)"
    "\<not> process_active recog2 \<longrightarrow> process_want_terminate recog2 =
         (if process_active recog1 then q = Terminate else process_want_terminate recog1)"
    by blast
  have "do_requests (qs @ [q]) recog =
      Some (recog2, concat (map (input_call recog) (qs @ [q])))"
    using r1(1) r2(1) by (simp add: do_requests_snoc)
  moreover have "process_active recog2 \<longleftrightarrow> stops (qs @ [q]) = []"
    using r1(3) r2(3) by (auto simp: stops_snoc)
  moreover have "\<not> process_active recog2 \<longrightarrow>
      (process_want_terminate recog2 \<longleftrightarrow> hd (stops (qs @ [q])) = Terminate)"
    using r1(3,4) r2(3,4) by (auto simp: stops_snoc hd_append)
  ultimately show ?case using r2(2) by blast
qed

theorem requests_first_stop_wins_witness:
  "\<exists>recog'. do_requests [Terminate, Resume, Pause, Terminate] ex_recog = Some (recog', [])
     \<and> \<not> process_active recog' \<and> \<not> process_want_terminate recog'"
  using requests_first_stop_wins [of ex_recog "[Terminate, Resume, Pause, Terminate]"]
  by (simp add: ex_recog_def ex_jconf_def input_ready_def stops_def control_input_def) blast

section \<open>Activation and look-up\<close>

text \<open>Activating a process by its name in a well-formed engine succeeds exactly when a
  process has a search configuration of that name; then the first such process is marked
  to become alive, no other process and nothing else but the reload flag changes, and the
  engine stays well-formed.\<close>

theorem j_process_activate_first:
  assumes wf: "wf_recog recog"
  shows "j_process_activate recog name =
    (case find (\<lambda>r. sc_name (conf_of recog r) = name) (process_list recog) of
       None \<Rightarrow> Some (False, recog)
     | Some r \<Rightarrow> Some (True, recog\<lparr>processes := (processes recog)(r \<mapsto>
         (the (processes recog r))\<lparr>active := 1\<rparr>), process_want_reload := True\<rparr>))
    \<and> (\<forall>ok recog'. j_process_activate recog name = Some (ok, recog') \<longrightarrow> wf_recog recog')"
proof -
  have f: "find_process (\<lambda>c. sc_name c = name) (processes recog) (search_confs (jconf recog))
      (process_list recog) = Some (find (\<lambda>r. sc_name (conf_of recog r) = name) (process_list recog))"
    using wf_proc [OF wf] by (intro find_process_find) blast
  show ?thesis
  proof (cases "find (\<lambda>r. sc_name (conf_of recog r) = name) (process_list recog)")
    case None
    with f wf show ?thesis by (simp add: j_process_activate_def set_active_def)
  next
    case (Some r)
    from find_unique_config [OF this] wf_allocated(1) [OF wf]
    obtain p where p: "processes recog r = Some p" by auto
    let ?r = "recog\<lparr>processes := (processes recog)(r \<mapsto> p\<lparr>active := 1\<rparr>), process_want_reload := True\<rparr>"
    have e: "j_process_activate recog name = Some (True, ?r)"
      using f Some p by (simp add: j_process_activate_def set_active_def)
    have "proc_ok ?r x" if "x \<in> set (process_list recog)" for x
      using wf_proc [OF wf that]
    proof (rule proc_okE)
      fix q c a l
      assume "processes recog x = Some q" "search_confs (jconf recog) (rp_config q) = Some c"
        "rp_config q \<in> set (search_root (jconf recog))" "rp_am q \<in> set (amlist recog)"
        "am_procs recog (rp_am q) = Some a" "rp_lm q \<in> set (lmlist recog)"
        "lm_procs recog (rp_lm q) = Some l"
        "sc_amconf c = Some (pam_config a)" "sc_lmconf c = Some (plm_config l)"
      then show ?thesis
        using p by (intro proc_okI [of _ _ "if x = r then q\<lparr>active := 1\<rparr> else q" c a l]) auto
    qed
    moreover have "(\<lambda>x. rp_config (the (processes ?r x))) = (\<lambda>x. rp_config (the (processes recog x)))"
      using p by auto
    then have "chains_ok ?r" using wf_chains [OF wf] unfolding chains_ok_def by simp
    moreover have "lm_ok ?r x" if "x \<in> set (lmlist recog)" for x
      using wf_lm [OF wf that] by (simp add: lm_ok_def)
    moreover have "am_ok ?r x" if "x \<in> set (amlist recog)" for x
      using wf_am [OF wf that] by (simp add: am_ok_def)
    ultimately have "wf_recog ?r" unfolding wf_recog_def by simp
    with e Some p show ?thesis by simp
  qed
qed

theorem j_process_activate_first_witness:
  "\<exists>recog'. j_process_activate ex_recog ''sr'' = Some (True, recog') \<and> wf_recog recog'
    \<and> map_option active (processes recog' 6) = Some 1"
  using j_process_activate_first [OF wf_ex_recog, of "''sr''"]
  by (simp add: ex_recog_def ex_jconf_def conf_of_def)

end
