(* ===== verification/Vsegment.thy ===== *)
theory Vsegment
  imports Complex_Main Prelude
begin

text \<open>
  Viterbi alignment of a sentence HMM with the input (\<open>vsegment.c\<close>, \<open>viterbi_segment\<close>).
  Log probabilities (C \<open>float\<close>) are real numbers: rounding is not modelled.  The value of
  \<open>LOG_ZERO\<close> and the output probability of a state at a frame come from libsent, which is
  not part of the repository, and are parameters.  A \<open>SEGTOKEN *\<close> is the list of the tokens
  on its \<open>next\<close> chain (NULL is the empty list): a token is never changed once it is made.
  Arrays are lists; an HMM with an arc or a unit boundary outside its states, and the case
  in which the comparison of the unsigned frame counter with \<open>-1\<close> never ends the loop, give
  \<open>None\<close>.
\<close>

section \<open>Definitions\<close>

type_synonym LOGPROB = real

record A_CELL =
  ac_a :: LOGPROB
  ac_arc :: nat

record HMM_STATE =
  st_ac :: "A_CELL list"
  st_out_null :: bool

type_synonym HMM = "HMM_STATE list"

record SEGTOKEN =
  last_id :: int
  last_end_frame :: int
  last_end_score :: LOGPROB

definition root_token :: SEGTOKEN where
  "root_token = \<lparr>last_id = -1, last_end_frame = -1, last_end_score = 0\<rparr>"

text \<open>The two markers of the mode without multipath: which unit starts or ends at a state.\<close>

fun mark_units :: "nat list \<Rightarrow> int \<Rightarrow> nat \<Rightarrow> int list \<times> int list \<Rightarrow> int list \<times> int list" where
  "mark_units [] i start u = u"
| "mark_units (e # es) i start (u_start, u_end) =
     mark_units es (i + 1) (e + 1) (u_start[start := i], u_end[e := i])"

definition unit_markers :: "nat \<Rightarrow> nat list \<Rightarrow> int list \<times> int list" where
  "unit_markers len endstates = mark_units endstates 0 0 (replicate len (-1), replicate len (-1))"

text \<open>One arc, all arcs of one state, and all states: \<open>nodescore[tn]\<close> and \<open>from_node\<close>.\<close>

definition relax_arc ::
  "LOGPROB \<Rightarrow> nat \<Rightarrow> A_CELL \<Rightarrow> LOGPROB list \<times> int list \<Rightarrow> LOGPROB list \<times> int list" where
  "relax_arc s n c acc =
     (case acc of (score, from_node) \<Rightarrow>
        let tmpsum = s + ac_a c
        in if score ! ac_arc c < tmpsum
           then (score[ac_arc c := tmpsum], from_node[ac_arc c := int n])
           else (score, from_node))"

definition relax_state ::
  "LOGPROB \<Rightarrow> HMM \<Rightarrow> LOGPROB list \<Rightarrow> nat \<Rightarrow> LOGPROB list \<times> int list \<Rightarrow> LOGPROB list \<times> int list" where
  "relax_state log_zero hmm prev n acc =
     (if prev ! n \<le> log_zero then acc
      else fold (relax_arc (prev ! n) n) (st_ac (hmm ! n)) acc)"

definition select_paths ::
  "LOGPROB \<Rightarrow> HMM \<Rightarrow> LOGPROB list \<Rightarrow> LOGPROB list \<times> int list" where
  "select_paths log_zero hmm prev =
     fold (relax_state log_zero hmm prev) [0..<length hmm]
       (replicate (length hmm) log_zero, replicate (length hmm) (-1))"

text \<open>The index of the unit a state belongs to, found by scanning \<open>endstates\<close>.\<close>

fun unit_index :: "nat list \<Rightarrow> nat \<Rightarrow> nat \<Rightarrow> nat" where
  "unit_index [] i n = i"
| "unit_index (e # es) i n = (if n > e then unit_index es (i + 1) n else i)"

text \<open>
  The token of one state at frame \<open>t\<close>.  In multipath mode a state that was not reached keeps
  what the buffer held two frames ago (the assignment of NULL is commented out).
\<close>

definition new_token :: "int \<Rightarrow> nat \<Rightarrow> LOGPROB \<Rightarrow> SEGTOKEN" where
  "new_token i t s = \<lparr>last_id = i, last_end_frame = int t - 1, last_end_score = s\<rparr>"

definition propagate_multipath ::
  "LOGPROB \<Rightarrow> nat list \<Rightarrow> nat \<Rightarrow> LOGPROB list \<Rightarrow> SEGTOKEN list list \<Rightarrow> SEGTOKEN list list
    \<Rightarrow> LOGPROB list \<Rightarrow> int list \<Rightarrow> nat \<Rightarrow> SEGTOKEN list" where
  "propagate_multipath log_zero endstates t prev prev_tok old_tok score from_node n =
     (if from_node ! n = -1 \<or> score ! n \<le> log_zero then old_tok ! n
      else
        let m = nat (from_node ! n); i = unit_index endstates 0 m
        in if n > endstates ! i then new_token (int i) t (prev ! m) # prev_tok ! m
           else prev_tok ! m)"

definition propagate_single ::
  "LOGPROB \<Rightarrow> int list \<Rightarrow> int list \<Rightarrow> nat \<Rightarrow> LOGPROB list \<Rightarrow> SEGTOKEN list list
    \<Rightarrow> LOGPROB list \<Rightarrow> int list \<Rightarrow> nat \<Rightarrow> SEGTOKEN list" where
  "propagate_single log_zero u_start u_end t prev prev_tok score from_node n =
     (if from_node ! n = -1 then []
      else
        let m = nat (from_node ! n)
        in if score ! n \<le> log_zero then prev_tok ! m
           else if u_end ! m \<noteq> -1 \<and> u_start ! n \<noteq> -1 \<and> m \<noteq> n
           then new_token (u_end ! m) t (prev ! m) # prev_tok ! m
           else prev_tok ! m)"

definition add_outprob ::
  "LOGPROB \<Rightarrow> HMM \<Rightarrow> bool \<Rightarrow> (nat \<Rightarrow> nat \<Rightarrow> LOGPROB) \<Rightarrow> nat \<Rightarrow> LOGPROB list \<Rightarrow> nat \<Rightarrow> LOGPROB" where
  "add_outprob log_zero hmm multipath outprob t score n =
     (if multipath \<and> st_out_null (hmm ! n) then score ! n
      else if score ! n > log_zero then score ! n + outprob t n
      else score ! n)"

text \<open>
  The state between frames: \<open>nodescore[tn]\<close>, \<open>tokenp[tn]\<close> and the other token buffer.
\<close>

record vstate =
  v_score :: "LOGPROB list"
  v_tok :: "SEGTOKEN list list"
  v_old :: "SEGTOKEN list list"

definition viterbi_init ::
  "LOGPROB \<Rightarrow> HMM \<Rightarrow> bool \<Rightarrow> (nat \<Rightarrow> nat \<Rightarrow> LOGPROB) \<Rightarrow> vstate" where
  "viterbi_init log_zero hmm multipath outprob =
     \<lparr>v_score = (replicate (length hmm) log_zero)[0 := (if multipath then 0 else outprob 0 0)],
      v_tok = replicate (length hmm) [root_token],
      v_old = replicate (length hmm) []\<rparr>"

definition viterbi_frame ::
  "LOGPROB \<Rightarrow> HMM \<Rightarrow> bool \<Rightarrow> (nat \<Rightarrow> nat \<Rightarrow> LOGPROB) \<Rightarrow> nat list \<Rightarrow> nat \<Rightarrow> nat
    \<Rightarrow> vstate \<Rightarrow> vstate" where
  "viterbi_frame log_zero hmm multipath outprob endstates samplenum t v =
     (case select_paths log_zero hmm (v_score v) of (score, from_node) \<Rightarrow>
        let (u_start, u_end) = unit_markers (length hmm) endstates;
            tok = map (\<lambda>n.
              if multipath
              then propagate_multipath log_zero endstates t (v_score v) (v_tok v) (v_old v)
                     score from_node n
              else propagate_single log_zero u_start u_end t (v_score v) (v_tok v)
                     score from_node n) [0..<length hmm]
        in \<lparr>v_score =
              (if multipath \<and> t = samplenum then score
               else map (add_outprob log_zero hmm multipath outprob t score) [0..<length hmm]),
            v_tok = tok, v_old = v_tok v\<rparr>)"

text \<open>What the caller gets through the return value and the four result pointers.\<close>

record seg_result =
  res_score :: LOGPROB
  res_id :: "int list"
  res_seg :: "int list"
  res_uscore :: "LOGPROB list"

fun normalize_rest :: "int \<Rightarrow> LOGPROB \<Rightarrow> int list \<Rightarrow> LOGPROB list \<Rightarrow> LOGPROB list" where
  "normalize_rest g s (g' # gs) (s' # ss) = (s' - s) / of_int (g' - g) # normalize_rest g' s' gs ss"
| "normalize_rest g s _ _ = []"

fun normalize_scores :: "int list \<Rightarrow> LOGPROB list \<Rightarrow> LOGPROB list" where
  "normalize_scores (g # gs) (s # ss) = s / of_int (g + 1) # normalize_rest g s gs ss"
| "normalize_scores _ _ = []"

definition trace_back ::
  "LOGPROB \<Rightarrow> bool \<Rightarrow> nat \<Rightarrow> nat \<Rightarrow> LOGPROB \<Rightarrow> SEGTOKEN list \<Rightarrow> seg_result" where
  "trace_back log_zero multipath ulen samplenum score tok =
     (let toks = takeWhile (\<lambda>k. last_end_frame k \<noteq> -1) tok;
          id = rev (map last_id toks) @ (if multipath then [] else [int ulen - 1]);
          seg = rev (map last_end_frame toks) @ (if multipath then [] else [int samplenum - 1]);
          uscore = rev (map last_end_score toks) @ (if multipath then [] else [score])
      in if id = [] then
           \<lparr>res_score = log_zero, res_id = [], res_seg = [], res_uscore = []\<rparr>
         else
           \<lparr>res_score = score, res_id = id, res_seg = seg,
            res_uscore = normalize_scores seg uscore\<rparr>)"

definition hmm_in_range :: "bool \<Rightarrow> HMM \<Rightarrow> nat list \<Rightarrow> bool" where
  "hmm_in_range multipath hmm endstates \<longleftrightarrow>
     hmm \<noteq> [] \<and> list_all (\<lambda>s. list_all (\<lambda>c. ac_arc c < length hmm) (st_ac s)) hmm
     \<and> list_all (\<lambda>e. e < length hmm) endstates
     \<and> (if multipath
         then list_all (\<lambda>n. st_ac (hmm ! n) = [] \<or> n \<le> last endstates) [0..<length hmm]
         else list_all (\<lambda>e. e + 1 < length hmm) (butlast endstates))"

definition viterbi_segment ::
  "LOGPROB \<Rightarrow> HMM \<Rightarrow> nat \<Rightarrow> (nat \<Rightarrow> nat \<Rightarrow> LOGPROB) \<Rightarrow> bool \<Rightarrow> nat list \<Rightarrow> seg_result option" where
  "viterbi_segment log_zero hmm samplenum outprob multipath endstates =
     (if length endstates < 1 then
        Some \<lparr>res_score = log_zero, res_id = [], res_seg = [], res_uscore = []\<rparr>
      else if \<not> hmm_in_range multipath hmm endstates then None
      else if \<not> multipath \<and> samplenum = 0 then None
      else
        let v = fold (viterbi_frame log_zero hmm multipath outprob endstates samplenum)
                  (if multipath then [0..<samplenum + 1] else [1..<samplenum])
                  (viterbi_init log_zero hmm multipath outprob)
        in Some (trace_back log_zero multipath (length endstates) samplenum
                   (v_score v ! (length hmm - 1)) (v_tok v ! (length hmm - 1))))"

section \<open>Selecting the best predecessor\<close>

text \<open>
  The nested loops over states and arcs are one loop over the candidates: predecessor,
  score and successor.
\<close>

definition candidates :: "LOGPROB \<Rightarrow> HMM \<Rightarrow> LOGPROB list \<Rightarrow> (nat \<times> A_CELL) list" where
  "candidates log_zero hmm prev =
     concat (map (\<lambda>n. if prev ! n \<le> log_zero then [] else map (Pair n) (st_ac (hmm ! n)))
       [0..<length hmm])"

lemma set_candidates:
  "(n, c) \<in> set (candidates log_zero hmm prev) \<longleftrightarrow>
     n < length hmm \<and> prev ! n > log_zero \<and> c \<in> set (st_ac (hmm ! n))"
  by (auto simp: candidates_def split: if_splits)

lemma relax_state_candidates:
  "relax_state log_zero hmm prev n =
     fold (\<lambda>(m, c). relax_arc (prev ! m) m c)
       (if prev ! n \<le> log_zero then [] else map (Pair n) (st_ac (hmm ! n)))"
  by (auto simp: relax_state_def fun_eq_iff fold_map comp_def)

lemma select_paths_candidates:
  "select_paths log_zero hmm prev =
     fold (\<lambda>(m, c). relax_arc (prev ! m) m c) (candidates log_zero hmm prev)
       (replicate (length hmm) log_zero, replicate (length hmm) (-1))"
proof -
  have "fold (relax_state log_zero hmm prev) ns acc =
      fold (\<lambda>(m, c). relax_arc (prev ! m) m c)
        (concat (map (\<lambda>n. if prev ! n \<le> log_zero then [] else map (Pair n) (st_ac (hmm ! n))) ns)) acc"
    for ns acc
    by (induction ns arbitrary: acc) (simp_all add: relax_state_candidates)
  then show ?thesis by (simp add: select_paths_def candidates_def)
qed

text \<open>The effect of the loop on the entry of one state: a maximum with a witness.\<close>

definition relaxed ::
  "LOGPROB list \<Rightarrow> (nat \<times> A_CELL) list \<Rightarrow> nat \<Rightarrow> LOGPROB \<times> int \<Rightarrow> LOGPROB \<times> int \<Rightarrow> bool" where
  "relaxed prev cs j old new \<longleftrightarrow>
     fst old \<le> fst new
     \<and> (\<forall>(n, c)\<in>set cs. ac_arc c = j \<longrightarrow> prev ! n + ac_a c \<le> fst new)
     \<and> (new = old \<or> (fst old < fst new \<and>
          (\<exists>(n, c)\<in>set cs. ac_arc c = j \<and> fst new = prev ! n + ac_a c \<and> snd new = int n)))"

lemma relaxed_Cons:
  assumes "relaxed prev cs j mid new" and "relaxed prev [x] j old mid"
  shows "relaxed prev (x # cs) j old new"
  using assms unfolding relaxed_def by (auto split: prod.splits)

lemma relax_fold:
  assumes "\<forall>(n, c)\<in>set cs. ac_arc c < length score" and "length from_node = length score"
    and "fold (\<lambda>(m, c). relax_arc (prev ! m) m c) cs (score, from_node) = (score', from_node')"
  shows "length score' = length score \<and> length from_node' = length score
    \<and> (\<forall>j < length score. relaxed prev cs j (score ! j, from_node ! j) (score' ! j, from_node' ! j))"
  using assms
proof (induction cs arbitrary: score from_node)
  case Nil
  then show ?case by (simp add: relaxed_def)
next
  case (Cons x cs)
  obtain n c where x: "x = (n, c)" by (cases x)
  obtain s1 f1 where r: "relax_arc (prev ! n) n c (score, from_node) = (s1, f1)" by fastforce
  with Cons.prems(1,2) x have l: "length s1 = length score" "length f1 = length score"
    by (auto simp: relax_arc_def Let_def split: if_splits)
  have one: "relaxed prev [x] j (score ! j, from_node ! j) (s1 ! j, f1 ! j)" if "j < length score" for j
    using that r x Cons.prems(1,2)
    by (auto simp: relax_arc_def relaxed_def Let_def nth_list_update split: if_splits)
  have "fold (\<lambda>(m, c). relax_arc (prev ! m) m c) cs (s1, f1) = (score', from_node')"
    using Cons.prems(3) x r by simp
  with Cons.IH [of s1 f1] Cons.prems(1) l
  have "length score' = length score \<and> length from_node' = length score
    \<and> (\<forall>j < length score. relaxed prev cs j (s1 ! j, f1 ! j) (score' ! j, from_node' ! j))" by auto
  then show ?case using one relaxed_Cons by blast
qed

section \<open>Paths through the HMM\<close>

text \<open>
  What the search ranges over: a state sequence (latest state first) that starts in state 0,
  follows arcs, and never lets its score fall to \<open>LOG_ZERO\<close> before or on an arc.  With it go its
  score and its tokens: one for each change of unit, with the frame before the change and
  the score of the path up to there.
\<close>

definition emit ::
  "HMM \<Rightarrow> bool \<Rightarrow> (nat \<Rightarrow> nat \<Rightarrow> LOGPROB) \<Rightarrow> nat \<Rightarrow> nat \<Rightarrow> nat \<Rightarrow> LOGPROB \<Rightarrow> LOGPROB" where
  "emit hmm multipath outprob samplenum t n s =
     (if multipath \<and> (t = samplenum \<or> st_out_null (hmm ! n)) then s else s + outprob t n)"

definition leaves_unit :: "HMM \<Rightarrow> bool \<Rightarrow> nat list \<Rightarrow> nat \<Rightarrow> nat \<Rightarrow> int option" where
  "leaves_unit hmm multipath endstates m n =
     (if multipath then
        (if n > endstates ! unit_index endstates 0 m then Some (int (unit_index endstates 0 m)) else None)
      else
        let (u_start, u_end) = unit_markers (length hmm) endstates
        in if u_end ! m \<noteq> -1 \<and> u_start ! n \<noteq> -1 \<and> m \<noteq> n then Some (u_end ! m) else None)"

inductive hmm_path ::
  "LOGPROB \<Rightarrow> HMM \<Rightarrow> bool \<Rightarrow> (nat \<Rightarrow> nat \<Rightarrow> LOGPROB) \<Rightarrow> nat list \<Rightarrow> nat
    \<Rightarrow> nat \<Rightarrow> nat list \<Rightarrow> LOGPROB \<Rightarrow> SEGTOKEN list \<Rightarrow> bool"
  for log_zero hmm multipath outprob endstates samplenum where
  start: "hmm_path log_zero hmm multipath outprob endstates samplenum
     (if multipath then 0 else 1) [0] (if multipath then 0 else outprob 0 0) [root_token]"
| arc: "hmm_path log_zero hmm multipath outprob endstates samplenum t (m # p) s b \<Longrightarrow>
     log_zero < s \<Longrightarrow> c \<in> set (st_ac (hmm ! m)) \<Longrightarrow> log_zero < s + ac_a c \<Longrightarrow>
     hmm_path log_zero hmm multipath outprob endstates samplenum (Suc t) (ac_arc c # m # p)
       (emit hmm multipath outprob samplenum t (ac_arc c) (s + ac_a c))
       (case leaves_unit hmm multipath endstates m (ac_arc c) of
          None \<Rightarrow> b | Some i \<Rightarrow> new_token i t s # b)"

lemma hmm_path_cases [consumes 1, case_names start arc]:
  assumes "hmm_path log_zero hmm multipath outprob endstates samplenum t' (n # p) s b"
  obtains "n = 0" "p = []" "t' = (if multipath then 0 else 1)"
      "s = (if multipath then 0 else outprob 0 0)"
  | t m q s' b' c where "t' = Suc t" "p = m # q" "n = ac_arc c"
      "hmm_path log_zero hmm multipath outprob endstates samplenum t (m # q) s' b'"
      "log_zero < s'" "c \<in> set (st_ac (hmm ! m))" "log_zero < s' + ac_a c"
      "s = emit hmm multipath outprob samplenum t n (s' + ac_a c)"
  using assms by (cases rule: hmm_path.cases) auto

lemma arc_in_range:
  "hmm_in_range multipath hmm endstates \<Longrightarrow> n < length hmm \<Longrightarrow> c \<in> set (st_ac (hmm ! n)) \<Longrightarrow>
     ac_arc c < length hmm"
  using nth_mem [of n hmm] by (auto simp: hmm_in_range_def list_all_iff)

lemma hmm_path_time:
  "hmm_path log_zero hmm multipath outprob endstates samplenum t p s b \<Longrightarrow>
     (if multipath then 0 else 1) \<le> t \<and> p \<noteq> [] \<and>
     length p + (if multipath then 0 else 1) = t + 1"
  by (induction rule: hmm_path.induct) auto

lemma hmm_path_range:
  "hmm_path log_zero hmm multipath outprob endstates samplenum t p s b \<Longrightarrow>
     hmm_in_range multipath hmm endstates \<Longrightarrow> \<forall>n\<in>set p. n < length hmm"
  by (induction rule: hmm_path.induct) (auto simp: arc_in_range, simp add: hmm_in_range_def)

text \<open>
  The invariant of the frame loop: every entry of \<open>nodescore\<close> is the best score of a path to
  that state, reached by a path that has the tokens stored with it; or there is no path.
\<close>

definition frame_inv ::
  "LOGPROB \<Rightarrow> HMM \<Rightarrow> bool \<Rightarrow> (nat \<Rightarrow> nat \<Rightarrow> LOGPROB) \<Rightarrow> nat list \<Rightarrow> nat \<Rightarrow> nat \<Rightarrow> vstate \<Rightarrow> bool" where
  "frame_inv log_zero hmm multipath outprob endstates samplenum t v \<longleftrightarrow>
     length (v_score v) = length hmm \<and> length (v_tok v) = length hmm \<and>
     (\<forall>n < length hmm.
        (\<forall>p s b. hmm_path log_zero hmm multipath outprob endstates samplenum t (n # p) s b \<longrightarrow>
           s \<le> v_score v ! n) \<and>
        ((\<exists>p. hmm_path log_zero hmm multipath outprob endstates samplenum t (n # p)
            (v_score v ! n) (v_tok v ! n))
         \<or> (v_score v ! n = log_zero \<and>
            \<not> (\<exists>p s b. hmm_path log_zero hmm multipath outprob endstates samplenum t (n # p) s b))))"

lemma frame_inv_init:
  assumes "hmm_in_range multipath hmm endstates"
  shows "frame_inv log_zero hmm multipath outprob endstates samplenum (if multipath then 0 else 1)
    (viterbi_init log_zero hmm multipath outprob)"
proof -
  have only: "n = 0 \<and> p = [] \<and> s = (if multipath then 0 else outprob 0 0)"
    if "hmm_path log_zero hmm multipath outprob endstates samplenum
      (if multipath then 0 else 1) (n # p) s b" for n p s b
    using that
  proof (cases rule: hmm_path_cases)
    case (arc t m q s' b' c)
    from hmm_path_time [OF arc(4)] arc(1) show ?thesis by (auto split: if_splits)
  qed auto
  let ?P = "hmm_path log_zero hmm multipath outprob endstates samplenum (if multipath then 0 else 1)"
  let ?v = "viterbi_init log_zero hmm multipath outprob"
  have "hmm \<noteq> []" using assms by (simp add: hmm_in_range_def)
  then have val: "v_score ?v ! n = (if n = 0 then (if multipath then 0 else outprob 0 0) else log_zero)"
    "v_tok ?v ! n = [root_token]" if "n < length hmm" for n
    using that by (simp_all add: viterbi_init_def nth_list_update)
  have "(\<forall>p s b. ?P (n # p) s b \<longrightarrow> s \<le> v_score ?v ! n) \<and>
      ((\<exists>p. ?P (n # p) (v_score ?v ! n) (v_tok ?v ! n))
       \<or> (v_score ?v ! n = log_zero \<and> \<not> (\<exists>p s b. ?P (n # p) s b)))" if n: "n < length hmm" for n
  proof (cases "n = 0")
    case True
    have "?P (0 # []) (v_score ?v ! n) (v_tok ?v ! n)"
      using hmm_path.start [of log_zero hmm multipath outprob endstates samplenum] val [OF n] True
      by simp
    moreover have "s \<le> v_score ?v ! n" if "?P (n # p) s b" for p s b
      using only [OF that] val(1) [OF n] by simp
    ultimately show ?thesis using True by blast
  next
    case False
    then have "\<not> ?P (n # p) s b" for p s b using only by blast
    with False val(1) [OF n] show ?thesis by simp
  qed
  then show ?thesis unfolding frame_inv_def by (simp add: viterbi_init_def)
qed

lemma viterbi_frame_inv:
  assumes ok: "hmm_in_range multipath hmm endstates"
    and t: "(if multipath then 0 else 1) \<le> t"
    and inv: "frame_inv log_zero hmm multipath outprob endstates samplenum t v"
  shows "frame_inv log_zero hmm multipath outprob endstates samplenum (Suc t)
    (viterbi_frame log_zero hmm multipath outprob endstates samplenum t v)"
proof -
  let ?P = "hmm_path log_zero hmm multipath outprob endstates samplenum"
  obtain score from_node where sel: "select_paths log_zero hmm (v_score v) = (score, from_node)"
    by fastforce
  obtain us ue where mk: "unit_markers (length hmm) endstates = (us, ue)" by fastforce
  define v' where "v' = viterbi_frame log_zero hmm multipath outprob endstates samplenum t v"
  note arcs = arc_in_range [OF ok]
  let ?cs = "candidates log_zero hmm (v_score v)"
  have "\<forall>(n, c)\<in>set ?cs. ac_arc c < length hmm" using arcs by (auto simp: set_candidates)
  then have "length score = length hmm \<and> length from_node = length hmm \<and>
      (\<forall>j < length hmm. relaxed (v_score v) ?cs j (log_zero, -1) (score ! j, from_node ! j))"
    using relax_fold [of ?cs "replicate (length hmm) log_zero" "replicate (length hmm) (-1)"
        "v_score v" score from_node] sel
    by (simp add: select_paths_candidates)
  then have rel: "relaxed (v_score v) ?cs j (log_zero, -1) (score ! j, from_node ! j)"
    if "j < length hmm" for j using that by blast
  have len: "length (v_score v') = length hmm" "length (v_tok v') = length hmm"
    using \<open>length score = _ \<and> _\<close> by (auto simp: v'_def viterbi_frame_def sel mk)
  have sc: "v_score v' ! n = (if log_zero < score ! n
      then emit hmm multipath outprob samplenum t n (score ! n) else score ! n)" if "n < length hmm" for n
    using that by (auto simp: v'_def viterbi_frame_def sel mk add_outprob_def emit_def)
  have below: "s + ac_a c \<le> score ! ac_arc c"
    if "?P t (m # p) s b" "log_zero < s" "c \<in> set (st_ac (hmm ! m))" for m p s b c
  proof -
    from hmm_path_range [OF that(1) ok] have m: "m < length hmm" by simp
    with inv that(1) have "s \<le> v_score v ! m" unfolding frame_inv_def by blast
    moreover from this that m have "(m, c) \<in> set ?cs" by (simp add: set_candidates)
    with rel [OF arcs [OF m that(3)]] have "v_score v ! m + ac_a c \<le> score ! ac_arc c"
      unfolding relaxed_def by auto
    ultimately show ?thesis by linarith
  qed
  have upper: "s \<le> v_score v' ! n" if n: "n < length hmm" and p: "?P (Suc t) (n # p) s b" for n p s b
    using p
  proof (cases rule: hmm_path_cases)
    case (arc t' m q s' b' c)
    then have "s' + ac_a c \<le> score ! n" using below by auto
    with arc n show ?thesis by (auto simp: sc emit_def)
  next
    case start
    with t show ?thesis by (auto split: if_splits)
  qed
  have attained: "(\<exists>p. ?P (Suc t) (n # p) (v_score v' ! n) (v_tok v' ! n))
      \<or> (v_score v' ! n = log_zero \<and> \<not> (\<exists>p s b. ?P (Suc t) (n # p) s b))" if n: "n < length hmm" for n
  proof (cases "log_zero < score ! n")
    case False
    from rel [OF n] have "log_zero \<le> score ! n" unfolding relaxed_def fst_conv by blast
    with False have "score ! n = log_zero" by simp
    moreover have "\<not> ?P (Suc t) (n # p) s b" for p s b
    proof
      assume "?P (Suc t) (n # p) s b"
      then show False
      proof (cases rule: hmm_path_cases)
        case start
        with t show ?thesis by (auto split: if_splits)
      next
        case (arc t' m q s' b' c)
        then have "s' + ac_a c \<le> score ! n" using below by auto
        with arc False show ?thesis by simp
      qed
    qed
    ultimately show ?thesis using False sc [OF n] by simp
  next
    case True
    from True have "(score ! n, from_node ! n) \<noteq> (log_zero, -1)" by auto
    with rel [OF n] have "\<exists>(m, c)\<in>set ?cs. ac_arc c = n \<and> score ! n = v_score v ! m + ac_a c
        \<and> from_node ! n = int m" unfolding relaxed_def fst_conv snd_conv by blast
    then obtain m c where mc: "(m, c) \<in> set ?cs" "ac_arc c = n"
      "score ! n = v_score v ! m + ac_a c" "from_node ! n = int m" by blast
    then have m: "m < length hmm" "log_zero < v_score v ! m" "c \<in> set (st_ac (hmm ! m))"
      by (simp_all add: set_candidates)
    then have "v_score v ! m \<noteq> log_zero" by simp
    with inv m(1) obtain q where q: "?P t (m # q) (v_score v ! m) (v_tok v ! m)"
      unfolding frame_inv_def by blast
    from hmm_path.arc [OF q m(2,3)] True mc(2,3)
    have "?P (Suc t) (n # m # q) (emit hmm multipath outprob samplenum t n (score ! n))
      (case leaves_unit hmm multipath endstates m n of
         None \<Rightarrow> v_tok v ! m | Some i \<Rightarrow> new_token i t (v_score v ! m) # v_tok v ! m)" by auto
    moreover have "v_tok v' ! n = (case leaves_unit hmm multipath endstates m n of
         None \<Rightarrow> v_tok v ! m | Some i \<Rightarrow> new_token i t (v_score v ! m) # v_tok v ! m)"
      using n True mc(4)
      by (simp add: v'_def viterbi_frame_def sel mk leaves_unit_def Let_def
          propagate_multipath_def propagate_single_def)
    ultimately show ?thesis using sc [OF n] True by auto
  qed
  show ?thesis
    unfolding frame_inv_def v'_def [symmetric] using len upper attained by blast
qed

lemma viterbi_fold_inv:
  assumes "hmm_in_range multipath hmm endstates" and "(if multipath then 0 else 1) \<le> t"
    and "frame_inv log_zero hmm multipath outprob endstates samplenum t v"
  shows "frame_inv log_zero hmm multipath outprob endstates samplenum (t + k)
    (fold (viterbi_frame log_zero hmm multipath outprob endstates samplenum) [t..<t + k] v)"
proof (induction k)
  case 0
  with assms show ?case by simp
next
  case (Suc k)
  then show ?case
    using viterbi_frame_inv [OF assms(1) _ Suc] assms(2) by simp
qed

lemma viterbi_segment_path:
  assumes ok: "endstates \<noteq> []" "hmm_in_range multipath hmm endstates" "multipath \<or> 0 < samplenum"
    and ex: "hmm_path log_zero hmm multipath outprob endstates samplenum
      (if multipath then samplenum + 1 else samplenum) ((length hmm - 1) # p0) s0 b0"
  obtains p s b where
    "hmm_path log_zero hmm multipath outprob endstates samplenum
      (if multipath then samplenum + 1 else samplenum) ((length hmm - 1) # p) s b"
    "\<forall>p' s' b'. hmm_path log_zero hmm multipath outprob endstates samplenum
      (if multipath then samplenum + 1 else samplenum) ((length hmm - 1) # p') s' b' \<longrightarrow> s' \<le> s"
    "viterbi_segment log_zero hmm samplenum outprob multipath endstates =
      Some (trace_back log_zero multipath (length endstates) samplenum s b)"
proof -
  let ?t0 = "if multipath then 0 else (1::nat)"
  let ?te = "if multipath then samplenum + 1 else samplenum"
  let ?n = "length hmm - 1"
  define v where "v = fold (viterbi_frame log_zero hmm multipath outprob endstates samplenum)
    [?t0..<?t0 + (?te - ?t0)] (viterbi_init log_zero hmm multipath outprob)"
  have te: "?t0 + (?te - ?t0) = ?te" using ok(3) by auto
  have fr: "[?t0..<?t0 + (?te - ?t0)] = (if multipath then [0..<samplenum + 1] else [1..<samplenum])"
    using te by auto
  have inv: "frame_inv log_zero hmm multipath outprob endstates samplenum ?te v"
    using viterbi_fold_inv [OF ok(2) order.refl frame_inv_init [OF ok(2)],
        where samplenum = samplenum and log_zero = log_zero and outprob = outprob and k = "?te - ?t0"]
    unfolding te v_def .
  have n: "?n < length hmm" using ok(2) by (simp add: hmm_in_range_def)
  have upper: "s' \<le> v_score v ! ?n" if "hmm_path log_zero hmm multipath outprob endstates samplenum
      ?te (?n # p') s' b'" for p' s' b'
    using inv n that unfolding frame_inv_def by blast
  have "\<exists>p. hmm_path log_zero hmm multipath outprob endstates samplenum ?te (?n # p)
      (v_score v ! ?n) (v_tok v ! ?n)"
    using inv n ex unfolding frame_inv_def by blast
  then obtain p where p: "hmm_path log_zero hmm multipath outprob endstates samplenum ?te (?n # p)
      (v_score v ! ?n) (v_tok v ! ?n)" ..
  have "viterbi_segment log_zero hmm samplenum outprob multipath endstates =
      Some (trace_back log_zero multipath (length endstates) samplenum (v_score v ! ?n) (v_tok v ! ?n))"
    using ok by (simp add: viterbi_segment_def v_def fr Let_def)
  with p upper that show thesis by blast
qed

section \<open>The segmentation\<close>

text \<open>Without multipath the tokens of a path are in the order of time, ending with the root.\<close>

lemma single_tokens:
  assumes "hmm_path log_zero hmm multipath outprob endstates samplenum t p s b" and "\<not> multipath"
  shows "\<exists>ks. b = ks @ [root_token] \<and> sorted_wrt (>) (map last_end_frame ks)
    \<and> (\<forall>k\<in>set ks. 0 \<le> last_end_frame k \<and> last_end_frame k < int t - 1)"
  using assms
proof (induction rule: hmm_path.induct)
  case start
  then show ?case by simp
next
  case (arc t m p s b c)
  then obtain ks where ks: "b = ks @ [root_token]" "sorted_wrt (>) (map last_end_frame ks)"
    "\<forall>k\<in>set ks. 0 \<le> last_end_frame k \<and> last_end_frame k < int t - 1" by blast
  have "1 \<le> t" using hmm_path_time [OF arc(1)] arc.prems by simp
  with ks show ?case
    by (auto split: option.split simp: new_token_def intro!: exI [of _ "new_token _ t s # ks"])
qed

fun durations :: "int \<Rightarrow> int list \<Rightarrow> int list" where
  "durations g [] = []"
| "durations g (x # xs) = (x - g) # durations x xs"

lemma normalize_rest_sum:
  "length gs = length ss \<Longrightarrow> sorted_wrt (<) (g # gs) \<Longrightarrow>
     sum_list (map2 (\<lambda>u d. u * of_int d) (normalize_rest g s gs ss) (durations g gs))
       = last (s # ss) - s"
proof (induction g s gs ss rule: normalize_rest.induct)
  case (1 g s g' gs s' ss)
  then have "sum_list (map2 (\<lambda>u d. u * of_int d) (normalize_rest g' s' gs ss) (durations g' gs))
      = last (s' # ss) - s'" by simp
  moreover have "g' - g \<noteq> 0" using 1 by simp
  ultimately show ?case by simp
qed auto

lemma normalize_scores_sum:
  "length gs = length ss \<Longrightarrow> sorted_wrt (<) (-1 # gs) \<Longrightarrow> ss \<noteq> [] \<Longrightarrow>
     sum_list (map2 (\<lambda>u d. u * of_int d) (normalize_scores gs ss) (durations (-1) gs)) = last ss"
proof (cases gs; cases ss)
  fix g gs' s ss'
  assume a: "length gs = length ss" "sorted_wrt (<) (-1 # gs)" "gs = g # gs'" "ss = s # ss'"
  then have "sum_list (map2 (\<lambda>u d. u * of_int d) (normalize_rest g s gs' ss') (durations g gs'))
      = last (s # ss') - s" by (intro normalize_rest_sum) auto
  moreover have "g + 1 \<noteq> 0" using a by simp
  then have "s / of_int (g + 1) * of_int (g + 1) = s" by simp
  ultimately show ?thesis using a by simp
qed auto

lemma length_normalize: "length gs = length ss \<Longrightarrow> length (normalize_scores gs ss) = length gs"
proof -
  have "length gs = length ss \<Longrightarrow> length (normalize_rest g s gs ss) = length gs" for g s gs ss
    by (induction g s gs ss rule: normalize_rest.induct) auto
  then show "length gs = length ss \<Longrightarrow> ?thesis" by (cases gs; cases ss) auto
qed

definition seg_of :: "SEGTOKEN list \<Rightarrow> nat \<Rightarrow> int list" where
  "seg_of ks samplenum = rev (map last_end_frame ks) @ [int samplenum - 1]"

lemma trace_back_single:
  assumes "\<forall>k\<in>set ks. 0 \<le> last_end_frame k"
  shows "trace_back log_zero False ulen samplenum s (ks @ [root_token]) =
    \<lparr>res_score = s, res_id = rev (map last_id ks) @ [int ulen - 1], res_seg = seg_of ks samplenum,
     res_uscore = normalize_scores (seg_of ks samplenum) (rev (map last_end_score ks) @ [s])\<rparr>"
proof -
  have "takeWhile (\<lambda>k. last_end_frame k \<noteq> -1) (ks @ [root_token]) = ks"
    using assms by (induction ks) (auto simp: root_token_def)
  then show ?thesis by (simp add: trace_back_def seg_of_def Let_def)
qed

lemma seg_of_sorted:
  assumes "sorted_wrt (>) (map last_end_frame ks)"
    and "\<forall>k\<in>set ks. 0 \<le> last_end_frame k \<and> last_end_frame k < int samplenum - 1"
    and "0 < samplenum"
  shows "sorted_wrt (<) (-1 # seg_of ks samplenum)"
  using assms by (auto simp: seg_of_def sorted_wrt_append sorted_wrt_rev)

text \<open>Without multipath the tokens carry numbers of units.\<close>

lemma mark_units_range:
  "set us \<union> set ue \<subseteq> insert (-1) {0..<n} \<Longrightarrow> 0 \<le> i \<Longrightarrow> i + int (length es) \<le> n \<Longrightarrow>
     mark_units es i start (us, ue) = (us', ue') \<Longrightarrow>
     set us' \<union> set ue' \<subseteq> insert (-1) {0..<n} \<and> length us' = length us \<and> length ue' = length ue"
proof (induction es arbitrary: i start us ue)
  case (Cons e es)
  have "set (us[start := i]) \<union> set (ue[e := i]) \<subseteq> insert (-1) {0..<n}"
    using Cons.prems set_update_subset_insert [of us start i] set_update_subset_insert [of ue e i] by auto
  from Cons.IH [OF this, of "i + 1" "e + 1"] Cons.prems show ?case by simp
qed simp

lemma single_ids:
  assumes "hmm_path log_zero hmm multipath outprob endstates samplenum t p s b"
    and "\<not> multipath" "hmm_in_range multipath hmm endstates"
  shows "\<forall>k\<in>set b. k = root_token \<or> last_id k \<in> {0..<int (length endstates)}"
  using assms
proof (induction rule: hmm_path.induct)
  case (arc t m p s b c)
  obtain us ue where u: "unit_markers (length hmm) endstates = (us, ue)" by fastforce
  have "set (replicate (length hmm) (-1)) \<union> set (replicate (length hmm) (-1)) \<subseteq>
      insert (-1) {0..<int (length endstates)}" by auto
  from mark_units_range [OF this _ _ u [unfolded unit_markers_def]]
  have "set ue \<subseteq> insert (-1) {0..<int (length endstates)}" "length ue = length hmm" by auto
  moreover have "m < length hmm" using hmm_path_range [OF arc(1)] arc.prems by simp
  ultimately have "ue ! m \<in> insert (-1) {0..<int (length endstates)}" by (metis nth_mem subset_iff)
  then show ?case using arc u by (auto simp: leaves_unit_def new_token_def)
qed simp

text \<open>The segmentation without multipath covers the input.\<close>

lemma viterbi_segment_cover:
  assumes "endstates \<noteq> []" "hmm_in_range False hmm endstates" "0 < samplenum"
    and "hmm_path log_zero hmm False outprob endstates samplenum samplenum
      ((length hmm - 1) # p0) s0 b0"
  shows "\<exists>r. viterbi_segment log_zero hmm samplenum outprob False endstates = Some r
    \<and> sorted_wrt (<) (-1 # res_seg r) \<and> last (res_seg r) = int samplenum - 1 \<and> res_seg r \<noteq> []
    \<and> length (res_id r) = length (res_seg r) \<and> length (res_uscore r) = length (res_seg r)
    \<and> sum_list (map2 (\<lambda>u d. u * of_int d) (res_uscore r) (durations (-1) (res_seg r)))
      = res_score r
    \<and> (\<forall>i\<in>set (res_id r). i \<in> {0..<int (length endstates)})"
proof -
  obtain p s b where p: "hmm_path log_zero hmm False outprob endstates samplenum
      (if False then samplenum + 1 else samplenum) ((length hmm - 1) # p) s b"
    and v: "viterbi_segment log_zero hmm samplenum outprob False endstates =
      Some (trace_back log_zero False (length endstates) samplenum s b)"
    by (rule viterbi_segment_path [of endstates False hmm samplenum log_zero outprob p0 s0 b0])
      (use assms in simp_all)
  define r where "r = trace_back log_zero False (length endstates) samplenum s b"
  note r = r_def
  from single_tokens [OF p] obtain ks where ks: "b = ks @ [root_token]"
    "sorted_wrt (>) (map last_end_frame ks)"
    "\<forall>k\<in>set ks. 0 \<le> last_end_frame k \<and> last_end_frame k < int samplenum - 1" by auto
  have rr: "r = \<lparr>res_score = s, res_id = rev (map last_id ks) @ [int (length endstates) - 1],
      res_seg = seg_of ks samplenum,
      res_uscore = normalize_scores (seg_of ks samplenum) (rev (map last_end_score ks) @ [s])\<rparr>"
    using r ks trace_back_single by simp
  have so: "sorted_wrt (<) (-1 # seg_of ks samplenum)"
    using ks assms(3) by (intro seg_of_sorted) auto
  have l: "length (seg_of ks samplenum) = length (rev (map last_end_score ks) @ [s])"
    by (simp add: seg_of_def)
  have "\<forall>k\<in>set ks. last_id k \<in> {0..<int (length endstates)}"
  proof
    fix k assume "k \<in> set ks"
    then have "k \<in> set b" "k \<noteq> root_token" using ks by (auto simp: root_token_def)
    then show "last_id k \<in> {0..<int (length endstates)}" using single_ids [OF p] assms(2) by auto
  qed
  moreover have "0 < length endstates" using assms(1) by simp
  ultimately have "\<forall>i\<in>set (res_id r). i \<in> {0..<int (length endstates)}" using rr by auto
  with normalize_scores_sum [OF l so] length_normalize [OF l] so rr v r_def show ?thesis
    by (simp add: seg_of_def)
qed

section \<open>Properties\<close>

text \<open>C5: Viterbi alignment is optimal: when some path leads through the HMM to its last
  state in the number of frames of the input, \<open>viterbi_segment\<close> reports the score and the unit
  boundaries of a path whose score is the greatest among all paths, in both modes.\<close>

theorem viterbi_segment_optimal:
  assumes "endstates \<noteq> []" "hmm_in_range multipath hmm endstates" "multipath \<or> 0 < samplenum"
    and "hmm_path log_zero hmm multipath outprob endstates samplenum
      (if multipath then samplenum + 1 else samplenum) ((length hmm - 1) # p0) s0 b0"
  shows "\<exists>p s b. hmm_path log_zero hmm multipath outprob endstates samplenum
      (if multipath then samplenum + 1 else samplenum) ((length hmm - 1) # p) s b
    \<and> (\<forall>p' s' b'. hmm_path log_zero hmm multipath outprob endstates samplenum
      (if multipath then samplenum + 1 else samplenum) ((length hmm - 1) # p') s' b' \<longrightarrow> s' \<le> s)
    \<and> viterbi_segment log_zero hmm samplenum outprob multipath endstates =
      Some (trace_back log_zero multipath (length endstates) samplenum s b)"
  using viterbi_segment_path [OF assms] by metis

definition ex_hmm :: HMM where
  "ex_hmm = [\<lparr>st_ac = [\<lparr>ac_a = -1, ac_arc = 0\<rparr>, \<lparr>ac_a = -2, ac_arc = 1\<rparr>], st_out_null = False\<rparr>,
     \<lparr>st_ac = [\<lparr>ac_a = -1, ac_arc = 1\<rparr>], st_out_null = False\<rparr>]"

lemma ex_hmm_path:
  "hmm_path (-1000000) ex_hmm False (\<lambda>t n. -1) [0, 1] 2 2 [1, 0] (-4)
     [\<lparr>last_id = 0, last_end_frame = 0, last_end_score = -1\<rparr>, root_token]"
proof -
  have s: "hmm_path (-1000000) ex_hmm False (\<lambda>t n. -1) [0, 1] 2 1 [0] (-1) [root_token]"
    using hmm_path.start [of "-1000000" ex_hmm False "\<lambda>t n. -1" "[0, 1]" 2] by simp
  have c: "\<lparr>ac_a = -2, ac_arc = 1\<rparr> \<in> set (st_ac (ex_hmm ! 0))" by (simp add: ex_hmm_def)
  have l: "leaves_unit ex_hmm False [0, 1] 0 1 = Some 0"
    by (simp add: leaves_unit_def unit_markers_def ex_hmm_def)
  from hmm_path.arc [OF s _ c] l show ?thesis
    by (simp add: emit_def new_token_def numeral_2_eq_2)
qed

theorem viterbi_segment_optimal_witness:
  "\<exists>p s b. hmm_path (-1000000) ex_hmm False (\<lambda>t n. -1) [0, 1] 2 2 (1 # p) s b
    \<and> -4 \<le> s
    \<and> viterbi_segment (-1000000) ex_hmm 2 (\<lambda>t n. -1) False [0, 1] =
      Some (trace_back (-1000000) False 2 2 s b)"
proof -
  have "hmm_in_range False ex_hmm [0, 1]" by (simp add: hmm_in_range_def ex_hmm_def)
  moreover have "length ex_hmm - 1 = 1" by (simp add: ex_hmm_def)
  ultimately show ?thesis
    using viterbi_segment_optimal [of "[0, 1]" False ex_hmm 2 "-1000000" "\<lambda>t n. -1" "[0]" "-4"
        "[\<lparr>last_id = 0, last_end_frame = 0, last_end_score = -1\<rparr>, root_token]"] ex_hmm_path
    by (simp add: eval_nat_numeral) (metis numeral_2_eq_2)
qed

text \<open>Without multipath the segmentation covers the input: the end frames of the units
  increase strictly from 0 or more up to the last frame of the input, the three result
  arrays have the same length, and the per-frame scores of the units, weighted with their
  durations, add up to the score of the whole alignment (so no duration is zero).\<close>

theorem viterbi_segment_covers:
  assumes "endstates \<noteq> []" "hmm_in_range False hmm endstates" "0 < samplenum"
    and "hmm_path log_zero hmm False outprob endstates samplenum samplenum
      ((length hmm - 1) # p0) s0 b0"
    and "viterbi_segment log_zero hmm samplenum outprob False endstates = Some r"
  shows "sorted_wrt (<) (-1 # res_seg r) \<and> last (res_seg r) = int samplenum - 1
    \<and> length (res_id r) = length (res_seg r) \<and> length (res_uscore r) = length (res_seg r)
    \<and> sum_list (map2 (\<lambda>u d. u * of_int d) (res_uscore r) (durations (-1) (res_seg r)))
      = res_score r"
  using viterbi_segment_cover [OF assms(1-4)] assms(5) by auto

theorem viterbi_segment_covers_witness:
  "viterbi_segment (-1000000) ex_hmm 2 (\<lambda>t n. -1) False [0, 1] =
     Some \<lparr>res_score = -4, res_id = [0, 1], res_seg = [0, 1], res_uscore = [-1, -3]\<rparr>
   \<and> sum_list (map2 (\<lambda>u d. u * of_int d) [-1, -3] (durations (-1) [0, 1])) = (-4 :: real)"
proof -
  have r: "hmm_in_range False ex_hmm [0, 1]" by (simp add: hmm_in_range_def ex_hmm_def)
  have v: "viterbi_segment (-1000000) ex_hmm 2 (\<lambda>t n. -1) False [0, 1] =
     Some \<lparr>res_score = -4, res_id = [0, 1], res_seg = [0, 1], res_uscore = [-1, -3]\<rparr>"
    by (simp add: viterbi_segment_def hmm_in_range_def viterbi_init_def viterbi_frame_def select_paths_def
        relax_state_def relax_arc_def unit_markers_def propagate_single_def add_outprob_def
        trace_back_def root_token_def new_token_def ex_hmm_def upt_rec Let_def)
  from viterbi_segment_covers [OF _ r _ _ v, of "[0]" "-4"
      "[\<lparr>last_id = 0, last_end_frame = 0, last_end_score = -1\<rparr>, root_token]"] ex_hmm_path v
  show ?thesis by (simp add: ex_hmm_def eval_nat_numeral)
qed

end
