(* ===== verification/Spsegment.thy ===== *)
theory Spsegment
  imports Complex_Main Prelude
begin

text \<open>
  Short-pause segmentation (\<open>spsegment.c\<close>): the pause word test, the end-of-segment detection
  (the default one and the decoder-based one of \<open>SPSEGMENT_NAIST\<close>), the splitting of the input
  parameters at a segment boundary, and the trigger and rewind protocol of \<open>BACKEND_VAD\<close>.
  The records have the members of \<open>recog.h\<close> these functions use.  \<open>WORD_INVALID\<close> is \<open>None\<close>, a
  score is a real number, \<open>LOG_ZERO\<close> and \<open>SPSEGMENT_NAIST_AUTOSHRINK_LIMIT\<close> (not part of the
  repository) and the choice of \<open>SP_BREAK_RESUME_WORD_BEGIN\<close> are parameters.  A result \<open>None\<close> of
  an operation on parameter vectors is an access outside the array or a negative length.
\<close>

section \<open>Data\<close>

type_synonym WORD_ID = nat

record HMM_Logical =
  ph_name :: string
  ph_addr :: nat

record WORD_INFO =
  wseq :: "HMM_Logical list list"
  head_silwid :: WORD_ID
  tail_silwid :: WORD_ID

record FSBeam =
  in_sparea :: bool
  tmp_sparea_start :: int
  tmp_sp_break_last_word :: "WORD_ID option"
  last_tre_word :: "WORD_ID option"
  first_sparea :: bool
  sp_duration :: int
  after_trigger :: bool
  trigger_duration :: int
  want_rewind :: bool
  rewind_frame :: int
  want_rewind_reprocess :: bool
  pausemodel :: "string list option"

record RecogProcess =
  live :: bool
  lm_prob :: bool
  winfo :: WORD_INFO
  hmm_sp :: nat
  pass1 :: FSBeam
  sp_frame_duration :: int
  sp_margin :: int
  sp_delay :: int
  sp_break_last_word :: "WORD_ID option"
  sp_break_last_nword :: "WORD_ID option"
  sp_break_last_nword_allow_override :: bool
  sp_break_2_begin_word :: "WORD_ID option"
  p_active :: int
  res_status :: int

type_synonym vect = "real list"

record HTK_Param =
  samplenum :: nat
  header_samplenum :: nat
  parvec :: "vect list"

record MFCCCalc =
  param :: HTK_Param
  rest_param :: "HTK_Param option"
  valid :: bool
  f :: int
  last_time :: int
  sparea_start :: int
  segmented :: bool

record GMMCalc =
  gc_after_trigger :: bool
  gc_duration :: int
  gc_want_rewind :: bool
  gc_rewind_frame :: int
  gc_want_rewind_reprocess :: bool

record Recog =
  process_list :: "RecogProcess list"
  mfcclist :: "MFCCCalc list"
  gmm :: bool
  gc :: GMMCalc
  segment :: bool
  triggered :: bool

text \<open>A word end in the trellis: end frame, word, score.\<close>

record TRELLIS_ATOM =
  endtime :: int
  wid :: WORD_ID
  backscore :: real

section \<open>The pause test\<close>

definition is_sil :: "WORD_ID \<Rightarrow> RecogProcess \<Rightarrow> bool" where
  "is_sil w r =
     (let ph = wseq (winfo r) ! w
      in if length ph > 1 then False
         else
           (case pausemodel (pass1 r) of
              Some names \<Rightarrow> list_ex (\<lambda>n. ph_name (hd ph) = n) names
            | None \<Rightarrow>
                if ph_addr (hd ph) = hmm_sp r then True
                else lm_prob r \<and> (w = head_silwid (winfo r) \<or> w = tail_silwid (winfo r))))"

section \<open>Splitting the parameters\<close>

definition mfcc_copy_to_rest_and_shrink :: "MFCCCalc \<Rightarrow> int \<Rightarrow> int \<Rightarrow> MFCCCalc option" where
  "mfcc_copy_to_rest_and_shrink mfcc start stop =
     (let p = param mfcc
      in if start < 0 \<or> int (samplenum p) < start \<or> length (parvec p) < samplenum p \<or> stop < 0 then None
         else
           let n = samplenum p - nat start
           in Some (mfcc\<lparr>rest_param := Some \<lparr>samplenum = n, header_samplenum = n,
                            parvec = map (\<lambda>t. parvec p ! t) [nat start..<samplenum p]\<rparr>,
                         param := p\<lparr>samplenum := nat stop\<rparr>\<rparr>))"

definition shrink_copy :: "nat \<Rightarrow> nat \<Rightarrow> vect list \<Rightarrow> vect list" where
  "shrink_copy p n pv = fold (\<lambda>t v. v[t - p := v ! t]) [p..<n] pv"

definition mfcc_shrink :: "MFCCCalc \<Rightarrow> int \<Rightarrow> MFCCCalc option" where
  "mfcc_shrink mfcc p =
     (if p > 0 then
        (let q = param mfcc
         in if int (samplenum q) < p \<or> length (parvec q) < samplenum q then None
            else
              let len = samplenum q - nat p
              in Some (mfcc\<lparr>param := \<lparr>samplenum = len, header_samplenum = len,
                                     parvec = shrink_copy (nat p) (samplenum q) (parvec q)\<rparr>\<rparr>))
      else Some mfcc)"

section \<open>End of segment\<close>

text \<open>The best word end of the current frame: the first one with the greatest score.\<close>

fun best_trellis_loop ::
  "int \<Rightarrow> TRELLIS_ATOM list \<Rightarrow> real \<Rightarrow> TRELLIS_ATOM option \<Rightarrow> TRELLIS_ATOM option" where
  "best_trellis_loop time [] maxscore tremax = tremax"
| "best_trellis_loop time (tre # ts) maxscore tremax =
     (if endtime tre = time then
        (if maxscore < backscore tre then best_trellis_loop time ts (backscore tre) (Some tre)
         else best_trellis_loop time ts maxscore tremax)
      else tremax)"

definition best_trellis :: "real \<Rightarrow> int \<Rightarrow> TRELLIS_ATOM list \<Rightarrow> TRELLIS_ATOM option" where
  "best_trellis log_zero time ts = best_trellis_loop time ts log_zero None"

text \<open>A frame counts as pause when no word ends in it or the best word end is a pause word.\<close>

definition pause_frame :: "real \<Rightarrow> RecogProcess \<Rightarrow> int \<Rightarrow> TRELLIS_ATOM list \<Rightarrow> bool" where
  "pause_frame log_zero r time ts =
     (case best_trellis log_zero time ts of None \<Rightarrow> True | Some tre \<Rightarrow> is_sil (wid tre) r)"

definition detect_end_of_segment ::
  "bool \<Rightarrow> real \<Rightarrow> RecogProcess \<Rightarrow> MFCCCalc \<Rightarrow> TRELLIS_ATOM list \<Rightarrow> int
    \<Rightarrow> bool \<times> RecogProcess \<times> MFCCCalc" where
  "detect_end_of_segment resume_begin log_zero r mfcc ts time =
     (let d = pass1 r;
          tremax = best_trellis log_zero time ts;
          detected = pause_frame log_zero r time ts
      in if in_sparea d \<and> detected then
           let d1 = d\<lparr>sp_duration := sp_duration d + 1\<rparr>;
               d2 = (if resume_begin then
                       (if tmp_sp_break_last_word d1 = None \<and> tremax \<noteq> None
                        then d1\<lparr>tmp_sp_break_last_word := map_option wid tremax\<rparr> else d1)
                     else
                       (if tremax \<noteq> None then d1\<lparr>last_tre_word := map_option wid tremax\<rparr> else d1))
           in (False, r\<lparr>pass1 := d2\<rparr>, mfcc)
         else if \<not> in_sparea d \<and> detected then
           let d1 = d\<lparr>tmp_sparea_start := time\<rparr>;
               d2 = (if resume_begin then d1\<lparr>tmp_sp_break_last_word := map_option wid tremax\<rparr> else d1)
           in (False, r\<lparr>pass1 := d2\<lparr>in_sparea := True, sp_duration := 1\<rparr>\<rparr>, mfcc)
         else if in_sparea d \<and> \<not> detected then
           let d1 = d\<lparr>in_sparea := False\<rparr>
           in if sp_duration d1 < sp_frame_duration r then (False, r\<lparr>pass1 := d1\<rparr>, mfcc)
              else if first_sparea d1 then (False, r\<lparr>pass1 := d1\<lparr>first_sparea := False\<rparr>\<rparr>, mfcc)
              else
                (True,
                 r\<lparr>pass1 := d1,
                   sp_break_last_word :=
                     (if resume_begin then tmp_sp_break_last_word d1 else last_tre_word d1)\<rparr>,
                 mfcc\<lparr>sparea_start := tmp_sparea_start d1\<rparr>)
         else (False, r, mfcc))"

text \<open>
  The decoder-based detection.  Before the trigger it looks at the tokens in the beam: the word
  that ends in the node of a token (if one does) and the score of the token.
\<close>

fun best_word_end :: "(WORD_ID option \<times> real) list \<Rightarrow> real \<Rightarrow> WORD_ID option \<Rightarrow> WORD_ID option" where
  "best_word_end [] maxscore w = w"
| "best_word_end ((stend, score) # tks) maxscore w =
     (if stend \<noteq> None \<and> maxscore < score then best_word_end tks score stend
      else best_word_end tks maxscore w)"

definition detect_before_trigger ::
  "nat \<Rightarrow> real \<Rightarrow> RecogProcess \<Rightarrow> MFCCCalc \<Rightarrow> (WORD_ID option \<times> real) list \<Rightarrow> RecogProcess" where
  "detect_before_trigger limit log_zero r mfcc tks =
     (let d = pass1 r;
          detected = (case best_word_end tks log_zero None of None \<Rightarrow> True | Some w \<Rightarrow> is_sil w r)
      in if detected then
           let d1 = d\<lparr>trigger_duration := 0\<rparr>
           in if f mfcc > int limit then
                r\<lparr>pass1 := d1\<lparr>want_rewind := True, rewind_frame := f mfcc - sp_margin r,
                              want_rewind_reprocess := False\<rparr>\<rparr>
              else r\<lparr>pass1 := d1\<lparr>want_rewind := False\<rparr>\<rparr>
         else
           let d1 = d\<lparr>trigger_duration := trigger_duration d + 1\<rparr>
           in if trigger_duration d1 < sp_delay r then r\<lparr>pass1 := d1\<rparr>
              else
                let startframe = (if f mfcc < sp_margin r then 0 else f mfcc - sp_margin r);
                    r1 = (if lm_prob r \<and> startframe > 0 then r\<lparr>sp_break_last_word := None\<rparr> else r)
                in r1\<lparr>pass1 := d1\<lparr>sp_duration := 0, want_rewind := True, rewind_frame := startframe,
                                  want_rewind_reprocess := True, after_trigger := True\<rparr>\<rparr>)"

definition trailing_pause ::
  "bool \<Rightarrow> RecogProcess \<Rightarrow> FSBeam \<Rightarrow> MFCCCalc \<Rightarrow> TRELLIS_ATOM option \<Rightarrow> int
    \<Rightarrow> bool \<times> RecogProcess \<times> MFCCCalc" where
  "trailing_pause resume_begin r d mfcc tremax time =
     (let d1 = d\<lparr>sp_duration := sp_duration d + 1\<rparr>;
          d2 = (if \<not> lm_prob r then d1
                else if resume_begin then
                  (if tmp_sp_break_last_word d1 = None \<and> tremax \<noteq> None
                   then d1\<lparr>tmp_sp_break_last_word := map_option wid tremax\<rparr> else d1)
                else
                  (if tremax \<noteq> None then d1\<lparr>last_tre_word := map_option wid tremax\<rparr> else d1))
      in if sp_duration d2 \<ge> sp_frame_duration r then
           let r1 = (if lm_prob r then
                       r\<lparr>sp_break_last_word :=
                          (if resume_begin then tmp_sp_break_last_word d2 else last_tre_word d2)\<rparr>
                     else r)
           in (True,
               r1\<lparr>pass1 := d2\<lparr>after_trigger := False, trigger_duration := 0, want_rewind := False\<rparr>\<rparr>,
               mfcc\<lparr>sparea_start := time - sp_frame_duration r\<rparr>)
         else (False, r\<lparr>pass1 := d2\<lparr>want_rewind := False\<rparr>\<rparr>, mfcc))"

definition detect_end_of_segment_naist ::
  "nat \<Rightarrow> bool \<Rightarrow> real \<Rightarrow> RecogProcess \<Rightarrow> MFCCCalc \<Rightarrow> (WORD_ID option \<times> real) list
    \<Rightarrow> TRELLIS_ATOM list \<Rightarrow> int \<Rightarrow> bool \<times> RecogProcess \<times> MFCCCalc" where
  "detect_end_of_segment_naist limit resume_begin log_zero r mfcc tks ts time =
     (if \<not> after_trigger (pass1 r)
      then (False, detect_before_trigger limit log_zero r mfcc tks, mfcc)
      else
        let d = pass1 r;
            tremax = best_trellis log_zero time ts;
            detected = pause_frame log_zero r time ts;
            continue = (\<lambda>d'. (False, r\<lparr>pass1 := d'\<lparr>want_rewind := False\<rparr>\<rparr>, mfcc))
        in if first_sparea d then
             (if in_sparea d \<and> detected then
                let d1 = d\<lparr>sp_duration := sp_duration d + 1\<rparr>
                in if sp_duration d1 > sp_delay r + sp_margin r + sp_frame_duration r
                   then continue (d1\<lparr>in_sparea := False, first_sparea := False\<rparr>)
                   else continue d1
              else if in_sparea d \<and> \<not> detected
              then continue (d\<lparr>in_sparea := False, first_sparea := False\<rparr>)
              else continue d)
           else if \<not> in_sparea d then
             (if detected then
                let d1 = d\<lparr>tmp_sparea_start := time\<rparr>;
                    d2 = (if resume_begin \<and> lm_prob r
                          then d1\<lparr>tmp_sp_break_last_word := map_option wid tremax\<rparr> else d1)
                in continue (d2\<lparr>in_sparea := True, sp_duration := 1\<rparr>)
              else continue d)
           else if detected then trailing_pause resume_begin r d mfcc tremax time
           else continue (d\<lparr>in_sparea := False\<rparr>))"

section \<open>Finishing a segment\<close>

fun find_segmented :: "MFCCCalc list \<Rightarrow> int option" where
  "find_segmented [] = None"
| "find_segmented (m # ms) = (if segmented m then Some (sparea_start m) else find_segmented ms)"

text \<open>\<open>set_terminal_words\<close> is a function of libjulius.\<close>

definition finalize_segment ::
  "(RecogProcess \<Rightarrow> RecogProcess) \<Rightarrow> Recog \<Rightarrow> Recog option" where
  "finalize_segment set_terminal_words recog =
     (let ps = map (\<lambda>r. if live r \<and> lm_prob r then set_terminal_words r else r) (process_list recog)
      in case find_segmented (mfcclist recog) of
           Some spstart \<Rightarrow>
             map_option (\<lambda>ms. recog\<lparr>mfcclist := ms,
                process_list := map (\<lambda>r. if live r then r\<lparr>sp_break_last_nword_allow_override := True\<rparr>
                                         else r) ps\<rparr>)
               (those (map (\<lambda>m. mfcc_copy_to_rest_and_shrink m spstart (last_time m)) (mfcclist recog)))
         | None \<Rightarrow>
             Some (recog\<lparr>mfcclist := map (\<lambda>m. m\<lparr>rest_param := None\<rparr>) (mfcclist recog),
                process_list := map (\<lambda>r. if live r
                  then r\<lparr>sp_break_2_begin_word := None, sp_break_last_word := None,
                         sp_break_last_nword := None, sp_break_last_nword_allow_override := False\<rparr>
                  else r) ps\<rparr>))"

section \<open>Trigger and rewind\<close>

text \<open>The flags \<open>naist\<close> and \<open>gmm_vad\<close> say which of the two macros the build defines.\<close>

definition spsegment_init :: "bool \<Rightarrow> bool \<Rightarrow> Recog \<Rightarrow> Recog" where
  "spsegment_init naist gmm_vad recog =
     recog\<lparr>process_list :=
             (if naist then map (\<lambda>p. p\<lparr>pass1 := (pass1 p)\<lparr>after_trigger := False, trigger_duration := 0\<rparr>\<rparr>)
                (process_list recog) else process_list recog),
           gc := (if gmm_vad \<and> gmm recog then (gc recog)\<lparr>gc_after_trigger := False, gc_duration := 0\<rparr>
                  else gc recog),
           triggered := False\<rparr>"

definition spsegment_trigger_sync :: "bool \<Rightarrow> bool \<Rightarrow> Recog \<Rightarrow> bool \<times> Recog" where
  "spsegment_trigger_sync naist gmm_vad recog =
     (let ok_p = segment recog
            \<and> (naist \<and> list_ex (\<lambda>p. live p \<and> after_trigger (pass1 p)) (process_list recog)
               \<or> gmm_vad \<and> gmm recog \<and> gc_after_trigger (gc recog))
      in if ok_p then
           (True,
            recog\<lparr>process_list :=
                (if naist then map (\<lambda>p. if live p then p\<lparr>pass1 := (pass1 p)\<lparr>after_trigger := True\<rparr>\<rparr> else p)
                   (process_list recog) else process_list recog),
              gc := (if gmm_vad \<and> gmm recog then (gc recog)\<lparr>gc_after_trigger := True\<rparr> else gc recog)\<rparr>)
         else (False, recog))"

text \<open>The first live process that wants to rewind: its request is taken and cleared.\<close>

fun take_rewind :: "RecogProcess list \<Rightarrow> (RecogProcess list \<times> int \<times> bool) option" where
  "take_rewind [] = None"
| "take_rewind (p # ps) =
     (if live p \<and> want_rewind (pass1 p) then
        Some (p\<lparr>pass1 := (pass1 p)\<lparr>want_rewind := False\<rparr>\<rparr> # ps,
              rewind_frame (pass1 p), want_rewind_reprocess (pass1 p))
      else map_option (\<lambda>(qs, x). (p # qs, x)) (take_rewind ps))"

text \<open>The result: return value, \<open>*rf_ret\<close> and \<open>*repro_ret\<close> (\<open>None\<close> if they are not set), engine.\<close>

definition spsegment_need_restart ::
  "bool \<Rightarrow> bool \<Rightarrow> Recog \<Rightarrow> bool \<times> (int \<times> bool) option \<times> Recog" where
  "spsegment_need_restart naist gmm_vad recog =
     (if segment recog then
        let (ok1, rf1, repro1, ps) =
              (if naist then
                 (case take_rewind (process_list recog) of
                    None \<Rightarrow> (False, 0, False, process_list recog)
                  | Some (ps, rf, repro) \<Rightarrow> (True, rf, repro, ps))
               else (False, 0, False, process_list recog));
            g = gc recog
        in if gmm_vad \<and> gmm recog \<and> gc_want_rewind g then
             (True,
              Some (if naist then (if rf1 > gc_rewind_frame g then gc_rewind_frame g else rf1)
                    else gc_rewind_frame g,
                    gc_want_rewind_reprocess g),
              recog\<lparr>process_list := ps, gc := g\<lparr>gc_want_rewind := False\<rparr>\<rparr>)
           else (ok1, Some (rf1, repro1), recog\<lparr>process_list := ps\<rparr>)
      else (False, None, recog))"

definition restart_mfcc :: "int \<Rightarrow> bool \<Rightarrow> MFCCCalc \<Rightarrow> MFCCCalc option" where
  "restart_mfcc rewind reprocess mfcc =
     (if \<not> valid mfcc then Some mfcc
      else
        let m1 = mfcc\<lparr>last_time := f mfcc - 1\<rparr>;
            m2 = (if reprocess then m1\<lparr>f := -1\<rparr> else m1\<lparr>f := f m1 - rewind\<rparr>)
        in mfcc_shrink m2 rewind)"

definition spsegment_restart_mfccs :: "Recog \<Rightarrow> int \<Rightarrow> bool \<Rightarrow> Recog option" where
  "spsegment_restart_mfccs recog rewind reprocess =
     map_option (\<lambda>ms. recog\<lparr>mfcclist := ms\<rparr>)
       (those (map (restart_mfcc rewind reprocess) (mfcclist recog)))"

section \<open>Moving and splitting frames\<close>

text \<open>The forward copy of \<open>mfcc_shrink\<close> overlaps itself but reads every frame before it is overwritten.\<close>

lemma shrink_copy_nth:
  assumes "0 < p" "n \<le> length pv" "p \<le> m" "m \<le> n"
  shows "length (shrink_copy p m pv) = length pv
    \<and> (\<forall>i < length pv. shrink_copy p m pv ! i = (if i < m - p then pv ! (i + p) else pv ! i))"
  using assms(3,4)
proof (induction m rule: dec_induct)
  case base
  show ?case by (simp add: shrink_copy_def)
next
  case (step k)
  then have k: "length (shrink_copy p k pv) = length pv"
    "\<forall>i < length pv. shrink_copy p k pv ! i = (if i < k - p then pv ! (i + p) else pv ! i)" by simp_all
  have s: "shrink_copy p (Suc k) pv = (shrink_copy p k pv)[k - p := shrink_copy p k pv ! k]"
    using step by (simp add: shrink_copy_def)
  have "\<not> k < k - p" "k < length pv" using step assms by auto
  with k have "shrink_copy p k pv ! k = pv ! k" by simp
  with s k step assms show ?case by (auto simp: nth_list_update)
qed

lemma take_shrink_copy:
  assumes "0 < p" "n \<le> length pv" "p \<le> n"
  shows "take (n - p) (shrink_copy p n pv) = drop p (take n pv)"
  using shrink_copy_nth [OF assms(1,2,3) order.refl] assms
  by (intro nth_equalityI) (auto simp: add.commute)

definition frames :: "HTK_Param \<Rightarrow> vect list" where
  "frames p = take (samplenum p) (parvec p)"

lemma map_nth_interval: "n \<le> length xs \<Longrightarrow> map (\<lambda>t. xs ! t) [k..<n] = drop k (take n xs)"
  by (intro nth_equalityI) auto

lemma copy_to_rest_frames:
  assumes "0 \<le> start" "start \<le> int (samplenum (param m))" "samplenum (param m) \<le> length (parvec (param m))"
    "0 \<le> stop" "stop \<le> int (samplenum (param m))"
  obtains m' p' where "mfcc_copy_to_rest_and_shrink m start stop = Some m'" "rest_param m' = Some p'"
    "frames p' = drop (nat start) (frames (param m))" "frames (param m') = take (nat stop) (frames (param m))"
proof -
  let ?p = "param m"
  let ?r = "\<lparr>samplenum = samplenum ?p - nat start, header_samplenum = samplenum ?p - nat start,
    parvec = map (\<lambda>t. parvec ?p ! t) [nat start..<samplenum ?p]\<rparr>"
  have "frames ?r = drop (nat start) (frames ?p)"
    using assms(3) by (simp add: frames_def map_nth_interval)
  moreover have "take (nat stop) (parvec ?p) = take (nat stop) (frames ?p)"
    using nat_mono [OF assms(5)] by (simp add: frames_def min_def)
  ultimately show thesis
    using assms by (intro that [of "m\<lparr>rest_param := Some ?r, param := ?p\<lparr>samplenum := nat stop\<rparr>\<rparr>" ?r])
      (simp_all add: mfcc_copy_to_rest_and_shrink_def Let_def, simp_all add: frames_def)
qed

text \<open>
  What holds of a parameter instance when the search stops at a segment: the restart frame is
  not behind the processed length, which is not behind the frames read.
\<close>

definition split_ok :: "int \<Rightarrow> MFCCCalc \<Rightarrow> bool" where
  "split_ok spstart m \<longleftrightarrow>
     0 \<le> spstart \<and> spstart \<le> last_time m \<and> last_time m \<le> int (samplenum (param m))
     \<and> samplenum (param m) \<le> length (parvec (param m))"

lemma those_map_Some:
  "(\<And>x. x \<in> set xs \<Longrightarrow> \<exists>y. g x = Some y \<and> P x y) \<Longrightarrow> \<exists>ys. those (map g xs) = Some ys \<and> list_all2 P xs ys"
proof (induction xs)
  case (Cons x xs)
  then obtain y ys where "g x = Some y" "P x y" "those (map g xs) = Some ys" "list_all2 P xs ys"
    by (metis list.set_intros)
  then show ?case by simp
qed simp

section \<open>The specification of a segment boundary\<close>

text \<open>The pause frames at the end of a sequence, and whether a long pause has ended in it.\<close>

definition trail :: "bool list \<Rightarrow> nat" where
  "trail ds = length (takeWhile (\<lambda>b. b) (rev ds))"

definition ended_long :: "nat \<Rightarrow> bool list \<Rightarrow> bool" where
  "ended_long dur ds \<longleftrightarrow> (\<exists>n < length ds. \<not> ds ! n \<and> dur \<le> trail (take n ds))"

definition cut_at :: "nat \<Rightarrow> bool list \<Rightarrow> nat \<Rightarrow> bool" where
  "cut_at dur ds n \<longleftrightarrow> \<not> ds ! n \<and> dur \<le> trail (take n ds) \<and> ended_long dur (take n ds)"

lemma trail_snoc [simp]: "trail (ds @ [b]) = (if b then Suc (trail ds) else 0)"
  by (simp add: trail_def)

lemma trail_Nil [simp]: "trail [] = 0"
  by (simp add: trail_def)

lemma ended_long_snoc [simp]:
  "ended_long dur (ds @ [b]) \<longleftrightarrow> ended_long dur ds \<or> \<not> b \<and> dur \<le> trail ds"
proof -
  have "(\<exists>n < Suc (length ds). Q n) \<longleftrightarrow> (\<exists>n < length ds. Q n) \<or> Q (length ds)" for Q
    using less_Suc_eq by auto
  then show ?thesis by (auto simp: ended_long_def nth_append)
qed

lemma trail_le: "trail ds \<le> length ds"
  by (metis length_rev length_takeWhile_le trail_def)

text \<open>The detection run over the frames of an input, up to the first segment boundary.\<close>

fun run_frames ::
  "bool \<Rightarrow> real \<Rightarrow> nat \<Rightarrow> TRELLIS_ATOM list list \<Rightarrow> RecogProcess \<Rightarrow> MFCCCalc
    \<Rightarrow> nat option \<times> RecogProcess \<times> MFCCCalc" where
  "run_frames b lz t [] r m = (None, r, m)"
| "run_frames b lz t (ts # tss) r m =
     (case detect_end_of_segment b lz r m ts (int t) of (ret, r', m') \<Rightarrow>
        if ret then (Some t, r', m') else run_frames b lz (Suc t) tss r' m')"

text \<open>The state of the detection after the frames \<open>ds\<close> (pause or not).\<close>

definition seg_inv :: "nat \<Rightarrow> bool list \<Rightarrow> RecogProcess \<Rightarrow> bool" where
  "seg_inv dur ds r \<longleftrightarrow>
     in_sparea (pass1 r) = (0 < trail ds) \<and> first_sparea (pass1 r) = (\<not> ended_long dur ds)
     \<and> (0 < trail ds \<longrightarrow> sp_duration (pass1 r) = int (trail ds)
          \<and> tmp_sparea_start (pass1 r) = int (length ds) - int (trail ds))"

definition same_words :: "RecogProcess \<Rightarrow> RecogProcess \<Rightarrow> bool" where
  "same_words r r' \<longleftrightarrow>
     winfo r' = winfo r \<and> hmm_sp r' = hmm_sp r \<and> lm_prob r' = lm_prob r
     \<and> pausemodel (pass1 r') = pausemodel (pass1 r) \<and> sp_frame_duration r' = sp_frame_duration r"

lemma pause_frame_same: "same_words r r' \<Longrightarrow> pause_frame lz r' t ts = pause_frame lz r t ts"
  by (simp add: same_words_def pause_frame_def is_sil_def Let_def split: option.split)

lemma detect_step:
  assumes "seg_inv dur ds r" "sp_frame_duration r = int dur" "0 < dur"
    and "detect_end_of_segment b lz r m ts (int (length ds)) = (ret, r', m')"
  shows "same_words r r'
    \<and> (ret \<longleftrightarrow> \<not> pause_frame lz r (int (length ds)) ts \<and> dur \<le> trail ds \<and> ended_long dur ds)
    \<and> (\<not> ret \<longrightarrow> m' = m \<and> seg_inv dur (ds @ [pause_frame lz r (int (length ds)) ts]) r')
    \<and> (ret \<longrightarrow> m' = m\<lparr>sparea_start := int (length ds) - int (trail ds)\<rparr>)"
proof (cases "0 < trail ds"; cases "pause_frame lz r (int (length ds)) ts")
  assume "0 < trail ds" "pause_frame lz r (int (length ds)) ts"
  with assms show ?thesis
    by (auto simp: detect_end_of_segment_def seg_inv_def same_words_def Let_def split: if_splits)
next
  assume "0 < trail ds" "\<not> pause_frame lz r (int (length ds)) ts"
  with assms show ?thesis
    by (auto simp: detect_end_of_segment_def seg_inv_def same_words_def Let_def split: if_splits)
next
  assume "\<not> 0 < trail ds" "pause_frame lz r (int (length ds)) ts"
  with assms show ?thesis
    by (auto simp: detect_end_of_segment_def seg_inv_def same_words_def Let_def split: if_splits)
next
  assume "\<not> 0 < trail ds" "\<not> pause_frame lz r (int (length ds)) ts"
  with assms show ?thesis
    by (auto simp: detect_end_of_segment_def seg_inv_def same_words_def Let_def split: if_splits)
qed

lemma run_frames_cut:
  assumes "seg_inv dur ps r" "same_words r0 r" "sp_frame_duration r = int dur" "0 < dur"
    and "ds = ps @ map (\<lambda>(t, ts). pause_frame lz r0 (int t) ts) (enumerate (length ps) tss)"
  shows "case find (cut_at dur ds) [length ps..<length ds] of
      None \<Rightarrow> \<exists>r'. run_frames b lz (length ps) tss r m = (None, r', m) \<and> seg_inv dur ds r'
    | Some n \<Rightarrow> \<exists>r'. run_frames b lz (length ps) tss r m =
        (Some n, r', m\<lparr>sparea_start := int n - int (trail (take n ds))\<rparr>)"
  using assms
proof (induction tss arbitrary: ps r)
  case Nil
  then show ?case by simp
next
  case (Cons ts tss)
  let ?t = "length ps"
  let ?d = "pause_frame lz r (int ?t) ts"
  obtain ret r' m' where st: "detect_end_of_segment b lz r m ts (int ?t) = (ret, r', m')"
    by (cases "detect_end_of_segment b lz r m ts (int ?t)") auto
  note step = detect_step [OF Cons.prems(1,3,4) st]
  have d: "?d = pause_frame lz r0 (int ?t) ts" using pause_frame_same [OF Cons.prems(2)] .
  have ds: "ds = (ps @ [?d]) @ map (\<lambda>(t, ts). pause_frame lz r0 (int t) ts) (enumerate (Suc ?t) tss)"
    using Cons.prems(5) d by simp
  then have cut: "cut_at dur ds ?t \<longleftrightarrow> \<not> ?d \<and> dur \<le> trail ps \<and> ended_long dur ps" and
    tk: "take ?t ds = ps" and len: "?t < length ds"
    by (simp_all add: cut_at_def nth_append)
  have upt: "[?t..<length ds] = ?t # [Suc ?t..<length ds]" using len by (simp add: upt_conv_Cons)
  show ?case
  proof (cases ret)
    case True
    with step cut tk st upt show ?thesis by simp
  next
    case False
    with step have m: "m' = m" and inv: "seg_inv dur (ps @ [?d]) r'" and sw: "same_words r r'" by simp_all
    from sw Cons.prems(2,3) have "same_words r0 r'" "sp_frame_duration r' = int dur"
      by (simp_all add: same_words_def)
    have l: "length (ps @ [?d]) = Suc ?t" by simp
    from Cons.IH [OF inv \<open>same_words r0 r'\<close> \<open>sp_frame_duration r' = int dur\<close> Cons.prems(4), unfolded l, OF ds]
    have "case find (cut_at dur ds) [Suc ?t..<length ds] of
      None \<Rightarrow> \<exists>r''. run_frames b lz (Suc ?t) tss r' m = (None, r'', m) \<and> seg_inv dur ds r''
    | Some n \<Rightarrow> \<exists>r''. run_frames b lz (Suc ?t) tss r' m =
        (Some n, r'', m\<lparr>sparea_start := int n - int (trail (take n ds))\<rparr>)" .
    moreover from False step cut have "\<not> cut_at dur ds ?t" by blast
    then have "find (cut_at dur ds) [?t..<length ds] = find (cut_at dur ds) [Suc ?t..<length ds]"
      using upt by simp
    moreover have "run_frames b lz ?t (ts # tss) r m = run_frames b lz (Suc ?t) tss r' m"
      using st False m by simp
    ultimately show ?thesis by (simp only:)
  qed
qed

section \<open>Properties\<close>

text \<open>C25: Segmentation of an input, from a fresh detection state: the first pass stops at the
  first speech frame that ends a pause of at least the configured length after another such
  pause has already ended, and nowhere else; the recorded restart point is the first frame of
  the pause that ends there.\<close>

theorem segment_boundary:
  assumes "\<not> in_sparea (pass1 r)" "first_sparea (pass1 r)" "sp_frame_duration r = int dur" "0 < dur"
    and "ds = map (\<lambda>(t, ts). pause_frame lz r (int t) ts) (enumerate 0 tss)"
  shows "case find (cut_at dur ds) [0..<length ds] of
      None \<Rightarrow> \<exists>r'. run_frames b lz 0 tss r m = (None, r', m)
    | Some n \<Rightarrow> \<exists>r'. run_frames b lz 0 tss r m =
        (Some n, r', m\<lparr>sparea_start := int n - int (trail (take n ds))\<rparr>)"
proof -
  have "seg_inv dur [] r" using assms by (simp add: seg_inv_def ended_long_def)
  moreover have "same_words r r" by (simp add: same_words_def)
  ultimately show ?thesis
    using run_frames_cut [of dur "[]" r r ds lz tss b m] assms(3-5)
    by (auto split: option.splits)
qed

definition ex_process :: RecogProcess where
  "ex_process =
     \<lparr>live = True, lm_prob = True,
      winfo = \<lparr>wseq = [[\<lparr>ph_name = ''sp'', ph_addr = 1\<rparr>], [\<lparr>ph_name = ''a'', ph_addr = 2\<rparr>]],
               head_silwid = 7, tail_silwid = 8\<rparr>,
      hmm_sp = 1,
      pass1 = \<lparr>in_sparea = False, tmp_sparea_start = 0, tmp_sp_break_last_word = None,
               last_tre_word = None, first_sparea = True, sp_duration = 0, after_trigger = False,
               trigger_duration = 0, want_rewind = False, rewind_frame = 0,
               want_rewind_reprocess = False, pausemodel = None\<rparr>,
      sp_frame_duration = 1, sp_margin = 4, sp_delay = 2, sp_break_last_word = None,
      sp_break_last_nword = None, sp_break_last_nword_allow_override = False,
      sp_break_2_begin_word = None, p_active = 0, res_status = 0\<rparr>"

definition ex_mfcc :: MFCCCalc where
  "ex_mfcc =
     \<lparr>param = \<lparr>samplenum = 4, header_samplenum = 4, parvec = [[0], [1], [2], [3]]\<rparr>,
      rest_param = None, valid = True, f = 3, last_time = 3, sparea_start = 2, segmented = True\<rparr>"

theorem segment_boundary_witness:
  "\<exists>r'. run_frames False (-1000000) 0
     [[], [\<lparr>endtime = 1, wid = 1, backscore = -5\<rparr>], [\<lparr>endtime = 2, wid = 0, backscore = -6\<rparr>],
      [\<lparr>endtime = 3, wid = 1, backscore = -9\<rparr>]] ex_process ex_mfcc
   = (Some 3, r', ex_mfcc\<lparr>sparea_start := 2\<rparr>)"
proof -
  let ?tss = "[[], [\<lparr>endtime = 1, wid = 1, backscore = -5\<rparr>], [\<lparr>endtime = 2, wid = 0, backscore = -6\<rparr>],
      [\<lparr>endtime = 3, wid = 1, backscore = -9\<rparr>]] :: TRELLIS_ATOM list list"
  have ds: "map (\<lambda>(t, ts). pause_frame (-1000000) ex_process (int t) ts) (enumerate 0 ?tss) =
      [True, False, True, False]"
    by (simp add: pause_frame_def best_trellis_def is_sil_def ex_process_def)
  have cut: "find (cut_at 1 [True, False, True, False]) [0..<length [True, False, True, False]] = Some 3"
    by (simp add: cut_at_def ended_long_def trail_def upt_rec eval_nat_numeral less_Suc_eq)
      (rule exI [of _ "Suc 0"], simp)
  have tr: "int 3 - int (trail (take 3 [True, False, True, False])) = 2" by (simp add: trail_def)
  have "\<not> in_sparea (pass1 ex_process)" "first_sparea (pass1 ex_process)"
    "sp_frame_duration ex_process = int 1" by (simp_all add: ex_process_def)
  from segment_boundary [OF this zero_less_one ds [symmetric], of False ex_mfcc] show ?thesis
    unfolding cut option.case tr by blast
qed

lemma finalize_segment_split:
  assumes "find_segmented (mfcclist recog) = Some spstart" "\<forall>m\<in>set (mfcclist recog). split_ok spstart m"
  shows "\<exists>recog'. finalize_segment stw recog = Some recog'
    \<and> list_all2 (\<lambda>m m'. \<exists>p'. rest_param m' = Some p'
        \<and> frames (param m') = take (nat (last_time m)) (frames (param m))
        \<and> frames p' = drop (nat spstart) (frames (param m))
        \<and> take (nat spstart) (frames (param m')) @ frames p' = frames (param m))
      (mfcclist recog) (mfcclist recog')"
proof -
  let ?P = "\<lambda>m m'. \<exists>p'. rest_param m' = Some p'
        \<and> frames (param m') = take (nat (last_time m)) (frames (param m))
        \<and> frames p' = drop (nat spstart) (frames (param m))
        \<and> take (nat spstart) (frames (param m')) @ frames p' = frames (param m)"
  have "\<exists>ms. those (map (\<lambda>m. mfcc_copy_to_rest_and_shrink m spstart (last_time m)) (mfcclist recog)) = Some ms
      \<and> list_all2 ?P (mfcclist recog) ms"
  proof (rule those_map_Some)
    fix m assume "m \<in> set (mfcclist recog)"
    with assms(2) have ok: "split_ok spstart m" by blast
    obtain m' p' where m': "mfcc_copy_to_rest_and_shrink m spstart (last_time m) = Some m'"
      "rest_param m' = Some p'" "frames p' = drop (nat spstart) (frames (param m))"
      "frames (param m') = take (nat (last_time m)) (frames (param m))"
      by (rule copy_to_rest_frames [of spstart m "last_time m"]) (use ok in \<open>simp_all add: split_ok_def\<close>)
    moreover have "nat spstart \<le> nat (last_time m)" using ok by (auto simp: split_ok_def intro: nat_mono)
    then have "take (nat spstart) (frames (param m')) = take (nat spstart) (frames (param m))"
      using m'(4) by (simp add: min_absorb1)
    ultimately show "\<exists>m'. mfcc_copy_to_rest_and_shrink m spstart (last_time m) = Some m' \<and> ?P m m'"
      by simp
  qed
  with assms(1) show ?thesis by (auto simp: finalize_segment_def Let_def)
qed

text \<open>Finishing a segmented input loses no frame: for every parameter instance the segment
  keeps its processed frames, the rest holds the frames from the restart point on, and the
  frames before the restart point followed by the rest are the frames there were.\<close>

theorem finalize_segment_keeps_frames:
  assumes "find_segmented (mfcclist recog) = Some spstart" "\<forall>m\<in>set (mfcclist recog). split_ok spstart m"
  shows "\<exists>recog'. finalize_segment stw recog = Some recog'
    \<and> list_all2 (\<lambda>m m'. \<exists>p'. rest_param m' = Some p'
        \<and> frames (param m') = take (nat (last_time m)) (frames (param m))
        \<and> frames p' = drop (nat spstart) (frames (param m))
        \<and> take (nat spstart) (frames (param m')) @ frames p' = frames (param m))
      (mfcclist recog) (mfcclist recog')"
  by (rule finalize_segment_split [OF assms])

theorem finalize_segment_keeps_frames_witness:
  "\<exists>recog'. finalize_segment (\<lambda>r. r) \<lparr>process_list = [ex_process], mfcclist = [ex_mfcc], gmm = False,
      gc = \<lparr>gc_after_trigger = False, gc_duration = 0, gc_want_rewind = False, gc_rewind_frame = 0,
            gc_want_rewind_reprocess = False\<rparr>, segment = True, triggered = False\<rparr> = Some recog'
    \<and> frames (param (hd (mfcclist recog'))) = [[0], [1], [2]]
    \<and> map_option frames (rest_param (hd (mfcclist recog'))) = Some [[2], [3]]"
  using finalize_segment_keeps_frames [of "\<lparr>process_list = [ex_process], mfcclist = [ex_mfcc], gmm = False,
      gc = \<lparr>gc_after_trigger = False, gc_duration = 0, gc_want_rewind = False, gc_rewind_frame = 0,
            gc_want_rewind_reprocess = False\<rparr>, segment = True, triggered = False\<rparr>" 2 "\<lambda>r. r"]
  by (auto simp: ex_mfcc_def split_ok_def frames_def list_all2_Cons1 eval_nat_numeral)

text \<open>Rewinding drops exactly the rewound frames: every valid parameter instance keeps the
  frames from the rewind point on, in their order, although they are copied within one
  array; its frame counter still points to the same frame, or before the first one when
  they are to be processed again; invalid instances are left alone.\<close>

theorem spsegment_restart_frames:
  assumes "0 \<le> rewind"
    and "\<forall>m\<in>set (mfcclist recog). valid m \<longrightarrow>
      rewind \<le> int (samplenum (param m)) \<and> samplenum (param m) \<le> length (parvec (param m))"
  shows "\<exists>recog'. spsegment_restart_mfccs recog rewind reprocess = Some recog'
    \<and> list_all2 (\<lambda>m m'. if valid m
        then frames (param m') = drop (nat rewind) (frames (param m))
          \<and> last_time m' = f m - 1 \<and> f m' = (if reprocess then -1 else f m - rewind)
        else m' = m) (mfcclist recog) (mfcclist recog')"
proof -
  let ?P = "\<lambda>m m'. if valid m
        then frames (param m') = drop (nat rewind) (frames (param m))
          \<and> last_time m' = f m - 1 \<and> f m' = (if reprocess then -1 else f m - rewind)
        else m' = m"
  have "\<exists>ms. those (map (restart_mfcc rewind reprocess) (mfcclist recog)) = Some ms
      \<and> list_all2 ?P (mfcclist recog) ms"
  proof (rule those_map_Some)
    fix m assume "m \<in> set (mfcclist recog)"
    with assms(2) have m: "valid m \<longrightarrow>
      rewind \<le> int (samplenum (param m)) \<and> samplenum (param m) \<le> length (parvec (param m))" by blast
    show "\<exists>m'. restart_mfcc rewind reprocess m = Some m' \<and> ?P m m'"
    proof (cases "valid m \<and> 0 < rewind")
      case True
      with m have "nat rewind \<le> samplenum (param m)" "samplenum (param m) \<le> length (parvec (param m))"
        "0 < nat rewind" by auto
      then have "take (samplenum (param m) - nat rewind)
          (shrink_copy (nat rewind) (samplenum (param m)) (parvec (param m))) =
          drop (nat rewind) (frames (param m))"
        unfolding frames_def by (intro take_shrink_copy)
      with True m show ?thesis
        by (auto simp: restart_mfcc_def mfcc_shrink_def Let_def frames_def)
    next
      case False
      with assms(1) show ?thesis by (auto simp: restart_mfcc_def mfcc_shrink_def Let_def)
    qed
  qed
  then obtain ms where "those (map (restart_mfcc rewind reprocess) (mfcclist recog)) = Some ms"
    and P: "list_all2 ?P (mfcclist recog) ms" by blast
  then have "spsegment_restart_mfccs recog rewind reprocess = Some (recog\<lparr>mfcclist := ms\<rparr>)"
    by (simp add: spsegment_restart_mfccs_def)
  moreover have "mfcclist (recog\<lparr>mfcclist := ms\<rparr>) = ms" by simp
  ultimately show ?thesis using P by (intro exI [of _ "recog\<lparr>mfcclist := ms\<rparr>"]) (simp only:)
qed

definition ex_recog :: Recog where
  "ex_recog =
     \<lparr>process_list = [ex_process], mfcclist = [ex_mfcc], gmm = True,
      gc = \<lparr>gc_after_trigger = False, gc_duration = 0, gc_want_rewind = True, gc_rewind_frame = 2,
            gc_want_rewind_reprocess = True\<rparr>, segment = True, triggered = False\<rparr>"

theorem spsegment_restart_frames_witness:
  "\<exists>recog'. spsegment_restart_mfccs ex_recog 2 True = Some recog'
    \<and> frames (param (hd (mfcclist recog'))) = [[2], [3]] \<and> f (hd (mfcclist recog')) = -1"
  using spsegment_restart_frames [of 2 ex_recog True]
  by (auto simp: ex_recog_def ex_mfcc_def frames_def list_all2_Cons1 eval_nat_numeral)

text \<open>A rewind request is served once: when segmentation is on, exactly one of the live
  processes that ask for a rewind (the first) has its request cleared and the engine asks for
  a restart at its frame; when none asks, nothing changes and no restart is asked for.\<close>

theorem spsegment_need_restart_first:
  assumes "segment recog" "\<not> gmm_vad"
  shows "(\<forall>p\<in>set (process_list recog). \<not> (live p \<and> want_rewind (pass1 p))) \<and>
        spsegment_need_restart True gmm_vad recog = (False, Some (0, False), recog)
    \<or> (\<exists>us p vs. process_list recog = us @ p # vs \<and> live p \<and> want_rewind (pass1 p)
        \<and> (\<forall>u\<in>set us. \<not> (live u \<and> want_rewind (pass1 u)))
        \<and> spsegment_need_restart True gmm_vad recog =
            (True, Some (rewind_frame (pass1 p), want_rewind_reprocess (pass1 p)),
             recog\<lparr>process_list := us @ p\<lparr>pass1 := (pass1 p)\<lparr>want_rewind := False\<rparr>\<rparr> # vs\<rparr>))"
proof -
  have "(\<forall>p\<in>set ps. \<not> (live p \<and> want_rewind (pass1 p))) \<and> take_rewind ps = None
    \<or> (\<exists>us p vs. ps = us @ p # vs \<and> live p \<and> want_rewind (pass1 p)
        \<and> (\<forall>u\<in>set us. \<not> (live u \<and> want_rewind (pass1 u)))
        \<and> take_rewind ps = Some (us @ p\<lparr>pass1 := (pass1 p)\<lparr>want_rewind := False\<rparr>\<rparr> # vs,
            rewind_frame (pass1 p), want_rewind_reprocess (pass1 p)))" for ps
  proof (induction ps)
    case (Cons q ps)
    show ?case
    proof (cases "live q \<and> want_rewind (pass1 q)")
      case True
      then show ?thesis by (intro disjI2 exI [of _ "[]"] exI [of _ q] exI [of _ ps]) simp
    next
      case False
      from Cons.IH show ?thesis
      proof
        assume "\<exists>us p vs. ps = us @ p # vs \<and> live p \<and> want_rewind (pass1 p)
          \<and> (\<forall>u\<in>set us. \<not> (live u \<and> want_rewind (pass1 u)))
          \<and> take_rewind ps = Some (us @ p\<lparr>pass1 := (pass1 p)\<lparr>want_rewind := False\<rparr>\<rparr> # vs,
            rewind_frame (pass1 p), want_rewind_reprocess (pass1 p))"
        then obtain us p vs where "ps = us @ p # vs" "live p" "want_rewind (pass1 p)"
          "\<forall>u\<in>set us. \<not> (live u \<and> want_rewind (pass1 u))"
          "take_rewind ps = Some (us @ p\<lparr>pass1 := (pass1 p)\<lparr>want_rewind := False\<rparr>\<rparr> # vs,
            rewind_frame (pass1 p), want_rewind_reprocess (pass1 p))" by blast
        with False show ?thesis
          by - (rule disjI2, rule exI [of _ "q # us"], rule exI [of _ p], rule exI [of _ vs], auto)
      qed (use False in auto)
    qed
  qed simp
  from this [of "process_list recog"] assms show ?thesis
    by (elim disjE exE conjE) (simp_all add: spsegment_need_restart_def Let_def, blast)
qed

theorem spsegment_need_restart_first_witness:
  "spsegment_need_restart True False ex_recog = (False, Some (0, False), ex_recog)"
  using spsegment_need_restart_first [of ex_recog False]
  by (auto simp: ex_recog_def ex_process_def append_eq_Cons_conv Cons_eq_append_conv)

text \<open>With both detections built in, a rewind asked for by the GMM detection alone is lost:
  the minimum is taken with the initial value 0, and the restart happens at frame 0 whatever
  frame was asked for.\<close>

theorem spsegment_gmm_rewind_lost:
  assumes "segment recog" "gmm recog" "gc_want_rewind (gc recog)" "0 \<le> gc_rewind_frame (gc recog)"
    and "\<forall>p\<in>set (process_list recog). \<not> want_rewind (pass1 p)"
  shows "\<exists>recog'. spsegment_need_restart True True recog =
      (True, Some (0, gc_want_rewind_reprocess (gc recog)), recog')
    \<and> spsegment_need_restart False True recog =
      (True, Some (gc_rewind_frame (gc recog), gc_want_rewind_reprocess (gc recog)), recog')"
proof -
  have "(\<forall>p\<in>set ps. \<not> want_rewind (pass1 p)) \<Longrightarrow> take_rewind ps = None" for ps
    by (induction ps) auto
  with assms show ?thesis by (simp add: spsegment_need_restart_def Let_def)
qed

theorem spsegment_gmm_rewind_lost_witness:
  "\<exists>recog'. spsegment_need_restart True True ex_recog = (True, Some (0, True), recog')
    \<and> spsegment_need_restart False True ex_recog = (True, Some (2, True), recog')"
  using spsegment_gmm_rewind_lost [of ex_recog] by (simp add: ex_recog_def ex_process_def)

end
