(* ===== verification/Realtime.thy ===== *)
theory Realtime
  imports Spsegment Plugin Instances
begin

text \<open>
  On-the-fly decoding of the first pass (\<open>realtime-1stpass.c\<close>).  The instances for parameter
  vectors, the processes and the flags of segmentation are the engine of \<open>Spsegment\<close>, member
  \<open>seg\<close>; their headers and input functions are the instances of \<open>Plugin\<close>, member \<open>fvins\<close>; the state
  of the search (trellis, caches) and of the feature extraction (delta
  buffers, cepstral means) belong to libjulius and libsent, and are the types \<open>'d\<close> and \<open>'w\<close>.
  Their functions are the fields of the record \<open>ops\<close>.  The build is described by the record
  \<open>build\<close>.  Callbacks are collected in a list of events.  A result \<open>None\<close> is an access outside
  an array or a loop that does not end.
\<close>

section \<open>State\<close>

datatype event =
    RECOGNITION_BEGIN | SEGMENT_BEGIN | PASS1_BEGIN | PASS1_FRAME | PASS1_END | RESULT_PASS1
  | RESULT_PASS1_GRAPH | STATUS_PARAM | PASS2_BEGIN | PASS2_END | RESULT | RESULT_GRAPH
  | RESULT_CONFNET | SEGMENT_END | RECOGNITION_END | POLL | PROCESS_ONLINE | PROCESS_OFFLINE
  | PAUSE | PAUSE_FUNCTION | RESUME

record build =
  naist :: bool
  gmm_vad :: bool

definition backend_vad :: "build \<Rightarrow> bool" where
  "backend_vad b \<longleftrightarrow> naist b \<or> gmm_vad b"

text \<open>
  The window buffer is the list of the samples it holds: \<open>windownum\<close> is its length, what the
  array has behind them is never read.  A NULL buffer is \<open>None\<close>.
\<close>

record RealBeam =
  maxframelen :: int
  window :: "int list option"
  windowlen :: nat
  last_is_segmented :: bool
  rest_Speech :: "int list option"
  rest_alloc_len :: nat
  rest_len :: nat

text \<open>The parameters of the feature extraction of an instance, \<open>mfcc->para\<close>.\<close>

record Value =
  energy :: bool
  enormal :: bool
  delta :: bool
  acc :: bool
  c0 :: bool
  absesup :: bool
  cmn :: bool
  cvn :: bool
  baselen :: nat
  vecbuflen :: nat
  para_veclen :: nat
  smp_period :: int
  para_frameshift :: int
  delWin :: nat
  accWin :: nat

text \<open>The engine; \<open>paras\<close> and \<open>fvins\<close> have one element for each instance.\<close>

record ('w, 'd) Engine =
  seg :: Spsegment.Recog
  wrk :: 'w
  dec :: 'd
  real :: RealBeam
  process_segment :: bool
  rehash :: bool
  events :: "event list"
  fvins :: "Plugin.MFCCCalc list"
  paras :: "Value list"
  eng_input :: Instances.input_type
  eng_speech_input :: Instances.speech_input
  paramtype_check_flag :: bool
  ext_veclen :: nat
  ext_period :: real
  frameshift :: nat
  framesize :: nat

text \<open>
  The functions of the libraries: the search of one frame (-1 error, 0 success, 1 segmented),
  the two functions that finish the first pass, the preparation of the output probability
  caches (for a length, or for the lengths of the instances), the computation of a vector
  from a window, the preparation of the energy maximum, of the two delta buffers and of the
  cepstral mean (these by instance number), and the growing of a parameter array.
\<close>

record ('w, 'd) ops =
  decode_proceed :: "'d \<Rightarrow> Spsegment.Recog \<Rightarrow> int \<times> 'd \<times> Spsegment.Recog"
  decode_end :: "'d \<Rightarrow> Spsegment.Recog \<Rightarrow> 'd \<times> Spsegment.Recog"
  decode_end_segmented :: "'d \<Rightarrow> Spsegment.Recog \<Rightarrow> 'd \<times> Spsegment.Recog"
  outprob_prepare :: "int \<Rightarrow> 'd \<Rightarrow> 'd"
  outprob_prepare_mfcc :: "Spsegment.Recog \<Rightarrow> 'd \<Rightarrow> 'd"
  calc_vector_fn :: "nat \<Rightarrow> int list \<Rightarrow> 'w \<Rightarrow> vect option \<times> 'w"
  energy_max_prepare :: "nat \<Rightarrow> 'w \<Rightarrow> 'w"
  db_prepare :: "nat \<Rightarrow> 'w \<Rightarrow> 'w"
  ab_prepare :: "nat \<Rightarrow> 'w \<Rightarrow> 'w"
  cmn_prepare :: "nat \<Rightarrow> 'w \<Rightarrow> 'w"
  param_alloc_fn :: "Spsegment.HTK_Param \<Rightarrow> nat \<Rightarrow> Spsegment.HTK_Param option"
  vector_postprocess :: "vect \<Rightarrow> nat \<Rightarrow> vect"

definition fire :: "event list \<Rightarrow> ('w, 'd, 'z) Engine_scheme \<Rightarrow> ('w, 'd, 'z) Engine_scheme" where
  "fire es e = e\<lparr>events := events e @ es\<rparr>"

abbreviation mfccs :: "('w, 'd, 'z) Engine_scheme \<Rightarrow> Spsegment.MFCCCalc list" where
  "mfccs e \<equiv> Spsegment.mfcclist (seg e)"

definition set_mfccs :: "Spsegment.MFCCCalc list \<Rightarrow> ('w, 'd, 'z) Engine_scheme \<Rightarrow> ('w, 'd, 'z) Engine_scheme" where
  "set_mfccs ms e = e\<lparr>seg := (seg e)\<lparr>Spsegment.mfcclist := ms\<rparr>\<rparr>"

definition set_samplenum :: "nat \<Rightarrow> Spsegment.MFCCCalc \<Rightarrow> Spsegment.MFCCCalc" where
  "set_samplenum n m =
     m\<lparr>Spsegment.param := (Spsegment.param m)\<lparr>header_samplenum := n, samplenum := n\<rparr>\<rparr>"

section \<open>The vector of a window\<close>

text \<open>
  The feature extraction of libsent for \<open>RealTimeMFCC\<close>: the base vector of a window, the
  normalisation of the energy, the two cycle buffers (the next vector with its delta
  coefficients, if one is available), the cepstral mean, and the array \<open>tmpmfcc\<close> of the work area.
\<close>

record 'w mfcc_ops =
  wmp_calc :: "int list \<Rightarrow> 'w \<Rightarrow> vect \<times> 'w"
  energy_max_normalize :: "real \<Rightarrow> 'w \<Rightarrow> real \<times> 'w"
  db_proceed :: "vect \<Rightarrow> 'w \<Rightarrow> vect option \<times> 'w"
  db_flush :: "'w \<Rightarrow> vect option \<times> 'w"
  ab_proceed :: "vect \<Rightarrow> 'w \<Rightarrow> vect option \<times> 'w"
  ab_flush :: "'w \<Rightarrow> vect option \<times> 'w"
  cmn_realtime :: "vect \<Rightarrow> 'w \<Rightarrow> vect \<times> 'w"
  get_tmpmfcc :: "'w \<Rightarrow> vect"
  put_tmpmfcc :: "vect \<Rightarrow> 'w \<Rightarrow> 'w"

text \<open>The delta stage; \<open>None\<close> when no vector is available yet.\<close>

definition delta_stage :: "Value \<Rightarrow> 'w mfcc_ops \<Rightarrow> vect \<Rightarrow> 'w \<Rightarrow> vect option \<times> 'w" where
  "delta_stage para M v w =
     (if delta para then
        (case db_proceed M v w of
           (None, w') \<Rightarrow> (None, w')
         | (Some dv, w') \<Rightarrow> (Some (take (2 * baselen para) dv @ drop (2 * baselen para) v), w'))
      else (Some v, w))"

text \<open>The vector of the accelerator buffer is [base] [delta] [delta] [acc].\<close>

definition acc_stage :: "Value \<Rightarrow> 'w mfcc_ops \<Rightarrow> vect \<Rightarrow> 'w \<Rightarrow> vect option \<times> 'w" where
  "acc_stage para M v w =
     (if acc para then
        (case ab_proceed M v w of
           (None, w') \<Rightarrow> (None, w')
         | (Some av, w') \<Rightarrow>
             (Some (take (2 * baselen para) av @ take (baselen para) (drop (3 * baselen para) av)
                    @ drop (3 * baselen para) v), w'))
      else (Some v, w))"

text \<open>
  Suppressing the absolute power moves the rest of the vector over it; the last place of the
  buffer keeps its value.
\<close>

definition suppress_power :: "Value \<Rightarrow> vect \<Rightarrow> vect" where
  "suppress_power para v =
     (if delta para \<and> (energy para \<or> c0 para) \<and> absesup para
      then take (baselen para - 1) v
           @ take (vecbuflen para - baselen para) (drop (baselen para) v)
           @ drop (vecbuflen para - 1) v
      else v)"

definition RealTimeMFCC :: "Value \<Rightarrow> 'w mfcc_ops \<Rightarrow> int list \<Rightarrow> 'w \<Rightarrow> vect option \<times> 'w" where
  "RealTimeMFCC para M win w0 =
     (case wmp_calc M win w0 of (v0, w1) \<Rightarrow>
      case (if energy para \<and> enormal para
            then (case energy_max_normalize M (v0 ! (baselen para - 1)) w1 of
                    (x, w) \<Rightarrow> (v0[baselen para - 1 := x], w))
            else (v0, w1)) of (v1, w2) \<Rightarrow>
      case delta_stage para M v1 w2 of
        (None, w3) \<Rightarrow> (None, put_tmpmfcc M v1 w3)
      | (Some v2, w3) \<Rightarrow>
          (case acc_stage para M v2 w3 of
             (None, w4) \<Rightarrow> (None, put_tmpmfcc M v2 w4)
           | (Some v3, w4) \<Rightarrow>
               let v4 = suppress_power para v3
               in if cmn para \<or> cvn para
                  then (case cmn_realtime M v4 w4 of (v5, w5) \<Rightarrow> (Some v5, put_tmpmfcc M v5 w5))
                  else (Some v4, put_tmpmfcc M v4 w4)))"

section \<open>One frame\<close>

text \<open>
  Callbacks at the first frame: some valid instance is at frame 0 and none is beyond it.
\<close>

definition at_first_frame :: "Spsegment.MFCCCalc list \<Rightarrow> bool" where
  "at_first_frame ms \<longleftrightarrow>
     list_ex (\<lambda>m. valid m \<and> f m = 0) ms
     \<and> fold (\<lambda>m maxf. if valid m \<and> maxf < f m then f m else maxf) ms 0 = 0"

definition set_triggered :: "('w, 'd, 'z) Engine_scheme \<Rightarrow> ('w, 'd, 'z) Engine_scheme" where
  "set_triggered e = e\<lparr>seg := (seg e)\<lparr>triggered := True\<rparr>\<rparr>"

definition begin_pass1 :: "build \<Rightarrow> ('w, 'd, 'z) Engine_scheme \<Rightarrow> ('w, 'd, 'z) Engine_scheme" where
  "begin_pass1 b e =
     (if at_first_frame (mfccs e) then
        (if segment (seg e) then
           (if backend_vad b then e
            else set_triggered (fire ((if process_segment e then [] else [RECOGNITION_BEGIN])
                   @ [SEGMENT_BEGIN, PASS1_BEGIN]) e))
         else set_triggered (fire [RECOGNITION_BEGIN, PASS1_BEGIN] e))
      else e)"

text \<open>\<open>rb\<close>: whether the callback for the beginning of the recognition is called here.\<close>

definition check_trigger :: "build \<Rightarrow> bool \<Rightarrow> ('w, 'd, 'z) Engine_scheme \<Rightarrow> ('w, 'd, 'z) Engine_scheme" where
  "check_trigger b rb e =
     (if backend_vad b \<and> segment (seg e) \<and> \<not> triggered (seg e) then
        (case spsegment_trigger_sync (naist b) (gmm_vad b) (seg e) of (ok, s) \<Rightarrow>
           if ok then
             set_triggered (fire ((if rb \<and> \<not> process_segment e then [RECOGNITION_BEGIN] else [])
               @ [SEGMENT_BEGIN, PASS1_BEGIN]) (e\<lparr>seg := s\<rparr>))
           else e\<lparr>seg := s\<rparr>)
      else e)"

definition proceed :: "('w, 'd) ops \<Rightarrow> ('w, 'd, 'z) Engine_scheme \<Rightarrow> int \<times> ('w, 'd, 'z) Engine_scheme" where
  "proceed X e =
     (case decode_proceed X (dec e) (seg e) of (ret, d, s) \<Rightarrow> (ret, e\<lparr>dec := d, seg := s\<rparr>))"

text \<open>The frames of the backstep are processed again; a segmentation in them is ignored.\<close>

definition step_mfcc :: "Spsegment.MFCCCalc \<Rightarrow> Spsegment.MFCCCalc" where
  "step_mfcc m =
     (if \<not> valid m then m
      else m\<lparr>f := f m + 1, valid := f m + 1 < int (samplenum (Spsegment.param m))\<rparr>)"

partial_function (option) backstep_loop ::
  "('w, 'd) ops \<Rightarrow> ('w, 'd, 'z) Engine_scheme \<Rightarrow> (int \<times> ('w, 'd, 'z) Engine_scheme) option" where
  "backstep_loop X e =
     (let e1 = set_mfccs (map step_mfcc (mfccs e)) e
      in if \<not> list_ex valid (mfccs e1) then Some (0, e1)
         else
           (case proceed X e1 of (ret, e2) \<Rightarrow>
              if ret = -1 then Some (-1, e2) else backstep_loop X (fire [PASS1_FRAME] e2)))"

definition do_rewind ::
  "('w, 'd) ops \<Rightarrow> int \<Rightarrow> bool \<Rightarrow> ('w, 'd, 'z) Engine_scheme \<Rightarrow> (int \<times> ('w, 'd, 'z) Engine_scheme) option" where
  "do_rewind X rewind reprocess e =
     (let e1 = set_mfccs (map (\<lambda>m. if valid m then set_samplenum (nat (f m + 1)) m else m) (mfccs e)) e
      in case spsegment_restart_mfccs (seg e1) rewind reprocess of
           None \<Rightarrow> None
         | Some s \<Rightarrow>
             let e2 = e1\<lparr>seg := s, rehash := True, dec := outprob_prepare_mfcc X s (dec e1)\<rparr>
             in if reprocess then backstep_loop X e2 else Some (0, e2))"

definition proceed_one_frame ::
  "build \<Rightarrow> ('w, 'd) ops \<Rightarrow> ('w, 'd, 'z) Engine_scheme \<Rightarrow> (int \<times> ('w, 'd, 'z) Engine_scheme) option" where
  "proceed_one_frame b X e =
     (case proceed X (begin_pass1 b e) of (ret, e1) \<Rightarrow>
        if ret = -1 then Some (-1, e1)
        else if ret = 1 then Some (1, e1\<lparr>real := (real e1)\<lparr>last_is_segmented := True\<rparr>\<rparr>)
        else
          let e2 = check_trigger b True e1
          in case spsegment_need_restart (naist b) (gmm_vad b) (seg e2) of (need, rf, s) \<Rightarrow>
             (case (if need then (case rf of None \<Rightarrow> None
                        | Some (rewind, reprocess) \<Rightarrow> do_rewind X rewind reprocess (e2\<lparr>seg := s\<rparr>))
                    else Some (0, e2\<lparr>seg := s\<rparr>)) of
                None \<Rightarrow> None
              | Some (r, e3) \<Rightarrow>
                  if r = -1 then Some (-1, e3)
                  else Some (0, if list_ex valid (mfccs e3) then fire [PASS1_FRAME] e3 else e3)))"

definition next_frame :: "('w, 'd, 'z) Engine_scheme \<Rightarrow> ('w, 'd, 'z) Engine_scheme" where
  "next_frame e = set_mfccs (map (\<lambda>m. if valid m then m\<lparr>f := f m + 1\<rparr> else m) (mfccs e)) e"

section \<open>The pipeline\<close>

text \<open>
  The loop over the incoming samples: \<open>sp\<close> are the samples left, \<open>w\<close> the samples in the window.
  It ends because the samples are used up, because an instance has reached the maximum number
  of frames, or because the processing of a frame returned something else than 0.  A frame
  shift of 0 (by which \<open>RealTimeInit\<close> divides) or longer than the window is an error.
\<close>

datatype pipe = Pipe_done | Pipe_full | Pipe_stop int

function (sequential) pipeline_loop ::
  "nat \<Rightarrow> nat \<Rightarrow> ('e \<Rightarrow> bool) \<Rightarrow> (int list \<Rightarrow> 'e \<Rightarrow> (int \<times> 'e) option) \<Rightarrow> int list \<Rightarrow> int list \<Rightarrow> 'e
    \<Rightarrow> (pipe \<times> int list \<times> int list \<times> 'e) option" where
  "pipeline_loop wl fs full frame [] w e = Some (Pipe_done, [], w, e)"
| "pipeline_loop wl fs full frame (x # xs) w e =
     (if full e then Some (Pipe_full, x # xs, w, e)
      else
        let n = min (wl - length w) (length (x # xs)); w1 = w @ take n (x # xs); sp1 = drop n (x # xs)
        in if length w1 < wl then Some (Pipe_done, sp1, w1, e)
           else
             (case frame w1 e of
                None \<Rightarrow> None
              | Some (ret, e1) \<Rightarrow>
                  if ret \<noteq> 0 then Some (Pipe_stop ret, sp1, w1, e1)
                  else if fs = 0 \<or> wl < fs \<or> length w1 \<noteq> wl then None
                  else pipeline_loop wl fs full frame sp1 (drop fs w1) e1))"
  by pat_completeness auto
termination
  by (relation "measure (\<lambda>(wl, fs, full, frame, sp, w, e). 2 * length sp + (if wl \<le> length w then 1 else 0))")
    (auto simp: min_def split: if_splits)

declare pipeline_loop.simps(2) [simp del]

text \<open>One vector per instance from the window; \<open>False\<close> when \<open>param_alloc\<close> fails.\<close>

fun compute_vectors ::
  "('w, 'd) ops \<Rightarrow> int list \<Rightarrow> nat \<Rightarrow> Spsegment.MFCCCalc list \<Rightarrow> 'w
    \<Rightarrow> (bool \<times> Spsegment.MFCCCalc list \<times> 'w) option" where
  "compute_vectors X win i [] w = Some (True, [], w)"
| "compute_vectors X win i (m # ms) w =
     (case calc_vector_fn X i win w of
        (None, w1) \<Rightarrow>
          map_option (\<lambda>(ok, ms', w'). (ok, m\<lparr>valid := False\<rparr> # ms', w')) (compute_vectors X win (i + 1) ms w1)
      | (Some v, w1) \<Rightarrow>
          let t = nat (f m); v' = vector_postprocess X v t
          in case param_alloc_fn X (Spsegment.param m) (t + 1) of
               None \<Rightarrow> Some (False, m\<lparr>valid := True\<rparr> # ms, w1)
             | Some p \<Rightarrow>
                 if length (Spsegment.parvec p) \<le> t then None
                 else
                   map_option (\<lambda>(ok, ms', w').
                       (ok, m\<lparr>valid := True,
                             Spsegment.param := p\<lparr>Spsegment.parvec := (Spsegment.parvec p)[t := v']\<rparr>\<rparr> # ms', w'))
                     (compute_vectors X win (i + 1) ms w1))"

definition process_window ::
  "build \<Rightarrow> ('w, 'd) ops \<Rightarrow> int list \<Rightarrow> ('w, 'd, 'z) Engine_scheme \<Rightarrow> (int \<times> ('w, 'd, 'z) Engine_scheme) option" where
  "process_window b X win e =
     (case compute_vectors X win 0 (mfccs e) (wrk e) of
        None \<Rightarrow> None
      | Some (ok, ms, w) \<Rightarrow>
          let e1 = (set_mfccs ms e)\<lparr>wrk := w\<rparr>
          in if \<not> ok then Some (-1, e1)
             else
               (case proceed_one_frame b X e1 of
                  None \<Rightarrow> None
                | Some (ret, e2) \<Rightarrow> Some (ret, if ret = 0 then next_frame e2 else e2)))"

definition max_reached :: "('w, 'd, 'z) Engine_scheme \<Rightarrow> bool" where
  "max_reached e \<longleftrightarrow> list_ex (\<lambda>m. f m \<ge> maxframelen (real e)) (mfccs e)"

text \<open>The samples not processed yet are kept for the next segment.\<close>

definition keep_rest :: "int list \<Rightarrow> RealBeam \<Rightarrow> RealBeam" where
  "keep_rest rest r =
     (let r1 = r\<lparr>rest_len := length rest\<rparr>
      in if length rest > 0 then
           r1\<lparr>rest_alloc_len :=
                (if rest_Speech r1 = None \<or> rest_alloc_len r1 < length rest then length rest
                 else rest_alloc_len r1),
              rest_Speech := Some rest\<rparr>
         else r1)"

text \<open>While the loop runs, the window is its variable \<open>w\<close> and the member of the engine is not used.\<close>

definition RealTimePipeLine ::
  "build \<Rightarrow> ('w, 'd) ops \<Rightarrow> int list \<Rightarrow> ('w, 'd, 'z) Engine_scheme \<Rightarrow> (int \<times> ('w, 'd, 'z) Engine_scheme) option" where
  "RealTimePipeLine b X Speech e =
     (case window (real e) of
        None \<Rightarrow> None
      | Some w \<Rightarrow>
          (case pipeline_loop (windowlen (real e)) (frameshift e) max_reached (process_window b X) Speech w
                  (e\<lparr>real := (real e)\<lparr>last_is_segmented := False, window := None\<rparr>\<rparr>) of
             None \<Rightarrow> None
           | Some (Pipe_done, rest, w', e') \<Rightarrow> Some (0, e'\<lparr>real := (real e')\<lparr>window := Some w'\<rparr>\<rparr>)
           | Some (Pipe_full, rest, w', e') \<Rightarrow> Some (1, e'\<lparr>real := (real e')\<lparr>window := Some w'\<rparr>\<rparr>)
           | Some (Pipe_stop ret, rest, w', e') \<Rightarrow>
               Some (ret, e'\<lparr>real := (if ret = 1 \<and> segment (seg e') then keep_rest rest (real e') else real e')
                                      \<lparr>window := Some w'\<rparr>\<rparr>)))"

section \<open>Preparing and resuming\<close>

definition reset_instance :: "('w, 'd) ops \<Rightarrow> nat \<times> Value \<Rightarrow> 'w \<Rightarrow> 'w" where
  "reset_instance X = (\<lambda>(i, para) w0.
     let w1 = (if energy para \<and> enormal para then energy_max_prepare X i w0 else w0);
         w2 = (if delta para then db_prepare X i w1 else w1)
     in if acc para then ab_prepare X i w2 else w2)"

definition reset_mfcc :: "('w, 'd) ops \<Rightarrow> ('w, 'd, 'z) Engine_scheme \<Rightarrow> ('w, 'd, 'z) Engine_scheme" where
  "reset_mfcc X e = e\<lparr>wrk := fold (reset_instance X) (enumerate 0 (paras e)) (wrk e)\<rparr>"

definition prepare_cmn :: "('w, 'd) ops \<Rightarrow> nat \<times> Value \<Rightarrow> 'w \<Rightarrow> 'w" where
  "prepare_cmn X = (\<lambda>(i, para) w. if cmn para \<or> cvn para then cmn_prepare X i w else w)"

text \<open>
  The instances before decoding of the frames kept from the last segment.
\<close>

definition resume_prepare :: "build \<Rightarrow> ('w, 'd) ops \<Rightarrow> ('w, 'd, 'z) Engine_scheme \<Rightarrow> ('w, 'd, 'z) Engine_scheme" where
  "resume_prepare b X e =
     (let e1 = (if eng_input e = INPUT_WAVEFORM then reset_mfcc X e else e);
          e2 = e1\<lparr>dec := outprob_prepare X (maxframelen (real e1)) (dec e1)\<rparr>;
          e3 = (set_mfccs (map (\<lambda>m. m\<lparr>valid := samplenum (Spsegment.param m) \<noteq> 0, f := 0\<rparr>) (mfccs e2)) e2)
                 \<lparr>wrk := fold (prepare_cmn X) (enumerate 0 (paras e2)) (wrk e2)\<rparr>
      in if backend_vad b then
           (if segment (seg e3) then e3\<lparr>seg := spsegment_init (naist b) (gmm_vad b) (seg e3)\<rparr> else e3)
         else
           let e4 = e3\<lparr>seg := (seg e3)\<lparr>triggered := False\<rparr>\<rparr>
           in if list_ex valid (mfccs e4) then set_triggered (fire [SEGMENT_BEGIN, PASS1_BEGIN] e4) else e4)"

text \<open>The loop over these frames; the result \<open>None\<close> inside is that all were processed.\<close>

partial_function (option) resume_loop ::
  "build \<Rightarrow> ('w, 'd) ops \<Rightarrow> ('w, 'd, 'z) Engine_scheme \<Rightarrow> (int option \<times> ('w, 'd, 'z) Engine_scheme) option" where
  "resume_loop b X e =
     (let e1 = set_mfccs (map (\<lambda>m. if valid m then m\<lparr>valid := f m < int (samplenum (Spsegment.param m))\<rparr>
                                    else m) (mfccs e)) e
      in if \<not> list_ex valid (mfccs e1) then Some (None, e1)
         else
           (case proceed X e1 of (ret, e2) \<Rightarrow>
              if ret = -1 then Some (Some (-1), e2)
              else if ret = 1 then Some (Some 1, e2\<lparr>real := (real e2)\<lparr>last_is_segmented := True\<rparr>\<rparr>)
              else resume_loop b X (next_frame (fire [PASS1_FRAME] (check_trigger b False e2)))))"

definition RealTimeResume ::
  "build \<Rightarrow> ('w, 'd) ops \<Rightarrow> ('w, 'd, 'z) Engine_scheme \<Rightarrow> (int \<times> ('w, 'd, 'z) Engine_scheme) option" where
  "RealTimeResume b X e =
     (case resume_loop b X (resume_prepare b X e) of
        None \<Rightarrow> None
      | Some (Some ret, e1) \<Rightarrow> Some (ret, e1)
      | Some (None, e1) \<Rightarrow>
          if eng_input e1 = INPUT_WAVEFORM then
            (case window (real e1) of
               None \<Rightarrow> None
             | Some w \<Rightarrow>
                 if length w < frameshift e1 then None
                 else
                   let e2 = e1\<lparr>real := (real e1)\<lparr>window := Some (drop (frameshift e1) w)\<rparr>\<rparr>
                   in if rest_len (real e2) > 0 then
                        (case rest_Speech (real e2) of
                           None \<Rightarrow> None
                         | Some sp \<Rightarrow> RealTimePipeLine b X (take (rest_len (real e2)) sp) e2)
                      else Some (0, e2))
          else Some (0, e1))"

section \<open>The end of the first pass\<close>

definition RealTimeTerminate :: "('w, 'd) ops \<Rightarrow> ('w, 'd, 'z) Engine_scheme \<Rightarrow> ('w, 'd, 'z) Engine_scheme" where
  "RealTimeTerminate X e =
     (let e1 = set_mfccs (map (\<lambda>m. set_samplenum (nat (f m)) m) (mfccs e)) e
      in case decode_end X (dec e1) (seg e1) of (d, s) \<Rightarrow> e1\<lparr>dec := d, seg := s\<rparr>)"

definition realbeam_free :: "RealBeam \<Rightarrow> RealBeam" where
  "realbeam_free r = r\<lparr>window := None, rest_Speech := None\<rparr>"

text \<open>
  What the delta buffers still hold when the input ends: a vector, nothing yet, or no more.
  \<open>tmp\<close> is the vector of the last call, in \<open>tmpmfcc\<close>.
\<close>

datatype flush = Flushed vect | Flush_wait | Flush_end

text \<open>The two copies from the buffer of the accelerators.\<close>

definition flush_acc :: "Value \<Rightarrow> vect \<Rightarrow> vect \<Rightarrow> vect" where
  "flush_acc para av tmp =
     take (para_veclen para - baselen para) av
     @ take (baselen para) (drop (para_veclen para - baselen para) av) @ drop (para_veclen para) tmp"

definition flush_delta :: "Value \<Rightarrow> vect \<Rightarrow> vect \<Rightarrow> vect" where
  "flush_delta para dv tmp =
     (if energy para \<and> absesup para
      then take (baselen para - 1) dv @ take (baselen para) (drop (baselen para) dv)
           @ drop (2 * baselen para - 1) tmp
      else take (2 * baselen para) dv @ drop (2 * baselen para) tmp)"

definition flush_stage :: "Value \<Rightarrow> 'w mfcc_ops \<Rightarrow> 'w \<Rightarrow> flush \<times> 'w" where
  "flush_stage para M w =
     (let tmp = get_tmpmfcc M w
      in case db_flush M w of
        (Some dv, w1) \<Rightarrow>
          let v = flush_delta para dv tmp
          in if acc para then
               (case ab_proceed M v w1 of
                  (Some av, w2) \<Rightarrow> (Flushed (flush_acc para av v), w2)
                | (None, w2) \<Rightarrow> (Flush_wait, put_tmpmfcc M v w2))
             else (Flushed v, w1)
      | (None, w1) \<Rightarrow>
          if acc para then
            (case ab_flush M w1 of
               (Some av, w2) \<Rightarrow> (Flushed (flush_acc para av tmp), w2)
             | (None, w2) \<Rightarrow> (Flush_end, w2))
          else (Flush_end, w1))"

definition flush_vector :: "Value \<Rightarrow> 'w mfcc_ops \<Rightarrow> 'w \<Rightarrow> flush \<times> 'w" where
  "flush_vector para M w =
     (case flush_stage para M w of
        (Flushed v, w1) \<Rightarrow>
          if cmn para \<or> cvn para
          then (case cmn_realtime M v w1 of (v', w2) \<Rightarrow> (Flushed v', put_tmpmfcc M v' w2))
          else (Flushed v, put_tmpmfcc M v w1)
      | (r, w1) \<Rightarrow> (r, w1))"

text \<open>
  One round over the instances, with the flushing of an instance (by number) as parameter.
\<close>

fun flush_round ::
  "(nat \<Rightarrow> 'w \<Rightarrow> flush \<times> 'w) \<Rightarrow> ('w, 'd) ops \<Rightarrow> nat \<Rightarrow> Spsegment.MFCCCalc list \<Rightarrow> 'w
    \<Rightarrow> (bool \<times> Spsegment.MFCCCalc list \<times> 'w) option" where
  "flush_round fl X i [] w = Some (True, [], w)"
| "flush_round fl X i (m # ms) w =
     (if \<not> valid m then
        map_option (\<lambda>(ok, ms', w'). (ok, m # ms', w')) (flush_round fl X (i + 1) ms w)
      else
        (case fl i w of
           (Flush_end, w1) \<Rightarrow>
             map_option (\<lambda>(ok, ms', w'). (ok, m\<lparr>valid := False\<rparr> # ms', w')) (flush_round fl X (i + 1) ms w1)
         | (Flush_wait, w1) \<Rightarrow>
             map_option (\<lambda>(ok, ms', w'). (ok, m # ms', w')) (flush_round fl X (i + 1) ms w1)
         | (Flushed v, w1) \<Rightarrow>
             let t = nat (f m)
             in case param_alloc_fn X (Spsegment.param m) (t + 1) of
                  None \<Rightarrow> Some (False, m # ms, w1)
                | Some p \<Rightarrow>
                    if length (Spsegment.parvec p) \<le> t then None
                    else
                      map_option (\<lambda>(ok, ms', w').
                          (ok, m\<lparr>Spsegment.param := p\<lparr>Spsegment.parvec :=
                                   (Spsegment.parvec p)[t := vector_postprocess X v t]\<rparr>\<rparr> # ms', w'))
                        (flush_round fl X (i + 1) ms w1)))"

text \<open>The loop until all is flushed; the inner \<open>None\<close> is that it ended normally or by a segmentation.\<close>

partial_function (option) flush_loop ::
  "build \<Rightarrow> (nat \<Rightarrow> 'w \<Rightarrow> flush \<times> 'w) \<Rightarrow> ('w, 'd) ops \<Rightarrow> ('w, 'd, 'z) Engine_scheme
    \<Rightarrow> (int option \<times> ('w, 'd, 'z) Engine_scheme) option" where
  "flush_loop b fl X e =
     (if \<not> list_ex valid (mfccs e) then Some (None, e)
      else
        Option.bind (flush_round fl X 0 (mfccs e) (wrk e)) (\<lambda>(ok, ms, w).
          let e1 = (set_mfccs ms e)\<lparr>wrk := w\<rparr>
          in if \<not> ok then Some (Some 0, e1)
             else
               (case proceed X (begin_pass1 b e1) of (ret, e2) \<Rightarrow>
                  if ret = -1 then Some (Some (-1), e2)
                  else if ret = 1 then Some (None, e2)
                  else
                    let e3 = fire [PASS1_FRAME] (check_trigger b True e2)
                    in flush_loop b fl X
                         (set_mfccs (map (\<lambda>m. if valid m
                             then m\<lparr>f := f m + 1, valid := \<not> f m + 1 > maxframelen (real e3)\<rparr>
                             else m) (mfccs e3)) e3))))"

text \<open>
  The end of the first pass.  The result is the number returned as \<open>boolean\<close>; \<open>M\<close> is the feature
  extraction of each instance.
\<close>

definition RealTimeParam ::
  "build \<Rightarrow> (nat \<Rightarrow> 'w mfcc_ops) \<Rightarrow> ('w, 'd) ops \<Rightarrow> ('w, 'd, 'z) Engine_scheme
    \<Rightarrow> (int \<times> ('w, 'd, 'z) Engine_scheme) option" where
  "RealTimeParam b M X e =
     (if last_is_segmented (real e) then
        let e1 = set_mfccs (map (\<lambda>m. set_samplenum (nat (f m + 1)) m) (mfccs e)) e
        in case decode_end_segmented X (dec e1) (seg e1) of (d, s) \<Rightarrow> Some (1, e1\<lparr>dec := d, seg := s\<rparr>)
      else if eng_input e = INPUT_VECTOR then Some (1, RealTimeTerminate X e)
      else
        let e1 = set_mfccs (map2 (\<lambda>para m. m\<lparr>valid := delta para \<or> acc para\<rparr>) (paras e) (mfccs e)) e
        in case flush_loop b (\<lambda>i. flush_vector (paras e ! i) (M i)) X e1 of
             None \<Rightarrow> None
           | Some (Some ret, e2) \<Rightarrow> Some (ret, e2)
           | Some (None, e2) \<Rightarrow> Some (1, RealTimeTerminate X e2))"

text \<open>
  The cepstral mean is updated unless a live process that uses the instance rejected the input;
  a process is its liveness, the number of its instance and its result status.
\<close>

definition cmn_update_p :: "nat \<Rightarrow> (bool \<times> nat \<times> int) list \<Rightarrow> bool" where
  "cmn_update_p i ps = (\<not> list_ex (\<lambda>(alive, j, status). alive \<and> j = i \<and> status < 0) ps)"

text \<open>The second result is what is written to the file when a file name is given.\<close>

definition RealTimeCMNUpdate ::
  "bool \<Rightarrow> bool \<Rightarrow> ('w \<Rightarrow> 'w) \<Rightarrow> nat \<Rightarrow> (bool \<times> nat \<times> int) list \<Rightarrow> 'w \<Rightarrow> 'w \<times> 'w option" where
  "RealTimeCMNUpdate update has_file upd i ps w =
     (let w' = (if update \<and> cmn_update_p i ps then upd w else w)
      in (w', if has_file then Some w' else None))"

section \<open>Preparation of an input\<close>

text \<open>The bits of the parameter type are constants of libsent.\<close>

record type_bits =
  F_MFCC :: int
  F_DELTA :: int
  F_ACCL :: int
  F_ENERGY :: int
  F_ZEROTH :: int
  F_ENERGY_SUP :: int
  F_CEPNORM :: int

unbundle bit_operations_syntax

definition init_param :: "type_bits \<Rightarrow> Value \<Rightarrow> Plugin.HTK_Param \<Rightarrow> Plugin.HTK_Param" where
  "init_param T para p =
     (let t = F_MFCC T;
          t = (if delta para then t OR F_DELTA T else t);
          t = (if acc para then t OR F_ACCL T else t);
          t = (if energy para then t OR F_ENERGY T else t);
          t = (if c0 para then t OR F_ZEROTH T else t);
          t = (if absesup para then t OR F_ENERGY_SUP T else t);
          t = (if cmn para then t OR F_CEPNORM T else t)
      in p\<lparr>samptype := t, wshift := smp_period para * para_frameshift para,
           sampsize := int (para_veclen para) * 4, veclen := para_veclen para\<rparr>)"

text \<open>
  The header of one instance: from the plugin, from the external feature feeder (which also takes
  the parameters of the acoustic model, \<open>hmm_para\<close>, as those of the instance), or from the
  parameters of the instance, with the preparation of its cepstral mean.  The result is whether
  it succeeded, the flag for the check of the parameter type, the instance and its parameters,
  and the work area.
\<close>

definition prepare_header ::
  "plugins \<Rightarrow> (func \<Rightarrow> int \<Rightarrow> int) \<Rightarrow> type_bits \<Rightarrow> Value \<Rightarrow> ('w, 'd) ops \<Rightarrow> ('w, 'd, 'z) Engine_scheme \<Rightarrow> nat
    \<Rightarrow> bool \<Rightarrow> Plugin.MFCCCalc \<times> Value \<Rightarrow> 'w
    \<Rightarrow> (bool \<times> bool \<times> (Plugin.MFCCCalc \<times> Value) \<times> 'w) option" where
  "prepare_header st call T hmm_para X e i flag = (\<lambda>(m, para) w.
     if eng_speech_input e = SP_MFCMODULE then
       map_option (\<lambda>(ok, flag', m'). (ok, flag', (m', para), w)) (mfc_module_set_header st call flag m)
     else if eng_speech_input e = SP_EXTERN then
       Some (True, False,
         (m\<lparr>Plugin.param := (Plugin.param m)\<lparr>veclen := ext_veclen e, sampsize := int (ext_veclen e) * 4,
                                               wshift := \<lfloor>ext_period e * 1000 * 10000\<rfloor>\<rparr>\<rparr>, hmm_para), w)
     else
       Some (True, flag, (m\<lparr>Plugin.param := init_param T para (Plugin.param m)\<rparr>, para),
             prepare_cmn X (i, para) w))"

text \<open>
  The loop over the instances, with their headers and their parameters.  \<open>param_alloc\<close> for one
  frame ends the program when it fails, which is \<open>None\<close> here.
\<close>

fun prepare_instances ::
  "('w, 'd) ops
    \<Rightarrow> (nat \<Rightarrow> bool \<Rightarrow> Plugin.MFCCCalc \<times> Value \<Rightarrow> 'w
          \<Rightarrow> (bool \<times> bool \<times> (Plugin.MFCCCalc \<times> Value) \<times> 'w) option)
    \<Rightarrow> nat \<Rightarrow> bool \<Rightarrow> (Plugin.MFCCCalc \<times> Value) list \<Rightarrow> Spsegment.MFCCCalc list \<Rightarrow> 'w
    \<Rightarrow> (bool \<times> bool \<times> (Plugin.MFCCCalc \<times> Value) list \<times> Spsegment.MFCCCalc list \<times> 'w) option" where
  "prepare_instances X h i flag (v # vs) (m # ms) w =
     (case h i flag v w of
        None \<Rightarrow> None
      | Some (ok, flag1, v1, w1) \<Rightarrow>
          if \<not> ok then Some (False, flag1, v1 # vs, m # ms, w1)
          else
            (case param_alloc_fn X (Spsegment.param m) 1 of
               None \<Rightarrow> None
             | Some p \<Rightarrow>
                 map_option (\<lambda>(ok', flag', vs', ms', w').
                     (ok', flag', v1 # vs', m\<lparr>Spsegment.param := p, f := 0\<rparr> # ms', w'))
                   (prepare_instances X h (i + 1) flag1 vs ms w1)))"
| "prepare_instances X h i flag vs ms w = Some (True, flag, vs, ms, w)"

text \<open>\<open>coherent\<close> is the check of the parameter type against the acoustic models.\<close>

definition RealTimePipeLinePrepare ::
  "build \<Rightarrow> plugins \<Rightarrow> (func \<Rightarrow> int \<Rightarrow> int) \<Rightarrow> type_bits \<Rightarrow> Value \<Rightarrow> (Plugin.MFCCCalc list \<Rightarrow> bool)
    \<Rightarrow> ('w, 'd) ops \<Rightarrow> ('w, 'd, 'z) Engine_scheme \<Rightarrow> (bool \<times> ('w, 'd, 'z) Engine_scheme) option" where
  "RealTimePipeLinePrepare b st call T hmm_para coherent X e =
     (let e0 = e\<lparr>real := (real e)\<lparr>window := map_option (\<lambda>_. []) (window (real e))\<rparr>\<rparr>
      in case prepare_instances X (prepare_header st call T hmm_para X e0) 0 (paramtype_check_flag e0)
                (zip (fvins e0) (paras e0)) (mfccs e0) (wrk e0) of
           None \<Rightarrow> None
         | Some (ok, flag, vs, ms, w) \<Rightarrow>
             let e1 = (set_mfccs ms e0)\<lparr>fvins := map fst vs, paras := map snd vs, wrk := w,
                                         paramtype_check_flag := flag\<rparr>
             in if \<not> ok \<or> flag \<and> \<not> coherent (fvins e1) then Some (False, e1)
                else
                  let e2 = (if eng_input e1 = INPUT_WAVEFORM then reset_mfcc X e1 else e1);
                      e3 = e2\<lparr>dec := outprob_prepare X (maxframelen (real e2)) (dec e2)\<rparr>;
                      s = seg e3
                  in Some (True, e3\<lparr>seg :=
                       (if backend_vad b then
                          (if segment s then spsegment_init (naist b) (gmm_vad b) s else s)
                        else s\<lparr>triggered := False\<rparr>)\<rparr>))"

section \<open>Feature vector input\<close>

text \<open>Reading the next vector into the first instance.\<close>

definition read_vector ::
  "(Plugin.HTK_Param \<Rightarrow> nat \<Rightarrow> Plugin.HTK_Param option) \<Rightarrow> int \<times> vect \<Rightarrow> ('w, 'd, 'z) Engine_scheme
    \<Rightarrow> (int \<times> ('w, 'd, 'z) Engine_scheme \<times> nat option) option" where
  "read_vector palloc rd e =
     (case (fvins e, mfccs e) of
        (v # vs, m # ms) \<Rightarrow>
          (case mfc_module_read palloc (\<lambda>_ _. rd)
                  (v\<lparr>Plugin.param := (Plugin.param v)\<lparr>Plugin.parvec := Spsegment.parvec (Spsegment.param m)\<rparr>,
                     mf := nat (f m)\<rparr>) of
             None \<Rightarrow> None
           | Some (ret, v', t) \<Rightarrow>
               Some (ret,
                 (set_mfccs (m\<lparr>Spsegment.param := (Spsegment.param m)
                              \<lparr>Spsegment.parvec := Plugin.parvec (Plugin.param v')\<rparr>\<rparr> # ms) e)
                   \<lparr>fvins := v' # vs\<rparr>, t))
      | _ \<Rightarrow> None)"

text \<open>
  The frames up to \<open>new_f\<close>; the inner \<open>None\<close> is that they were all processed.  The vector is
  postprocessed in place.
\<close>

definition start_frame :: "('w, 'd) ops \<Rightarrow> ('w, 'd, 'z) Engine_scheme \<Rightarrow> ('w, 'd, 'z) Engine_scheme option" where
  "start_frame X e =
     (case mfccs e of
        [] \<Rightarrow> None
      | m # ms \<Rightarrow>
          let t = nat (f m); p = Spsegment.param m
          in if f m < 0 \<or> length (Spsegment.parvec p) \<le> t then None
             else Some (set_mfccs (m\<lparr>valid := True, Spsegment.param := p\<lparr>Spsegment.parvec :=
                    (Spsegment.parvec p)[t := vector_postprocess X (Spsegment.parvec p ! t) t]\<rparr>\<rparr> # ms) e))"

partial_function (option) go_frames ::
  "build \<Rightarrow> ('w, 'd) ops \<Rightarrow> nat \<Rightarrow> ('w, 'd, 'z) Engine_scheme \<Rightarrow> (int option \<times> ('w, 'd, 'z) Engine_scheme) option" where
  "go_frames b X new_f e =
     (if mfccs e = [] then None
      else if f (hd (mfccs e)) < int new_f then
        Option.bind (start_frame X e) (\<lambda>e1.
        Option.bind (proceed_one_frame b X e1) (\<lambda>(ret, e2).
          if ret = -1 then Some (Some (-1), e2)
          else if ret = 1 then Some (Some 2, e2)
          else go_frames b X new_f (next_frame e2)))
      else Some (None, e))"

text \<open>
  The loop over the input: one element of the list per call of the reading function, each with
  its return value and the vector it stores.  \<open>Go_waiting\<close> is that more input is awaited.
  \<open>new_f\<close> is not initialised: \<open>None\<close> until the first read sets it.
\<close>

datatype go = Go_return int | Go_waiting

fun go_loop ::
  "build \<Rightarrow> ('w, 'd) ops \<Rightarrow> (Plugin.HTK_Param \<Rightarrow> nat \<Rightarrow> Plugin.HTK_Param option)
    \<Rightarrow> (('w, 'd, 'z) Engine_scheme \<Rightarrow> int \<times> ('w, 'd, 'z) Engine_scheme) option \<Rightarrow> (int \<times> vect) list \<Rightarrow> nat option
    \<Rightarrow> ('w, 'd, 'z) Engine_scheme \<Rightarrow> (go \<times> ('w, 'd, 'z) Engine_scheme) option" where
  "go_loop b X palloc ad_check [] new_f e = Some (Go_waiting, e)"
| "go_loop b X palloc ad_check (rd # rds) new_f e =
     (case read_vector palloc rd e of
        None \<Rightarrow> None
      | Some (ret, e1, t) \<Rightarrow>
          (case (case ad_check of None \<Rightarrow> (0, e1) | Some chk \<Rightarrow> chk e1) of (ret3, e2) \<Rightarrow>
             if mfccs e2 = [] then None
             else if ret3 < 0 \<and> (ret3 = -1 \<and> f (hd (mfccs e2)) = 0 \<or> ret3 = -2)
             then Some (Go_return (-2), e2)
             else
               (case (case t of None \<Rightarrow> new_f | Some n \<Rightarrow> Some n) of
                  None \<Rightarrow> None
                | Some n \<Rightarrow>
                    (case go_frames b X n e2 of
                       None \<Rightarrow> None
                     | Some (Some r, e3) \<Rightarrow> Some (Go_return r, e3)
                     | Some (None, e3) \<Rightarrow>
                         if ret = -1 then Some (Go_return 0, e3)
                         else if ret = -2 then Some (Go_return (-1), e3)
                         else if ret = -3 then Some (Go_return 1, e3)
                         else go_loop b X palloc ad_check rds (Some n) e3))))"

definition mfcc_go ::
  "build \<Rightarrow> ('w, 'd) ops \<Rightarrow> (Plugin.HTK_Param \<Rightarrow> nat \<Rightarrow> Plugin.HTK_Param option)
    \<Rightarrow> (('w, 'd, 'z) Engine_scheme \<Rightarrow> int \<times> ('w, 'd, 'z) Engine_scheme) option \<Rightarrow> (int \<times> vect) list
    \<Rightarrow> ('w, 'd, 'z) Engine_scheme \<Rightarrow> (go \<times> ('w, 'd, 'z) Engine_scheme) option" where
  "mfcc_go b X palloc ad_check input e =
     go_loop b X palloc ad_check input None (e\<lparr>real := (real e)\<lparr>last_is_segmented := False\<rparr>\<rparr>)"

section \<open>Start-up\<close>

text \<open>The noise spectrum of an instance, and its copy in the work area of the feature extraction.\<close>

record SSWork =
  w_ssbuf :: "real list option"
  w_ssbuflen :: nat
  w_ss_alpha :: real
  w_ss_floor :: real

record FRONTEND =
  ssload_filename :: "string option"
  ssbuf :: "real list option"
  sslen :: nat
  ss_alpha :: real
  ss_floor :: real
  bflen :: nat
  sswork :: SSWork

definition load_noise :: "(string \<Rightarrow> real list option) \<Rightarrow> FRONTEND \<Rightarrow> bool \<times> FRONTEND" where
  "load_noise load fe =
     (case ssload_filename fe of
        None \<Rightarrow> (True, fe)
      | Some name \<Rightarrow>
          if ssbuf fe \<noteq> None then (True, fe)
          else
            (case load name of
               None \<Rightarrow> (False, fe)
             | Some buf \<Rightarrow>
                 let fe1 = fe\<lparr>ssbuf := Some buf, sslen := length buf\<rparr>
                 in if sslen fe1 \<noteq> bflen fe1 then (False, fe1)
                    else (True, fe1\<lparr>sswork := \<lparr>w_ssbuf = ssbuf fe1, w_ssbuflen = sslen fe1,
                                              w_ss_alpha = ss_alpha fe1, w_ss_floor = ss_floor fe1\<rparr>\<rparr>)))"

fun load_noises :: "(string \<Rightarrow> real list option) \<Rightarrow> FRONTEND list \<Rightarrow> bool \<times> FRONTEND list" where
  "load_noises load [] = (True, [])"
| "load_noises load (fe # fes) =
     (case load_noise load fe of
        (False, fe1) \<Rightarrow> (False, fe1 # fes)
      | (True, fe1) \<Rightarrow> (case load_noises load fes of (ok, fes1) \<Rightarrow> (ok, fe1 # fes1)))"

text \<open>
  What the second loop allocates for an instance: whether the energy maximum is initialised,
  length and window of the two delta buffers, the length of \<open>tmpmfcc\<close>, whether there is a work
  area for the cepstral mean and whether it was loaded.
\<close>

record area =
  energy_inited :: bool
  db_size :: "(nat \<times> nat) option"
  ab_size :: "(nat \<times> nat) option"
  tmpmfcc_len :: nat
  cmn_wrk :: bool
  cmn_loaded :: bool

definition init_area :: "(string \<Rightarrow> bool) \<Rightarrow> Value \<Rightarrow> string option \<Rightarrow> area \<Rightarrow> area" where
  "init_area cmn_load para name a =
     a\<lparr>energy_inited := (if energy para \<and> enormal para then True else energy_inited a),
       db_size := (if delta para then Some (baselen para, delWin para) else db_size a),
       ab_size := (if acc para then Some (baselen para * 2, accWin para) else ab_size a),
       tmpmfcc_len := vecbuflen para,
       cmn_wrk := (if cmn para \<or> cvn para then True else cmn_wrk a),
       cmn_loaded := (case name of
           Some n \<Rightarrow> if cmn para then cmn_load n else cmn_loaded a
         | None \<Rightarrow> cmn_loaded a)\<rparr>"

text \<open>
  The result is FALSE as soon as a noise spectrum cannot be loaded or does not fit.  A frame shift
  of 0 is a division by zero, \<open>None\<close>.  \<open>names\<close> are the files for the initial cepstral means.
\<close>

definition RealTimeInit ::
  "nat \<Rightarrow> (string \<Rightarrow> real list option) \<Rightarrow> (string \<Rightarrow> bool) \<Rightarrow> FRONTEND list \<Rightarrow> string option list
    \<Rightarrow> area list \<Rightarrow> ('w, 'd, 'z) Engine_scheme
    \<Rightarrow> (bool \<times> FRONTEND list \<times> area list \<times> ('w, 'd, 'z) Engine_scheme) option" where
  "RealTimeInit MAXSPEECHLEN load cmn_load fes names as e =
     (if frameshift e = 0 then None
      else
        let e1 = e\<lparr>real := (real e)\<lparr>maxframelen := int (MAXSPEECHLEN div frameshift e)\<rparr>\<rparr>
        in case load_noises load fes of
             (False, fes') \<Rightarrow> Some (False, fes', as, e1)
           | (True, fes') \<Rightarrow>
               Some (True, fes', map2 (\<lambda>(para, n) a. init_area cmn_load para n a) (zip (paras e1) names) as,
                 e1\<lparr>real := (real e1)\<lparr>windowlen := framesize e1 + 1, window := Some []\<rparr>\<rparr>))"

section \<open>Windows over a stream of samples\<close>

text \<open>The loop with one more chunk of samples.\<close>

lemma loop_partial_window:
  assumes "length w + length (x # xs) < wl" "\<not> full e"
  shows "pipeline_loop wl fs full frame (x # xs @ ys) w e = pipeline_loop wl fs full frame ys (w @ x # xs) e"
proof (cases ys)
  case Nil
  with assms show ?thesis by (simp add: pipeline_loop.simps(2) Let_def)
next
  case (Cons y ys')
  define n where "n = min (wl - length (w @ x # xs)) (length ys)"
  have n: "min (wl - length w) (length (x # xs @ ys)) = length (x # xs) + n"
    using assms(1) unfolding n_def by auto
  have t: "take (length (x # xs) + n) (x # xs @ ys) = x # xs @ take n ys"
    "drop (length (x # xs) + n) (x # xs @ ys) = drop n ys" by simp_all
  have "pipeline_loop wl fs full frame (x # xs @ ys) w e =
     (let w1 = (w @ x # xs) @ take n ys; sp1 = drop n ys
        in if length w1 < wl then Some (Pipe_done, sp1, w1, e)
           else (case frame w1 e of
                None \<Rightarrow> None
              | Some (ret, e1) \<Rightarrow>
                  if ret \<noteq> 0 then Some (Pipe_stop ret, sp1, w1, e1)
                  else if fs = 0 \<or> wl < fs \<or> length w1 \<noteq> wl then None
                  else pipeline_loop wl fs full frame sp1 (drop fs w1) e1))"
    using assms(2) by (simp only: pipeline_loop.simps(2) if_False Let_def n t append_assoc append_Cons)
  also have "\<dots> = pipeline_loop wl fs full frame ys (w @ x # xs) e"
    using assms(2) unfolding Cons pipeline_loop.simps(2) n_def Cons by (simp only: if_False Let_def)
  finally show ?thesis .
qed

lemma loop_append:
  "pipeline_loop wl fs full frame xs w e = Some (Pipe_done, [], w', e') \<Longrightarrow>
     pipeline_loop wl fs full frame (xs @ ys) w e = pipeline_loop wl fs full frame ys w' e'"
proof (induction wl fs full frame xs w e rule: pipeline_loop.induct)
  case (1 wl fs full frame w e)
  then show ?case by simp
next
  case (2 wl fs full frame x xs w e)
  let ?n = "min (wl - length w) (length (x # xs))"
  from "2.prems" have nf: "\<not> full e" by (auto simp: pipeline_loop.simps(2) split: if_splits)
  show ?case
  proof (cases "length w + length (x # xs) < wl")
    case True
    with "2.prems" nf have "w' = w @ x # xs" "e' = e"
      by (simp_all add: pipeline_loop.simps(2) Let_def)
    with loop_partial_window [of w x xs wl full e fs frame ys] True nf show ?thesis by simp
  next
    case False
    then have n: "?n = wl - length w" "?n \<le> length (x # xs)" by auto
    have m: "min (wl - length w) (length (x # xs @ ys)) = ?n" using n by auto
    have tk: "take ?n (x # xs @ ys) = take ?n (x # xs)" "drop ?n (x # xs @ ys) = drop ?n (x # xs) @ ys"
      using n(2) take_append [of ?n "x # xs" ys] drop_append [of ?n "x # xs" ys] by simp_all
    let ?w1 = "w @ take ?n (x # xs)"
    have lw: "\<not> length ?w1 < wl" using n by auto
    obtain e1 where e1: "frame ?w1 e = Some (0, e1)" and fs: "\<not> (fs = 0 \<or> wl < fs \<or> length ?w1 \<noteq> wl)"
      and rec: "pipeline_loop wl fs full frame (drop ?n (x # xs)) (drop fs ?w1) e1 = Some (Pipe_done, [], w', e')"
      using "2.prems" nf lw
      by (auto simp: pipeline_loop.simps(2) Let_def simp del: length_append
          split: option.splits if_splits prod.splits)
    have "pipeline_loop wl fs full frame (drop ?n (x # xs) @ ys) (drop fs ?w1) e1 =
        pipeline_loop wl fs full frame ys w' e'"
      using "2.IH" [OF nf refl refl refl lw e1 refl _ fs rec] by simp
    moreover have "pipeline_loop wl fs full frame ((x # xs) @ ys) w e =
        pipeline_loop wl fs full frame (drop ?n (x # xs) @ ys) (drop fs ?w1) e1"
      unfolding append_Cons pipeline_loop.simps(2) m tk Let_def
      using nf lw e1 fs by (simp only: if_False option.case prod.case) simp
    ultimately show ?thesis by simp
  qed
qed

text \<open>The windows of a stream: as many as fit, each shifted by the frame shift.\<close>

definition window_count :: "nat \<Rightarrow> nat \<Rightarrow> nat \<Rightarrow> nat" where
  "window_count wl fs n = (if n < wl then 0 else (n - wl) div fs + 1)"

definition stream_windows :: "nat \<Rightarrow> nat \<Rightarrow> int list \<Rightarrow> int list list" where
  "stream_windows wl fs s = map (\<lambda>i. take wl (drop (i * fs) s)) [0..<window_count wl fs (length s)]"

lemma window_count_shift:
  "wl \<le> n \<Longrightarrow> 0 < fs \<Longrightarrow> fs \<le> wl \<Longrightarrow> window_count wl fs n = Suc (window_count wl fs (n - fs))"
  by (auto simp: window_count_def le_div_geq not_less add.commute)

lemma stream_windows_shift:
  assumes "wl \<le> length s" "0 < fs" "fs \<le> wl"
  shows "stream_windows wl fs s = take wl s # stream_windows wl fs (drop fs s)"
proof -
  have "map (\<lambda>i. take wl (drop (i * fs) s)) [0..<Suc k] =
      take wl s # map (\<lambda>i. take wl (drop (i * fs) (drop fs s))) [0..<k]" for k
    by (simp add: map_upt_Suc add.commute del: upt_Suc)
  then show ?thesis using window_count_shift [OF assms] by (simp add: stream_windows_def)
qed

lemma loop_full_window:
  assumes "xs \<noteq> []" "\<not> full e" "length w \<le> wl" "wl \<le> length (w @ xs)"
  shows "pipeline_loop wl fs full frame xs w e =
    (case frame (take wl (w @ xs)) e of
       None \<Rightarrow> None
     | Some (ret, e1) \<Rightarrow>
         if ret \<noteq> 0 then Some (Pipe_stop ret, drop (wl - length w) xs, take wl (w @ xs), e1)
         else if fs = 0 \<or> wl < fs then None
         else pipeline_loop wl fs full frame (drop (wl - length w) xs) (drop fs (take wl (w @ xs))) e1)"
proof -
  obtain x xs' where xs: "xs = x # xs'" using assms(1) by (cases xs) auto
  have n: "min (wl - length w) (length xs) = wl - length w" using assms by auto
  have w1: "w @ take (wl - length w) xs = take wl (w @ xs)" using assms(3) by simp
  have l: "length (take wl (w @ xs)) = wl" using assms(4) by simp
  show ?thesis
    using pipeline_loop.simps(2) [of wl fs full frame x xs' w e, folded xs] assms(2) n w1 l
    by (simp only: Let_def if_False less_irrefl simp_thms)
qed

definition record_window :: "int list \<Rightarrow> int list list \<Rightarrow> (int \<times> int list list) option" where
  "record_window win ws = Some (0, ws @ [win])"

lemma loop_windows:
  assumes "0 < fs" "fs \<le> wl" "length w < wl"
  shows "pipeline_loop wl fs (\<lambda>_. False) record_window xs w ws =
    Some (Pipe_done, [], drop (window_count wl fs (length (w @ xs)) * fs) (w @ xs),
      ws @ stream_windows wl fs (w @ xs))"
  using assms(3)
proof (induction "length xs" arbitrary: xs w ws rule: less_induct)
  case less
  show ?case
  proof (cases xs)
    case Nil
    with less.prems show ?thesis by (simp add: window_count_def stream_windows_def)
  next
    case (Cons x xs')
    show ?thesis
    proof (cases "length (w @ xs) < wl")
      case True
      with Cons less.prems show ?thesis
        by (simp add: pipeline_loop.simps(2) Let_def window_count_def stream_windows_def)
    next
      case False
      define S where "S = w @ xs"
      let ?n = "wl - length w"
      from False have n: "0 < ?n" "?n \<le> length xs" and S: "wl \<le> length S"
        using less.prems by (auto simp: S_def)
      have "take wl S = w @ take ?n xs" using less.prems by (simp add: S_def)
      then have "take wl S @ drop ?n xs = S" by (simp add: S_def)
      then have rest: "drop fs (take wl S) @ drop ?n xs = drop fs S"
        using drop_append [of fs "take wl S" "drop ?n xs"] S assms(2) by simp
      have "pipeline_loop wl fs (\<lambda>_. False) record_window xs w ws =
          pipeline_loop wl fs (\<lambda>_. False) record_window (drop ?n xs) (drop fs (take wl S)) (ws @ [take wl S])"
        using loop_full_window [of xs "\<lambda>_. False" ws w wl fs record_window] Cons S less.prems assms(1,2)
        unfolding S_def [symmetric] by (simp add: record_window_def)
      also have "\<dots> = Some (Pipe_done, [],
          drop (window_count wl fs (length (drop fs S)) * fs) (drop fs S),
          (ws @ [take wl S]) @ stream_windows wl fs (drop fs S))"
        using less.hyps [of "drop ?n xs" "drop fs (take wl S)" "ws @ [take wl S]"] n S assms(1,2)
        unfolding rest by simp
      also have "drop (window_count wl fs (length (drop fs S)) * fs) (drop fs S) =
          drop (window_count wl fs (length S) * fs) S"
        using window_count_shift [OF S assms(1,2)] by (simp add: add.commute)
      also have "(ws @ [take wl S]) @ stream_windows wl fs (drop fs S) = ws @ stream_windows wl fs S"
        using stream_windows_shift [OF S assms(1,2)] by simp
      finally show ?thesis unfolding S_def .
    qed
  qed
qed

section \<open>What a frame leaves alone\<close>

text \<open>
  The processing of a frame changes the buffers of the pipeline only by the mark of a
  segmentation, and none of the settings.
\<close>

definition static :: "('w, 'd, 'z) Engine_scheme \<Rightarrow> RealBeam \<times> nat \<times> Instances.input_type" where
  "static e = (real e, frameshift e, eng_input e)"

lemma static_simps [simp]:
  "static (fire es e) = static e" "static (set_mfccs ms e) = static e" "static (set_triggered e) = static e"
  "static (begin_pass1 b e) = static e" "static (next_frame e) = static e"
  by (simp_all add: fire_def set_mfccs_def set_triggered_def begin_pass1_def next_frame_def static_def)

lemma static_updates [simp]:
  "static (e\<lparr>seg := s\<rparr>) = static e" "static (e\<lparr>rehash := x\<rparr>) = static e"
  "static (e\<lparr>dec := d\<rparr>) = static e" "static (e\<lparr>wrk := w\<rparr>) = static e"
  by (simp_all add: static_def)

lemma static_check_trigger [simp]: "static (check_trigger b rb e) = static e"
  by (simp add: check_trigger_def static_def fire_def set_triggered_def split: prod.split)

lemma static_proceed: "proceed X e = (ret, e') \<Longrightarrow> static e' = static e"
  by (auto simp: proceed_def static_def split: prod.splits)

lemma backstep_loop_static:
  assumes "backstep_loop X e = Some re"
  shows "static (snd re) = static e \<and> fst re \<in> {0, -1}"
proof (rule backstep_loop.raw_induct [where P = "\<lambda>X e re. static (snd re) = static e \<and> fst re \<in> {0, -1}",
      OF _ assms])
  fix g and X :: "('a, 'b) ops" and e :: "('a, 'b, 'c) Engine_scheme" and re
  let ?e1 = "set_mfccs (map step_mfcc (mfccs e)) e"
  assume IH: "\<And>X e re. g X e = Some re \<Longrightarrow> static (snd re) = static e \<and> fst re \<in> {0, -1}"
    and body: "(let e1 = ?e1
      in if \<not> list_ex valid (mfccs e1) then Some (0, e1)
         else (case proceed X e1 of (ret, e2) \<Rightarrow>
              if ret = -1 then Some (-1, e2) else g X (fire [PASS1_FRAME] e2))) = Some re"
  obtain ret e2 where p: "proceed X ?e1 = (ret, e2)" by (cases "proceed X ?e1") auto
  with static_proceed [OF p] body IH [of X "fire [PASS1_FRAME] e2" re]
  show "static (snd re) = static e \<and> fst re \<in> {0, -1}"
    by (auto simp: Let_def split: if_splits)
qed

lemma do_rewind_static: "do_rewind X rw rp e = Some (ret, e') \<Longrightarrow> static e' = static e"
  by (auto simp: do_rewind_def Let_def split: option.splits if_splits dest!: backstep_loop_static)

lemma do_rewind_ret: "do_rewind X rw rp e = Some (ret, e') \<Longrightarrow> ret \<in> {0, -1}"
  by (auto simp: do_rewind_def Let_def split: option.splits if_splits dest!: backstep_loop_static)

lemma proceed_one_frame_static:
  assumes "proceed_one_frame b X e = Some (0, e')"
  shows "static e' = static e"
proof -
  obtain ret e1 where p: "proceed X (begin_pass1 b e) = (ret, e1)"
    by (cases "proceed X (begin_pass1 b e)") auto
  then have r1: "static e1 = static e" using static_proceed by fastforce
  obtain need rf s where n: "spsegment_need_restart (naist b) (gmm_vad b) (seg (check_trigger b True e1)) = (need, rf, s)"
    by (cases "spsegment_need_restart (naist b) (gmm_vad b) (seg (check_trigger b True e1))") auto
  show ?thesis
  proof (cases "need")
    case True
    with assms p n r1 show ?thesis
      by (auto simp: proceed_one_frame_def Let_def split: if_splits option.splits dest!: do_rewind_static)
  next
    case False
    with assms p n r1 show ?thesis
      by (auto simp: proceed_one_frame_def Let_def split: if_splits)
  qed
qed

text \<open>
  What the pipeline relies on: the processing of a frame that lets the loop go on keeps the
  part \<open>keep\<close> of the state.
\<close>

locale frame_processor =
  fixes frame :: "int list \<Rightarrow> 'e \<Rightarrow> (int \<times> 'e) option"
    and keep :: "'e \<Rightarrow> 'k"
  assumes frame_keep: "frame win e = Some (0, e') \<Longrightarrow> keep e' = keep e"
begin

lemma loop_keep:
  "pipeline_loop wl fs full frame xs w e = Some (k, rest, w', e') \<Longrightarrow> k = Pipe_done \<or> k = Pipe_full \<Longrightarrow>
     keep e' = keep e"
proof (induction "2 * length xs + (if wl \<le> length w then 1 else 0)" arbitrary: xs w e rule: less_induct)
  case less
  show ?case
  proof (cases "xs = [] \<or> full e \<or> length (w @ xs) < wl")
    case True
    with less.prems(1) show ?thesis
      by (cases xs) (auto simp: pipeline_loop.simps(2) Let_def split: if_splits)
  next
    case False
    then have wl: "length w \<le> wl"
      using less.prems by (cases xs) (auto simp: pipeline_loop.simps(2) Let_def split: if_splits option.splits)
    from False less.prems loop_full_window [of xs full e w wl fs frame] wl
    obtain e1 where e1: "frame (take wl (w @ xs)) e = Some (0, e1)" "0 < fs" "fs \<le> wl"
      and rec: "pipeline_loop wl fs full frame (drop (wl - length w) xs) (drop fs (take wl (w @ xs))) e1 =
        Some (k, rest, w', e')"
      by (auto simp del: take_append drop_append split: option.splits if_splits)
    have "keep e' = keep e1"
      using False wl e1(2,3) less.prems(2) by (intro less.hyps [OF _ rec]) (auto simp: min_def)
    with frame_keep [OF e1(1)] show ?thesis by simp
  qed
qed

end

lemma process_window_static: "process_window b X win e = Some (0, e') \<Longrightarrow> static e' = static e"
  by (auto simp: process_window_def Let_def split: option.splits prod.splits if_splits
      dest!: proceed_one_frame_static)

interpretation pw: frame_processor "process_window b X" static for b X
  by unfold_locales (rule process_window_static)

lemma loop_ends:
  "pipeline_loop wl fs full frame xs w e = Some (k, rest, w', e') \<Longrightarrow>
     (k = Pipe_done \<longrightarrow> rest = []) \<and> k \<noteq> Pipe_stop 0"
proof (induction wl fs full frame xs w e rule: pipeline_loop.induct)
  case (2 wl fs full frame x xs w e)
  let ?n = "min (wl - length w) (length (x # xs))"
  let ?w1 = "w @ take ?n (x # xs)"
  show ?case
  proof (cases "full e \<or> length ?w1 < wl")
    case True
    with "2.prems" show ?thesis by (auto simp: pipeline_loop.simps(2) Let_def split: if_splits)
  next
    case False
    then have nf: "\<not> full e" "\<not> length ?w1 < wl" by auto
    show ?thesis
    proof (cases "frame ?w1 e")
      case None
      with "2.prems" nf show ?thesis by (simp add: pipeline_loop.simps(2) Let_def del: length_append)
    next
      case (Some y)
      obtain ret e1 where y: "y = (ret, e1)" by (cases y)
      show ?thesis
      proof (cases "ret \<noteq> 0")
        case True
        with "2.prems" nf Some y show ?thesis
          by (auto simp: pipeline_loop.simps(2) Let_def simp del: length_append)
      next
        case False
        with "2.prems" nf Some y have fs: "\<not> (fs = 0 \<or> wl < fs \<or> length ?w1 \<noteq> wl)" and
          rec: "pipeline_loop wl fs full frame (drop ?n (x # xs)) (drop fs ?w1) e1 = Some (k, rest, w', e')"
          by (auto simp: pipeline_loop.simps(2) Let_def simp del: length_append split: if_splits)
        show ?thesis
          by (rule "2.IH" [OF nf(1) refl refl refl nf(2) Some y [symmetric] False fs rec])
      qed
    qed
  qed
qed simp

section \<open>Properties\<close>

text \<open>C1: On-the-fly decoding does not depend on how the input device cuts the samples into
  chunks: after a call that asks for more input, a call with the next samples gives the same
  result and the same engine as one call with all the samples.\<close>

theorem RealTimePipeLine_chunks:
  assumes "RealTimePipeLine b X xs e = Some (0, e1)"
  shows "RealTimePipeLine b X (xs @ ys) e = RealTimePipeLine b X ys e1"
proof -
  obtain w where w: "window (real e) = Some w"
    using assms by (auto simp: RealTimePipeLine_def split: option.splits)
  let ?e0 = "e\<lparr>real := (real e)\<lparr>last_is_segmented := False, window := None\<rparr>\<rparr>"
  let ?L = "pipeline_loop (windowlen (real e)) (frameshift e) max_reached (process_window b X)"
  obtain w' e' where L: "?L xs w ?e0 = Some (Pipe_done, [], w', e')"
    and e1: "e1 = e'\<lparr>real := (real e')\<lparr>window := Some w'\<rparr>\<rparr>"
    using assms w loop_ends [of _ _ _ _ xs w ?e0]
    by (auto simp: RealTimePipeLine_def split: option.splits pipe.splits prod.splits) blast+
  from pw.loop_keep [OF L disjI1 [OF refl]] have k: "real e' = (real e)\<lparr>last_is_segmented := False, window := None\<rparr>"
    "frameshift e' = frameshift e" by (simp_all add: static_def)
  then have e0: "e1\<lparr>real := (real e1)\<lparr>last_is_segmented := False, window := None\<rparr>\<rparr> = e'"
    by (simp add: e1)
  have "?L (xs @ ys) w ?e0 = ?L ys w' e'" by (rule loop_append [OF L])
  moreover have "window (real e1) = Some w'" "windowlen (real e1) = windowlen (real e)"
    "frameshift e1 = frameshift e" using k by (simp_all add: e1)
  ultimately show ?thesis
    unfolding RealTimePipeLine_def w by (simp only: option.case e0)
qed

definition ex_ops :: "(nat, nat) ops" where
  "ex_ops =
     \<lparr>decode_proceed = (\<lambda>d s. (0, d + 1, s)), decode_end = Pair, decode_end_segmented = Pair,
      outprob_prepare = (\<lambda>n d. d), outprob_prepare_mfcc = (\<lambda>s d. d),
      calc_vector_fn = (\<lambda>i win w. (Some [real_of_int (sum_list win)], w + 1)),
      energy_max_prepare = (\<lambda>i w. w), db_prepare = (\<lambda>i w. 0), ab_prepare = (\<lambda>i w. 0), cmn_prepare = (\<lambda>i w. w),
      param_alloc_fn = (\<lambda>p n. Some (p\<lparr>Spsegment.parvec :=
        Spsegment.parvec p @ replicate (n - length (Spsegment.parvec p)) []\<rparr>)),
      vector_postprocess = (\<lambda>v t. v)\<rparr>"

definition ex_real :: RealBeam where
  "ex_real = \<lparr>maxframelen = 100, window = Some [], windowlen = 3, last_is_segmented = False,
     rest_Speech = None, rest_alloc_len = 0, rest_len = 0\<rparr>"

definition ex_value :: Value where
  "ex_value = \<lparr>energy = True, enormal = False, delta = True, acc = True, c0 = False, absesup = False,
     cmn = False, cvn = False, baselen = 1, vecbuflen = 3, para_veclen = 3, smp_period = 625,
     para_frameshift = 160, delWin = 2, accWin = 2\<rparr>"

definition ex_engine :: "(nat, nat) Engine" where
  "ex_engine =
     \<lparr>seg = \<lparr>Spsegment.Recog.process_list = [],
             mfcclist = [\<lparr>Spsegment.MFCCCalc.param = \<lparr>samplenum = 0, header_samplenum = 0, parvec = []\<rparr>,
               rest_param = None, valid = False, f = 0, last_time = 0, sparea_start = 0, segmented = False\<rparr>],
             gmm = False, gc = \<lparr>gc_after_trigger = False, gc_duration = 0, gc_want_rewind = False,
               gc_rewind_frame = 0, gc_want_rewind_reprocess = False\<rparr>, segment = False, triggered = False\<rparr>,
      wrk = 0, dec = 0, real = ex_real, process_segment = False, rehash = False, events = [],
      fvins = [], paras = [ex_value], eng_input = INPUT_WAVEFORM, eng_speech_input = SP_MIC, paramtype_check_flag = False,
      ext_veclen = 0, ext_period = 0, frameshift = 1, framesize = 2\<rparr>"

definition ex_build :: build where
  "ex_build = \<lparr>naist = False, gmm_vad = False\<rparr>"

theorem RealTimePipeLine_chunks_witness:
  "\<exists>e1. RealTimePipeLine ex_build ex_ops [5, 6] ex_engine = Some (0, e1)
     \<and> RealTimePipeLine ex_build ex_ops [5, 6, 7, 8] ex_engine = RealTimePipeLine ex_build ex_ops [7, 8] e1"
proof -
  have "\<exists>e1. RealTimePipeLine ex_build ex_ops [5, 6] ex_engine = Some (0, e1)"
    by (simp add: RealTimePipeLine_def ex_engine_def ex_real_def pipeline_loop.simps(2) max_reached_def)
  then obtain e1 where "RealTimePipeLine ex_build ex_ops [5, 6] ex_engine = Some (0, e1)" ..
  with RealTimePipeLine_chunks [OF this, of "[7, 8]"] show ?thesis by simp
qed

text \<open>The windows given to the feature extraction are exactly the windows of the stream: with
  \<open>w\<close> already in the buffer and \<open>xs\<close> arriving, the loop produces the windows of the given
  length that start at the multiples of the frame shift, as many as fit, each once and in
  order, and keeps the samples from the start of the next window on.\<close>

theorem pipeline_windows:
  assumes "0 < fs" "fs \<le> wl" "length w < wl"
  shows "pipeline_loop wl fs (\<lambda>_. False) record_window xs w [] =
    Some (Pipe_done, [], drop (window_count wl fs (length (w @ xs)) * fs) (w @ xs),
      stream_windows wl fs (w @ xs))"
  using loop_windows [OF assms, of xs "[]"] by simp

theorem pipeline_windows_witness:
  "pipeline_loop 3 2 (\<lambda>_. False) record_window [1, 2, 3, 4, 5] [0] [] =
     Some (Pipe_done, [], [4, 5], [[0, 1, 2], [2, 3, 4]])"
  using pipeline_windows [of 2 3 "[0]" "[1, 2, 3, 4, 5]"]
  by (simp add: window_count_def stream_windows_def upt_rec)

text \<open>The samples used by the loop are a prefix of its input.\<close>

lemma loop_prefix:
  "pipeline_loop wl fs full frame xs w e = Some (k, rest, w', e') \<Longrightarrow> \<exists>used. xs = used @ rest"
proof (induction "2 * length xs + (if wl \<le> length w then 1 else 0)" arbitrary: xs w e rule: less_induct)
  case less
  show ?case
  proof (cases "xs = [] \<or> full e \<or> length (w @ xs) < wl")
    case True
    with less.prems show ?thesis
      by (cases xs) (auto simp: pipeline_loop.simps(2) Let_def split: if_splits)
  next
    case False
    show ?thesis
    proof (cases "length w \<le> wl")
      case wl: True
      show ?thesis
      proof (cases "\<exists>e1. frame (take wl (w @ xs)) e = Some (0, e1) \<and> 0 < fs \<and> fs \<le> wl")
        case True
        then obtain e1 where e1: "frame (take wl (w @ xs)) e = Some (0, e1)" "0 < fs" "fs \<le> wl" by blast
        from False less.prems loop_full_window [of xs full e w wl fs frame] wl e1
        have rec: "pipeline_loop wl fs full frame (drop (wl - length w) xs) (drop fs (take wl (w @ xs))) e1 =
          Some (k, rest, w', e')" by (auto simp del: take_append drop_append)
        have "\<exists>used. drop (wl - length w) xs = used @ rest"
          using False wl e1(2,3) by (intro less.hyps [OF _ rec]) (auto simp: min_def)
        then show ?thesis by (metis append.assoc append_take_drop_id)
      next
        case no: False
        with False less.prems loop_full_window [of xs full e w wl fs frame] wl
        have "rest = drop (wl - length w) xs"
          by (auto simp del: take_append drop_append split: option.splits if_splits)
        then show ?thesis by (metis append_take_drop_id)
      qed
    next
      case wl: False
      with False less.prems show ?thesis
        by (cases xs) (auto simp: pipeline_loop.simps(2) Let_def split: if_splits option.splits prod.splits)
    qed
  qed
qed

text \<open>A segment boundary found in the middle of a chunk loses no sample: when the pipeline
  stops the first pass with segmentation enabled, the unprocessed samples are a suffix of
  the chunk and are exactly what the next call of \<open>RealTimeResume\<close> finds to process, and the
  buffer they are kept in is large enough.\<close>

theorem RealTimePipeLine_keeps_rest:
  assumes "RealTimePipeLine b X xs e = Some (1, e1)" "segment (seg e1)" "last_is_segmented (real e1)"
  shows "\<exists>used rest. xs = used @ rest \<and> rest_len (real e1) = length rest
    \<and> (rest \<noteq> [] \<longrightarrow> (\<exists>buf. rest_Speech (real e1) = Some buf \<and> take (rest_len (real e1)) buf = rest
          \<and> length rest \<le> rest_alloc_len (real e1)))"
proof -
  obtain w where w: "window (real e) = Some w"
    using assms(1) by (auto simp: RealTimePipeLine_def split: option.splits)
  let ?e0 = "e\<lparr>real := (real e)\<lparr>last_is_segmented := False, window := None\<rparr>\<rparr>"
  let ?L = "pipeline_loop (windowlen (real e)) (frameshift e) max_reached (process_window b X)"
  obtain k rest w' e' where L: "?L xs w ?e0 = Some (k, rest, w', e')"
    using assms(1) w by (auto simp: RealTimePipeLine_def split: option.splits)
  obtain used where u: "xs = used @ rest" using loop_prefix [OF L] by blast
  show ?thesis
  proof (cases k)
    case Pipe_done
    with L w assms show ?thesis by (simp add: RealTimePipeLine_def)
  next
    case Pipe_full
    with L w assms(1) have "e1 = e'\<lparr>real := (real e')\<lparr>window := Some w'\<rparr>\<rparr>" by (simp add: RealTimePipeLine_def)
    with pw.loop_keep [OF L] Pipe_full assms(3) show ?thesis by (simp add: static_def)
  next
    case (Pipe_stop ret)
    with L w assms(1) have "ret = 1 \<and>
      e'\<lparr>real := (if ret = 1 \<and> segment (seg e') then keep_rest rest (real e') else real e')
         \<lparr>window := Some w'\<rparr>\<rparr> = e1" by (auto simp: RealTimePipeLine_def)
    with assms(2) u show ?thesis
      by - (rule exI [of _ used], rule exI [of _ rest], auto simp: keep_rest_def Let_def)
  qed
qed

definition seg_ops :: "(nat, nat) ops" where
  "seg_ops = ex_ops\<lparr>decode_proceed := (\<lambda>d s. (1, d, s))\<rparr>"

definition seg_engine :: "(nat, nat) Engine" where
  "seg_engine = ex_engine\<lparr>seg := (seg ex_engine)\<lparr>segment := True\<rparr>\<rparr>"

theorem RealTimePipeLine_keeps_rest_witness:
  "\<exists>e1. RealTimePipeLine ex_build seg_ops [1, 2, 3, 4, 5] seg_engine = Some (1, e1)
     \<and> (\<exists>buf. rest_Speech (real e1) = Some buf \<and> take (rest_len (real e1)) buf = [4, 5])"
proof -
  have "\<exists>e1. RealTimePipeLine ex_build seg_ops [1, 2, 3, 4, 5] seg_engine = Some (1, e1)
      \<and> segment (seg e1) \<and> last_is_segmented (real e1) \<and> rest_len (real e1) = 2"
    by (simp add: RealTimePipeLine_def seg_engine_def seg_ops_def ex_engine_def ex_ops_def ex_real_def
        ex_build_def pipeline_loop.simps(2) max_reached_def process_window_def set_mfccs_def
        proceed_one_frame_def begin_pass1_def at_first_frame_def backend_vad_def proceed_def
        fire_def set_triggered_def keep_rest_def eval_nat_numeral)
  then obtain e1 where e1: "RealTimePipeLine ex_build seg_ops [1, 2, 3, 4, 5] seg_engine = Some (1, e1)"
    "segment (seg e1)" "last_is_segmented (real e1)" "rest_len (real e1) = 2" by blast
  from RealTimePipeLine_keeps_rest [OF e1(1-3)] e1(4) obtain used rest
    where r: "[1, 2, 3, 4, 5] = used @ rest" "length rest = 2"
      "\<exists>buf. rest_Speech (real e1) = Some buf \<and> take (rest_len (real e1)) buf = rest" by auto
  have "length (used @ rest) = 5" by (simp only: r(1) [symmetric]) simp
  then have "rest = drop 3 [1, 2, 3, 4, 5]" using r(2) by (simp only: r(1)) simp
  with e1(1) r(3) show ?thesis by auto
qed

text \<open>The vectors flushed at the end of the input do not have the layout of the vectors before
  them: with acceleration coefficients and without power suppression the first three blocks
  of a regular vector are base, delta and acceleration of the buffer (blocks 0, 1 and 3),
  those of a flushed vector are its blocks 0, 1 and 2, so delta stands where acceleration
  should.\<close>

theorem flush_layout_differs:
  assumes "acc para" "\<not> absesup para" "para_veclen para = 3 * baselen para"
    "ab_proceed M v w = (Some av, w')" "length av = 4 * baselen para"
  shows "(\<exists>u. acc_stage para M v w = (Some u, w')
      \<and> take (3 * baselen para) u = take (2 * baselen para) av @ drop (3 * baselen para) av)
    \<and> take (3 * baselen para) (flush_acc para av tmp) = take (3 * baselen para) av"
proof (rule conjI)
  show "\<exists>u. acc_stage para M v w = (Some u, w')
      \<and> take (3 * baselen para) u = take (2 * baselen para) av @ drop (3 * baselen para) av"
    using assms by (simp add: acc_stage_def)
  have "take (2 * baselen para) av @ take (baselen para) (drop (2 * baselen para) av) =
      take (3 * baselen para) av"
    using take_add [of "2 * baselen para" "baselen para" av] by (simp add: algebra_simps)
  moreover have "3 * baselen para - baselen para = 2 * baselen para" by simp
  ultimately have "flush_acc para av tmp = take (3 * baselen para) av @ drop (3 * baselen para) tmp"
    unfolding flush_acc_def assms(3) append_assoc [symmetric] by metis
  then show "take (3 * baselen para) (flush_acc para av tmp) = take (3 * baselen para) av"
    using assms(5) by simp
qed

definition ex_mfcc_ops :: "'w mfcc_ops" where
  "ex_mfcc_ops =
     \<lparr>wmp_calc = (\<lambda>win w. ([1, 0, 0], w)), energy_max_normalize = Pair,
      db_proceed = (\<lambda>v w. (Some [1, 2], w)), db_flush = (\<lambda>w. (Some [1, 2], w)),
      ab_proceed = (\<lambda>v w. (Some [1, 2, 2, 9], w)), ab_flush = (\<lambda>w. (None, w)), cmn_realtime = Pair,
      get_tmpmfcc = (\<lambda>w. [1, 2, 0]), put_tmpmfcc = (\<lambda>v w. w)\<rparr>"

theorem flush_layout_differs_witness:
  "RealTimeMFCC ex_value ex_mfcc_ops [] () = (Some [1, 2, 9], ())
   \<and> take 3 (flush_acc ex_value [1, 2, 2, 9] [1, 2, 0]) = [1, 2, 2]"
proof -
  have "take (3 * baselen ex_value) (flush_acc ex_value [1, 2, 2, 9] [1, 2, 0]) =
      take (3 * baselen ex_value) [1, 2, 2, 9]"
    by (rule conjunct2 [OF flush_layout_differs [where M = ex_mfcc_ops and v = "[]" and w = "()" and w' = "()"]])
      (simp_all add: ex_value_def ex_mfcc_ops_def)
  moreover have "RealTimeMFCC ex_value ex_mfcc_ops [] () = (Some [1, 2, 9], ())"
    by (simp add: RealTimeMFCC_def delta_stage_def acc_stage_def suppress_power_def ex_value_def
        ex_mfcc_ops_def)
  ultimately show ?thesis by (simp add: ex_value_def)
qed

section \<open>Properties of the vector input\<close>

text \<open>
  A search that accepts every frame and leaves the instances alone, and a \<open>param_alloc\<close> that makes
  room and keeps the frames there are.
\<close>

definition accepts :: "('w, 'd) ops \<Rightarrow> bool" where
  "accepts X \<longleftrightarrow> (\<forall>d s. \<exists>d'. decode_proceed X d s = (0, d', s))"

text \<open>
  What the search has become after one call, and what it is shown: the frame \<open>t\<close> of the only instance, with
  the vectors up to this frame.
\<close>

definition decode_step :: "('w, 'd) ops \<Rightarrow> Spsegment.Recog \<Rightarrow> 'd \<Rightarrow> 'd" where
  "decode_step X s d = fst (snd (decode_proceed X d s))"

definition shows_frame :: "nat \<Rightarrow> vect list \<Rightarrow> Spsegment.Recog \<Rightarrow> bool" where
  "shows_frame t vs s \<longleftrightarrow>
     (\<exists>m. Spsegment.mfcclist s = [m] \<and> valid m \<and> f m = int t \<and> take (Suc t) (Spsegment.parvec (Spsegment.param m)) = vs)"

definition grows :: "(Plugin.HTK_Param \<Rightarrow> nat \<Rightarrow> Plugin.HTK_Param option) \<Rightarrow> bool" where
  "grows palloc \<longleftrightarrow>
     (\<forall>p n. \<exists>q. palloc p n = Some q \<and> n \<le> length (Plugin.parvec q)
        \<and> take (length (Plugin.parvec p)) (Plugin.parvec q) = Plugin.parvec p)"

lemma mfccs_simps [simp]:
  "mfccs (fire es e) = mfccs e" "mfccs (set_mfccs ms e) = ms" "mfccs (set_triggered e) = mfccs e"
  "mfccs (begin_pass1 b e) = mfccs e"
  by (simp_all add: fire_def set_mfccs_def set_triggered_def begin_pass1_def)

lemma fvins_simps [simp]:
  "fvins (fire es e) = fvins e" "fvins (set_mfccs ms e) = fvins e" "fvins (set_triggered e) = fvins e"
  "fvins (begin_pass1 b e) = fvins e" "fvins (next_frame e) = fvins e"
  by (simp_all add: fire_def set_mfccs_def set_triggered_def begin_pass1_def next_frame_def)

lemma dec_simps [simp]:
  "dec (fire es e) = dec e" "dec (set_mfccs ms e) = dec e" "dec (set_triggered e) = dec e"
  "dec (begin_pass1 b e) = dec e" "dec (next_frame e) = dec e"
  by (simp_all add: fire_def set_mfccs_def set_triggered_def begin_pass1_def next_frame_def)

lemma accepted_frame:
  assumes "accepts X" "\<not> backend_vad b"
  obtains e' s where "proceed_one_frame b X e = Some (0, e')" "mfccs e' = mfccs e" "fvins e' = fvins e"
    "Spsegment.mfcclist s = mfccs e" "dec e' = decode_step X s (dec e)"
proof -
  obtain d' where d: "decode_proceed X (dec (begin_pass1 b e)) (seg (begin_pass1 b e)) =
      (0, d', seg (begin_pass1 b e))" using assms(1) unfolding accepts_def by blast
  let ?e1 = "(begin_pass1 b e)\<lparr>dec := d'\<rparr>"
  have ct: "check_trigger b True ?e1 = ?e1" using assms(2) by (simp add: check_trigger_def)
  have b: "\<not> naist b" "\<not> gmm_vad b" using assms(2) by (simp_all add: backend_vad_def)
  obtain rf where n: "spsegment_need_restart False False (seg ?e1) = (False, rf, seg ?e1)"
    by (cases "segment (seg ?e1)") (simp_all add: spsegment_need_restart_def Let_def)
  let ?e' = "if list_ex valid (mfccs ?e1) then fire [PASS1_FRAME] ?e1 else ?e1"
  have "proceed_one_frame b X e = Some (0, ?e')"
    using d ct n b by (simp add: proceed_one_frame_def proceed_def)
  moreover have "mfccs ?e' = mfccs e" "fvins ?e' = fvins e" by simp_all
  moreover have "dec ?e' = decode_step X (seg (begin_pass1 b e)) (dec (begin_pass1 b e))"
    using d by (simp add: decode_step_def fire_def)
  then have "dec ?e' = decode_step X (seg (begin_pass1 b e)) (dec e)" by simp
  moreover have "Spsegment.mfcclist (seg (begin_pass1 b e)) = mfccs e" by simp
  ultimately show thesis using that by blast
qed

lemma accepted_go_frames:
  assumes X: "accepts X" "\<not> backend_vad b"
    and m: "mfccs e = [m]" "f m = int n" "n < length (Spsegment.parvec (Spsegment.param m))"
  obtains e' m' s where "go_frames b X (n + 1) e = Some (None, e')" "mfccs e' = [m']" "fvins e' = fvins e"
    "f m' = int n + 1" "Spsegment.parvec (Spsegment.param m') = (Spsegment.parvec (Spsegment.param m))
       [n := vector_postprocess X (Spsegment.parvec (Spsegment.param m) ! n) n]"
    "dec e' = decode_step X s (dec e)" "shows_frame n (take n (Spsegment.parvec (Spsegment.param m))
       @ [vector_postprocess X (Spsegment.parvec (Spsegment.param m) ! n) n]) s"
proof -
  let ?p = "Spsegment.param m"
  let ?m1 = "m\<lparr>valid := True, Spsegment.param := ?p\<lparr>Spsegment.parvec :=
      (Spsegment.parvec ?p)[n := vector_postprocess X (Spsegment.parvec ?p ! n) n]\<rparr>\<rparr>"
  have sf: "start_frame X e = Some (set_mfccs [?m1] e)" using m by (simp add: start_frame_def Let_def)
  obtain e2 s where e2: "proceed_one_frame b X (set_mfccs [?m1] e) = Some (0, e2)"
    "mfccs e2 = [?m1]" "fvins e2 = fvins e" "Spsegment.mfcclist s = [?m1]" "dec e2 = decode_step X s (dec e)"
    using accepted_frame [OF X, of "set_mfccs [?m1] e"] by (auto simp: set_mfccs_def)
  have "shows_frame n (take n (Spsegment.parvec ?p) @ [vector_postprocess X (Spsegment.parvec ?p ! n) n]) s"
    using e2(4) m(2,3) by (simp add: shows_frame_def take_Suc_conv_app_nth)
  have nf: "mfccs (next_frame e2) = [?m1\<lparr>f := f m + 1\<rparr>]" using e2(2) by (simp add: next_frame_def)
  have "go_frames b X (n + 1) e = go_frames b X (n + 1) (next_frame e2)"
    by (subst go_frames.simps) (simp add: m sf e2(1))
  also have "\<dots> = Some (None, next_frame e2)"
    by (subst go_frames.simps) (simp add: nf m(2))
  finally show thesis
    using nf e2(3,5) m(2) \<open>shows_frame _ _ s\<close>
    by (intro that [of "next_frame e2" "?m1\<lparr>f := f m + 1\<rparr>" s]) (simp_all add: next_frame_def set_mfccs_def)
qed

definition has_reader :: "Plugin.MFCCCalc \<Rightarrow> bool" where
  "has_reader v \<longleftrightarrow> ext_fv_read v \<noteq> None \<or> fv_read (func v) \<noteq> None"

lemma read_vector_ok:
  assumes "grows palloc" "fvins e = v # vs" "has_reader v" "mfccs e = [m]" "f m = int n"
    "n \<le> length (Spsegment.parvec (Spsegment.param m))"
  obtains e1 m1 v1 where
    "read_vector palloc (ret, x) e =
       Some (if ret \<in> {-3, -2, -1} then ret else 0, e1,
         if ret \<in> {-3, -1} then Some n else if ret = -2 then None else Some (n + 1))"
    "mfccs e1 = [m1]" "fvins e1 = v1 # vs" "has_reader v1" "f m1 = int n"
    "n < length (Spsegment.parvec (Spsegment.param m1))"
    "take n (Spsegment.parvec (Spsegment.param m1)) = take n (Spsegment.parvec (Spsegment.param m))"
    "Spsegment.parvec (Spsegment.param m1) ! n = x" "dec e1 = dec e"
proof -
  let ?p = "(Plugin.param v)\<lparr>Plugin.parvec := Spsegment.parvec (Spsegment.param m)\<rparr>"
  let ?v = "v\<lparr>Plugin.param := ?p, mf := n\<rparr>"
  obtain q where q: "palloc ?p (n + 1) = Some q" "n + 1 \<le> length (Plugin.parvec q)"
    "take (length (Plugin.parvec ?p)) (Plugin.parvec q) = Plugin.parvec ?p"
    using assms(1) unfolding grows_def by blast
  obtain fn where fn: "(case ext_fv_read ?v of Some e \<Rightarrow> Some e | None \<Rightarrow> fv_read (func ?v)) = Some fn"
    using assms(3) by (cases "ext_fv_read v") (auto simp: has_reader_def)
  define pv where "pv = (Plugin.parvec q)[n := x]"
  define v1 where "v1 = ?v\<lparr>Plugin.param := q\<lparr>Plugin.parvec := pv\<rparr>,
    segmented_by_input := (if ret = -3 then True else if ret = -1 then False else segmented_by_input v)\<rparr>"
  define m1 where "m1 = m\<lparr>Spsegment.param := (Spsegment.param m)\<lparr>Spsegment.parvec := pv\<rparr>\<rparr>"
  have rd: "mfc_module_read palloc (\<lambda>_ _. (ret, x)) ?v =
      Some (if ret \<in> {-3, -2, -1} then ret else 0, v1,
        if ret \<in> {-3, -1} then Some n else if ret = -2 then None else Some (n + 1))"
    using q(1,2) fn by (auto simp: mfc_module_read_def Let_def v1_def pv_def)
  have "read_vector palloc (ret, x) e =
       Some (if ret \<in> {-3, -2, -1} then ret else 0, (set_mfccs [m1] e)\<lparr>fvins := v1 # vs\<rparr>,
         if ret \<in> {-3, -1} then Some n else if ret = -2 then None else Some (n + 1))"
    using assms(2,4,5) rd by (simp add: read_vector_def m1_def v1_def)
  moreover have "take n pv = take n (Spsegment.parvec (Spsegment.param m))"
  proof -
    have "take n (Plugin.parvec q) = take n (take (length (Plugin.parvec ?p)) (Plugin.parvec q))"
      using assms(6) by (simp add: min_absorb1)
    then show ?thesis unfolding q(3) by (simp add: pv_def)
  qed
  moreover have "pv ! n = x" "n < length pv" using q(2) by (simp_all add: pv_def)
  ultimately show thesis
    using assms(3,5) by (intro that [of "(set_mfccs [m1] e)\<lparr>fvins := v1 # vs\<rparr>" m1 v1])
      (simp_all add: m1_def v1_def has_reader_def set_mfccs_def)
qed

lemma go_loop_all:
  assumes X: "accepts X" "\<not> backend_vad b" and A: "grows palloc"
    and "fvins e = v # vs" "has_reader v" "mfccs e = [m]" "f m = int n"
      "n \<le> length (Spsegment.parvec (Spsegment.param m))" "r \<in> {-1, -3}"
  shows "\<exists>e' m' ss. go_loop b X palloc None (map (Pair 0) us @ [(r, x)]) nf e =
      Some (Go_return (if r = -1 then 0 else 1), e') \<and> mfccs e' = [m'] \<and> f m' = int (n + length us)
    \<and> take (n + length us) (Spsegment.parvec (Spsegment.param m')) =
        take n (Spsegment.parvec (Spsegment.param m))
        @ map2 (\<lambda>t u. vector_postprocess X u t) [n..<n + length us] us
    \<and> dec e' = fold (decode_step X) ss (dec e) \<and> length ss = length us
    \<and> (\<forall>i < length us. shows_frame (n + i) (take n (Spsegment.parvec (Spsegment.param m))
        @ map2 (\<lambda>t u. vector_postprocess X u t) [n..<Suc (n + i)] us) (ss ! i))"
  using assms(4-)
proof (induction us arbitrary: e v m n nf)
  case Nil
  obtain e1 m1 where r0: "read_vector palloc (r, x) e = Some (if r \<in> {-3, -2, -1} then r else 0, e1,
         if r \<in> {-3, -1} then Some n else if r = -2 then None else Some (n + 1))"
    and r1: "mfccs e1 = [m1]" "f m1 = int n"
    "take n (Spsegment.parvec (Spsegment.param m1)) = take n (Spsegment.parvec (Spsegment.param m))" "dec e1 = dec e"
    by (rule read_vector_ok [OF A Nil(1-5), of r x])
  from r0 Nil(6) have r: "read_vector palloc (r, x) e = Some (r, e1, Some n)" by auto
  have "go_frames b X n e1 = Some (None, e1)"
    by (subst go_frames.simps) (simp add: r1)
  with r r1 Nil(6) show ?case by auto
next
  case (Cons u us)
  obtain e1 m1 v1 where r: "read_vector palloc (0, u) e = Some (if (0 :: int) \<in> {-3, -2, -1} then 0 else 0, e1,
         if (0 :: int) \<in> {-3, -1} then Some n else if (0 :: int) = -2 then None else Some (n + 1))"
    "mfccs e1 = [m1]" "fvins e1 = v1 # vs" "has_reader v1" "f m1 = int n"
    "n < length (Spsegment.parvec (Spsegment.param m1))"
    "take n (Spsegment.parvec (Spsegment.param m1)) = take n (Spsegment.parvec (Spsegment.param m))"
    "Spsegment.parvec (Spsegment.param m1) ! n = u" "dec e1 = dec e"
    by (rule read_vector_ok [OF A Cons.prems(1-5), of 0 u])
  let ?old = "take n (Spsegment.parvec (Spsegment.param m))"
  obtain e2 m2 s where g: "go_frames b X (n + 1) e1 = Some (None, e2)" "mfccs e2 = [m2]"
    "fvins e2 = fvins e1" "f m2 = int n + 1"
    "Spsegment.parvec (Spsegment.param m2) = (Spsegment.parvec (Spsegment.param m1))
       [n := vector_postprocess X u n]" "dec e2 = decode_step X s (dec e)" "shows_frame n (?old @ [vector_postprocess X u n]) s"
    using accepted_go_frames [OF X r(2,5,6)] unfolding r(7-9) by blast
  have f2: "f m2 = int (n + 1)" "n + 1 \<le> length (Spsegment.parvec (Spsegment.param m2))"
    using g r(6) by simp_all
  have t2: "take (n + 1) (Spsegment.parvec (Spsegment.param m2)) = ?old @ [vector_postprocess X u n]"
    using g(5) r(6,7) by (simp add: take_Suc_conv_app_nth)
  have step: "go_loop b X palloc None (map (Pair 0) (u # us) @ [(r, x)]) nf e =
      go_loop b X palloc None (map (Pair 0) us @ [(r, x)]) (Some (n + 1)) e2"
    using r(1,2) g(1) by simp
  from Cons.IH [OF _ r(4) g(2) f2 Cons.prems(6), of "Some (n + 1)"] g(3) r(3)
  obtain e' m' ss where ih: "go_loop b X palloc None (map (Pair 0) us @ [(r, x)]) (Some (n + 1)) e2 =
      Some (Go_return (if r = -1 then 0 else 1), e')" "mfccs e' = [m']" "f m' = int (n + 1 + length us)"
    "take (n + 1 + length us) (Spsegment.parvec (Spsegment.param m')) =
        ?old @ vector_postprocess X u n # map2 (\<lambda>t u. vector_postprocess X u t) [n + 1..<n + 1 + length us] us"
    "dec e' = fold (decode_step X) ss (dec e2)" "length ss = length us"
    "\<And>i. i < length us \<Longrightarrow> shows_frame (n + 1 + i)
      (?old @ vector_postprocess X u n # map2 (\<lambda>t u. vector_postprocess X u t) [n + 1..<Suc (n + 1 + i)] us) (ss ! i)"
    unfolding t2 by auto
  have upt: "[n..<n + Suc k] = n # [n + 1..<n + 1 + k]" for k by (simp add: upt_rec)
  have "shows_frame (n + i) (?old @ map2 (\<lambda>t u. vector_postprocess X u t) [n..<Suc (n + i)] (u # us)) ((s # ss) ! i)"
    if i: "i < length (u # us)" for i
  proof (cases i)
    case 0
    with g(7) show ?thesis by simp
  next
    case (Suc k)
    with i ih(7) [of k] upt [of "Suc k"] show ?thesis by simp
  qed
  then show ?case
    using step ih(1-6) g(6) upt [of "length us"]
    by (intro exI [of _ e'] exI [of _ m'] exI [of _ "s # ss"]) simp
qed


definition ext_engine :: "(nat, nat) Engine" where
  "ext_engine = ex_engine\<lparr>fvins := [Plugin.ex_mfcc], eng_input := INPUT_VECTOR, eng_speech_input := SP_EXTERN\<rparr>"

definition ex_palloc :: "Plugin.HTK_Param \<Rightarrow> nat \<Rightarrow> Plugin.HTK_Param option" where
  "ex_palloc p n = Some (p\<lparr>Plugin.parvec :=
     Plugin.parvec p @ replicate (n - length (Plugin.parvec p)) []\<rparr>)"

lemma grows_ex_palloc: "grows ex_palloc"
  by (auto simp: grows_def ex_palloc_def)

lemma ext_engine_head:
  "\<exists>m. mfccs ext_engine = [m] \<and> f m = 0" "fvins ext_engine = [Plugin.ex_mfcc]" "has_reader Plugin.ex_mfcc"
  by (simp_all add: ext_engine_def ex_engine_def has_reader_def Plugin.ex_mfcc_def)


text \<open>An error of the first read makes \<open>mfcc_go\<close> compare the frame counter with a variable
  that was never set.\<close>

theorem mfcc_go_uninitialised:
  assumes "grows palloc" "fvins e = v # vs" "has_reader v" "mfccs e = [m]" "f m = 0"
  shows "mfcc_go b X palloc None ((-2, x) # rds) e = None"
proof -
  let ?e = "e\<lparr>real := (real e)\<lparr>last_is_segmented := False\<rparr>\<rparr>"
  have h: "fvins ?e = v # vs" "mfccs ?e = [m]" "f m = int 0" using assms by simp_all
  obtain e1 m1 where "read_vector palloc (-2, x) ?e = Some (if (-2 :: int) \<in> {-3, -2, -1} then -2 else 0, e1,
         if (-2 :: int) \<in> {-3, -1} then Some 0 else if -2 = (-2 :: int) then None else Some (0 + 1))" "mfccs e1 = [m1]"
    by (rule read_vector_ok [OF assms(1) h(1) assms(3) h(2,3), of "-2" x]) simp
  then show ?thesis by (simp add: mfcc_go_def)
qed

theorem mfcc_go_uninitialised_witness:
  "mfcc_go ex_build ex_ops ex_palloc None [(-2, [])] ext_engine = None"
  using mfcc_go_uninitialised [OF grows_ex_palloc ext_engine_head(2,3)] ext_engine_head(1) by blast

section \<open>Properties of start-up and preparation\<close>

definition noise_ok :: "(string \<Rightarrow> real list option) \<Rightarrow> FRONTEND \<Rightarrow> bool" where
  "noise_ok load fe \<longleftrightarrow>
     (\<forall>name. ssload_filename fe = Some name \<and> ssbuf fe = None
        \<longrightarrow> (\<exists>buf. load name = Some buf \<and> length buf = bflen fe))"

definition installed :: "(string \<Rightarrow> real list option) \<Rightarrow> FRONTEND \<Rightarrow> FRONTEND \<Rightarrow> bool" where
  "installed load fe fe' \<longleftrightarrow>
     (case ssload_filename fe of
        Some name \<Rightarrow>
          if ssbuf fe = None
          then w_ssbuf (sswork fe') = load name \<and> w_ssbuflen (sswork fe') = bflen fe
          else fe' = fe
      | None \<Rightarrow> fe' = fe)"

lemma load_noise_iff: "fst (load_noise load fe) \<longleftrightarrow> noise_ok load fe"
  by (auto simp: load_noise_def noise_ok_def Let_def split: option.splits)

lemma load_noise_installs: "load_noise load fe = (True, fe') \<Longrightarrow> installed load fe fe'"
  by (auto simp: load_noise_def installed_def Let_def split: option.splits if_splits)

lemma load_noises_iff: "fst (load_noises load fes) \<longleftrightarrow> (\<forall>fe\<in>set fes. noise_ok load fe)"
proof (induction fes)
  case (Cons fe fes)
  then show ?case using load_noise_iff [of load fe]
    by (cases "load_noise load fe"; cases "load_noises load fes") (auto split: bool.split)
qed simp

lemma load_noises_installs: "load_noises load fes = (True, fes') \<Longrightarrow> list_all2 (installed load) fes fes'"
  by (induction fes arbitrary: fes')
    (auto simp: list_all2_Cons1 dest: load_noise_installs split: prod.splits bool.splits)

text \<open>\<open>RealTimeInit\<close> returns TRUE exactly when each noise spectrum it has to load can be read and
  has the length of the spectrum buffer.  The frame limit is then the number of whole frames of
  the longest input, the window is empty and has room for one more sample than a frame, and each
  loaded spectrum is installed in the work area.\<close>

theorem RealTimeInit_correct:
  assumes "frameshift e > 0"
  shows "\<exists>ok fes' as' e'. RealTimeInit N load cmn_load fes names as e = Some (ok, fes', as', e')
    \<and> (ok \<longleftrightarrow> (\<forall>fe\<in>set fes. noise_ok load fe))
    \<and> maxframelen (real e') * int (frameshift e) \<le> int N
    \<and> int N < (maxframelen (real e') + 1) * int (frameshift e)
    \<and> (ok \<longrightarrow> window (real e') = Some [] \<and> windowlen (real e') = framesize e + 1
         \<and> list_all2 (installed load) fes fes')"
proof -
  obtain ok fes' where l: "load_noises load fes = (ok, fes')" by fastforce
  have n: "int (N div frameshift e) * int (frameshift e) \<le> int N"
    "int N < (int (N div frameshift e) + 1) * int (frameshift e)"
    using assms dividend_less_div_times [of "frameshift e" N]
    by (simp_all flip: of_nat_mult of_nat_Suc add: add.commute)
  show ?thesis
    using assms n l load_noises_iff [of load fes] load_noises_installs [of load fes fes']
    by (cases ok) (auto simp: RealTimeInit_def Let_def)
qed

definition ex_frontend :: FRONTEND where
  "ex_frontend = \<lparr>ssload_filename = Some ''noise'', ssbuf = None, sslen = 0, ss_alpha = 2, ss_floor = 1,
     bflen = 2, sswork = \<lparr>w_ssbuf = None, w_ssbuflen = 0, w_ss_alpha = 0, w_ss_floor = 0\<rparr>\<rparr>"

theorem RealTimeInit_correct_witness:
  "\<exists>fes' as' e'. RealTimeInit 320 (\<lambda>n. Some [1, 2]) (\<lambda>n. True) [ex_frontend] [None] [] ex_engine =
      Some (True, fes', as', e') \<and> windowlen (real e') = framesize ex_engine + 1"
proof -
  have "frameshift ex_engine > 0" by (simp add: ex_engine_def)
  from RealTimeInit_correct [OF this, of 320 "\<lambda>n. Some [1, 2]" "\<lambda>n. True" "[ex_frontend]" "[None]" "[]"]
  show ?thesis by (auto simp: noise_ok_def ex_frontend_def)
qed

lemma prepare_instances_ok:
  "prepare_instances X h i flag vs ms w = Some (True, flag', vs', ms', w') \<Longrightarrow> length vs = length ms \<Longrightarrow>
    (\<forall>i flag v w ok flag1 v1 w1. h i flag v w = Some (ok, flag1, v1, w1) \<longrightarrow> Q v1) \<Longrightarrow>
    length vs' = length ms \<and> (\<forall>v\<in>set vs'. Q v)
    \<and> list_all2 (\<lambda>m m'. f m' = 0 \<and> param_alloc_fn X (Spsegment.param m) 1 = Some (Spsegment.param m')) ms ms'"
proof (induction X h i flag vs ms w arbitrary: flag' vs' ms' w' rule: prepare_instances.induct)
  case (1 X h i flag v vs m ms w)
  obtain ok flag1 v1 w1 where h: "h i flag v w = Some (ok, flag1, v1, w1)"
    using "1.prems"(1) by (auto split: option.splits)
  moreover obtain p where p: "param_alloc_fn X (Spsegment.param m) 1 = Some p" and ok
    using "1.prems"(1) h by (auto split: option.splits if_splits)
  moreover obtain vs2 ms2 where "prepare_instances X h (i + 1) flag1 vs ms w1 = Some (True, flag', vs2, ms2, w')"
      "vs' = v1 # vs2" "ms' = m\<lparr>Spsegment.param := p, f := 0\<rparr> # ms2"
    using "1.prems"(1) h p \<open>ok\<close> by auto
  ultimately have "length vs' = length (m # ms)" "\<forall>x\<in>set (tl vs'). Q x" "hd vs' = v1" "vs' \<noteq> []"
    "list_all2 (\<lambda>m m'. f m' = 0 \<and> param_alloc_fn X (Spsegment.param m) 1 = Some (Spsegment.param m')) (m # ms) ms'"
    using "1.IH" [OF h refl refl refl] "1.prems"(2,3) by simp_all
  moreover have "Q v1" using "1.prems"(3) h by blast
  ultimately show ?case by (cases vs') simp_all
qed auto

lemma spsegment_init_keeps:
  "Spsegment.mfcclist (spsegment_init na gv s) = Spsegment.mfcclist s" "\<not> triggered (spsegment_init na gv s)"
  by (simp_all add: spsegment_init_def)

text \<open>After a successful preparation every instance is at frame 0 and has room for a frame, the
  window is empty, no speech has been triggered (with a back-end VAD: in segmentation mode), the
  parameter type agrees with the acoustic models where it is to be checked, and with external
  features it is not checked and all vectors have the configured length.\<close>

theorem RealTimePipeLinePrepare_ready:
  assumes "RealTimePipeLinePrepare b st call T hmm_para coherent X e = Some (True, e')"
    "length (fvins e) = length (mfccs e)" "length (paras e) = length (mfccs e)"
  shows "list_all2 (\<lambda>m m'. f m' = 0 \<and> param_alloc_fn X (Spsegment.param m) 1 = Some (Spsegment.param m'))
        (mfccs e) (mfccs e')
    \<and> window (real e') = map_option (\<lambda>_. []) (window (real e))
    \<and> ((backend_vad b \<longrightarrow> segment (seg e)) \<longrightarrow> \<not> triggered (seg e'))
    \<and> (paramtype_check_flag e' \<longrightarrow> coherent (fvins e'))
    \<and> (eng_speech_input e = SP_EXTERN \<longrightarrow> (\<forall>v\<in>set (fvins e'). veclen (Plugin.param v) = ext_veclen e))"
proof -
  define e0 where "e0 = e\<lparr>real := (real e)\<lparr>window := map_option (\<lambda>_. []) (window (real e))\<rparr>\<rparr>"
  let ?h = "prepare_header st call T hmm_para X e0"
  define Q where "Q v \<longleftrightarrow> (eng_speech_input e = SP_EXTERN \<longrightarrow> veclen (Plugin.param (fst v)) = ext_veclen e)"
    for v :: "Plugin.MFCCCalc \<times> Value"
  have Q: "\<forall>i fl v w ok fl1 v1 w1. ?h i fl v w = Some (ok, fl1, v1, w1) \<longrightarrow> Q v1"
    by (auto simp: prepare_header_def Q_def e0_def split: prod.splits)
  obtain flag vs ms w where pi: "prepare_instances X ?h 0 (paramtype_check_flag e0)
      (zip (fvins e0) (paras e0)) (mfccs e0) (wrk e0) = Some (True, flag, vs, ms, w)"
    "flag \<longrightarrow> coherent (map fst vs)"
    using assms(1) by (auto simp: RealTimePipeLinePrepare_def Let_def e0_def split: option.splits if_splits)
  have "length (zip (fvins e0) (paras e0)) = length (mfccs e0)" using assms(2,3) by (simp add: e0_def)
  from prepare_instances_ok [where Q = Q, OF pi(1) this Q] have ok: "(\<forall>v\<in>set vs. Q v)
    \<and> list_all2 (\<lambda>m m'. f m' = 0 \<and> param_alloc_fn X (Spsegment.param m) 1 = Some (Spsegment.param m'))
        (mfccs e0) ms" by blast
  have e': "mfccs e' = ms" "fvins e' = map fst vs" "paramtype_check_flag e' = flag"
    "window (real e') = window (real e0)" "(backend_vad b \<longrightarrow> segment (seg e)) \<longrightarrow> \<not> triggered (seg e')"
    using assms(1) pi
    by (auto simp: RealTimePipeLinePrepare_def e0_def [symmetric] Let_def reset_mfcc_def set_mfccs_def
        spsegment_init_keeps split: if_splits)
      (simp_all add: e0_def)
  show ?thesis using ok pi(2) e'(5) unfolding e'(1-4) by (simp add: e0_def Q_def)
qed

definition ex_bits :: type_bits where
  "ex_bits = \<lparr>F_MFCC = 6, F_DELTA = 256, F_ACCL = 512, F_ENERGY = 64, F_ZEROTH = 8192,
     F_ENERGY_SUP = 128, F_CEPNORM = 2048\<rparr>"

theorem RealTimePipeLinePrepare_ready_witness:
  "\<exists>e'. RealTimePipeLinePrepare ex_build \<lparr>global_plugin_list = None, global_plugin_loaded_file_num = 0\<rparr> (\<lambda>g x. x) ex_bits ex_value (\<lambda>vs. False) ex_ops
      (ext_engine\<lparr>eng_speech_input := SP_EXTERN\<rparr>) = Some (True, e')
    \<and> (\<forall>v\<in>set (fvins e'). veclen (Plugin.param v) = ext_veclen ext_engine)"
proof -
  let ?e = "ext_engine\<lparr>eng_speech_input := SP_EXTERN\<rparr>"
  have "\<exists>e'. RealTimePipeLinePrepare ex_build \<lparr>global_plugin_list = None, global_plugin_loaded_file_num = 0\<rparr> (\<lambda>g x. x) ex_bits ex_value (\<lambda>vs. False) ex_ops ?e = Some (True, e')"
    by (simp add: RealTimePipeLinePrepare_def Let_def ext_engine_def ex_engine_def ex_ops_def prepare_header_def)
  then obtain e' where e': "RealTimePipeLinePrepare ex_build \<lparr>global_plugin_list = None, global_plugin_loaded_file_num = 0\<rparr> (\<lambda>g x. x) ex_bits ex_value (\<lambda>vs. False) ex_ops ?e = Some (True, e')" ..
  have "length (fvins ?e) = length (mfccs ?e)" "length (paras ?e) = length (mfccs ?e)"
    by (simp_all add: ext_engine_def ex_engine_def)
  from RealTimePipeLinePrepare_ready [OF e' this] e' show ?thesis by auto
qed

section \<open>Errors while flushing\<close>

text \<open>An error of the search while the delta buffers are flushed is returned as -1, which a
  caller that takes the result as a \<open>boolean\<close> reads as success.\<close>

theorem RealTimeParam_error_is_true:
  assumes "\<not> last_is_segmented (real e)" "eng_input e = INPUT_WAVEFORM" "mfccs e = [m]" "paras e = [para]"
    "delta para \<or> acc para" "flush_vector para (M 0) (wrk e) = (Flushed v, w1)"
    "param_alloc_fn X (Spsegment.param m) (nat (f m) + 1) = Some p"
    "nat (f m) < length (Spsegment.parvec p)" "\<forall>d s. fst (decode_proceed X d s) = -1"
  shows "\<exists>e'. RealTimeParam b M X e = Some (-1, e')"
proof -
  let ?fl = "\<lambda>i. flush_vector (paras e ! i) (M i)"
  let ?e1 = "set_mfccs [m\<lparr>valid := True\<rparr>] e"
  have w: "wrk ?e1 = wrk e" by (simp add: set_mfccs_def)
  obtain ms where fr: "flush_round ?fl X 0 (mfccs ?e1) (wrk ?e1) = Some (True, ms, w1)"
    using assms(4-8) by (simp add: w Let_def)
  have "fst (proceed X e') = -1" for e'
    using assms(9) by (simp add: proceed_def split: prod.split) (metis fst_conv)
  then obtain e2 where "proceed X (begin_pass1 b ((set_mfccs ms ?e1)\<lparr>wrk := w1\<rparr>)) = (-1, e2)"
    by (metis prod.collapse)
  then have "flush_loop b ?fl X ?e1 = Some (Some (-1), e2)"
    by (subst flush_loop.simps, subst fr) (simp add: Let_def)
  then show ?thesis using assms(1-5) by (simp add: RealTimeParam_def Let_def)
qed

theorem RealTimeParam_error_is_true_witness:
  "\<exists>e'. RealTimeParam ex_build (\<lambda>i. ex_mfcc_ops)
     (ex_ops\<lparr>decode_proceed := (\<lambda>d s. (-1, d, s))\<rparr>) ex_engine = Some (-1, e')"
proof -
  let ?m = "hd (mfccs ex_engine)"
  have m: "mfccs ex_engine = [?m]" by (simp add: ex_engine_def)
  obtain p where p: "param_alloc_fn ex_ops (Spsegment.param ?m) (nat (f ?m) + 1) = Some p"
      "nat (f ?m) < length (Spsegment.parvec p)" by (simp add: ex_ops_def)
  show ?thesis
    by (rule RealTimeParam_error_is_true [where m = ?m and p = p and para = ex_value
          and v = "[1, 2, 2]" and ?w1.0 = "wrk ex_engine"])
      (use m p in \<open>simp_all add: ex_engine_def ex_real_def ex_value_def ex_mfcc_ops_def flush_vector_def
         flush_stage_def flush_delta_def flush_acc_def\<close>)
qed

end
