(* ===== verification/Word_Align.thy ===== *)
theory Word_Align
  imports Vsegment Spsegment
begin

text \<open>
  Forced alignment of recognised sentences (\<open>word_align.c\<close>): the phone sequence of a sentence with
  the last states of its units, one alignment by words, phones or states with \<open>viterbi_segment\<close> of
  \<open>Vsegment\<close>, and the alignments asked for of every sentence of a result.  The functions of
  libsent on acoustic models are the fields of the record \<open>hmm_ops\<close>.  A result \<open>None\<close> is an access
  outside an array, the use of an entry that was never set, or the end of the program by
  \<open>j_internal_error\<close>.
\<close>

section \<open>Data\<close>

datatype align_unit = PER_WORD | PER_PHONEME | PER_STATE

text \<open>
  The number of states of a model (with the two that emit nothing), the context-dependent
  variants of a phone, the short-pause model, the HMM of a phone sequence (with the phones that
  may be followed by a short pause), and \<open>LOG_ZERO\<close> and the output probabilities for it.
\<close>

record hmm_ops =
  hmm_logical_state_num :: "HMM_Logical \<Rightarrow> nat"
  get_left_context_HMM :: "HMM_Logical \<Rightarrow> string \<Rightarrow> HMM_Logical option"
  get_right_context_HMM :: "HMM_Logical \<Rightarrow> string \<Rightarrow> HMM_Logical option"
  sp_model :: HMM_Logical
  new_make_word_hmm :: "HMM_Logical list \<Rightarrow> bool list option \<Rightarrow> HMM option"
  log_zero :: real
  outprob_of :: "HMM \<Rightarrow> nat \<Rightarrow> nat \<Rightarrow> real"

text \<open>What the functions use of a recognition process: dictionary and modes.\<close>

record align_env =
  words_info :: WORD_INFO
  multipath :: bool
  enable_iwsp :: bool
  ccd_flag :: bool

abbreviation word_phones :: "align_env \<Rightarrow> WORD_ID \<Rightarrow> HMM_Logical list" where
  "word_phones A w \<equiv> wseq (words_info A) ! w"

definition nstates :: "hmm_ops \<Rightarrow> HMM_Logical \<Rightarrow> int" where
  "nstates X p = int (hmm_logical_state_num X p) - 2"

definition iwsp :: "align_env \<Rightarrow> bool" where
  "iwsp A \<longleftrightarrow> multipath A \<and> enable_iwsp A"

section \<open>The phone sequence of a sentence\<close>

text \<open>
  The state of the loops: \<open>ph\<close>, \<open>has_sp\<close>, \<open>st\<close>, and the part of \<open>end_ret\<close> that is filled.
\<close>

record phseq =
  ps_ph :: "HMM_Logical list"
  ps_sp :: "bool list"
  ps_st :: int
  ps_end :: "int list"

definition put_end :: "nat \<Rightarrow> int \<Rightarrow> phseq \<Rightarrow> phseq option" where
  "put_end cap e s = (if length (ps_end s) < cap then Some (s\<lparr>ps_end := ps_end s @ [e]\<rparr>) else None)"

text \<open>
  The variant of a phone: \<open>left\<close> is the phone before it when it is a word head behind another
  word, \<open>right\<close> the first phone of the next word when it is a word tail.  The inner \<open>None\<close> is that
  there is no such context.
\<close>

definition context_phone ::
  "align_env \<Rightarrow> hmm_ops \<Rightarrow> HMM_Logical option \<Rightarrow> HMM_Logical option \<Rightarrow> HMM_Logical \<Rightarrow> HMM_Logical" where
  "context_phone A X left right p =
     (if ccd_flag A then
        let p1 = (case left of
                    None \<Rightarrow> p
                  | Some l \<Rightarrow> (case get_left_context_HMM X p (ph_name l) of None \<Rightarrow> p | Some q \<Rightarrow> q))
        in case right of
             None \<Rightarrow> p1
           | Some r \<Rightarrow> (case get_right_context_HMM X p1 (ph_name r) of None \<Rightarrow> p1 | Some q \<Rightarrow> q)
      else p)"

text \<open>The last states of one phone \<open>q\<close> that starts at state \<open>st\<close>, with the short pause behind it.\<close>

definition state_ends :: "hmm_ops \<Rightarrow> HMM_Logical \<Rightarrow> bool \<Rightarrow> int \<Rightarrow> int list" where
  "state_ends X q sp st =
     map (\<lambda>j. st + int j) [0..<nat (nstates X q)]
     @ (if sp then map (\<lambda>k. st + int (nat (nstates X q)) + int k) [0..<nat (nstates X (sp_model X))] else [])"

definition put_phone ::
  "align_env \<Rightarrow> hmm_ops \<Rightarrow> align_unit \<Rightarrow> nat \<Rightarrow> HMM_Logical \<Rightarrow> bool \<Rightarrow> phseq \<Rightarrow> phseq option" where
  "put_phone A X unit cap q tail s =
     (let sp = iwsp A \<and> tail;
          s1 = s\<lparr>ps_ph := ps_ph s @ [q], ps_sp := ps_sp s @ [tail]\<rparr>;
          st = ps_st s + nstates X q + (if sp then nstates X (sp_model X) else 0)
      in Option.bind (if unit = PER_STATE then put_all (put_end cap) (state_ends X q sp (ps_st s)) s1 else Some s1)
           (\<lambda>s2. let s3 = s2\<lparr>ps_st := st\<rparr>
                 in if unit = PER_PHONEME then put_end cap (st - 1) s3 else Some s3))"

text \<open>The phones of one word; the contexts are read only when they are needed.\<close>

fun put_phones ::
  "align_env \<Rightarrow> hmm_ops \<Rightarrow> align_unit \<Rightarrow> nat \<Rightarrow> HMM_Logical option option \<Rightarrow> HMM_Logical option option
    \<Rightarrow> HMM_Logical list \<Rightarrow> phseq \<Rightarrow> phseq option" where
  "put_phones A X unit cap left right [] s = Some s"
| "put_phones A X unit cap left right (p # ps) s =
     Option.bind left (\<lambda>l.
     Option.bind (if ps = [] then right else Some None) (\<lambda>r.
     Option.bind (put_phone A X unit cap (context_phone A X l r p) (ps = []) s)
       (put_phones A X unit cap (Some None) right ps)))"

definition left_context :: "align_env \<Rightarrow> bool \<Rightarrow> phseq \<Rightarrow> HMM_Logical option option" where
  "left_context A first s =
     (if first \<or> \<not> ccd_flag A then Some None
      else if ps_ph s = [] then None else Some (Some (last (ps_ph s))))"

definition right_context :: "align_env \<Rightarrow> WORD_ID list \<Rightarrow> HMM_Logical option option" where
  "right_context A ws =
     (case ws of
        [] \<Rightarrow> Some None
      | w # _ \<Rightarrow>
          if \<not> ccd_flag A then Some None
          else (case word_phones A w of [] \<Rightarrow> None | p # _ \<Rightarrow> Some (Some p)))"

fun put_words ::
  "align_env \<Rightarrow> hmm_ops \<Rightarrow> align_unit \<Rightarrow> nat \<Rightarrow> bool \<Rightarrow> WORD_ID list \<Rightarrow> phseq \<Rightarrow> phseq option" where
  "put_words A X unit cap first [] s = Some s"
| "put_words A X unit cap first (w # ws) s =
     Option.bind (put_phones A X unit cap (left_context A first s) (right_context A ws) (word_phones A w) s) (\<lambda>s1.
     Option.bind (if unit = PER_WORD then put_end cap (ps_st s1 - 1) s1 else Some s1)
       (put_words A X unit cap False ws))"

definition make_phseq :: "align_env \<Rightarrow> hmm_ops \<Rightarrow> align_unit \<Rightarrow> nat \<Rightarrow> WORD_ID list \<Rightarrow> phseq option" where
  "make_phseq A X unit cap words =
     put_words A X unit cap True words
       \<lparr>ps_ph = [], ps_sp = [], ps_st = (if multipath A then 1 else 0), ps_end = []\<rparr>"

section \<open>One alignment\<close>

text \<open>The number of units, from the phones of the dictionary.\<close>

definition word_states :: "align_env \<Rightarrow> hmm_ops \<Rightarrow> WORD_ID \<Rightarrow> int" where
  "word_states A X w =
     sum_list (map (nstates X) (word_phones A w)) + (if iwsp A then nstates X (sp_model X) else 0)"

definition end_num :: "align_env \<Rightarrow> hmm_ops \<Rightarrow> align_unit \<Rightarrow> WORD_ID list \<Rightarrow> int" where
  "end_num A X unit words =
     (case unit of
        PER_WORD \<Rightarrow> int (length words)
      | PER_PHONEME \<Rightarrow> sum_list (map (\<lambda>w. int (length (word_phones A w))) words)
      | PER_STATE \<Rightarrow> sum_list (map (word_states A X) words))"

text \<open>
  The tables of an alignment by states: for every state the number of its phone and its
  location in it, the latter raised by the number of units for the states of a short pause.
\<close>

definition phone_locs :: "align_env \<Rightarrow> hmm_ops \<Rightarrow> int \<Rightarrow> nat \<Rightarrow> HMM_Logical \<Rightarrow> bool \<Rightarrow> (nat \<times> int) list" where
  "phone_locs A X en p q tail =
     map (\<lambda>j. (p, int j + 1)) [0..<nat (nstates X q)]
     @ (if iwsp A \<and> tail
        then map (\<lambda>k. (p, int (nat (nstates X q)) + 1 + int k + en)) [0..<nat (nstates X (sp_model X))] else [])"

fun word_locs :: "align_env \<Rightarrow> hmm_ops \<Rightarrow> int \<Rightarrow> nat \<Rightarrow> HMM_Logical list \<Rightarrow> (nat \<times> int) list" where
  "word_locs A X en p [] = []"
| "word_locs A X en p (q # qs) = phone_locs A X en p q (qs = []) @ word_locs A X en (p + 1) qs"

fun state_locs :: "align_env \<Rightarrow> hmm_ops \<Rightarrow> int \<Rightarrow> nat \<Rightarrow> WORD_ID list \<Rightarrow> (nat \<times> int) list" where
  "state_locs A X en p [] = []"
| "state_locs A X en p (w # ws) =
     word_locs A X en p (word_phones A w) @ state_locs A X en (p + length (word_phones A w)) ws"

record SentenceAlign =
  al_num :: nat
  unittype :: align_unit
  al_w :: "WORD_ID list option"
  al_ph :: "HMM_Logical list option"
  al_loc :: "int list option"
  begin_frame :: "int list"
  end_frame :: "int list"
  avgscore :: "real list"
  is_iwsp :: "bool list option"
  allscore :: real

text \<open>Reading an array by the numbers of the units.\<close>

definition get_at :: "'a list \<Rightarrow> int \<Rightarrow> 'a option" where
  "get_at xs i = (if 0 \<le> i \<and> i < int (length xs) then Some (xs ! nat i) else None)"

definition begin_frames :: "int list \<Rightarrow> int list" where
  "begin_frames es = map (\<lambda>i. if i = 0 then 0 else es ! (i - 1) + 1) [0..<length es]"

text \<open>Location and short-pause mark of a state, from the table.\<close>

definition state_loc :: "align_env \<Rightarrow> int \<Rightarrow> int \<Rightarrow> int \<times> bool" where
  "state_loc A en stloc =
     (if multipath A \<and> enable_iwsp A \<and> stloc > en then (stloc - en, True) else (stloc, False))"

definition fill_align ::
  "align_env \<Rightarrow> hmm_ops \<Rightarrow> align_unit \<Rightarrow> WORD_ID list \<Rightarrow> HMM_Logical list \<Rightarrow> seg_result \<Rightarrow> SentenceAlign option" where
  "fill_align A X unit words phones r =
     (let en = end_num A X unit words;
          a = \<lparr>al_num = length (res_id r), unittype = unit, al_w = None, al_ph = None, al_loc = None,
               begin_frame = begin_frames (res_seg r), end_frame = res_seg r, avgscore = res_uscore r,
               is_iwsp = None, allscore = res_score r\<rparr>
      in case unit of
           PER_WORD \<Rightarrow> map_option (\<lambda>ws. a\<lparr>al_w := Some ws\<rparr>) (those (map (get_at words) (res_id r)))
         | PER_PHONEME \<Rightarrow> map_option (\<lambda>ps. a\<lparr>al_ph := Some ps\<rparr>) (those (map (get_at phones) (res_id r)))
         | PER_STATE \<Rightarrow>
             Option.bind (those (map (get_at (state_locs A X en 0 words)) (res_id r))) (\<lambda>ls.
             map_option (\<lambda>ps. a\<lparr>al_ph := Some ps, al_loc := Some (map (fst \<circ> state_loc A en \<circ> snd) ls),
                  is_iwsp := (if multipath A then Some (map (snd \<circ> state_loc A en \<circ> snd) ls) else None)\<rparr>)
               (those (map (\<lambda>(p, _). get_at phones (int p)) ls))))"

text \<open>The array of end states must be filled: what is not set is not known.\<close>

definition do_align ::
  "align_env \<Rightarrow> hmm_ops \<Rightarrow> WORD_ID list \<Rightarrow> nat \<Rightarrow> align_unit \<Rightarrow> SentenceAlign option" where
  "do_align A X words nframes unit =
     (case make_phseq A X unit (nat (end_num A X unit words)) words of
        None \<Rightarrow> None
      | Some s \<Rightarrow>
          (case new_make_word_hmm X (ps_ph s) (if iwsp A then Some (ps_sp s) else None) of
             None \<Rightarrow> None
           | Some shmm \<Rightarrow>
               if int (length (ps_end s)) \<noteq> end_num A X unit words \<or> list_ex (\<lambda>e. e < 0) (ps_end s) then None
               else
                 Option.bind (viterbi_segment (log_zero X) shmm nframes (outprob_of X shmm) (multipath A)
                                (map nat (ps_end s)))
                   (fill_align A X unit words (ps_ph s))))"

definition word_align :: "align_env \<Rightarrow> hmm_ops \<Rightarrow> WORD_ID list \<Rightarrow> nat \<Rightarrow> SentenceAlign option" where
  "word_align A X words nframes = do_align A X words nframes PER_WORD"

definition word_rev_align :: "align_env \<Rightarrow> hmm_ops \<Rightarrow> WORD_ID list \<Rightarrow> nat \<Rightarrow> SentenceAlign option" where
  "word_rev_align A X revwords nframes =
     (let wnum = length revwords
      in do_align A X (map (\<lambda>w. revwords ! (wnum - w - 1)) [0..<wnum]) nframes PER_WORD)"

definition phoneme_align :: "align_env \<Rightarrow> hmm_ops \<Rightarrow> WORD_ID list \<Rightarrow> nat \<Rightarrow> SentenceAlign option" where
  "phoneme_align A X words nframes = do_align A X words nframes PER_PHONEME"

definition phoneme_rev_align :: "align_env \<Rightarrow> hmm_ops \<Rightarrow> WORD_ID list \<Rightarrow> nat \<Rightarrow> SentenceAlign option" where
  "phoneme_rev_align A X revwords nframes =
     (let num = length revwords
      in do_align A X (map (\<lambda>p. revwords ! (num - p - 1)) [0..<num]) nframes PER_PHONEME)"

definition state_align :: "align_env \<Rightarrow> hmm_ops \<Rightarrow> WORD_ID list \<Rightarrow> nat \<Rightarrow> SentenceAlign option" where
  "state_align A X words nframes = do_align A X words nframes PER_STATE"

definition state_rev_align :: "align_env \<Rightarrow> hmm_ops \<Rightarrow> WORD_ID list \<Rightarrow> nat \<Rightarrow> SentenceAlign option" where
  "state_rev_align A X revwords nframes =
     (let num = length revwords
      in do_align A X (map (\<lambda>p. revwords ! (num - p - 1)) [0..<num]) nframes PER_STATE)"

section \<open>The alignments of a result\<close>

text \<open>A sentence with the chain of its alignments.\<close>

record Sentence =
  s_word :: "WORD_ID list"
  s_score :: real
  s_align :: "SentenceAlign list"

record align_flags =
  align_result_word_flag :: bool
  align_result_phoneme_flag :: bool
  align_result_state_flag :: bool

text \<open>
  Appending an alignment: \<open>own\<close> says that \<open>prev\<close> is the last cell of this chain.  Without it the
  new cell is linked behind a cell of another sentence or an unset pointer.
\<close>

definition link_align :: "SentenceAlign option \<Rightarrow> bool \<times> Sentence \<Rightarrow> (bool \<times> Sentence) option" where
  "link_align now = (\<lambda>(own, s).
     case now of
       None \<Rightarrow> None
     | Some a \<Rightarrow>
         if s_align s = [] then Some (True, s\<lparr>s_align := [a]\<rparr>)
         else if own then Some (True, s\<lparr>s_align := s_align s @ [a]\<rparr>)
         else None)"

definition align_sentence ::
  "align_env \<Rightarrow> hmm_ops \<Rightarrow> align_flags \<Rightarrow> nat \<Rightarrow> Sentence \<Rightarrow> Sentence option" where
  "align_sentence A X F nframes s =
     (let step = (\<lambda>flag f st. if flag then link_align (f A X (s_word s) nframes) st else Some st)
      in Option.bind (step (align_result_word_flag F) word_align (False, s)) (\<lambda>st1.
         Option.bind (step (align_result_phoneme_flag F) phoneme_align st1) (\<lambda>st2.
         map_option snd (step (align_result_state_flag F) state_align st2))))"

definition do_alignment_all ::
  "align_env \<Rightarrow> hmm_ops \<Rightarrow> align_flags \<Rightarrow> nat \<Rightarrow> Sentence list \<Rightarrow> Sentence list option" where
  "do_alignment_all A X F nframes sents = those (map (align_sentence A X F nframes) sents)"

section \<open>The end states of the units\<close>

text \<open>
  What libsent documents of its models: at least one state emits, and the context-dependent
  variant of a phone has the states of the phone.
\<close>

definition emitting :: "hmm_ops \<Rightarrow> bool" where
  "emitting X \<longleftrightarrow> (\<forall>p. 3 \<le> hmm_logical_state_num X p)"

definition same_states :: "hmm_ops \<Rightarrow> bool" where
  "same_states X \<longleftrightarrow> (\<forall>p n q. get_left_context_HMM X p n = Some q \<or> get_right_context_HMM X p n = Some q
     \<longrightarrow> hmm_logical_state_num X q = hmm_logical_state_num X p)"

definition ends_ok :: "phseq \<Rightarrow> bool" where
  "ends_ok s \<longleftrightarrow> sorted_wrt (<) (ps_end s) \<and> (\<forall>e\<in>set (ps_end s). 0 \<le> e \<and> e < ps_st s) \<and> 0 \<le> ps_st s"

lemma nstates_pos: "emitting X \<Longrightarrow> 1 \<le> nstates X p"
  by (simp add: emitting_def nstates_def)

lemma nstates_context: "same_states X \<Longrightarrow> nstates X (context_phone A X l r p) = nstates X p"
  by (auto simp: context_phone_def same_states_def nstates_def Let_def split: option.split)

lemma put_all_end:
  "length (ps_end s) + length es \<le> cap \<Longrightarrow>
     put_all (put_end cap) es s = Some (s\<lparr>ps_end := ps_end s @ es\<rparr>)"
  by (induction es arbitrary: s) (auto simp: put_end_def)

lemma put_all_end_full:
  "cap < length (ps_end s) + length es \<Longrightarrow> length (ps_end s) \<le> cap \<Longrightarrow> put_all (put_end cap) es s = None"
  by (induction es arbitrary: s) (auto simp: put_end_def)

lemma sorted_state_ends: "sorted_wrt (<) (state_ends X q sp st)"
  by (auto simp: state_ends_def sorted_wrt_append sorted_wrt_map simp del: sorted_wrt_upt
      intro: sorted_wrt_mono_rel [OF _ sorted_wrt_upt])

lemma set_state_ends:
  "1 \<le> nstates X q \<Longrightarrow> 1 \<le> nstates X (sp_model X) \<Longrightarrow> e \<in> set (state_ends X q sp st) \<Longrightarrow>
     st \<le> e \<and> e < st + nstates X q + (if sp then nstates X (sp_model X) else 0)"
  by (auto simp: state_ends_def split: if_splits)

text \<open>The units one phone adds, and the states.\<close>

definition phone_states :: "align_env \<Rightarrow> hmm_ops \<Rightarrow> HMM_Logical \<Rightarrow> bool \<Rightarrow> int" where
  "phone_states A X q tail = nstates X q + (if iwsp A \<and> tail then nstates X (sp_model X) else 0)"

definition phone_units :: "align_env \<Rightarrow> hmm_ops \<Rightarrow> align_unit \<Rightarrow> HMM_Logical \<Rightarrow> bool \<Rightarrow> int" where
  "phone_units A X unit q tail =
     (case unit of PER_WORD \<Rightarrow> 0 | PER_PHONEME \<Rightarrow> 1 | PER_STATE \<Rightarrow> phone_states A X q tail)"

lemma put_phone_ok:
  assumes "emitting X" "ends_ok s" "int (length (ps_end s)) + phone_units A X unit q tail \<le> int cap"
  shows "\<exists>s'. put_phone A X unit cap q tail s = Some s' \<and> ends_ok s'
    \<and> int (length (ps_end s')) = int (length (ps_end s)) + phone_units A X unit q tail
    \<and> ps_st s' = ps_st s + phone_states A X q tail \<and> ps_ph s' = ps_ph s @ [q]
    \<and> (unit = PER_WORD \<longrightarrow> ps_end s' = ps_end s)"
proof -
  let ?sp = "iwsp A \<and> tail"
  let ?es = "state_ends X q ?sp (ps_st s)"
  have n: "1 \<le> nstates X q" "1 \<le> nstates X (sp_model X)" using assms(1) by (rule nstates_pos)+
  have l: "int (length ?es) = phone_states A X q tail"
    using n by (simp add: state_ends_def phone_states_def)
  have e: "st \<le> e \<and> e < st + phone_states A X q tail" if "e \<in> set (state_ends X q ?sp st)" for e st
    using set_state_ends [OF n that] by (simp add: phone_states_def)
  show ?thesis
  proof (cases unit)
    case PER_STATE
    then have "length (ps_end s) + length ?es \<le> cap" using assms(3) l by (simp add: phone_units_def)
    from put_all_end [of "s\<lparr>ps_ph := ps_ph s @ [q], ps_sp := ps_sp s @ [tail]\<rparr>" ?es cap] this
    show ?thesis using PER_STATE assms(2) l e sorted_state_ends [of X q ?sp "ps_st s"] n
      by (fastforce simp: put_phone_def Let_def phone_units_def phone_states_def ends_ok_def sorted_wrt_append)
  next
    case PER_PHONEME
    with assms n show ?thesis
      by (fastforce simp: put_phone_def Let_def phone_units_def phone_states_def ends_ok_def put_end_def
          sorted_wrt_append)
  next
    case PER_WORD
    with assms n show ?thesis
      by (fastforce simp: put_phone_def Let_def phone_units_def phone_states_def ends_ok_def)
  qed
qed

fun word_sum :: "(HMM_Logical \<Rightarrow> bool \<Rightarrow> int) \<Rightarrow> HMM_Logical list \<Rightarrow> int" where
  "word_sum g [] = 0"
| "word_sum g (p # ps) = g p (ps = []) + word_sum g ps"

lemma word_sum_nonneg: "(\<And>p t. 0 \<le> g p t) \<Longrightarrow> 0 \<le> word_sum g ps"
  by (induction ps) (auto intro: add_nonneg_nonneg)

lemma phone_context [simp]:
  "same_states X \<Longrightarrow> phone_states A X (context_phone A' X l r p) t = phone_states A X p t"
  "same_states X \<Longrightarrow> phone_units A X unit (context_phone A' X l r p) t = phone_units A X unit p t"
  by (simp_all add: phone_states_def phone_units_def nstates_context split: align_unit.split)

lemma phone_units_nonneg: "emitting X \<Longrightarrow> 0 \<le> phone_units A X unit p t"
  using nstates_pos [of X p] nstates_pos [of X "sp_model X"]
  by (simp add: phone_units_def phone_states_def split: align_unit.split)

lemma phone_states_pos: "emitting X \<Longrightarrow> 1 \<le> phone_states A X p t"
  using nstates_pos [of X p] nstates_pos [of X "sp_model X"] by (simp add: phone_states_def)

lemma word_sum_pos:
  assumes "ps \<noteq> []" "emitting X"
  shows "0 < word_sum (phone_states A X) ps"
proof (cases ps)
  case (Cons p qs)
  have "0 \<le> phone_states A X q t" for q t using phone_states_pos [OF assms(2), of A q t] by simp
  then have "0 \<le> word_sum (phone_states A X) qs" by (rule word_sum_nonneg)
  then show ?thesis using Cons phone_states_pos [OF assms(2), of A p "qs = []"] by simp
qed (use assms in simp)

lemma put_phones_ok:
  assumes "emitting X" "same_states X"
  shows "ends_ok s \<Longrightarrow> left \<noteq> None \<Longrightarrow> right \<noteq> None \<Longrightarrow>
    int (length (ps_end s)) + word_sum (phone_units A X unit) ps \<le> int cap \<Longrightarrow>
    \<exists>s'. put_phones A X unit cap left right ps s = Some s' \<and> ends_ok s'
      \<and> int (length (ps_end s')) = int (length (ps_end s)) + word_sum (phone_units A X unit) ps
      \<and> ps_st s' = ps_st s + word_sum (phone_states A X) ps
      \<and> length (ps_ph s') = length (ps_ph s) + length ps
      \<and> (unit = PER_WORD \<longrightarrow> ps_end s' = ps_end s)"
proof (induction ps arbitrary: left s)
  case (Cons p ps)
  obtain l where l: "left = Some l" using Cons.prems(2) by blast
  obtain r where r: "(if ps = [] then right else Some None) = Some r" using Cons.prems(3) by force
  let ?q = "context_phone A X l r p"
  have "0 \<le> word_sum (phone_units A X unit) ps" using assms(1) by (intro word_sum_nonneg phone_units_nonneg)
  then have "int (length (ps_end s)) + phone_units A X unit ?q (ps = []) \<le> int cap"
    using Cons.prems(4) assms(2) by simp
  from put_phone_ok [OF assms(1) Cons.prems(1) this] obtain s1
    where s1: "put_phone A X unit cap ?q (ps = []) s = Some s1" "ends_ok s1"
      "int (length (ps_end s1)) = int (length (ps_end s)) + phone_units A X unit p (ps = [])"
      "ps_st s1 = ps_st s + phone_states A X p (ps = [])" "ps_ph s1 = ps_ph s @ [?q]"
      "unit = PER_WORD \<longrightarrow> ps_end s1 = ps_end s" using assms(2) by auto
  from Cons.IH [OF s1(2), of "Some None"] Cons.prems(3,4) s1(3) obtain s'
    where s': "put_phones A X unit cap (Some None) right ps s1 = Some s'" "ends_ok s'"
      "int (length (ps_end s')) = int (length (ps_end s1)) + word_sum (phone_units A X unit) ps"
      "ps_st s' = ps_st s1 + word_sum (phone_states A X) ps"
      "length (ps_ph s') = length (ps_ph s1) + length ps" "unit = PER_WORD \<longrightarrow> ps_end s' = ps_end s1"
    by auto
  have "put_phones A X unit cap left right (p # ps) s = Some s'" using s1(1) s'(1) l r by simp
  with s1 s' show ?case by auto
qed simp

lemma word_sum_states: "ps \<noteq> [] \<Longrightarrow> word_sum (phone_states A X) ps =
    sum_list (map (nstates X) ps) + (if iwsp A then nstates X (sp_model X) else 0)"
  by (induction ps rule: list_nonempty_induct) (auto simp: phone_states_def)

lemma word_sum_units:
  "word_sum (phone_units A X PER_WORD) ps = 0"
  "word_sum (phone_units A X PER_PHONEME) ps = int (length ps)"
  "word_sum (phone_units A X PER_STATE) ps = word_sum (phone_states A X) ps"
  by (induction ps) (simp_all add: phone_units_def)

definition word_units :: "align_env \<Rightarrow> hmm_ops \<Rightarrow> align_unit \<Rightarrow> WORD_ID \<Rightarrow> int" where
  "word_units A X unit w =
     (if unit = PER_WORD then 1 else word_sum (phone_units A X unit) (word_phones A w))"

lemma end_num_units:
  "\<forall>w\<in>set words. word_phones A w \<noteq> [] \<Longrightarrow>
     end_num A X unit words = sum_list (map (word_units A X unit) words)"
  by (cases unit; induction words)
    (auto simp: end_num_def word_units_def word_sum_units word_sum_states word_states_def)

lemma word_units_nonneg: "emitting X \<Longrightarrow> 0 \<le> word_units A X unit w"
  by (simp add: word_units_def word_sum_nonneg phone_units_nonneg)

lemma put_word_end:
  assumes "ends_ok s1" "ends_ok s" "ps_st s < ps_st s1" "ps_end s1 = ps_end s"
    "int (length (ps_end s)) + 1 \<le> int cap"
  shows "\<exists>s2. put_end cap (ps_st s1 - 1) s1 = Some s2 \<and> ends_ok s2
    \<and> length (ps_end s2) = length (ps_end s) + 1 \<and> ps_st s2 = ps_st s1 \<and> ps_ph s2 = ps_ph s1"
  using assms by (fastforce simp: put_end_def ends_ok_def sorted_wrt_append)

lemma put_words_ok:
  assumes "emitting X" "same_states X"
  shows "ends_ok s \<Longrightarrow> \<forall>w\<in>set words. word_phones A w \<noteq> [] \<Longrightarrow> first \<or> ps_ph s \<noteq> [] \<Longrightarrow>
    int (length (ps_end s)) + sum_list (map (word_units A X unit) words) \<le> int cap \<Longrightarrow>
    \<exists>s'. put_words A X unit cap first words s = Some s' \<and> ends_ok s'
      \<and> int (length (ps_end s')) = int (length (ps_end s)) + sum_list (map (word_units A X unit) words)
      \<and> ps_st s' = ps_st s + sum_list (map (word_states A X) words)
      \<and> length (ps_ph s') = length (ps_ph s) + sum_list (map (\<lambda>w. length (word_phones A w)) words)"
proof (induction words arbitrary: first s)
  case (Cons w ws)
  let ?ps = "word_phones A w"
  have ne: "?ps \<noteq> []" using Cons.prems(2) by simp
  have "left_context A first s \<noteq> None" using Cons.prems(3) by (auto simp: left_context_def)
  moreover have "right_context A ws \<noteq> None"
    using Cons.prems(2) by (auto simp: right_context_def split: list.split)
  moreover have u: "0 \<le> sum_list (map (word_units A X unit) ws)"
    using assms(1) by (intro sum_list_nonneg) (auto simp: word_units_nonneg)
  moreover have "word_sum (phone_units A X unit) ?ps \<le> word_units A X unit w"
    by (simp add: word_units_def word_sum_units(1))
  ultimately obtain s1 where s1:
      "put_phones A X unit cap (left_context A first s) (right_context A ws) ?ps s = Some s1" "ends_ok s1"
      "int (length (ps_end s1)) = int (length (ps_end s)) + word_sum (phone_units A X unit) ?ps"
      "ps_st s1 = ps_st s + word_sum (phone_states A X) ?ps"
      "length (ps_ph s1) = length (ps_ph s) + length ?ps" "unit = PER_WORD \<longrightarrow> ps_end s1 = ps_end s"
    using put_phones_ok [OF assms Cons.prems(1), of "left_context A first s" "right_context A ws" A unit ?ps cap]
      Cons.prems(4) by auto
  have "0 < word_sum (phone_states A X) ?ps" using ne assms(1) by (rule word_sum_pos)
  then have "ps_st s < ps_st s1" using s1(4) by simp
  moreover have "int (length (ps_end s)) + word_units A X unit w \<le> int cap" using Cons.prems(4) u by simp
  ultimately obtain s2 where s2: "(if unit = PER_WORD then put_end cap (ps_st s1 - 1) s1 else Some s1) = Some s2"
      "ends_ok s2" "int (length (ps_end s2)) = int (length (ps_end s)) + word_units A X unit w"
      "ps_st s2 = ps_st s1" "ps_ph s2 = ps_ph s1"
    using put_word_end [OF s1(2) Cons.prems(1), of cap] s1(2,3,6) by (cases "unit = PER_WORD") (auto simp: word_units_def)
  have "ps_ph s2 \<noteq> []" using s2(5) s1(5) ne by auto
  from Cons.IH [OF s2(2) _ disjI2 [OF this]] Cons.prems(2,4) s2(3) obtain s'
    where "put_words A X unit cap False ws s2 = Some s'" "ends_ok s'"
      "int (length (ps_end s')) = int (length (ps_end s2)) + sum_list (map (word_units A X unit) ws)"
      "ps_st s' = ps_st s2 + sum_list (map (word_states A X) ws)"
      "length (ps_ph s') = length (ps_ph s2) + sum_list (map (\<lambda>w. length (word_phones A w)) ws)" by auto
  moreover have "word_states A X w = word_sum (phone_states A X) ?ps"
    by (simp add: word_states_def [of A X w] word_sum_states [OF ne])
  ultimately show ?case using s1 s2 by auto
qed simp

lemma make_phseq_filled:
  assumes "emitting X" "same_states X" "\<forall>w\<in>set words. word_phones A w \<noteq> []"
  shows "\<exists>s. make_phseq A X unit (nat (end_num A X unit words)) words = Some s
    \<and> int (length (ps_end s)) = end_num A X unit words
    \<and> sorted_wrt (<) (ps_end s) \<and> (\<forall>e\<in>set (ps_end s). 0 \<le> e \<and> e < ps_st s)
    \<and> ps_st s = (if multipath A then 1 else 0) + sum_list (map (word_states A X) words)
    \<and> length (ps_ph s) = sum_list (map (\<lambda>w. length (word_phones A w)) words)"
proof -
  let ?s = "\<lparr>ps_ph = [], ps_sp = [], ps_st = (if multipath A then 1 else 0), ps_end = []\<rparr>"
  have n: "end_num A X unit words = sum_list (map (word_units A X unit) words)"
    by (rule end_num_units [OF assms(3)])
  have "0 \<le> sum_list (map (word_units A X unit) words)"
    using assms(1) by (intro sum_list_nonneg) (auto simp: word_units_nonneg)
  then show ?thesis
    using put_words_ok [OF assms(1,2) _ assms(3), of ?s True unit "nat (end_num A X unit words)"]
    by (fastforce simp: make_phseq_def ends_ok_def n)
qed

section \<open>Properties\<close>

text \<open>C34: The array of end states is filled exactly: with models that emit and whose variants
  have the same number of states, the phone sequence of a sentence of words with phones has
  all phones, the end states are as many as were counted, they increase strictly, and they
  lie within the states of the sentence.\<close>

theorem make_phseq_fits:
  assumes "emitting X" "same_states X" "\<forall>w\<in>set words. word_phones A w \<noteq> []"
  shows "\<exists>s. make_phseq A X unit (nat (end_num A X unit words)) words = Some s
    \<and> int (length (ps_end s)) = end_num A X unit words
    \<and> sorted_wrt (<) (ps_end s) \<and> (\<forall>e\<in>set (ps_end s). 0 \<le> e \<and> e < ps_st s)
    \<and> ps_st s = (if multipath A then 1 else 0) + sum_list (map (word_states A X) words)
    \<and> length (ps_ph s) = sum_list (map (\<lambda>w. length (word_phones A w)) words)"
  by (rule make_phseq_filled [OF assms])

text \<open>Two words of one phone of one state each.\<close>

definition ex_phone :: "nat \<Rightarrow> HMM_Logical" where
  "ex_phone n = \<lparr>ph_name = (if n = 0 then ''a'' else ''b''), ph_addr = n\<rparr>"

definition ex_env :: align_env where
  "ex_env = \<lparr>words_info = \<lparr>wseq = [[ex_phone 0], [ex_phone 1]], head_silwid = 5, tail_silwid = 6\<rparr>,
     multipath = False, enable_iwsp = False, ccd_flag = True\<rparr>"

definition ex_hmms :: hmm_ops where
  "ex_hmms = \<lparr>hmm_logical_state_num = (\<lambda>p. 3), get_left_context_HMM = (\<lambda>p n. None),
     get_right_context_HMM = (\<lambda>p n. Some p), sp_model = ex_phone 9,
     new_make_word_hmm = (\<lambda>ps sp. Some ex_hmm), log_zero = -1000000, outprob_of = (\<lambda>h t n. -1)\<rparr>"

lemma ex_hmms_ok: "emitting ex_hmms" "same_states ex_hmms"
    "\<forall>w\<in>set [0, 1]. word_phones ex_env w \<noteq> []"
  by (simp_all add: emitting_def same_states_def ex_hmms_def ex_env_def)

lemma ex_make_phseq:
  "make_phseq ex_env ex_hmms PER_WORD 2 [0, 1] =
     Some \<lparr>ps_ph = [ex_phone 0, ex_phone 1], ps_sp = [True, True], ps_st = 2, ps_end = [0, 1]\<rparr>"
  by (simp add: make_phseq_def ex_env_def ex_hmms_def left_context_def right_context_def put_phone_def
      context_phone_def nstates_def iwsp_def put_end_def Let_def)

theorem make_phseq_fits_witness:
  "\<exists>s. make_phseq ex_env ex_hmms PER_STATE 2 [0, 1] = Some s \<and> length (ps_end s) = 2 \<and> ps_st s = 2"
  using make_phseq_fits [OF ex_hmms_ok, of PER_STATE]
  by (auto simp: end_num_def word_states_def ex_env_def ex_hmms_def nstates_def iwsp_def)

text \<open>Nothing checks that the variants have the states of the dictionary's phones, from which
  the array was allocated: with a right-context variant of more states an alignment by states
  writes behind the end of the array of end states.\<close>

theorem do_align_overflow:
  assumes "ccd_flag A" "\<not> multipath A" "word_phones A w1 = [p1]" "word_phones A w2 = [p2]" "emitting X"
    and "get_right_context_HMM X p1 (ph_name p2) = Some q" "get_left_context_HMM X p2 (ph_name q) = None"
    and "hmm_logical_state_num X p1 < hmm_logical_state_num X q"
  shows "do_align A X [w1, w2] n PER_STATE = None"
proof -
  have i: "\<not> iwsp A" using assms(2) by (simp add: iwsp_def)
  have pos: "1 \<le> nstates X p1" "1 \<le> nstates X p2" "nstates X p1 < nstates X q"
    using nstates_pos [OF assms(5)] assms(8) by (simp_all add: nstates_def)
  define cap where "cap = nat (end_num A X PER_STATE [w1, w2])"
  have cap: "int cap = nstates X p1 + nstates X p2"
    using pos i assms(3,4) by (simp add: cap_def end_num_def word_states_def)
  define s1 where "s1 = \<lparr>ps_ph = [q], ps_sp = [True], ps_st = nstates X q, ps_end = state_ends X q False 0\<rparr>"
  let ?put = "put_phone A X PER_STATE cap"
  let ?s0 = "\<lparr>ps_ph = [], ps_sp = [], ps_st = 0, ps_end = []\<rparr>"
  have c: "context_phone A X None (Some p2) p1 = q" "context_phone A X (Some q) None p2 = p2"
    using assms(1,6,7) by (simp_all add: context_phone_def)
  have len: "length (state_ends X r False st) = nat (nstates X r)" for r st by (simp add: state_ends_def)
  have "?put q True ?s0 = None \<or> length (ps_end s1) \<le> cap \<and> ?put q True ?s0 = Some s1"
  proof (cases "nat (nstates X q) \<le> cap")
    case True
    then show ?thesis using i put_all_end [of "?s0\<lparr>ps_ph := [q], ps_sp := [True]\<rparr>" "state_ends X q False 0" cap]
      by (simp add: put_phone_def s1_def len)
  next
    case False
    then show ?thesis using i put_all_end_full [of cap "?s0\<lparr>ps_ph := [q], ps_sp := [True]\<rparr>" "state_ends X q False 0"]
      by (simp add: put_phone_def len)
  qed
  moreover have "?put p2 True s1 = None" if "length (ps_end s1) \<le> cap"
  proof -
    have "cap < length (ps_end s1) + length (state_ends X p2 False (ps_st s1))"
      using cap pos by (simp add: s1_def len)
    then show ?thesis using that i
        put_all_end_full [of cap "s1\<lparr>ps_ph := ps_ph s1 @ [p2], ps_sp := ps_sp s1 @ [True]\<rparr>"
          "state_ends X p2 False (ps_st s1)"]
      by (simp add: put_phone_def)
  qed
  ultimately have "make_phseq A X PER_STATE cap [w1, w2] = None"
    using assms(1-4) c by (auto simp: make_phseq_def left_context_def right_context_def s1_def)
  then show ?thesis by (simp add: do_align_def cap_def)
qed

theorem do_align_overflow_witness:
  "do_align ex_env (ex_hmms\<lparr>hmm_logical_state_num := (\<lambda>p. if ph_addr p = 7 then 5 else 3),
      get_right_context_HMM := (\<lambda>p n. Some (ex_phone 7))\<rparr>) [0, 1] 2 PER_STATE = None"
  by (rule do_align_overflow [where ?p1.0 = "ex_phone 0" and ?p2.0 = "ex_phone 1" and q = "ex_phone 7"])
    (simp_all add: ex_env_def ex_hmms_def emitting_def ex_phone_def)

text \<open>Frames that follow each other.\<close>

lemma begin_frames_Cons: "begin_frames (e # es) = 0 # map (\<lambda>x. x + 1) (butlast (e # es))"
proof (rule nth_equalityI)
  show "length (begin_frames (e # es)) = length (0 # map (\<lambda>x. x + 1) (butlast (e # es)))"
    by (simp add: begin_frames_def)
  fix i assume "i < length (begin_frames (e # es))"
  then show "begin_frames (e # es) ! i = (0 # map (\<lambda>x. x + 1) (butlast (e # es))) ! i"
    by (cases i) (simp_all add: begin_frames_def nth_butlast del: upt_Suc butlast.simps)
qed

lemma tiles:
  "sorted_wrt (<) (g # es) \<Longrightarrow>
     concat (map2 (\<lambda>b e. [b..e]) ((g + 1) # map (\<lambda>x. x + 1) (butlast es)) es) = [g + 1..last (g # es)]"
proof (induction es arbitrary: g)
  case (Cons e es)
  show ?case
  proof (cases es)
    case Nil
    with Cons show ?thesis by simp
  next
    case (Cons e' es')
    have s: "g < e" "sorted_wrt (<) (e # es)" using Cons.prems by simp_all
    from Cons.IH [OF s(2)] have ih: "concat (map2 (\<lambda>b e. [b..e]) ((e + 1) # map (\<lambda>x. x + 1) (butlast es)) es) =
        [e + 1..last (e # es)]" .
    have "e \<le> last (e # es)" using s(2) Cons by (auto simp: less_imp_le)
    then have "[g + 1..e] @ [e + 1..last (e # es)] = [g + 1..last (e # es)]"
      using s(1) upto_split2 [of "g + 1" e "last (e # es)"] by simp
    with ih Cons show ?thesis by simp
  qed
qed simp

lemma int_sum_list: "int (sum_list (map g xs)) = sum_list (map (\<lambda>x. int (g x)) xs)"
  by (induction xs) simp_all

lemma those_get_at:
  "\<forall>i\<in>set is. i \<in> {0..<int (length xs)} \<Longrightarrow> those (map (get_at xs) is) = Some (map (\<lambda>i. xs ! nat i) is)"
  by (induction "is") (auto simp: get_at_def)

text \<open>
  What an alignment by states means to report for each state of the sentence: the number of its
  phone, its location in the phone (counting on into a short pause behind it), and whether it
  belongs to the short pause.
\<close>

definition phone_places :: "align_env \<Rightarrow> hmm_ops \<Rightarrow> nat \<Rightarrow> HMM_Logical \<Rightarrow> bool \<Rightarrow> (nat \<times> int \<times> bool) list" where
  "phone_places A X p q tail =
     map (\<lambda>l. (p, l, l > nstates X q)) [1..phone_states A X q tail]"

fun places :: "align_env \<Rightarrow> hmm_ops \<Rightarrow> nat \<Rightarrow> HMM_Logical list \<Rightarrow> (nat \<times> int \<times> bool) list" where
  "places A X p [] = []"
| "places A X p (q # qs) = phone_places A X p q (qs = []) @ places A X (p + 1) qs"

fun state_places :: "align_env \<Rightarrow> hmm_ops \<Rightarrow> nat \<Rightarrow> WORD_ID list \<Rightarrow> (nat \<times> int \<times> bool) list" where
  "state_places A X p [] = []"
| "state_places A X p (w # ws) =
     places A X p (word_phones A w) @ state_places A X (p + length (word_phones A w)) ws"

definition decoded :: "align_env \<Rightarrow> int \<Rightarrow> nat \<times> int \<Rightarrow> nat \<times> int \<times> bool" where
  "decoded A en = (\<lambda>(p, l). (p, state_loc A en l))"

lemma upto_int_map: "0 \<le> k \<Longrightarrow> [a + 1..a + k] = map (\<lambda>j. a + 1 + int j) [0..<nat k]"
  by (rule nth_equalityI) simp_all

lemma decoded_phone:
  assumes "emitting X" "nstates X q \<le> en"
  shows "map (decoded A en) (phone_locs A X en p q tail) = phone_places A X p q tail"
proof -
  define m where "m = nstates X q"
  define k where "k = nstates X (sp_model X)"
  have mk: "1 \<le> m" "1 \<le> k" using nstates_pos [OF assms(1)] by (simp_all add: m_def k_def)
  have a: "[1..m] = map (\<lambda>j. 1 + int j) [0..<nat m]" using upto_int_map [of m 0] mk by simp
  have b: "[m + 1..m + k] = map (\<lambda>j. m + 1 + int j) [0..<nat k]" using upto_int_map [of k m] mk by simp
  have c: "[1..m + k] = [1..m] @ [m + 1..m + k]" using mk upto_split2 [of 1 m "m + k"] by simp
  have plain: "map (decoded A en) (map (\<lambda>j. (p, int j + 1)) [0..<nat m]) = map (\<lambda>l. (p, l, l > m)) [1..m]"
    unfolding a using assms(2) by (auto simp: decoded_def state_loc_def m_def)
  have pause: "map (decoded A en) (map (\<lambda>j. (p, int (nat m) + 1 + int j + en)) [0..<nat k]) =
      map (\<lambda>l. (p, l, l > m)) [m + 1..m + k]" if "iwsp A"
    unfolding b using that mk by (auto simp: decoded_def state_loc_def iwsp_def)
  show ?thesis
    using plain pause c
    by (cases "iwsp A \<and> tail") (auto simp: phone_locs_def phone_places_def phone_states_def m_def k_def)
qed

lemma decoded_word:
  "emitting X \<Longrightarrow> \<forall>q\<in>set qs. nstates X q \<le> en \<Longrightarrow>
     map (decoded A en) (word_locs A X en p qs) = places A X p qs"
  by (induction qs arbitrary: p) (simp_all add: decoded_phone)

lemma decoded_words:
  "emitting X \<Longrightarrow> \<forall>w\<in>set ws. \<forall>q\<in>set (word_phones A w). nstates X q \<le> en \<Longrightarrow>
     map (decoded A en) (state_locs A X en p ws) = state_places A X p ws"
  by (induction ws arbitrary: p) (simp_all add: decoded_word)

lemma nstates_le_end_num:
  assumes "emitting X" "w \<in> set words" "q \<in> set (word_phones A w)"
  shows "nstates X q \<le> end_num A X PER_STATE words"
proof -
  have pos: "0 \<le> nstates X r" for r using nstates_pos [OF assms(1), of r] by simp
  have "nstates X q \<le> sum_list (map (nstates X) (word_phones A w))"
    using assms(3) pos by (intro member_le_sum_list) auto
  also have "\<dots> \<le> word_states A X w" using pos by (simp add: word_states_def)
  also have "\<dots> \<le> sum_list (map (word_states A X) words)"
    using assms(2) pos
    by (intro member_le_sum_list) (auto simp: word_states_def intro!: add_nonneg_nonneg sum_list_nonneg)
  finally show ?thesis by (simp add: end_num_def)
qed

lemma places_range: "(p', l, b) \<in> set (places A X p qs) \<Longrightarrow> p \<le> p' \<and> p' < p + length qs"
  by (induction qs arbitrary: p) (fastforce simp: phone_places_def)+

lemma state_places_range:
  "(p', l, b) \<in> set (state_places A X p ws) \<Longrightarrow> p \<le> p' \<and> p' < p + sum_list (map (\<lambda>w. length (word_phones A w)) ws)"
proof (induction ws arbitrary: p)
  case (Cons w ws)
  from Cons.prems have "(p', l, b) \<in> set (places A X p (word_phones A w))
    \<or> (p', l, b) \<in> set (state_places A X (p + length (word_phones A w)) ws)" by simp
  then show ?case
  proof
    assume "(p', l, b) \<in> set (places A X p (word_phones A w))"
    from places_range [OF this] show ?thesis by simp
  next
    assume "(p', l, b) \<in> set (state_places A X (p + length (word_phones A w)) ws)"
    from Cons.IH [OF this] show ?thesis by simp
  qed
qed simp

lemma length_places: "emitting X \<Longrightarrow> int (length (places A X p qs)) = word_sum (phone_states A X) qs"
proof (induction qs arbitrary: p)
  case (Cons q qs)
  with phone_states_pos [OF Cons.prems, of A q "qs = []"] show ?case by (simp add: phone_places_def)
qed simp

lemma length_state_places:
  assumes "emitting X"
  shows "\<forall>w\<in>set ws. word_phones A w \<noteq> [] \<Longrightarrow>
    int (length (state_places A X p ws)) = sum_list (map (word_states A X) ws)"
  by (induction ws arbitrary: p) (simp_all add: length_places [OF assms] word_sum_states word_states_def)

text \<open>The units of an alignment by states, without multipath: a state of a phone of the sentence each.\<close>

lemma fill_align_states:
  assumes "\<not> multipath A" "emitting X" "\<forall>w\<in>set words. word_phones A w \<noteq> []"
    and "length phones = sum_list (map (\<lambda>w. length (word_phones A w)) words)"
    and "\<forall>i\<in>set (res_id r). i \<in> {0..<end_num A X PER_STATE words}"
  shows "\<exists>ps ls. fill_align A X PER_STATE words phones r =
      Some \<lparr>al_num = length (res_id r), unittype = PER_STATE, al_w = None, al_ph = Some ps, al_loc = Some ls,
        begin_frame = begin_frames (res_seg r), end_frame = res_seg r, avgscore = res_uscore r,
        is_iwsp = None, allscore = res_score r\<rparr>
    \<and> length ps = length (res_id r) \<and> length ls = length (res_id r)
    \<and> (\<forall>i < length (res_id r). \<exists>p b. (p, ls ! i, b) \<in> set (state_places A X 0 words) \<and> ps ! i = phones ! p)"
proof -
  let ?en = "end_num A X PER_STATE words"
  let ?locs = "state_locs A X ?en 0 words"
  have dec: "map (decoded A ?en) ?locs = state_places A X 0 words"
    using assms(2) nstates_le_end_num [OF assms(2)] by (intro decoded_words) auto
  then have "int (length ?locs) = ?en"
    using length_state_places [OF assms(2,3), of 0] by (metis end_num_def align_unit.simps(9) length_map)
  then have ids: "\<forall>i\<in>set (res_id r). i \<in> {0..<int (length ?locs)}" using assms(5) by simp
  define ls where "ls = map (\<lambda>i. ?locs ! nat i) (res_id r)"
  have get: "those (map (get_at ?locs) (res_id r)) = Some ls"
    using those_get_at [OF ids] by (simp add: ls_def)
  have mem: "decoded A ?en x \<in> set (state_places A X 0 words)" if "x \<in> set ls" for x
  proof -
    from that ids have "x \<in> set ?locs" by (auto simp: ls_def)
    then show ?thesis using dec by (metis image_eqI list.set_map)
  qed
  have phone: "fst x < length phones" if "x \<in> set ls" for x
  proof -
    obtain l b where "decoded A ?en x = (fst x, l, b)" by (cases x; cases "state_loc A ?en (snd x)") (simp add: decoded_def)
    with mem [OF that] state_places_range [of "fst x" l b A X 0 words] show ?thesis by (simp add: assms(4))
  qed
  have "those (map (\<lambda>x. get_at phones (int (fst x))) xs) = Some (map (\<lambda>x. phones ! fst x) xs)"
    if "set xs \<subseteq> set ls" for xs using that by (induction xs) (simp_all add: get_at_def phone)
  from this [OF order_refl]
  have ph: "those (map (\<lambda>(p, _). get_at phones (int p)) ls) = Some (map (\<lambda>x. phones ! fst x) ls)"
    by (simp add: case_prod_unfold)
  have fill: "fill_align A X PER_STATE words phones r =
      Some \<lparr>al_num = length (res_id r), unittype = PER_STATE, al_w = None, al_ph = Some (map (\<lambda>x. phones ! fst x) ls),
        al_loc = Some (map (fst \<circ> state_loc A ?en \<circ> snd) ls),
        begin_frame = begin_frames (res_seg r), end_frame = res_seg r, avgscore = res_uscore r,
        is_iwsp = None, allscore = res_score r\<rparr>"
    using assms(1) get ph by (simp add: fill_align_def Let_def)
  have "\<exists>p b. (p, map (fst \<circ> state_loc A ?en \<circ> snd) ls ! i, b) \<in> set (state_places A X 0 words)
      \<and> map (\<lambda>x. phones ! fst x) ls ! i = phones ! p" if "i < length ls" for i
    using mem [OF nth_mem [OF that]] that by (auto simp: decoded_def case_prod_beta) (metis prod.collapse)
  moreover have "length ls = length (res_id r)" by (simp add: ls_def)
  ultimately show ?thesis using fill
    by (intro exI [of _ "map (\<lambda>x. phones ! fst x) ls"] exI [of _ "map (fst \<circ> state_loc A ?en \<circ> snd) ls"]) simp
qed

text \<open>C19: Alignments without multipath cover the input, by words, by phones and by states.  When the sentence
  HMM has a path through all frames, all models emit and variants of a phone have the states of the
  phone, the alignment succeeds, its units follow each other without gap or overlap from the first frame of
  the input to the last, each unit is a word of the sentence, a phone of it, or a location in a phone of it,
  and the average scores weighted with the durations add up to the total score.\<close>

theorem do_align_covers:
  assumes "\<not> multipath A" "words \<noteq> []" "\<forall>w\<in>set words. word_phones A w \<noteq> []"
    and "emitting X" "same_states X" "0 < n"
    and "make_phseq A X unit (nat (end_num A X unit words)) words = Some s"
    and "new_make_word_hmm X (ps_ph s) None = Some h" "hmm_in_range False h (map nat (ps_end s))"
    and "hmm_path (log_zero X) h False (outprob_of X h) (map nat (ps_end s)) n n ((length h - 1) # p0) s0 b0"
  shows "\<exists>a. do_align A X words n unit = Some a
    \<and> concat (map2 (\<lambda>b e. [b..e]) (begin_frame a) (end_frame a)) = [0..int n - 1]
    \<and> length (end_frame a) = al_num a
    \<and> (case unit of
        PER_WORD \<Rightarrow> \<exists>ws. al_w a = Some ws \<and> length ws = al_num a \<and> set ws \<subseteq> set words
      | PER_PHONEME \<Rightarrow> \<exists>ps. al_ph a = Some ps \<and> length ps = al_num a \<and> set ps \<subseteq> set (ps_ph s)
      | PER_STATE \<Rightarrow> \<exists>ps ls. al_ph a = Some ps \<and> al_loc a = Some ls \<and> length ps = al_num a \<and> length ls = al_num a
          \<and> (\<forall>i < al_num a. \<exists>p b. (p, ls ! i, b) \<in> set (state_places A X 0 words) \<and> ps ! i = ps_ph s ! p))
    \<and> sum_list (map2 (\<lambda>u d. u * of_int d) (avgscore a) (durations (-1) (end_frame a))) = allscore a"
proof -
  have num: "int (length (ps_end s)) = end_num A X unit words" "\<forall>e\<in>set (ps_end s). 0 \<le> e"
    "length (ps_ph s) = sum_list (map (\<lambda>w. length (word_phones A w)) words)"
    using make_phseq_filled [OF assms(4,5,3), of unit] assms(7) by auto
  have "0 < word_units A X unit w" if "w \<in> set words" for w
    using assms(3) that word_sum_pos [OF _ assms(4), of "word_phones A w"]
    by (cases unit) (simp_all add: word_units_def word_sum_units)
  then have "0 < sum_list (map (word_units A X unit) words)"
    using assms(2) word_units_nonneg [OF assms(4), of A unit]
    by (cases words) (auto intro!: add_pos_nonneg sum_list_nonneg)
  then have "end_num A X unit words > 0" by (simp add: end_num_units [OF assms(3)])
  then have ne: "map nat (ps_end s) \<noteq> []" using num(1) by auto
  have i: "\<not> iwsp A" using assms(1) by (simp add: iwsp_def)
  obtain r where r: "viterbi_segment (log_zero X) h n (outprob_of X h) False (map nat (ps_end s)) = Some r"
      "sorted_wrt (<) (-1 # res_seg r)" "last (res_seg r) = int n - 1" "res_seg r \<noteq> []"
      "length (res_id r) = length (res_seg r)"
      "sum_list (map2 (\<lambda>u d. u * of_int d) (res_uscore r) (durations (-1) (res_seg r))) = res_score r"
      "\<forall>i\<in>set (res_id r). i \<in> {0..<int (length (ps_end s))}"
    using viterbi_segment_cover [OF ne assms(9,6,10)] by auto
  obtain e es where es: "res_seg r = e # es" using r(4) by (cases "res_seg r") auto
  have tl: "concat (map2 (\<lambda>b e. [b..e]) (begin_frames (res_seg r)) (res_seg r)) = [0..int n - 1]"
    using tiles [OF r(2)] r(3) unfolding es begin_frames_Cons by simp
  have nn: "\<not> list_ex (\<lambda>e. e < 0) (ps_end s)" using num(2) by (auto simp: list_ex_iff)
  have d: "do_align A X words n unit = fill_align A X unit words (ps_ph s) r"
    using assms(1,7,8) i num(1) nn r(1) by (simp add: do_align_def)
  show ?thesis
  proof (cases unit)
    case PER_WORD
    then have "\<forall>i\<in>set (res_id r). i \<in> {0..<int (length words)}" using r(7) num(1) by (simp add: end_num_def)
    with PER_WORD d r tl show ?thesis by (fastforce simp: fill_align_def those_get_at)
  next
    case PER_PHONEME
    have "int (length (ps_ph s)) = end_num A X unit words"
      unfolding num(3) using PER_PHONEME by (simp add: end_num_def int_sum_list)
    then have "\<forall>i\<in>set (res_id r). i \<in> {0..<int (length (ps_ph s))}" using r(7) num(1) by simp
    with PER_PHONEME d r tl show ?thesis by (fastforce simp: fill_align_def those_get_at)
  next
    case PER_STATE
    have "\<forall>i\<in>set (res_id r). i \<in> {0..<end_num A X PER_STATE words}" using r(7) num(1) by (simp add: PER_STATE)
    from fill_align_states [OF assms(1,4,3) num(3) this] d PER_STATE r(5,6) tl show ?thesis by auto
  qed
qed

theorem do_align_covers_witness:
  "\<exists>a. do_align ex_env ex_hmms [0, 1] 2 PER_WORD = Some a
    \<and> concat (map2 (\<lambda>b e. [b..e]) (begin_frame a) (end_frame a)) = [0..1]"
proof -
  have n: "nat (end_num ex_env ex_hmms PER_WORD [0, 1]) = 2" by (simp add: end_num_def)
  have "\<exists>a. do_align ex_env ex_hmms [0, 1] 2 PER_WORD = Some a
      \<and> concat (map2 (\<lambda>b e. [b..e]) (begin_frame a) (end_frame a)) = [0..int 2 - 1]"
    using do_align_covers [OF _ _ ex_hmms_ok(3) ex_hmms_ok(1,2) _ ex_make_phseq [folded n],
        where n = 2 and h = ex_hmm and ?p0.0 = "[0]" and ?s0.0 = "-4"
        and ?b0.0 = "[\<lparr>last_id = 0, last_end_frame = 0, last_end_score = -1\<rparr>, root_token]"]
      ex_hmm_path
    by (simp add: ex_env_def ex_hmms_def hmm_in_range_def ex_hmm_def eval_nat_numeral) metis
  then show ?thesis by simp
qed

text \<open>The coding of the short-pause states is not ambiguous: reading the table of locations
  back gives for every state of the sentence its phone, its location and whether it belongs to
  the short pause behind the phone.\<close>

theorem state_locs_decoded:
  assumes "emitting X"
  shows "map (decoded A (end_num A X PER_STATE words)) (state_locs A X (end_num A X PER_STATE words) 0 words) =
    state_places A X 0 words"
  using assms nstates_le_end_num [OF assms] by (intro decoded_words) auto

theorem state_locs_decoded_witness:
  "map (decoded (ex_env\<lparr>multipath := True, enable_iwsp := True\<rparr>) 4)
     (state_locs (ex_env\<lparr>multipath := True, enable_iwsp := True\<rparr>) ex_hmms 4 0 [0, 1]) =
   [(0, 1, False), (0, 2, True), (1, 1, False), (1, 2, True)]"
proof -
  let ?A = "ex_env\<lparr>multipath := True, enable_iwsp := True\<rparr>"
  have "end_num ?A ex_hmms PER_STATE [0, 1] = 4"
    by (simp add: end_num_def word_states_def ex_env_def ex_hmms_def nstates_def iwsp_def)
  moreover have "state_places ?A ex_hmms 0 [0, 1] = [(0, 1, False), (0, 2, True), (1, 1, False), (1, 2, True)]"
    by (simp add: ex_env_def ex_hmms_def phone_places_def phone_states_def nstates_def iwsp_def upto.simps)
  ultimately show ?thesis using state_locs_decoded [OF ex_hmms_ok(1), of ?A "[0, 1]"] by simp
qed

text \<open>The alignments asked for of a sentence.\<close>

definition asked :: "align_env \<Rightarrow> hmm_ops \<Rightarrow> align_flags \<Rightarrow> nat \<Rightarrow> Sentence \<Rightarrow> SentenceAlign option list" where
  "asked A X F n s =
     (if align_result_word_flag F then [word_align A X (s_word s) n] else [])
     @ (if align_result_phoneme_flag F then [phoneme_align A X (s_word s) n] else [])
     @ (if align_result_state_flag F then [state_align A X (s_word s) n] else [])"

lemma align_sentence_asked:
  "s_align s = [] \<Longrightarrow> align_sentence A X F n s = map_option (\<lambda>as. s\<lparr>s_align := as\<rparr>) (those (asked A X F n s))"
  by (cases "word_align A X (s_word s) n"; cases "phoneme_align A X (s_word s) n";
      cases "state_align A X (s_word s) n")
    (auto simp: align_sentence_def asked_def link_align_def Let_def)

text \<open>The alignments of a result: every sentence keeps its words and gets the alignments that
  are asked for, once each, in the order word, phone, state, and the function fails only when one of
  these alignments fails.\<close>

theorem do_alignment_all_chains:
  assumes "\<forall>s\<in>set sents. s_align s = []"
  shows "do_alignment_all A X F n sents =
    those (map (\<lambda>s. map_option (\<lambda>as. s\<lparr>s_align := as\<rparr>) (those (asked A X F n s))) sents)"
proof -
  have "map (align_sentence A X F n) sents =
      map (\<lambda>s. map_option (\<lambda>as. s\<lparr>s_align := as\<rparr>) (those (asked A X F n s))) sents"
    using assms align_sentence_asked by (intro map_cong) auto
  then show ?thesis by (simp only: do_alignment_all_def)
qed

theorem do_alignment_all_chains_witness:
  "do_alignment_all ex_env ex_hmms
     \<lparr>align_result_word_flag = False, align_result_phoneme_flag = False, align_result_state_flag = False\<rparr> 2
     [\<lparr>s_word = [0, 1], s_score = -4, s_align = []\<rparr>] = Some [\<lparr>s_word = [0, 1], s_score = -4, s_align = []\<rparr>]"
  using do_alignment_all_chains [of "[\<lparr>s_word = [0, 1], s_score = -4, s_align = []\<rparr>]"]
  by (simp add: asked_def)

text \<open>The variants for reversed word sequences align the sequence read backwards.\<close>

lemma rev_nth_list: "map (\<lambda>w. xs ! (length xs - w - 1)) [0..<length xs] = rev xs"
  by (rule nth_equalityI) (simp_all add: rev_nth)

lemma rev_align_simps:
  "word_rev_align A X ws n = word_align A X (rev ws) n"
  "phoneme_rev_align A X ws n = phoneme_align A X (rev ws) n"
  "state_rev_align A X ws n = state_align A X (rev ws) n"
  by (simp_all only: word_rev_align_def phoneme_rev_align_def state_rev_align_def word_align_def
      phoneme_align_def state_align_def Let_def rev_nth_list)

end
