(* ===== verification/Recogmain.thy ===== *)
theory Recogmain
  imports Realtime Word_Align
begin

text \<open>
  The main recognition loop (\<open>recogmain.c\<close>): result storage, the buffering of speech, opening and
  closing of the input, and the loop of \<open>j_recognize_stream\<close> that runs the first pass (on the fly
  by \<open>Realtime\<close>, or on buffered input), the second pass and the alignment for every segment of the
  input.  The state is the engine of \<open>Realtime\<close> with further members: the requests (\<open>ctl\<close>, the
  engine of \<open>Instances\<close>), the results of the processes (\<open>results\<close>, in the order of the processes),
  the speech buffer, and the state \<open>world\<close> of libraries and devices.  Library functions, callback
  functions and constants of the libraries are the fields of the record \<open>env\<close>.  A callback may
  change the whole state.  A result \<open>None\<close> is an undefined behaviour of the program (an access
  through NULL or outside an array, a second \<open>free\<close>, an uninitialised variable) or a loop that
  does not end.
\<close>

section \<open>State\<close>

datatype sent_ptr = Sent_null | Sent_array "Sentence list" | Sent_freed

record Output =
  sent :: sent_ptr
  sent_max :: nat
  wg1 :: bool
  wg :: bool
  has_confnet :: bool

record ('w, 'd, 'x) Main = "('w, 'd) Engine" +
  ctl :: Instances.Recog
  process_online :: bool
  results :: "Output list"
  speech :: "int list option"
  speechlen :: nat
  speechalloclen :: nat
  world :: 'x

text \<open>The configuration of a process; \<open>p_dfa\<close> is \<open>LM_DFA\<close>, and \<open>p_word\<close> and \<open>p_grammar\<close> its variants.\<close>

record pconfig =
  p_dfa :: bool
  p_word :: bool
  p_grammar :: bool
  p_mfcc :: nat
  p_multipath :: bool
  compute_only_1pass :: bool
  graphout :: bool
  graph_lattice :: bool
  graph_confnet :: bool
  multigramout_flag :: bool
  output_hypo_maxnum :: nat
  p_env :: align_env
  p_hmms :: hmm_ops
  p_flags :: align_flags

record status_codes =
  STATUS_SUCCESS :: int
  STATUS_FAIL :: int
  STATUS_TERMINATE :: int
  STATUS_REJECT_SHORT :: int
  STATUS_REJECT_GMM :: int

record ('w, 'd, 'x) env =
  codes :: status_codes
  k_build :: build
  word_graph :: bool
  realtime_flag :: bool
  rejectshortlen :: int
  sfreq :: real
  period :: real
  gmm_reject :: bool
  strip_zero_sample :: bool
  MAX_SPEECH_ALLOC_STEP :: nat
  pcfg :: "nat \<Rightarrow> pconfig"
  lm_dfas :: "nat list"
  k_ops :: "('w, 'd) ops"
  k_mfcc :: "nat \<Rightarrow> 'w mfcc_ops"
  k_plugins :: plugins
  k_call :: "func \<Rightarrow> int \<Rightarrow> int"
  k_bits :: type_bits
  k_hmm_para :: Value
  k_coherent :: "Plugin.MFCCCalc list \<Rightarrow> bool"
  k_palloc :: "Plugin.HTK_Param \<Rightarrow> nat \<Rightarrow> Plugin.HTK_Param option"
  k_post :: "func \<Rightarrow> real list \<Rightarrow> nat \<Rightarrow> real list"
  k_woutput :: "nat \<Rightarrow> WORD_ID \<Rightarrow> string"
  callback :: "event \<Rightarrow> ('w, 'd, 'x) Main \<Rightarrow> ('w, 'd, 'x) Main"
  input_calls :: "nat list \<Rightarrow> 'x \<Rightarrow> 'x"
  plugin_calls :: "(func \<times> string option) list \<Rightarrow> 'x \<Rightarrow> 'x"
  adin_begin :: "'x \<Rightarrow> bool \<times> 'x"
  adin_end :: "'x \<Rightarrow> bool \<times> 'x"
  adin_thread :: bool
  adin_thread_create :: "'x \<Rightarrow> bool \<times> 'x"
  adin_thread_cancel :: "'x \<Rightarrow> bool \<times> 'x"
  adin_go :: "(int list \<Rightarrow> ('w, 'd, 'x) Main \<Rightarrow> (int \<times> ('w, 'd, 'x) Main) option)
    \<Rightarrow> (('w, 'd, 'x) Main \<Rightarrow> int \<times> ('w, 'd, 'x) Main) \<Rightarrow> ('w, 'd, 'x) Main
    \<Rightarrow> (int \<times> ('w, 'd, 'x) Main) option"
  next_reads :: "'x \<Rightarrow> (int \<times> vect) list \<times> 'x"
  module_ok :: "func \<Rightarrow> bool"
  k_fv_read :: fptr
  rdparam :: "string \<Rightarrow> Spsegment.HTK_Param \<Rightarrow> Spsegment.HTK_Param option"
  param_init_content :: "Spsegment.HTK_Param \<Rightarrow> Spsegment.HTK_Param"
  param_strip_zero :: "Spsegment.HTK_Param \<Rightarrow> Spsegment.HTK_Param"
  param_check_and_adjust :: "('w, 'd, 'x) Main \<Rightarrow> bool \<times> ('w, 'd, 'x) Main"
  wav2mfcc :: "int list \<Rightarrow> ('w, 'd, 'x) Main \<Rightarrow> bool \<times> ('w, 'd, 'x) Main"
  get_back_trellis :: "('w, 'd, 'x) Main \<Rightarrow> bool \<times> ('w, 'd, 'x) Main"
  gmm_valid_input :: "('w, 'd, 'x) Main \<Rightarrow> bool"
  multigram_update :: "nat \<Rightarrow> 'x \<Rightarrow> 'x"
  multigram_build :: "nat \<Rightarrow> 'x \<Rightarrow> 'x"
  global_modified :: "nat \<Rightarrow> 'x \<Rightarrow> bool"
  clear_modified :: "nat \<Rightarrow> 'x \<Rightarrow> 'x"
  winfo_null :: "nat \<Rightarrow> 'x \<Rightarrow> bool"
  dfa_null :: "nat \<Rightarrow> 'x \<Rightarrow> bool"
  active_grammars :: "nat \<Rightarrow> 'x \<Rightarrow> (int \<times> int) list"
  grammar_num :: "nat \<Rightarrow> 'x \<Rightarrow> nat"
  dfa_terms :: "nat \<Rightarrow> 'x \<Rightarrow> int"
  finalize_1pass :: "nat \<Rightarrow> ('w, 'd, 'x) Main \<Rightarrow> ('w, 'd, 'x) Main"
  bt_discount :: "nat \<Rightarrow> bool \<Rightarrow> 'd \<Rightarrow> 'd"
  wchmm_fbs :: "nat \<Rightarrow> int \<Rightarrow> int \<Rightarrow> ('w, 'd, 'x) Main \<Rightarrow> ('w, 'd, 'x) Main"
  cmn_file :: "nat \<Rightarrow> bool"
  cmn_update :: "nat \<Rightarrow> bool"
  cmn_upd :: "nat \<Rightarrow> 'w \<Rightarrow> 'w"
  cmn_save :: "nat \<Rightarrow> 'w \<Rightarrow> 'x \<Rightarrow> 'x"

abbreviation procs :: "('w, 'd, 'x) Main \<Rightarrow> Spsegment.RecogProcess list" where
  "procs m \<equiv> Spsegment.process_list (seg m)"

abbreviation set_procs :: "Spsegment.RecogProcess list \<Rightarrow> ('w, 'd, 'x) Main \<Rightarrow> ('w, 'd, 'x) Main" where
  "set_procs ps m \<equiv> m\<lparr>seg := (seg m)\<lparr>Spsegment.process_list := ps\<rparr>\<rparr>"

definition callback_exec :: "('w, 'd, 'x) env \<Rightarrow> event \<Rightarrow> ('w, 'd, 'x) Main \<Rightarrow> ('w, 'd, 'x) Main" where
  "callback_exec K ev m = callback K ev (fire [ev] m)"

section \<open>Result storage\<close>

definition result_align_new :: SentenceAlign where
  "result_align_new = \<lparr>al_num = 0, unittype = PER_WORD, al_w = None, al_ph = None, al_loc = None,
     begin_frame = [], end_frame = [], avgscore = [], is_iwsp = None, allscore = 0\<rparr>"

text \<open>The sentences stored are the list; \<open>sent_max\<close> is the length of the array.\<close>

definition result_sentence_malloc :: "nat \<Rightarrow> Output \<Rightarrow> Output" where
  "result_sentence_malloc num r = r\<lparr>sent := Sent_array [], sent_max := num\<rparr>"

definition result_sentence_free :: "Output \<Rightarrow> Output option" where
  "result_sentence_free r =
     (case sent r of
        Sent_null \<Rightarrow> Some r
      | Sent_array ss \<Rightarrow> Some (r\<lparr>sent := Sent_null\<rparr>)
      | Sent_freed \<Rightarrow> None)"

definition clear_result :: "('w, 'd, 'x) env \<Rightarrow> pconfig \<Rightarrow> int \<Rightarrow> Output \<Rightarrow> Output option" where
  "clear_result K c status r =
     (let r1 = (if word_graph K then r\<lparr>wg1 := False\<rparr> else r)
      in if p_word c then
           (if status = STATUS_SUCCESS (codes K) then
              (case sent r1 of Sent_freed \<Rightarrow> None | _ \<Rightarrow> Some (r1\<lparr>sent := Sent_freed\<rparr>))
            else Some r1)
         else
           result_sentence_free
             (if graphout c
              then r1\<lparr>wg := False, has_confnet := (if graph_confnet c then False else has_confnet r1)\<rparr>
              else r1))"

section \<open>Speech buffering\<close>

text \<open>
  The loop that raises \<open>speechalloclen\<close> in steps; a step of 0 would not end.
\<close>

function raise_alloc :: "nat \<Rightarrow> nat \<Rightarrow> nat \<Rightarrow> nat" where
  "raise_alloc step need alloc =
     (if alloc < need \<and> 0 < step then raise_alloc step need (alloc + step) else alloc)"
  by pat_completeness auto
termination
  by (relation "measure (\<lambda>(step, need, alloc). need - alloc)") auto

declare raise_alloc.simps [simp del]

text \<open>
  The buffer is the samples in the allocated array that have been stored; \<open>myrealloc\<close> keeps them.
\<close>

definition adin_cut_callback_store_buffer ::
  "('w, 'd, 'x) env \<Rightarrow> int list \<Rightarrow> ('w, 'd, 'x) Main \<Rightarrow> (int \<times> ('w, 'd, 'x) Main) option" where
  "adin_cut_callback_store_buffer K now m =
     (if speechlen m = 0 \<and> \<not> process_active (ctl m) then Some (1, m)
      else
        let need = speechlen m + length now;
            m1 = (if speechalloclen m < need
                  then m\<lparr>speechalloclen := raise_alloc (MAX_SPEECH_ALLOC_STEP K) need (speechalloclen m),
                         speech := Some (case speech m of None \<Rightarrow> [] | Some buf \<Rightarrow> buf)\<rparr>
                  else m)
        in case speech m1 of
             None \<Rightarrow> if now = [] then Some (0, m1) else None
           | Some buf \<Rightarrow>
               if speechalloclen m1 < need then None
               else Some (0, m1\<lparr>speech := Some (take (speechlen m1) buf @ now
                                  @ drop (speechlen m1 + length now) buf), speechlen := need\<rparr>))"

definition callback_check_in_adin :: "('w, 'd, 'x) env \<Rightarrow> ('w, 'd, 'x) Main \<Rightarrow> int \<times> ('w, 'd, 'x) Main" where
  "callback_check_in_adin K m =
     (let m1 = callback_exec K POLL m
      in (if process_want_terminate (ctl m1) then -2 else if process_want_reload (ctl m1) then -1 else 0, m1))"

section \<open>Opening and closing the input\<close>

definition init_first :: "('w, 'd, 'x) env \<Rightarrow> ('w, 'd, 'x) Main \<Rightarrow> ('w, 'd, 'x) Main option" where
  "init_first K m =
     (case mfccs m of
        [] \<Rightarrow> None
      | mc # ms \<Rightarrow>
          Some (set_mfccs (mc\<lparr>Spsegment.param := param_init_content K (Spsegment.param mc)\<rparr> # ms) m))"

definition first_instance :: "('w, 'd, 'x) Main \<Rightarrow> Plugin.MFCCCalc option" where
  "first_instance m = (case fvins m of [] \<Rightarrow> None | v # _ \<Rightarrow> Some v)"

definition j_open_stream ::
  "('w, 'd, 'x) env \<Rightarrow> string \<Rightarrow> ('w, 'd, 'x) Main \<Rightarrow> (int \<times> ('w, 'd, 'x) Main) option" where
  "j_open_stream K name m =
     (if eng_input m = INPUT_WAVEFORM then
        (case adin_begin K (world m) of (ok, x) \<Rightarrow>
           if \<not> ok then Some (-2, m\<lparr>world := x\<rparr>)
           else if adin_thread K then
             (case adin_thread_create K x of (ok2, x2) \<Rightarrow> Some (if ok2 then 0 else -2, m\<lparr>world := x2\<rparr>))
           else Some (0, m\<lparr>world := x\<rparr>))
      else
        (case eng_speech_input m of
           SP_MFCMODULE \<Rightarrow>
             Option.bind (init_first K m) (\<lambda>m1.
             Option.bind (first_instance m1) (\<lambda>v.
               case mfc_module_begin (module_ok K) v of (ok, calls) \<Rightarrow>
                 Some (if ok then 0 else -2, m1\<lparr>world := input_calls K calls (world m1)\<rparr>)))
         | SP_MFCFILE \<Rightarrow>
             Option.bind (init_first K m) (\<lambda>m1.
               case mfccs m1 of
                 [] \<Rightarrow> None
               | mc # ms \<Rightarrow>
                   (case rdparam K name (Spsegment.param mc) of
                      None \<Rightarrow> Some (-1, m1)
                    | Some p \<Rightarrow>
                        let p' = (if strip_zero_sample K then param_strip_zero K p else p)
                        in Some (0, callback_exec K STATUS_PARAM
                             (set_mfccs (mc\<lparr>Spsegment.param := p'\<rparr> # ms) m1))))
         | SP_EXTERN \<Rightarrow>
             Option.bind (init_first K m) (\<lambda>m1.
               case fvins m1 of
                 [] \<Rightarrow> None
               | v # vs \<Rightarrow> Some (0, m1\<lparr>fvins := v\<lparr>ext_fv_read := k_fv_read K\<rparr> # vs\<rparr>))
         | _ \<Rightarrow> Some (-1, m)))"

definition j_close_stream ::
  "('w, 'd, 'x) env \<Rightarrow> ('w, 'd, 'x) Main \<Rightarrow> (int \<times> ('w, 'd, 'x) Main) option" where
  "j_close_stream K m =
     (if eng_input m = INPUT_WAVEFORM then
        (case (if adin_thread K then adin_thread_cancel K (world m) else (True, world m)) of (ok, x) \<Rightarrow>
           if \<not> ok then Some (-2, m\<lparr>world := x\<rparr>)
           else (case adin_end K x of (ok2, x2) \<Rightarrow> Some (if ok2 then 0 else -2, m\<lparr>world := x2\<rparr>)))
      else
        (case eng_speech_input m of
           SP_MFCMODULE \<Rightarrow>
             Option.bind (first_instance m) (\<lambda>v.
               case mfc_module_end (module_ok K) v of (ok, calls) \<Rightarrow>
                 Some (if ok then 0 else -2, m\<lparr>world := input_calls K calls (world m)\<rparr>))
         | SP_MFCFILE \<Rightarrow> Some (0, m)
         | _ \<Rightarrow> Some (-1, m)))"

section \<open>Errors and results\<close>

text \<open>What the result plugins see of the processes.\<close>

definition result_view :: "('w, 'd, 'x) env \<Rightarrow> nat \<Rightarrow> Spsegment.RecogProcess \<Rightarrow> Output \<Rightarrow> result_process" where
  "result_view K i p r =
     \<lparr>rlive = Spsegment.live p, rstatus = res_status p,
      rsents = (case sent r of
                  Sent_array ss \<Rightarrow> map (\<lambda>s. (s_score s, map (k_woutput K i) (s_word s))) ss
                | _ \<Rightarrow> [])\<rparr>"

definition output_result ::
  "('w, 'd, 'x) env \<Rightarrow> ('w, 'd, 'x) Main \<Rightarrow> ('w, 'd, 'x) Main option" where
  "output_result K m =
     (let m1 = callback_exec K RESULT m
      in map_option (\<lambda>calls. m1\<lparr>world := plugin_calls K calls (world m1)\<rparr>)
           (plugin_exec_process_result (k_plugins K)
              (map (\<lambda>(i, p, r). result_view K i p r) (enumerate 0 (zip (procs m1) (results m1))))))"

definition result_error ::
  "('w, 'd, 'x) env \<Rightarrow> int \<Rightarrow> ('w, 'd, 'x) Main \<Rightarrow> ('w, 'd, 'x) Main option" where
  "result_error K status m =
     (let m1 = set_procs (map (\<lambda>p. p\<lparr>res_status := status\<rparr>) (procs m)) m
      in if list_ex (\<lambda>mc. f mc > 0) (mfccs m1) then output_result K m1 else Some m1)"

definition init_params :: "('w, 'd, 'x) env \<Rightarrow> ('w, 'd, 'x) Main \<Rightarrow> ('w, 'd, 'x) Main" where
  "init_params K m =
     set_mfccs (map (\<lambda>mc. mc\<lparr>Spsegment.param := param_init_content K (Spsegment.param mc)\<rparr>) (mfccs m)) m"

section \<open>Beginning of a round\<close>

definition request_pause ::
  "('w, 'd, 'x) env \<Rightarrow> ('w, 'd, 'x) Main \<Rightarrow> ('w, 'd, 'x) Main option" where
  "request_pause K m =
     map_option (\<lambda>(c, calls). m\<lparr>ctl := c, world := input_calls K calls (world m)\<rparr>) (j_request_pause (ctl m))"

definition update_active :: "Spsegment.RecogProcess \<Rightarrow> Spsegment.RecogProcess" where
  "update_active p =
     p\<lparr>Spsegment.live := (if p_active p > 0 then True else if p_active p < 0 then False else Spsegment.live p),
       p_active := 0\<rparr>"

definition update_status :: "('w, 'd, 'x) Main \<Rightarrow> ('w, 'd, 'x) Main" where
  "update_status m = set_procs (map update_active (procs m)) m"

definition check_live :: "('w, 'd, 'x) env \<Rightarrow> ('w, 'd, 'x) Main \<Rightarrow> ('w, 'd, 'x) Main option" where
  "check_live K m =
     (if process_active (ctl m) \<and> \<not> list_ex Spsegment.live (procs m) then request_pause K m else Some m)"

definition sync_online :: "('w, 'd, 'x) env \<Rightarrow> ('w, 'd, 'x) Main \<Rightarrow> ('w, 'd, 'x) Main" where
  "sync_online K m =
     (if process_online m \<noteq> process_active (ctl m) then
        let m1 = m\<lparr>process_online := process_active (ctl m)\<rparr>
        in callback_exec K (if process_online m1 then PROCESS_ONLINE else PROCESS_OFFLINE) m1
      else m)"

text \<open>The result \<open>True\<close> is that the engine sleeps and the function returns 1.\<close>

definition begin_round ::
  "('w, 'd, 'x) env \<Rightarrow> ('w, 'd, 'x) Main \<Rightarrow> (bool \<times> ('w, 'd, 'x) Main) option" where
  "begin_round K m =
     Option.bind (check_live K (update_status m)) (\<lambda>m1.
       let m2 = sync_online K m1;
           m3 = (if process_active (ctl m2) then callback_exec K POLL m2 else m2);
           m4 = m3\<lparr>ctl := j_reset_reload (ctl m3)\<rparr>
       in if \<not> process_active (ctl m4) then Some (True, m4) else Some (False, sync_online K m4))"

text \<open>
  The grammars: updates of the language models, new searches of the live processes whose grammar
  changed, and the processes left without a grammar, which are to be switched off.
\<close>

definition update_grammars :: "('w, 'd, 'x) env \<Rightarrow> ('w, 'd, 'x) Main \<Rightarrow> ('w, 'd, 'x) Main" where
  "update_grammars K m =
     (let x1 = fold (multigram_update K) (lm_dfas K) (world m);
          x2 = fold (\<lambda>(i, p) x. if Spsegment.live p \<and> p_dfa (pcfg K i) \<and> global_modified K i x
                                 then multigram_build K i x else x) (enumerate 0 (procs m)) x1
      in m\<lparr>world := fold (clear_modified K) (lm_dfas K) x2\<rparr>)"

definition without_grammar :: "('w, 'd, 'x) env \<Rightarrow> 'x \<Rightarrow> nat \<Rightarrow> Spsegment.RecogProcess \<Rightarrow> bool" where
  "without_grammar K x i p \<longleftrightarrow>
     Spsegment.live p \<and> p_dfa (pcfg K i)
     \<and> (winfo_null K i x \<or> p_grammar (pcfg K i) \<and> dfa_null K i x)"

definition drop_without_grammar ::
  "('w, 'd, 'x) env \<Rightarrow> ('w, 'd, 'x) Main \<Rightarrow> bool \<times> ('w, 'd, 'x) Main" where
  "drop_without_grammar K m =
     (let ips = enumerate 0 (procs m)
      in (list_ex (\<lambda>(i, p). without_grammar K (world m) i p) ips,
          set_procs (map (\<lambda>(i, p). if without_grammar K (world m) i p then p\<lparr>p_active := -1\<rparr> else p) ips) m))"

section \<open>The first pass\<close>

text \<open>How a part of the round ends: it goes on, jumps to \<open>end_recog\<close>, or returns -1.\<close>

datatype step = Go_on | Skip | Fatal

type_synonym ('w, 'd, 'x) outcome = "(step \<times> int option \<times> ('w, 'd, 'x) Main) option"

text \<open>
  Input on the fly.  \<open>next_reads\<close> are the reads of one call from the feature module: those behind
  the one that ends the call are not used.  A call that waits forever does not return.
\<close>

definition input_go :: "('w, 'd, 'x) env \<Rightarrow> ('w, 'd, 'x) Main \<Rightarrow> (int \<times> ('w, 'd, 'x) Main) option" where
  "input_go K m =
     (if eng_input m = INPUT_WAVEFORM
      then adin_go K (RealTimePipeLine (k_build K) (k_ops K)) (callback_check_in_adin K) m
      else
        (case next_reads K (world m) of (reads, x) \<Rightarrow>
           (case mfcc_go (k_build K) (k_ops K) (k_palloc K) (Some (callback_check_in_adin K)) reads
                   (m\<lparr>world := x\<rparr>) of
              None \<Rightarrow> None
            | Some (Go_waiting, m1) \<Rightarrow> None
            | Some (Go_return r, m1) \<Rightarrow> Some (r, m1))))"

definition untriggered :: "('w, 'd, 'x) env \<Rightarrow> ('w, 'd, 'x) Main \<Rightarrow> bool" where
  "untriggered K m \<longleftrightarrow> backend_vad (k_build K) \<and> segment (seg m) \<and> \<not> triggered (seg m)"

definition skip_error ::
  "('w, 'd, 'x) env \<Rightarrow> int \<Rightarrow> int option \<Rightarrow> ('w, 'd, 'x) Main \<Rightarrow> ('w, 'd, 'x) outcome" where
  "skip_error K status ret m = map_option (\<lambda>m'. (Skip, ret, m')) (result_error K status m)"

definition pass1_results :: "('w, 'd, 'x) env \<Rightarrow> ('w, 'd, 'x) Main \<Rightarrow> ('w, 'd, 'x) Main" where
  "pass1_results K m =
     (let m1 = callback_exec K RESULT_PASS1 m
      in if word_graph K then callback_exec K RESULT_PASS1_GRAPH m1 else m1)"

definition fly_end :: "('w, 'd, 'x) env \<Rightarrow> int \<Rightarrow> ('w, 'd, 'x) Main \<Rightarrow> ('w, 'd, 'x) outcome" where
  "fly_end K ret m =
     (case RealTimeParam (k_build K) (k_mfcc K) (k_ops K) m of
        None \<Rightarrow> None
      | Some (r, m1) \<Rightarrow>
          if r = 0 then Some (Fatal, Some ret, m1)
          else if untriggered K m1 then Some (Skip, Some ret, m1)
          else
            let m2 = callback_exec K STATUS_PARAM (callback_exec K PASS1_END (pass1_results K m1))
            in if process_want_terminate (ctl m2)
               then skip_error K (STATUS_TERMINATE (codes K)) (Some ret) m2
               else Some (Go_on, Some ret, m2))"

definition fly_terminated :: "('w, 'd, 'x) env \<Rightarrow> int \<Rightarrow> ('w, 'd, 'x) Main \<Rightarrow> ('w, 'd, 'x) outcome" where
  "fly_terminated K ret m =
     (let m1 = init_params K (RealTimeTerminate (k_ops K) m)
      in if triggered (seg m1)
         then skip_error K (STATUS_TERMINATE (codes K)) (Some ret) (callback_exec K PASS1_END m1)
         else Some (Skip, Some ret, m1))"

definition fly_input :: "('w, 'd, 'x) env \<Rightarrow> ('w, 'd, 'x) Main \<Rightarrow> ('w, 'd, 'x) outcome" where
  "fly_input K m =
     (case input_go K m of
        None \<Rightarrow> None
      | Some (ret, m1) \<Rightarrow>
          if ret < 0 then
            (if ret = -2 \<or> process_want_terminate (ctl m1) then fly_terminated K ret m1
             else Some (Fatal, Some ret, m1))
          else fly_end K ret m1)"

definition pass1_on_the_fly :: "('w, 'd, 'x) env \<Rightarrow> ('w, 'd, 'x) Main \<Rightarrow> ('w, 'd, 'x) outcome" where
  "pass1_on_the_fly K m =
     (if process_segment m then
        (case RealTimeResume (k_build K) (k_ops K) m of
           None \<Rightarrow> None
         | Some (ret, m1) \<Rightarrow>
             if ret < 0 then Some (Fatal, Some ret, m1)
             else if ret \<noteq> 1 then fly_input K m1 else fly_end K ret m1)
      else
        (case RealTimePipeLinePrepare (k_build K) (k_plugins K) (k_call K) (k_bits K) (k_hmm_para K)
                (k_coherent K) (k_ops K) m of
           None \<Rightarrow> None
         | Some (False, m1) \<Rightarrow> Some (Fatal, None, m1)
         | Some (True, m1) \<Rightarrow> fly_input K m1))"

text \<open>
  Buffered input.  \<open>ret\<close> is \<open>None\<close> as long as it has not been set in this call of the loop.
\<close>

definition record_speech :: "('w, 'd, 'x) env \<Rightarrow> ('w, 'd, 'x) Main \<Rightarrow> ('w, 'd, 'x) outcome" where
  "record_speech K m =
     (case adin_go K (adin_cut_callback_store_buffer K) (callback_check_in_adin K)
             (init_params K (m\<lparr>speechlen := 0\<rparr>)) of
        None \<Rightarrow> None
      | Some (ret, m1) \<Rightarrow>
          if ret < 0 then
            (if ret = -2 \<or> process_want_terminate (ctl m1)
             then skip_error K (STATUS_TERMINATE (codes K)) (Some ret) m1
             else Some (Fatal, Some ret, m1))
          else if rejectshortlen K > 0
                  \<and> real_of_nat (speechlen m1) / sfreq K * 1000 < real_of_int (rejectshortlen K)
          then skip_error K (STATUS_REJECT_SHORT (codes K)) (Some ret) m1
          else
            (case wav2mfcc K (case speech m1 of None \<Rightarrow> [] | Some buf \<Rightarrow> take (speechlen m1) buf) m1 of
               (ok, m2) \<Rightarrow>
                 if \<not> ok then skip_error K (STATUS_FAIL (codes K)) (Some (-1)) m2
                 else if process_want_terminate (ctl m2)
                 then skip_error K (STATUS_TERMINATE (codes K)) (Some ret) m2
                 else Some (Go_on, Some ret, callback_exec K STATUS_PARAM m2)))"

definition buffered_input ::
  "('w, 'd, 'x) env \<Rightarrow> int option \<Rightarrow> ('w, 'd, 'x) Main \<Rightarrow> ('w, 'd, 'x) outcome" where
  "buffered_input K ret m =
     (if eng_input m = INPUT_VECTOR then
        (if eng_speech_input m = SP_MFCFILE then
           (if paramtype_check_flag m then
              (case param_check_and_adjust K m of (ok, m1) \<Rightarrow>
                 if \<not> ok then skip_error K (STATUS_FAIL (codes K)) ret (init_params K m1)
                 else Some (Go_on, Some 0, m1))
            else Some (Go_on, Some 0, m))
         else Some (Go_on, ret, m))
      else if process_segment m then Some (Go_on, ret, m)
      else record_speech K m)"

definition postprocess_first :: "('w, 'd, 'x) env \<Rightarrow> ('w, 'd, 'x) Main \<Rightarrow> ('w, 'd, 'x) Main option" where
  "postprocess_first K m =
     (case mfccs m of
        [] \<Rightarrow> None
      | mc # ms \<Rightarrow>
          let p = Spsegment.param mc
          in Some (set_mfccs (mc\<lparr>Spsegment.param := p\<lparr>Spsegment.parvec :=
                 plugin_exec_vector_postprocess_all (k_post K) (k_plugins K) (samplenum p) (Spsegment.parvec p)\<rparr>\<rparr> # ms) m))"

definition buffered_search ::
  "('w, 'd, 'x) env \<Rightarrow> int option \<Rightarrow> ('w, 'd, 'x) Main \<Rightarrow> ('w, 'd, 'x) outcome" where
  "buffered_search K ret m =
     (case postprocess_first K m of
        None \<Rightarrow> None
      | Some m1 \<Rightarrow>
          let m2 = (if realtime_flag K then m1
                    else m1\<lparr>dec := outprob_prepare_mfcc (k_ops K) (seg m1) (dec m1)\<rparr>)
          in if process_want_terminate (ctl m2) then skip_error K (STATUS_TERMINATE (codes K)) ret m2
             else
               (case get_back_trellis K m2 of (ok, m3) \<Rightarrow>
                  if \<not> ok then Some (Fatal, ret, m3)
                  else if untriggered K m3 then Some (Skip, ret, m3)
                  else
                    let m4 = pass1_results K m3
                    in Some (Go_on, ret, if triggered (seg m4) then callback_exec K PASS1_END m4 else m4)))"

definition and_then ::
  "('w, 'd, 'x) outcome \<Rightarrow> (int option \<Rightarrow> ('w, 'd, 'x) Main \<Rightarrow> ('w, 'd, 'x) outcome) \<Rightarrow> ('w, 'd, 'x) outcome" where
  "and_then out g =
     (case out of None \<Rightarrow> None | Some (st, ret, m) \<Rightarrow> if st = Go_on then g ret m else Some (st, ret, m))"

definition pass1_buffered ::
  "('w, 'd, 'x) env \<Rightarrow> int option \<Rightarrow> ('w, 'd, 'x) Main \<Rightarrow> ('w, 'd, 'x) outcome" where
  "pass1_buffered K ret m = and_then (buffered_input K ret m) (buffered_search K)"

text \<open>The input may be rejected after the first pass (the build without \<open>POWER_REJECT\<close>).\<close>

definition check_reject ::
  "('w, 'd, 'x) env \<Rightarrow> int option \<Rightarrow> ('w, 'd, 'x) Main \<Rightarrow> ('w, 'd, 'x) outcome" where
  "check_reject K ret m =
     (if mfccs m = [] \<and> rejectshortlen K > 0 then None
      else if rejectshortlen K > 0
              \<and> real_of_nat (samplenum (Spsegment.param (hd (mfccs m)))) * period K * real_of_nat (frameshift m) / 10000
                < real_of_int (rejectshortlen K)
      then skip_error K (STATUS_REJECT_SHORT (codes K)) ret m
      else if process_want_terminate (ctl m) then skip_error K (STATUS_TERMINATE (codes K)) ret m
      else if gmm_reject K \<and> \<not> gmm_valid_input K m then skip_error K (STATUS_REJECT_GMM (codes K)) ret m
      else Some (Go_on, ret, m))"

section \<open>The second pass\<close>

text \<open>The loops over the processes visit the indices in order.\<close>

definition for_procs ::
  "(nat \<Rightarrow> ('w, 'd, 'x) Main \<Rightarrow> ('w, 'd, 'x) Main option) \<Rightarrow> ('w, 'd, 'x) Main \<Rightarrow> ('w, 'd, 'x) Main option" where
  "for_procs step m = put_all step [0..<length (procs m)] m"

definition set_output :: "nat \<Rightarrow> Output \<Rightarrow> ('w, 'd, 'x) Main \<Rightarrow> ('w, 'd, 'x) Main" where
  "set_output i r m = m\<lparr>results := (results m)[i := r]\<rparr>"

definition alive :: "('w, 'd, 'x) Main \<Rightarrow> nat \<Rightarrow> bool" where
  "alive m i \<longleftrightarrow> i < length (procs m) \<and> Spsegment.live (procs m ! i)"

definition succeeded :: "('w, 'd, 'x) Main \<Rightarrow> nat \<Rightarrow> bool" where
  "succeeded m i \<longleftrightarrow> alive m i \<and> res_status (procs m ! i) \<ge> 0"

definition finish_1pass :: "('w, 'd, 'x) env \<Rightarrow> nat \<Rightarrow> ('w, 'd, 'x) Main \<Rightarrow> ('w, 'd, 'x) Main option" where
  "finish_1pass K i m =
     Some (if succeeded m i \<and> \<not> p_word (pcfg K i) \<and> compute_only_1pass (pcfg K i)
           then finalize_1pass K i (set_output i (result_sentence_malloc 1 (results m ! i)) m) else m)"

definition in_pass2 :: "('w, 'd, 'x) env \<Rightarrow> ('w, 'd, 'x) Main \<Rightarrow> nat \<Rightarrow> bool" where
  "in_pass2 K m i \<longleftrightarrow> succeeded m i \<and> \<not> compute_only_1pass (pcfg K i)"

definition discount_trellis :: "('w, 'd, 'x) env \<Rightarrow> nat \<Rightarrow> ('w, 'd, 'x) Main \<Rightarrow> ('w, 'd, 'x) Main option" where
  "discount_trellis K i m =
     Some (if in_pass2 K m i then m\<lparr>dec := bt_discount K i (p_multipath (pcfg K i)) (dec m)\<rparr> else m)"

definition set_status :: "nat \<Rightarrow> int \<Rightarrow> ('w, 'd, 'x) Main \<Rightarrow> ('w, 'd, 'x) Main" where
  "set_status i s m = set_procs ((procs m)[i := (procs m ! i)\<lparr>res_status := s\<rparr>]) m"

definition search_grammars :: "('w, 'd, 'x) env \<Rightarrow> nat \<Rightarrow> ('w, 'd, 'x) Main \<Rightarrow> ('w, 'd, 'x) Main" where
  "search_grammars K i m =
     (case fold (\<lambda>(begin_cate, terms) (ok, m').
              let m2 = wchmm_fbs K i begin_cate terms m'
              in (ok \<or> res_status (procs m2 ! i) = STATUS_SUCCESS (codes K), m2))
            (active_grammars K i (world m)) (False, m) of
        (ok, m1) \<Rightarrow> set_status i (if ok then STATUS_SUCCESS (codes K) else STATUS_FAIL (codes K)) m1)"

definition search_process :: "('w, 'd, 'x) env \<Rightarrow> nat \<Rightarrow> ('w, 'd, 'x) Main \<Rightarrow> ('w, 'd, 'x) Main option" where
  "search_process K i m =
     Some (if in_pass2 K m i then
             let c = pcfg K i;
                 num = (if p_dfa c \<and> multigramout_flag c then output_hypo_maxnum c * grammar_num K i (world m)
                        else output_hypo_maxnum c);
                 m1 = set_output i (result_sentence_malloc num (results m ! i)) m
             in if lm_prob (procs m ! i) then wchmm_fbs K i 0 0 m1
                else if p_dfa c then
                  (if multigramout_flag c then search_grammars K i m1
                   else wchmm_fbs K i 0 (dfa_terms K i (world m1)) m1)
                else m1
           else m)"

definition align_process :: "('w, 'd, 'x) env \<Rightarrow> nat \<Rightarrow> ('w, 'd, 'x) Main \<Rightarrow> ('w, 'd, 'x) Main option" where
  "align_process K i m =
     (if succeeded m i then
        let c = pcfg K i
        in if length (mfccs m) \<le> p_mfcc c \<or> length (results m) \<le> i then None
           else
             (case sent (results m ! i) of
                Sent_array ss \<Rightarrow>
                  map_option (\<lambda>ss'. set_output i ((results m ! i)\<lparr>sent := Sent_array ss'\<rparr>) m)
                    (do_alignment_all (p_env c) (p_hmms c) (p_flags c)
                       (samplenum (Spsegment.param (mfccs m ! p_mfcc c))) ss)
              | _ \<Rightarrow> None)
      else Some m)"

definition clear_process :: "('w, 'd, 'x) env \<Rightarrow> nat \<Rightarrow> ('w, 'd, 'x) Main \<Rightarrow> ('w, 'd, 'x) Main option" where
  "clear_process K i m =
     (if alive m i then
        (if length (results m) \<le> i then None
         else map_option (\<lambda>r. set_output i r m)
                (clear_result K (pcfg K i) (res_status (procs m ! i)) (results m ! i)))
      else Some m)"

definition some_proc :: "(nat \<Rightarrow> bool) \<Rightarrow> ('w, 'd, 'x) Main \<Rightarrow> bool" where
  "some_proc P m = list_ex P [0..<length (procs m)]"

definition output_graphs :: "('w, 'd, 'x) env \<Rightarrow> ('w, 'd, 'x) Main \<Rightarrow> ('w, 'd, 'x) Main" where
  "output_graphs K m =
     (let m1 = (if some_proc (\<lambda>i. in_pass2 K m i \<and> graph_lattice (pcfg K i)) m
                then callback_exec K RESULT_GRAPH m else m)
      in if some_proc (\<lambda>i. in_pass2 K m1 i \<and> graph_confnet (pcfg K i)) m1
         then callback_exec K RESULT_CONFNET m1 else m1)"

definition second_pass :: "('w, 'd, 'x) env \<Rightarrow> ('w, 'd, 'x) Main \<Rightarrow> ('w, 'd, 'x) Main option" where
  "second_pass K m =
     Option.bind (for_procs (finish_1pass K) m) (\<lambda>m1.
       let pass2_p = some_proc (in_pass2 K m1) m1;
           m2 = (if pass2_p then callback_exec K PASS2_BEGIN m1 else m1)
       in Option.bind (for_procs (discount_trellis K) m2) (\<lambda>m3.
          Option.bind (for_procs (search_process K) m3) (\<lambda>m4.
          Option.bind (for_procs (align_process K) m4) (\<lambda>m5.
          Option.bind (output_result K m5) (\<lambda>m6.
          Option.bind (for_procs (clear_process K) (output_graphs K m6)) (\<lambda>m7.
            Some (if pass2_p then callback_exec K PASS2_END m7 else m7)))))))"

section \<open>The end of a round\<close>

definition update_cmn :: "('w, 'd, 'x) env \<Rightarrow> nat \<Rightarrow> ('w, 'd, 'x) Main \<Rightarrow> ('w, 'd, 'x) Main" where
  "update_cmn K i m =
     (if samplenum (Spsegment.param (mfccs m ! i)) > 0 then
        (case RealTimeCMNUpdate (cmn_update K i) (cmn_file K i) (cmn_upd K i) i
                (map (\<lambda>(j, p). (Spsegment.live p, p_mfcc (pcfg K j), res_status p)) (enumerate 0 (procs m)))
                (wrk m) of
           (w, None) \<Rightarrow> m\<lparr>wrk := w\<rparr>
         | (w, Some saved) \<Rightarrow> m\<lparr>wrk := w, world := cmn_save K i saved (world m)\<rparr>)
      else m)"

definition take_rest :: "('w, 'd, 'x) Main \<Rightarrow> ('w, 'd, 'x) Main" where
  "take_rest m =
     (if segment (seg m) then
        (set_mfccs (map (\<lambda>mc. case rest_param mc of
             None \<Rightarrow> mc
           | Some p \<Rightarrow> mc\<lparr>Spsegment.param := p, rest_param := None\<rparr>) (mfccs m)) m)
          \<lparr>process_segment := list_ex (\<lambda>mc. rest_param mc \<noteq> None) (mfccs m)\<rparr>
      else m)"

definition end_callbacks :: "('w, 'd, 'x) env \<Rightarrow> bool \<Rightarrow> ('w, 'd, 'x) Main \<Rightarrow> ('w, 'd, 'x) Main" where
  "end_callbacks K segment_last m =
     (if segment (seg m) then
        (if backend_vad (k_build K) then
           let m1 = (if triggered (seg m) then callback_exec K SEGMENT_END m else m)
           in if segment_last \<and> \<not> process_segment m1 then callback_exec K RECOGNITION_END m1 else m1
         else
           let m1 = callback_exec K SEGMENT_END m
           in if \<not> process_segment m1 then callback_exec K RECOGNITION_END m1 else m1)
      else callback_exec K RECOGNITION_END m)"

definition end_recog :: "('w, 'd, 'x) env \<Rightarrow> ('w, 'd, 'x) Main \<Rightarrow> ('w, 'd, 'x) Main" where
  "end_recog K m =
     (let m1 = (if eng_input m = INPUT_WAVEFORM \<and> realtime_flag K
                then fold (update_cmn K) [0..<length (mfccs m)] m else m)
      in end_callbacks K (process_segment m1) (take_rest m1))"

text \<open>Whether the loop is left; the inner test reads \<open>ret\<close>.\<close>

definition stream_ends :: "int option \<Rightarrow> ('w, 'd, 'x) Main \<Rightarrow> bool option" where
  "stream_ends ret m =
     (if segment (seg m) \<and> process_segment m then Some False
      else map_option (\<lambda>r. r \<le> 0 \<and> r \<noteq> -1) ret)"

definition close_input :: "('w, 'd, 'x) env \<Rightarrow> ('w, 'd, 'x) Main \<Rightarrow> (int \<times> ('w, 'd, 'x) Main) option" where
  "close_input K m =
     (case (if eng_input m = INPUT_WAVEFORM then adin_end K (world m) else (True, world m)) of (ok, x) \<Rightarrow>
        let m1 = m\<lparr>world := x\<rparr>
        in if \<not> ok then Some (-1, m1)
           else if eng_speech_input m1 = SP_MFCMODULE then
             Option.bind (first_instance m1) (\<lambda>v.
               case mfc_module_end (module_ok K) v of (ok2, calls) \<Rightarrow>
                 Some (if ok2 then 0 else -1, m1\<lparr>world := input_calls K calls (world m1)\<rparr>))
           else Some (0, m1))"

section \<open>The loop\<close>

definition on_the_fly :: "('w, 'd, 'x) env \<Rightarrow> ('w, 'd, 'x) Main \<Rightarrow> bool" where
  "on_the_fly K m =
     (case eng_input m of
        INPUT_VECTOR \<Rightarrow> eng_speech_input m = SP_MFCMODULE \<or> eng_speech_input m = SP_EXTERN
      | INPUT_WAVEFORM \<Rightarrow> realtime_flag K)"

definition recog_round ::
  "('w, 'd, 'x) env \<Rightarrow> bool \<Rightarrow> int option \<Rightarrow> ('w, 'd, 'x) Main \<Rightarrow> ('w, 'd, 'x) outcome" where
  "recog_round K fly ret m =
     and_then (and_then (if fly then pass1_on_the_fly K m else pass1_buffered K ret m) (check_reject K))
       (\<lambda>ret' m'. map_option (\<lambda>m2. (Go_on, ret', m2)) (second_pass K m'))"

partial_function (option) recog_loop ::
  "('w, 'd, 'x) env \<Rightarrow> bool \<Rightarrow> int option \<Rightarrow> ('w, 'd, 'x) Main \<Rightarrow> (int \<times> ('w, 'd, 'x) Main) option" where
  "recog_loop K fly ret m =
     Option.bind (begin_round K m) (\<lambda>(sleep, m1).
       if sleep then Some (1, m1)
       else
         (case drop_without_grammar K (update_grammars K m1) of (bad, m2) \<Rightarrow>
            if bad then recog_loop K fly ret m2
            else
              Option.bind (recog_round K fly ret m2) (\<lambda>(st, ret', m3).
                if st = Fatal then Some (-1, m3)
                else
                  let m4 = end_recog K m3
                  in Option.bind (stream_ends ret' m4) (\<lambda>stop.
                       if stop then close_input K m4 else recog_loop K fly ret' m4))))"

definition j_recognize_stream_core ::
  "('w, 'd, 'x) env \<Rightarrow> ('w, 'd, 'x) Main \<Rightarrow> (int \<times> ('w, 'd, 'x) Main) option" where
  "j_recognize_stream_core K m =
     (let m1 = (if eng_input m = INPUT_WAVEFORM \<or> eng_speech_input m = SP_MFCMODULE
                   \<or> eng_speech_input m = SP_EXTERN
                then init_params K m else m)
      in Option.bind (if procs m1 = [] then request_pause K m1 else Some m1) (\<lambda>m2.
           recog_loop K (on_the_fly K m) None (update_status m2)))"

partial_function (option) j_recognize_stream ::
  "('w, 'd, 'x) env \<Rightarrow> ('w, 'd, 'x) Main \<Rightarrow> (int \<times> ('w, 'd, 'x) Main) option" where
  "j_recognize_stream K m =
     Option.bind (j_recognize_stream_core K m) (\<lambda>(ret, m1).
       if ret = 1 then
         j_recognize_stream K
           (callback_exec K RESUME (callback_exec K PAUSE_FUNCTION (callback_exec K PAUSE m1)))
       else if ret = -1 then Some (-1, m1)
       else Some (0, m1))"

section \<open>Results of the loop\<close>

lemma begin_round_sleep:
  "begin_round K m = Some (True, m') \<Longrightarrow> \<not> process_active (ctl m') \<and> \<not> process_want_reload (ctl m')"
  by (auto simp: begin_round_def j_reset_reload_def Let_def bind_eq_Some_conv split: if_splits)

lemma close_input_result: "close_input K m = Some (ret, m') \<Longrightarrow> ret \<in> {0, -1}" (is "_ \<Longrightarrow> ?thesis")
proof -
  assume c: "close_input K m = Some (ret, m')"
  obtain ok x where ox: "(if eng_input m = INPUT_WAVEFORM then adin_end K (world m) else (True, world m)) = (ok, x)"
    by fastforce
  show ?thesis
  proof (cases "ok \<and> eng_speech_input m = SP_MFCMODULE")
    case True
    with c ox obtain v where v: "(case mfc_module_end (module_ok K) v of (ok2, calls) \<Rightarrow>
        Some (if ok2 then 0 else -1, m\<lparr>world := input_calls K calls x\<rparr>)) = Some (ret, m')"
      unfolding close_input_def by (simp add: Let_def bind_eq_Some_conv) blast
    then show ?thesis by (cases "mfc_module_end (module_ok K) v") (auto split: if_splits)
  next
    case False
    with c ox show ?thesis unfolding close_input_def by (auto simp: Let_def split: if_splits)
  qed
qed

text \<open>One turn of the loop, with the next turns as a parameter.\<close>

definition loop_turn ::
  "(('w, 'd, 'x) env \<Rightarrow> bool \<Rightarrow> int option \<Rightarrow> ('w, 'd, 'x) Main \<Rightarrow> (int \<times> ('w, 'd, 'x) Main) option)
    \<Rightarrow> ('w, 'd, 'x) env \<Rightarrow> bool \<Rightarrow> int option \<Rightarrow> ('w, 'd, 'x) Main \<Rightarrow> (int \<times> ('w, 'd, 'x) Main) option" where
  "loop_turn loop K fly ret m =
     Option.bind (begin_round K m) (\<lambda>(sleep, m1).
       if sleep then Some (1, m1)
       else
         (case drop_without_grammar K (update_grammars K m1) of (bad, m2) \<Rightarrow>
            if bad then loop K fly ret m2
            else
              Option.bind (recog_round K fly ret m2) (\<lambda>(st, ret', m3).
                if st = Fatal then Some (-1, m3)
                else
                  let m4 = end_recog K m3
                  in Option.bind (stream_ends ret' m4) (\<lambda>stop.
                       if stop then close_input K m4 else loop K fly ret' m4))))"

lemma loop_turn_cases:
  assumes "loop_turn loop K fly ret m = Some re"
  obtains (sleep) m1 where "begin_round K m = Some (True, m1)" "re = (1, m1)"
  | (fatal) r m1 r' m2 where "recog_round K fly r m1 = Some (Fatal, r', m2)" "re = (-1, m2)"
  | (close) r m1 where "stream_ends r m1 = Some True" "close_input K m1 = Some re"
  | (again) ret' m1 where "loop K fly ret' m1 = Some re"
proof -
  obtain sleep m1 where b: "begin_round K m = Some (sleep, m1)"
    using assms by (auto simp: loop_turn_def bind_eq_Some_conv)
  obtain bad m2 where d: "drop_without_grammar K (update_grammars K m1) = (bad, m2)" by fastforce
  consider "sleep" | "\<not> sleep" "bad" | "\<not> sleep" "\<not> bad" by blast
  then show thesis
  proof cases
    case 1
    with assms b have "re = (1, m1)" by (simp add: loop_turn_def)
    with b 1 show thesis by (auto intro: that(1))
  next
    case 2
    with assms b d have "loop K fly ret m2 = Some re" by (simp add: loop_turn_def)
    then show thesis by (rule that(4))
  next
    case 3
    note False = 3
    then obtain st ret' m3 where r: "recog_round K fly ret m2 = Some (st, ret', m3)"
      using assms b d by (auto simp: loop_turn_def bind_eq_Some_conv)
    show thesis
    proof (cases "st = Fatal")
      case True
      with assms b d r False have "re = (-1, m3)" by (simp add: loop_turn_def)
      with r True show thesis by (intro that(2)) simp_all
    next
      case nf: False
      then obtain stop where s: "stream_ends ret' (end_recog K m3) = Some stop"
        using assms b d r False by (auto simp: loop_turn_def Let_def bind_eq_Some_conv)
      with assms b d r False nf have
        "(if stop then close_input K (end_recog K m3) else loop K fly ret' (end_recog K m3)) = Some re"
        by (simp add: loop_turn_def Let_def)
      with s show thesis by (cases stop) (auto intro: that(3,4))
    qed
  qed
qed

text \<open>
  How the loop ends: asleep, with the input closed behind the end of a stream and no segment to go on with,
  or with an error of a round or of closing the input.
\<close>

definition asleep :: "('w, 'd, 'x) Main \<Rightarrow> bool" where
  "asleep m \<longleftrightarrow> \<not> process_active (ctl m) \<and> \<not> process_want_reload (ctl m)"

definition stream_closed :: "('w, 'd, 'x) env \<Rightarrow> ('w, 'd, 'x) Main \<Rightarrow> bool" where
  "stream_closed K m' \<longleftrightarrow>
     (\<exists>(r :: int) m. r \<le> 0 \<and> r \<noteq> -1 \<and> \<not> (segment (seg m) \<and> process_segment m) \<and> close_input K m = Some (0, m'))"

definition round_failed :: "('w, 'd, 'x) env \<Rightarrow> ('w, 'd, 'x) Main \<Rightarrow> bool" where
  "round_failed K m' \<longleftrightarrow>
     (\<exists>fly r m r'. recog_round K fly r m = Some (Fatal, r', m')) \<or> (\<exists>m. close_input K m = Some (-1, m'))"

definition loop_result :: "('w, 'd, 'x) env \<Rightarrow> int \<Rightarrow> ('w, 'd, 'x) Main \<Rightarrow> bool" where
  "loop_result K ret m' \<longleftrightarrow>
     ret = 1 \<and> asleep m' \<or> ret = 0 \<and> stream_closed K m' \<or> ret = -1 \<and> round_failed K m'"

lemma recog_loop_result:
  assumes "recog_loop K fly ret m = Some re"
  shows "loop_result K (fst re) (snd re)"
proof (rule recog_loop.raw_induct [where P = "\<lambda>K fly ret m re. loop_result K (fst re) (snd re)", OF _ assms])
  fix loop K fly ret m re
  assume IH: "\<And>K fly ret m re. loop K fly ret m = Some re \<Longrightarrow> loop_result K (fst re) (snd re)"
    and step: "Option.bind (begin_round K m) (\<lambda>(sleep, m1).
       if sleep then Some (1, m1)
       else
         (case drop_without_grammar K (update_grammars K m1) of (bad, m2) \<Rightarrow>
            if bad then loop K fly ret m2
            else
              Option.bind (recog_round K fly ret m2) (\<lambda>(st, ret', m3).
                if st = Fatal then Some (-1, m3)
                else
                  let m4 = end_recog K m3
                  in Option.bind (stream_ends ret' m4) (\<lambda>stop.
                       if stop then close_input K m4 else loop K fly ret' m4)))) = Some re"
  from step have "loop_turn loop K fly ret m = Some re" by (simp only: loop_turn_def)
  then show "loop_result K (fst re) (snd re)"
  proof (cases rule: loop_turn_cases)
    case (sleep m1)
    then show ?thesis using begin_round_sleep [OF sleep(1)] by (simp add: loop_result_def asleep_def)
  next
    case (fatal r m1 r' m2)
    then show ?thesis unfolding loop_result_def round_failed_def by auto
  next
    case (close r m1)
    obtain r' where "r = Some r'" "r' \<le> 0 \<and> r' \<noteq> -1 \<and> \<not> (segment (seg m1) \<and> process_segment m1)"
      using close(1) by (auto simp: stream_ends_def split: if_splits)
    with close(2) close_input_result [of K m1 "fst re" "snd re"] show ?thesis
      unfolding loop_result_def stream_closed_def round_failed_def by (cases re) auto
  next
    case (again ret' m1)
    then show ?thesis by (rule IH)
  qed
qed

lemma core_result: "j_recognize_stream_core K m = Some (ret, m') \<Longrightarrow> loop_result K ret m'" (is "_ \<Longrightarrow> ?thesis")
proof -
  assume "j_recognize_stream_core K m = Some (ret, m')"
  then obtain m2 where "recog_loop K (on_the_fly K m) None m2 = Some (ret, m')"
    by (auto simp: j_recognize_stream_core_def Let_def bind_eq_Some_conv)
  from recog_loop_result [OF this] show ?thesis by simp
qed

lemma stream_result:
  assumes "j_recognize_stream K m = Some re"
  shows "fst re \<noteq> 1 \<and> loop_result K (fst re) (snd re)"
proof (rule j_recognize_stream.raw_induct [where P = "\<lambda>K m re. fst re \<noteq> 1 \<and> loop_result K (fst re) (snd re)", OF _ assms])
  fix stream K m re
  assume IH: "\<And>K m re. stream K m = Some re \<Longrightarrow> fst re \<noteq> 1 \<and> loop_result K (fst re) (snd re)"
    and step: "Option.bind (j_recognize_stream_core K m) (\<lambda>(ret, m1).
       if ret = 1 then
         stream K (callback_exec K RESUME (callback_exec K PAUSE_FUNCTION (callback_exec K PAUSE m1)))
       else if ret = -1 then Some (-1, m1)
       else Some (0, m1)) = Some re"
  from step obtain ret m1 where c: "j_recognize_stream_core K m = Some (ret, m1)"
    by (auto simp: bind_eq_Some_conv)
  have l: "loop_result K ret m1" by (rule core_result [OF c])
  show "fst re \<noteq> 1 \<and> loop_result K (fst re) (snd re)"
  proof (cases "ret = 1")
    case True
    with step c IH show ?thesis by simp
  next
    case False
    then have "ret = 0 \<or> ret = -1" using l by (auto simp: loop_result_def)
    with step c l show ?thesis by auto
  qed
qed

text \<open>A paused engine whose callbacks do not resume it gets back to sleep without a round.\<close>

lemma paused_core:
  assumes "procs m \<noteq> []" "\<not> process_active (ctl m)"
    and "\<And>ev n. \<not> process_active (ctl n) \<Longrightarrow> \<not> process_active (ctl (callback K ev n))"
  shows "\<exists>m'. j_recognize_stream_core K m = Some (1, m')"
proof -
  have sync: "\<not> process_active (ctl (sync_online K n))" if "\<not> process_active (ctl n)" for n
    using assms(3) that by (simp add: sync_online_def callback_exec_def fire_def Let_def)
  have round: "\<exists>m'. begin_round K n = Some (True, m')" if "\<not> process_active (ctl n)" for n
    using that sync [of "update_status n"]
    by (simp add: begin_round_def check_live_def update_status_def j_reset_reload_def Let_def)
  let ?m = "if eng_input m = INPUT_WAVEFORM \<or> eng_speech_input m = SP_MFCMODULE \<or> eng_speech_input m = SP_EXTERN
    then init_params K m else m"
  have "\<not> process_active (ctl (update_status ?m))" "procs ?m \<noteq> []"
    using assms(1,2) by (simp_all add: update_status_def init_params_def set_mfccs_def)
  with round [of "update_status ?m"] show ?thesis
    by (auto simp: j_recognize_stream_core_def recog_loop.simps Let_def)
qed

section \<open>Properties\<close>


text \<open>The samples stored so far, and the state of the speech buffer.\<close>

definition stored :: "('w, 'd, 'x) Main \<Rightarrow> int list" where
  "stored m = take (speechlen m) (case speech m of None \<Rightarrow> [] | Some buf \<Rightarrow> buf)"

definition buffer_ok :: "('w, 'd, 'x) Main \<Rightarrow> bool" where
  "buffer_ok m \<longleftrightarrow> speechlen m \<le> speechalloclen m
     \<and> (case speech m of None \<Rightarrow> speechalloclen m = 0 | Some buf \<Rightarrow> speechlen m \<le> length buf)"

definition store_chunk :: "('w, 'd, 'x) env \<Rightarrow> int list \<Rightarrow> ('w, 'd, 'x) Main \<Rightarrow> ('w, 'd, 'x) Main option" where
  "store_chunk K chunk m =
     (case adin_cut_callback_store_buffer K chunk m of
        Some (ret, m') \<Rightarrow> if ret = 0 then Some m' else None
      | None \<Rightarrow> None)"

lemma raise_alloc_ge: "0 < step \<Longrightarrow> need \<le> raise_alloc step need alloc"
  by (induction step need alloc rule: raise_alloc.induct) (subst raise_alloc.simps, simp)

lemma store_one:
  assumes "0 < MAX_SPEECH_ALLOC_STEP K" "buffer_ok m" "process_active (ctl m) \<or> speechlen m > 0"
  obtains m' where "store_chunk K chunk m = Some m'" "stored m' = stored m @ chunk" "buffer_ok m'"
    "speechlen m' = speechlen m + length chunk"
    "m' = m\<lparr>speech := speech m', speechlen := speechlen m', speechalloclen := speechalloclen m'\<rparr>"
proof -
  let ?need = "speechlen m + length chunk"
  let ?alloc = "raise_alloc (MAX_SPEECH_ALLOC_STEP K) ?need (speechalloclen m)"
  have ge: "?need \<le> ?alloc" using assms(1) by (rule raise_alloc_ge)
  show thesis
  proof (cases "speech m")
    case None
    then have z: "speechlen m = 0" "speechalloclen m = 0" using assms(2) by (auto simp: buffer_ok_def)
    show thesis
    proof (cases "chunk = []")
      case True
      have "store_chunk K chunk m = Some (m\<lparr>speechlen := speechlen m\<rparr>)"
        using None z True assms(3) by (simp add: store_chunk_def adin_cut_callback_store_buffer_def)
      then show thesis using True None z by (intro that [of m]) (auto simp: stored_def buffer_ok_def)
    next
      case False
      let ?m = "m\<lparr>speechalloclen := ?alloc, speech := Some chunk, speechlen := length chunk\<rparr>"
      have "store_chunk K chunk m = Some ?m"
        using None z False assms(3) ge by (simp add: store_chunk_def adin_cut_callback_store_buffer_def Let_def)
      then show thesis using None z ge by (intro that [of ?m]) (auto simp: stored_def buffer_ok_def)
    qed
  next
    case (Some buf)
    define buf' where "buf' = take (speechlen m) buf @ chunk @ drop ?need buf"
    have act: "\<not> (speechlen m = 0 \<and> \<not> process_active (ctl m))" using assms(3) by auto
    have l: "speechlen m \<le> length buf" using Some assms(2) by (simp add: buffer_ok_def)
    show thesis
    proof (cases "speechalloclen m < ?need")
      case True
      let ?m = "m\<lparr>speechalloclen := ?alloc, speech := Some buf', speechlen := ?need\<rparr>"
      have "store_chunk K chunk m = Some ?m"
        using Some act True ge
        by (simp add: store_chunk_def adin_cut_callback_store_buffer_def Let_def buf'_def)
      then show thesis using Some l ge
        by (intro that [of ?m]) (auto simp: stored_def buffer_ok_def buf'_def)
    next
      case False
      let ?m = "m\<lparr>speech := Some buf', speechlen := ?need\<rparr>"
      have "store_chunk K chunk m = Some ?m"
        using Some act False
        by (simp add: store_chunk_def adin_cut_callback_store_buffer_def Let_def buf'_def)
      then show thesis using Some l False
        by (intro that [of ?m]) (auto simp: stored_def buffer_ok_def buf'_def)
    qed
  qed
qed

text \<open>C13: Recording keeps every sample: from a sound buffer, with an active engine, any sequence of
  chunks is stored behind the samples there are, in order; the buffer grows as needed and stays
  sound, and nothing else of the engine changes.\<close>

theorem store_buffer_chunks:
  assumes "0 < MAX_SPEECH_ALLOC_STEP K" "buffer_ok m" "process_active (ctl m) \<or> speechlen m > 0"
  shows "\<exists>m'. put_all (store_chunk K) chunks m = Some m' \<and> stored m' = stored m @ concat chunks \<and> buffer_ok m'
    \<and> m' = m\<lparr>speech := speech m', speechlen := speechlen m', speechalloclen := speechalloclen m'\<rparr>"
  using assms(2,3)
proof (induction chunks arbitrary: m)
  case Nil
  then show ?case by simp
next
  case (Cons c cs)
  obtain m1 where m1: "store_chunk K c m = Some m1" "stored m1 = stored m @ c" "buffer_ok m1"
      "speechlen m1 = speechlen m + length c"
      "m1 = m\<lparr>speech := speech m1, speechlen := speechlen m1, speechalloclen := speechalloclen m1\<rparr>"
    by (rule store_one [OF assms(1) Cons.prems])
  have "ctl m1 = ctl m" by (subst m1(5)) simp
  with Cons.IH [OF m1(3)] Cons.prems(2) m1(4) obtain m2
    where m2: "put_all (store_chunk K) cs m1 = Some m2" "stored m2 = stored m1 @ concat cs" "buffer_ok m2"
      "m2 = m1\<lparr>speech := speech m2, speechlen := speechlen m2, speechalloclen := speechalloclen m2\<rparr>"
    by auto
  have "m2 = m\<lparr>speech := speech m2, speechlen := speechlen m2, speechalloclen := speechalloclen m2\<rparr>"
    by (subst m2(4), subst m1(5)) simp
  with m1(1,2) m2(1-3) show ?case by (intro exI [of _ m2]) simp
qed

text \<open>C26: No frame is lost between two segments: when the first pass of an input segmented by a
  short pause has been finished, the end of the round makes the frames from the restart point
  on the parameters of the next round, for every instance, and the next round continues the
  segment.\<close>

theorem rest_is_next_segment:
  assumes "find_segmented (mfccs m) = Some spstart" "\<forall>c\<in>set (mfccs m). split_ok spstart c"
    and "finalize_segment stw (seg m) = Some s" "segment s"
  shows "process_segment (take_rest (m\<lparr>seg := s\<rparr>))
    \<and> list_all2 (\<lambda>c c'. frames (Spsegment.param c') = drop (nat spstart) (frames (Spsegment.param c))
          \<and> rest_param c' = None)
        (mfccs m) (mfccs (take_rest (m\<lparr>seg := s\<rparr>)))"
proof -
  have P: "list_all2 (\<lambda>c c'. \<exists>p'. rest_param c' = Some p'
        \<and> frames p' = drop (nat spstart) (frames (Spsegment.param c))) (mfccs m) (Spsegment.mfcclist s)"
    using finalize_segment_split [OF assms(1,2), of stw] assms(3)
    by (auto elim: list_all2_mono)
  have "mfccs m \<noteq> []" using assms(1) by auto
  with P have "\<exists>c'\<in>set (Spsegment.mfcclist s). rest_param c' \<noteq> None"
    by (cases "mfccs m") (auto simp: list_all2_Cons1)
  then have "process_segment (take_rest (m\<lparr>seg := s\<rparr>))"
    using assms(4) by (auto simp: take_rest_def list_ex_iff)
  moreover have "mfccs (take_rest (m\<lparr>seg := s\<rparr>)) =
      map (\<lambda>c. case rest_param c of None \<Rightarrow> c | Some p \<Rightarrow> c\<lparr>Spsegment.param := p, rest_param := None\<rparr>)
        (Spsegment.mfcclist s)" using assms(4) by (simp add: take_rest_def set_mfccs_def)
  ultimately show ?thesis using P by (auto simp: list.rel_map elim!: list_all2_mono)
qed

text \<open>A stream of external feature vectors that was opened cannot be closed: \<open>j_close_stream\<close> does
  not know this kind of input, and reports an error.\<close>

theorem extern_stream_not_closed:
  assumes "eng_input m = INPUT_VECTOR" "eng_speech_input m = SP_EXTERN" "mfccs m \<noteq> []" "fvins m \<noteq> []"
  shows "\<exists>m1. j_open_stream K name m = Some (0, m1) \<and> j_close_stream K m1 = Some (-1, m1)"
  using assms by (cases "mfccs m"; cases "fvins m")
    (simp_all add: j_open_stream_def j_close_stream_def init_first_def set_mfccs_def)

text \<open>When the type of a parameter file does not agree with the acoustic models, the main loop
  decides with a variable that was never set whether the stream has ended.\<close>

theorem recog_loop_uninitialised:
  assumes "begin_round K m = Some (False, m1)" "drop_without_grammar K (update_grammars K m1) = (False, m2)"
    and "eng_input m2 = INPUT_VECTOR" "eng_speech_input m2 = SP_MFCFILE" "paramtype_check_flag m2"
    and "param_check_and_adjust K m2 = (False, m3)"
    and "result_error K (STATUS_FAIL (codes K)) (init_params K m3) = Some m4"
    and "\<not> segment (seg (end_recog K m4))"
  shows "recog_loop K False None m = None"
proof -
  have "recog_round K False None m2 = Some (Skip, None, m4)"
    using assms(3-7)
    by (simp add: recog_round_def pass1_buffered_def buffered_input_def skip_error_def and_then_def)
  moreover have "stream_ends None (end_recog K m4) = None" using assms(8) by (simp add: stream_ends_def)
  ultimately show ?thesis using assms(1,2) by (subst recog_loop.simps) simp
qed

section \<open>An engine to evaluate\<close>

text \<open>
  One process, one parameter instance, callbacks that do nothing, and a device that gives the
  chunks it is asked for; \<open>ex_codes\<close> are the values of the status codes in libjulius.
\<close>

definition ex_codes :: status_codes where
  "ex_codes = \<lparr>STATUS_SUCCESS = 0, STATUS_FAIL = -1, STATUS_TERMINATE = -3, STATUS_REJECT_SHORT = -4,
     STATUS_REJECT_GMM = -2\<rparr>"

definition ex_pcfg :: pconfig where
  "ex_pcfg = \<lparr>p_dfa = False, p_word = False, p_grammar = False, p_mfcc = 0, p_multipath = False,
     compute_only_1pass = False, graphout = False, graph_lattice = False, graph_confnet = False,
     multigramout_flag = False, output_hypo_maxnum = 1, p_env = ex_env, p_hmms = ex_hmms,
     p_flags = \<lparr>align_result_word_flag = False, align_result_phoneme_flag = False,
                align_result_state_flag = False\<rparr>\<rparr>"

definition ex_K :: "(nat, nat, nat) env" where
  "ex_K = \<lparr>codes = ex_codes, k_build = ex_build, word_graph = False, realtime_flag = False,
     rejectshortlen = 0, sfreq = 16000, period = 625, gmm_reject = False, strip_zero_sample = False,
     MAX_SPEECH_ALLOC_STEP = 2, pcfg = (\<lambda>i. ex_pcfg), lm_dfas = [], k_ops = ex_ops,
     k_mfcc = (\<lambda>i. ex_mfcc_ops),
     k_plugins = \<lparr>global_plugin_list = None, global_plugin_loaded_file_num = 0\<rparr>,
     k_call = (\<lambda>g x. x), k_bits = ex_bits, k_hmm_para = ex_value, k_coherent = (\<lambda>vs. True),
     k_palloc = ex_palloc, k_post = (\<lambda>g v t. v), k_woutput = (\<lambda>i w. ''w''), callback = (\<lambda>ev m. m),
     input_calls = (\<lambda>fs x. x), plugin_calls = (\<lambda>cs x. x), adin_begin = Pair True, adin_end = Pair True,
     adin_thread = False, adin_thread_create = Pair True, adin_thread_cancel = Pair True,
     adin_go = (\<lambda>cb chk m. cb [1, 2, 3] m), next_reads = (\<lambda>x. ([(-1, [])], x)), module_ok = (\<lambda>g. True),
     k_fv_read = Some 1, rdparam = (\<lambda>n p. Some p), param_init_content = (\<lambda>p. p\<lparr>samplenum := 0\<rparr>),
     param_strip_zero = (\<lambda>p. p), param_check_and_adjust = Pair False, wav2mfcc = (\<lambda>s. Pair True),
     get_back_trellis = Pair True, gmm_valid_input = (\<lambda>m. True), multigram_update = (\<lambda>l x. x),
     multigram_build = (\<lambda>i x. x), global_modified = (\<lambda>i x. False), clear_modified = (\<lambda>l x. x),
     winfo_null = (\<lambda>i x. False), dfa_null = (\<lambda>i x. False), active_grammars = (\<lambda>i x. []),
     grammar_num = (\<lambda>i x. 1), dfa_terms = (\<lambda>i x. 0), finalize_1pass = (\<lambda>i m. m),
     bt_discount = (\<lambda>i mp d. d),
     wchmm_fbs = (\<lambda>i a b m. set_output i ((results m ! i)
        \<lparr>sent := Sent_array [\<lparr>s_word = [0, 1], s_score = -4, s_align = []\<rparr>]\<rparr>) m),
     cmn_file = (\<lambda>i. False), cmn_update = (\<lambda>i. False), cmn_upd = (\<lambda>i w. w), cmn_save = (\<lambda>i w x. x)\<rparr>"

definition ex_output :: Output where
  "ex_output = \<lparr>sent = Sent_null, sent_max = 0, wg1 = False, wg = False, has_confnet = False\<rparr>"

definition ex_ctl :: Instances.Recog where
  "ex_ctl = ex_recog\<lparr>process_active := True\<rparr>"

definition ex_main :: "(nat, nat, nat) Main" where
  "ex_main = Engine.extend (ex_engine\<lparr>seg := (seg ex_engine)\<lparr>Spsegment.process_list := [Spsegment.ex_process],
       Spsegment.segment := False\<rparr>\<rparr>)
     (Main.fields ex_ctl True [ex_output] None 0 0 0)"

theorem store_buffer_chunks_witness:
  "\<exists>m'. put_all (store_chunk ex_K) [[1, 2, 3], [], [4]] ex_main = Some m' \<and> stored m' = [1, 2, 3, 4]"
proof -
  have "0 < MAX_SPEECH_ALLOC_STEP ex_K" "buffer_ok ex_main" "process_active (ctl ex_main) \<or> speechlen ex_main > 0"
    "stored ex_main = []"
    by (simp_all add: ex_K_def ex_main_def ex_ctl_def buffer_ok_def stored_def Engine.defs Main.defs)
  with store_buffer_chunks [of ex_K ex_main "[[1, 2, 3], [], [4]]"] show ?thesis by auto
qed


theorem rest_is_next_segment_witness:
  "\<exists>s. finalize_segment (\<lambda>r. r) (seg ex_main\<lparr>Spsegment.mfcclist := [Spsegment.ex_mfcc], Spsegment.segment := True\<rparr>) = Some s
    \<and> map (\<lambda>c. frames (Spsegment.param c)) (mfccs (take_rest (ex_main\<lparr>seg := s\<rparr>))) = [[[2], [3]]]"
proof -
  let ?m = "ex_main\<lparr>seg := seg ex_main\<lparr>Spsegment.mfcclist := [Spsegment.ex_mfcc], Spsegment.segment := True\<rparr>\<rparr>"
  obtain s where s: "finalize_segment (\<lambda>r. r) (seg ?m) = Some s" "segment s"
    by (auto simp: finalize_segment_def Let_def mfcc_copy_to_rest_and_shrink_def Spsegment.ex_mfcc_def
        ex_main_def ex_engine_def Engine.defs Main.defs)
  have "find_segmented (mfccs ?m) = Some 2" "\<forall>c\<in>set (mfccs ?m). split_ok 2 c"
    by (simp_all add: Spsegment.ex_mfcc_def split_ok_def)
  from rest_is_next_segment [OF this s] s(1) show ?thesis
    by (auto simp: list_all2_Cons1 Spsegment.ex_mfcc_def frames_def eval_nat_numeral)
qed

theorem extern_stream_not_closed_witness:
  "\<exists>m1. j_open_stream ex_K ''live''
       (ex_main\<lparr>eng_input := INPUT_VECTOR, eng_speech_input := SP_EXTERN, fvins := [Plugin.ex_mfcc]\<rparr>) = Some (0, m1)
    \<and> j_close_stream ex_K m1 = Some (-1, m1)"
  by (rule extern_stream_not_closed) (simp_all add: ex_main_def ex_engine_def Engine.defs Main.defs)

theorem recog_loop_uninitialised_witness:
  "recog_loop ex_K False None
     (ex_main\<lparr>eng_input := INPUT_VECTOR, eng_speech_input := SP_MFCFILE, paramtype_check_flag := True\<rparr>) = None"
proof -
  let ?m = "ex_main\<lparr>eng_input := INPUT_VECTOR, eng_speech_input := SP_MFCFILE, paramtype_check_flag := True\<rparr>"
  show ?thesis
    by (rule recog_loop_uninitialised,
      (simp add: enumerate_simps begin_round_def check_live_def sync_online_def update_status_def init_params_def
        callback_exec_def drop_without_grammar_def without_grammar_def update_grammars_def update_active_def
        result_error_def end_recog_def take_rest_def end_callbacks_def
        ex_K_def ex_main_def ex_ctl_def ex_engine_def ex_pcfg_def Spsegment.ex_process_def
        fire_def set_mfccs_def j_reset_reload_def Engine.defs Main.defs Let_def)+)
qed

end
