(* ===== verification/Cpp_String.thy ===== *)
theory Cpp_String
  imports Prelude "HOL-Library.List_Lexorder" "HOL-Library.Char_ord"
begin

text \<open>
  The operations of \<open>std::string\<close> and \<open>std::map\<close> that the SEMAINE sources use.  A position is an
  \<open>int\<close> where the sources store it in one, with -1 for \<open>npos\<close>; reading behind the terminating NUL is
  an error value, as is the exception of \<open>substr\<close>.  A map from strings to strings is the list of its
  entries in the order of its iterators.
\<close>

section \<open>Strings\<close>

definition find_if :: "(char \<Rightarrow> bool) \<Rightarrow> nat \<Rightarrow> string \<Rightarrow> nat option" where
  "find_if P pos s =
     (let n = length (takeWhile (\<lambda>c. \<not> P c) (drop pos s))
      in if pos + n < length s then Some (pos + n) else None)"

definition find_char :: "char \<Rightarrow> int \<Rightarrow> string \<Rightarrow> int" where
  "find_char c pos s = (case find_if ((=) c) (nat pos) s of None \<Rightarrow> -1 | Some i \<Rightarrow> int i)"

text \<open>The element at a position of a constant string; at the end it is NUL.\<close>

definition char_at :: "string \<Rightarrow> int \<Rightarrow> char option" where
  "char_at s i =
     (if 0 \<le> i \<and> i < int (length s) then Some (s ! nat i) else if i = int (length s) then Some NUL else None)"

text \<open>The substring of at most \<open>n\<close> characters; a negative \<open>n\<close> is converted to a huge number.\<close>

definition substr :: "string \<Rightarrow> int \<Rightarrow> int \<Rightarrow> string option" where
  "substr s pos n =
     (if 0 \<le> pos \<and> pos \<le> int (length s)
      then Some (if n < 0 then drop (nat pos) s else take (nat n) (drop (nat pos) s)) else None)"

lemma find_if_SomeD:
  assumes "find_if P pos s = Some i"
  shows "pos \<le> i \<and> i < length s \<and> P (s ! i) \<and> (\<forall>j. pos \<le> j \<and> j < i \<longrightarrow> \<not> P (s ! j))"
proof -
  let ?t = "takeWhile (\<lambda>c. \<not> P c) (drop pos s)"
  from assms have i: "i = pos + length ?t" "i < length s" by (auto simp: find_if_def Let_def split: if_splits)
  then have "length ?t < length (drop pos s)" by simp
  from nth_length_takeWhile [OF this] i have "P (s ! i)" by simp
  moreover have "\<not> P (s ! j)" if "pos \<le> j" "j < i" for j
  proof -
    from that i(1) have l: "j - pos < length ?t" by simp
    then have "?t ! (j - pos) = s ! j" using that i by (simp add: takeWhile_nth)
    with nth_mem [OF l] show ?thesis by (metis (mono_tags, lifting) set_takeWhileD)
  qed
  ultimately show ?thesis using i by simp
qed

lemma find_if_None: "find_if P pos s = None \<longleftrightarrow> (\<forall>i. pos \<le> i \<and> i < length s \<longrightarrow> \<not> P (s ! i))"
proof
  assume n: "find_if P pos s = None"
  show "\<forall>i. pos \<le> i \<and> i < length s \<longrightarrow> \<not> P (s ! i)"
  proof (intro allI impI)
    fix i
    assume i: "pos \<le> i \<and> i < length s"
    have "\<not> pos + length (takeWhile (\<lambda>c. \<not> P c) (drop pos s)) < length s"
      using n by (auto simp: find_if_def Let_def split: if_splits)
    then have "length (drop pos s) \<le> length (takeWhile (\<lambda>c. \<not> P c) (drop pos s))" by simp
    then have "takeWhile (\<lambda>c. \<not> P c) (drop pos s) = drop pos s"
      by (metis length_takeWhile_le le_antisym takeWhile_eq_take take_all)
    then have "\<forall>c\<in>set (drop pos s). \<not> P c" by (metis takeWhile_eq_all_conv)
    moreover have "s ! i \<in> set (drop pos s)"
      using i nth_mem [of "i - pos" "drop pos s"] by (simp add: diff_less_mono)
    ultimately show "\<not> P (s ! i)" by blast
  qed
next
  assume "\<forall>i. pos \<le> i \<and> i < length s \<longrightarrow> \<not> P (s ! i)"
  with find_if_SomeD [of P pos s] show "find_if P pos s = None" by (cases "find_if P pos s") auto
qed

lemma find_if_Some:
  "find_if P pos s = Some i \<longleftrightarrow> pos \<le> i \<and> i < length s \<and> P (s ! i) \<and> (\<forall>j. pos \<le> j \<and> j < i \<longrightarrow> \<not> P (s ! j))"
proof
  assume a: "pos \<le> i \<and> i < length s \<and> P (s ! i) \<and> (\<forall>j. pos \<le> j \<and> j < i \<longrightarrow> \<not> P (s ! j))"
  then obtain k where k: "find_if P pos s = Some k" using find_if_None [of P pos s] by (cases "find_if P pos s") auto
  from find_if_SomeD [OF this] a have "k = i" by (metis linorder_neqE_nat)
  with k show "find_if P pos s = Some i" by simp
qed (rule find_if_SomeD)

text \<open>Searching from a place of a string that is known in parts.\<close>

lemma find_if_at:
  assumes "pos = length pre" "\<forall>c\<in>set a. \<not> P c" "P c"
  shows "find_if P pos (pre @ a @ c # rest) = Some (length pre + length a)"
  unfolding find_if_Some using assms by (auto simp: nth_append)

lemma find_if_absent:
  assumes "pos = length pre" "\<forall>c\<in>set a. \<not> P c"
  shows "find_if P pos (pre @ a) = None"
  unfolding find_if_None using assms by (auto simp: nth_append)

lemma find_char_at:
  "pos = int (length pre) \<Longrightarrow> c \<notin> set a \<Longrightarrow> find_char c pos (pre @ a @ c # rest) = int (length pre + length a)"
  unfolding find_char_def by (subst find_if_at) auto

lemma find_char_absent: "pos = int (length pre) \<Longrightarrow> c \<notin> set a \<Longrightarrow> find_char c pos (pre @ a) = -1"
  unfolding find_char_def by (subst find_if_absent) auto

lemma find_char_range:
  assumes "0 \<le> pos"
  shows "find_char c pos s = -1 \<or> pos \<le> find_char c pos s \<and> find_char c pos s < int (length s)
    \<and> s ! nat (find_char c pos s) = c"
  using assms by (auto simp: find_char_def find_if_Some split: option.split)

lemma find_char_less:
  "0 \<le> pos \<Longrightarrow> pos \<le> int i \<Longrightarrow> i < length s \<Longrightarrow> s ! i = c \<Longrightarrow> 0 \<le> find_char c pos s \<and> find_char c pos s \<le> int i"
  by (auto simp: find_char_def find_if_Some find_if_None split: option.split) (metis linorder_not_less nat_le_iff)+

lemma nth_middle: "length pre \<le> k \<Longrightarrow> k < length pre + length a \<Longrightarrow> (pre @ a @ rest) ! k \<in> set a"
  by (simp add: nth_append less_diff_conv2)

lemma find_char_beyond:
  assumes "pos = int (length pre)" "c \<notin> set a" "find_char c pos (pre @ a @ rest) \<noteq> -1"
  shows "int (length pre + length a) \<le> find_char c pos (pre @ a @ rest)"
proof -
  define i where "i = find_char c pos (pre @ a @ rest)"
  have i: "int (length pre) \<le> i" "(pre @ a @ rest) ! nat i = c"
    using find_char_range [of pos c "pre @ a @ rest"] assms(1,3) unfolding i_def by simp_all
  have "\<not> nat i < length pre + length a"
    using nth_middle [of pre "nat i" a rest] i assms(2) by (auto simp: le_nat_iff)
  with i(1) show ?thesis unfolding i_def [symmetric] by linarith
qed

lemma substr_at: "pos = int (length pre) \<Longrightarrow> n = int (length a) \<Longrightarrow> substr (pre @ a @ rest) pos n = Some a"
  by (simp add: substr_def)

lemma substr_rest: "pos = int (length pre) \<Longrightarrow> n < 0 \<Longrightarrow> substr (pre @ a) pos n = Some a"
  by (simp add: substr_def)

lemma char_at_nth: "i = int (length pre) \<Longrightarrow> char_at (pre @ c # rest) i = Some c"
  by (simp add: char_at_def)

text \<open>Removing spaces at both ends, as \<open>trim\<close> of \<open>StateInfo.cpp\<close> does with \<open>isspace\<close>.\<close>

definition is_space :: "char \<Rightarrow> bool" where
  "is_space c \<longleftrightarrow> c \<in> {SPC, TAB, LF, CR, CHR 0x0B, CHR 0x0C}"

section \<open>Exceptions\<close>

definition err_bind :: "'e + 'a \<Rightarrow> ('a \<Rightarrow> 'e + 'b) \<Rightarrow> 'e + 'b" where
  "err_bind r g = (case r of Inl e \<Rightarrow> Inl e | Inr x \<Rightarrow> g x)"

definition need :: "'e \<Rightarrow> 'a option \<Rightarrow> 'e + 'a" where
  "need e r = (case r of None \<Rightarrow> Inl e | Some x \<Rightarrow> Inr x)"

lemma err_bind_simps [simp]: "err_bind (Inl e) g = Inl e" "err_bind (Inr x) g = g x"
  by (simp_all add: err_bind_def)

lemma need_simps [simp]: "need e None = Inl e" "need e (Some x) = Inr x"
  by (simp_all add: need_def)

lemma err_bind_Inr: "err_bind r g = Inr y \<longleftrightarrow> (\<exists>x. r = Inr x \<and> g x = Inr y)"
  by (cases r) simp_all

lemma err_bind_Inl: "err_bind r g = Inl e \<longleftrightarrow> r = Inl e \<or> (\<exists>x. r = Inr x \<and> g x = Inl e)"
  by (cases r) auto

section \<open>Maps\<close>

type_synonym smap = "(string \<times> string) list"

fun smap_put :: "string \<Rightarrow> string \<Rightarrow> smap \<Rightarrow> smap" where
  "smap_put k v [] = [(k, v)]"
| "smap_put k v ((k', v') # m) =
     (if k < k' then (k, v) # (k', v') # m
      else if k = k' then (k, v) # m
      else (k', v') # smap_put k v m)"

definition smap_get :: "smap \<Rightarrow> string \<Rightarrow> string option" where
  "smap_get m k = map_of m k"

definition smap_ok :: "smap \<Rightarrow> bool" where
  "smap_ok m \<longleftrightarrow> sorted_wrt (<) (map fst m)"

text \<open>What the clients of a map rely on.\<close>

locale string_map =
  fixes get :: "'m \<Rightarrow> string \<Rightarrow> string option"
    and put :: "string \<Rightarrow> string \<Rightarrow> 'm \<Rightarrow> 'm"
    and empty :: 'm
    and ok :: "'m \<Rightarrow> bool"
  assumes get_empty: "get empty k = None"
    and get_put: "ok m \<Longrightarrow> get (put k v m) k' = (if k' = k then Some v else get m k')"
    and ok_empty: "ok empty"
    and ok_put: "ok m \<Longrightarrow> ok (put k v m)"
begin

text \<open>Storing a list of entries: each key has the value of its last entry.\<close>

lemma fold_put_ok: "ok m \<Longrightarrow> ok (fold (\<lambda>(k, v). put k v) kvs m)"
  by (induction kvs arbitrary: m) (auto simp: ok_put)

lemma get_fold_put:
  "ok m \<Longrightarrow> get (fold (\<lambda>(k, v). put k v) kvs m) k =
     (case map_of (rev kvs) k of Some v \<Rightarrow> Some v | None \<Rightarrow> get m k)"
  by (induction kvs arbitrary: m) (auto simp: get_put ok_put map_add_def split: option.splits)

end

lemma smap_put_keys: "set (map fst (smap_put k v m)) = insert k (set (map fst m))"
  by (induction k v m rule: smap_put.induct) auto

lemma smap_ok_put: "smap_ok m \<Longrightarrow> smap_ok (smap_put k v m)"
proof (induction k v m rule: smap_put.induct)
  case (2 k v k' v' m)
  have "k < k' \<or> k = k' \<or> k' < k" by auto
  with 2 smap_put_keys [of k v m] show ?case by (fastforce simp: smap_ok_def)
qed (simp add: smap_ok_def)

lemma smap_get_put: "smap_ok m \<Longrightarrow> smap_get (smap_put k v m) k' = (if k' = k then Some v else smap_get m k')"
proof (induction k v m rule: smap_put.induct)
  case (2 k v k2 v' m)
  then show ?case by (auto simp: smap_ok_def smap_get_def)
qed (simp add: smap_get_def)

interpretation smap: string_map smap_get smap_put "[]" smap_ok
  by unfold_locales (simp_all add: smap_get_put smap_ok_put, simp_all add: smap_get_def smap_ok_def)

text \<open>The index operator: a missing key is added with the empty string.\<close>

definition smap_ref :: "string \<Rightarrow> smap \<Rightarrow> string \<times> smap" where
  "smap_ref k m = (case smap_get m k of Some v \<Rightarrow> (v, m) | None \<Rightarrow> ([], smap_put k [] m))"

lemma smap_ref_ok: "smap_ok m \<Longrightarrow> smap_ok (snd (smap_ref k m))"
  by (auto simp: smap_ref_def smap.ok_put split: option.split)

lemma smap_ref_get:
  "smap_ok m \<Longrightarrow> fst (smap_ref k m) = (case smap_get m k of Some v \<Rightarrow> v | None \<Rightarrow> [])
    \<and> smap_get (snd (smap_ref k m)) k' = (if k' = k then Some (fst (smap_ref k m)) else smap_get m k')"
  by (auto simp: smap_ref_def smap.get_put split: option.split)

lemma smap_get_entry: "smap_ok m \<Longrightarrow> (k, v) \<in> set m \<longleftrightarrow> smap_get m k = Some v"
proof -
  assume "smap_ok m"
  then have "distinct (map fst m)"
    unfolding smap_ok_def by (metis strict_sorted_iff)
  then show ?thesis unfolding smap_get_def by (metis map_of_eq_Some_iff)
qed

end
