(* ===== verification/State_Info.thy ===== *)
theory State_Info
  imports Cpp_String
begin

text \<open>
  State information of SEMAINE (\<open>datatypes/stateinfo/StateInfo.cpp\<close>): the splitting of XPath
  expressions, the configuration file that maps short names of information items to such
  expressions, the information items of a state, and the receiver that keeps the current best
  guess of a state (\<open>cms/receiver/StateReceiver.cpp\<close>).
\<close>

section \<open>Splitting XPath expressions\<close>

text \<open>
  One value for every place that throws.  The first ones are the \<open>SystemConfigurationException\<close>s of
  \<open>splitXPathIntoParts\<close>; \<open>Out_of_range\<close> is the exception of \<open>substr\<close>, and \<open>Undefined\<close> a read behind
  the end of a string.
\<close>

datatype si_error =
    No_leading_slash | Bracket_location | No_at_sign | Not_quoted | No_slash_after | Bad_last_part
  | No_file | No_section | No_prefixes | Bad_prefix_definition | Bad_name_definition
  | Name_twice | Expression_twice | Unknown_item
  | Out_of_range | Undefined

text \<open>The predicate in square brackets: name and value of the attribute, and the slash behind.\<close>

definition split_attribute :: "string \<Rightarrow> int \<Rightarrow> si_error + (string \<times> string \<times> int)" where
  "split_attribute expr openB =
     (let equalPos = find_char (CHR ''='') openB expr;
          closeB = find_char (CHR '']'') openB expr
      in err_bind
           (if equalPos \<noteq> -1 \<and> equalPos + 2 < closeB then
              err_bind (need Out_of_range (substr expr (openB + 2) (equalPos - (openB + 2)))) (\<lambda>attName.
              err_bind (need Undefined (char_at expr (equalPos + 1))) (\<lambda>c1.
              err_bind (need Undefined (char_at expr (closeB - 1))) (\<lambda>c2.
                if c1 \<noteq> SQUOTE \<or> c2 \<noteq> SQUOTE then Inl Not_quoted
                else err_bind (need Out_of_range (substr expr (equalPos + 2) (closeB - 1 - (equalPos + 2))))
                       (\<lambda>attValue. Inr (attName, attValue)))))
            else
              err_bind (need Out_of_range (substr expr (openB + 2) (closeB - (openB + 2)))) (\<lambda>attName.
                Inr (attName, [])))
           (\<lambda>(attName, attValue).
              let nextSlashPos = closeB + 1
              in if nextSlashPos \<ge> int (length expr) then Inl No_slash_after
                 else err_bind (need Undefined (char_at expr nextSlashPos)) (\<lambda>c.
                   if c \<noteq> SLASH then Inl No_slash_after else Inr (attName, attValue, nextSlashPos))))"

text \<open>
  One turn of the loop: \<open>None\<close> leaves it, otherwise the part and the next position.
\<close>

definition split_step :: "string \<Rightarrow> int \<Rightarrow> si_error + (string list \<times> int) option" where
  "split_step expr pos =
     (let nextColonPos = find_char COLON pos expr;
          nextSlashPos = find_char SLASH pos expr;
          nextOpenSqB = find_char (CHR ''['') pos expr
      in if nextSlashPos = -1 then Inr None
         else err_bind
           (if nextColonPos \<noteq> -1 \<and> nextColonPos < nextSlashPos
            then err_bind (need Out_of_range (substr expr pos (nextColonPos - pos))) (\<lambda>prefix.
                   Inr (prefix, nextColonPos + 1))
            else Inr ([], pos))
           (\<lambda>(prefix, pos1).
              if nextOpenSqB \<noteq> -1 \<and> nextOpenSqB < nextSlashPos then
                (if nextOpenSqB \<le> pos1 then Inl Bracket_location
                 else
                   err_bind (need Out_of_range (substr expr pos1 (nextOpenSqB - pos1))) (\<lambda>localname.
                   err_bind (need Undefined (char_at expr (nextOpenSqB + 1))) (\<lambda>c.
                     if c \<noteq> CHR ''@'' then Inl No_at_sign
                     else err_bind (split_attribute expr nextOpenSqB) (\<lambda>(attName, attValue, slash).
                       Inr (Some ([prefix, localname, attName, attValue], slash + 1))))))
              else
                err_bind (need Out_of_range (substr expr pos1 (nextSlashPos - pos1))) (\<lambda>localname.
                  Inr (Some ([prefix, localname, [], []], nextSlashPos + 1)))))"

text \<open>The result \<open>None\<close> is a loop that does not end.\<close>

partial_function (option) split_loop ::
  "string \<Rightarrow> int \<Rightarrow> string list list \<Rightarrow> (si_error + int \<times> string list list) option" where
  "split_loop expr pos parts =
     (case split_step expr pos of
        Inl e \<Rightarrow> Some (Inl e)
      | Inr None \<Rightarrow> Some (Inr (pos, parts))
      | Inr (Some (part, pos')) \<Rightarrow> split_loop expr pos' (parts @ [part]))"

definition last_part :: "string \<Rightarrow> int \<Rightarrow> si_error + string list" where
  "last_part expr pos =
     (if pos \<ge> int (length expr) then Inl Bad_last_part
      else err_bind (need Undefined (char_at expr pos)) (\<lambda>c.
        if c = CHR ''@''
        then err_bind (need Out_of_range (substr expr (pos + 1) (-1))) (\<lambda>attName. Inr [attName])
        else err_bind (need Out_of_range (substr expr pos (-1))) (\<lambda>s.
          if s = ''text()'' then Inr [] else Inl Bad_last_part)))"

definition splitXPathIntoParts :: "string \<Rightarrow> (si_error + string list list) option" where
  "splitXPathIntoParts expr =
     (if char_at expr 0 \<noteq> Some SLASH then Some (Inl No_leading_slash)
      else map_option (\<lambda>r. err_bind r (\<lambda>(pos, parts).
             err_bind (last_part expr pos) (\<lambda>l. Inr (parts @ [l])))) (split_loop expr 1 []))"

section \<open>Expressions and their parts\<close>

text \<open>The expressions of the documented form, as data, and how they are written.\<close>

datatype xstep = XStep (xprefix: string) (xlocal: string) (xattr: "(string \<times> string option) option")

datatype xlast = XText | XAttr string

definition show_attr :: "(string \<times> string option) option \<Rightarrow> string" where
  "show_attr a =
     (case a of
        None \<Rightarrow> []
      | Some (n, None) \<Rightarrow> ''[@'' @ n @ '']''
      | Some (n, Some v) \<Rightarrow> ''[@'' @ n @ ''='' @ [SQUOTE] @ v @ [SQUOTE] @ '']'')"

definition show_step :: "xstep \<Rightarrow> string" where
  "show_step st = (if xprefix st = [] then [] else xprefix st @ '':'') @ xlocal st @ show_attr (xattr st)"

definition show_last :: "xlast \<Rightarrow> string" where
  "show_last l = (case l of XText \<Rightarrow> ''text()'' | XAttr a \<Rightarrow> CHR ''@'' # a)"

definition show_xpath :: "xstep list \<Rightarrow> xlast \<Rightarrow> string" where
  "show_xpath steps l = SLASH # concat (map (\<lambda>st. show_step st @ [SLASH]) steps) @ show_last l"

definition part_of :: "xstep \<Rightarrow> string list" where
  "part_of st =
     (case xattr st of
        None \<Rightarrow> [xprefix st, xlocal st, [], []]
      | Some (n, v) \<Rightarrow> [xprefix st, xlocal st, n, case v of None \<Rightarrow> [] | Some s \<Rightarrow> s])"

definition last_of :: "xlast \<Rightarrow> string list" where
  "last_of l = (case l of XText \<Rightarrow> [] | XAttr a \<Rightarrow> [a])"

text \<open>
  The documented grammar: local names and the names of attributes are not empty, names do not contain the
  separators, and a value does not contain the closing bracket.
\<close>

definition name_ok :: "string \<Rightarrow> bool" where
  "name_ok s \<longleftrightarrow> set s \<inter> {COLON, SLASH, CHR ''[''} = {}"

definition attr_ok :: "xstep \<Rightarrow> bool" where
  "attr_ok st \<longleftrightarrow>
     (case xattr st of
        None \<Rightarrow> True
      | Some (n, v) \<Rightarrow> n \<noteq> [] \<and> set n \<inter> {CHR ''='', CHR '']''} = {} \<and> CHR '']'' \<notin> set (case v of None \<Rightarrow> [] | Some s \<Rightarrow> s))"

definition step_ok :: "xstep \<Rightarrow> bool" where
  "step_ok st \<longleftrightarrow> name_ok (xprefix st) \<and> name_ok (xlocal st) \<and> xlocal st \<noteq> [] \<and> attr_ok st"

definition last_ok :: "xlast \<Rightarrow> bool" where
  "last_ok l \<longleftrightarrow> (case l of XText \<Rightarrow> True | XAttr a \<Rightarrow> a \<noteq> [] \<and> SLASH \<notin> set a)"

text \<open>
  A colon that the code takes for the end of a prefix although it is in the predicate: there is no prefix, and no
  slash before it.
\<close>

definition ahead :: "string \<Rightarrow> string" where
  "ahead w = takeWhile (\<lambda>c. c \<noteq> SLASH) w"

definition colon_misread :: "xstep \<Rightarrow> bool" where
  "colon_misread st \<longleftrightarrow> xprefix st = [] \<and> COLON \<in> set (ahead (show_attr (xattr st)))"

lemma ahead_slash: "ahead (w @ SLASH # rest) = ahead w"
  by (induction w) (simp_all add: ahead_def)

lemma ahead_split: "SLASH \<in> set w \<Longrightarrow> \<exists>r. w = ahead w @ SLASH # r"
  unfolding ahead_def by (induction w) auto

lemma ahead_no_slash: "SLASH \<notin> set (ahead w)"
  unfolding ahead_def by (induction w) auto

lemma split_attribute_show:
  assumes "set n \<inter> {CHR ''='', CHR '']''} = {}" "CHR '']'' \<notin> set (case v of None \<Rightarrow> [] | Some s \<Rightarrow> s)"
    and "openB = int (length pre)"
  shows "split_attribute (pre @ show_attr (Some (n, v)) @ SLASH # rest) openB =
    Inr (n, case v of None \<Rightarrow> [] | Some s \<Rightarrow> s, int (length pre + length (show_attr (Some (n, v)))))"
proof (cases v)
  case None
  let ?e = "pre @ show_attr (Some (n, None)) @ SLASH # rest"
  have c: "find_char (CHR '']'') openB ?e = int (length pre) + 2 + int (length n)"
    using find_char_at [of openB pre "CHR '']''" "''[@'' @ n" "SLASH # rest"] assms by (simp add: show_attr_def)
  have eq: "\<not> (find_char (CHR ''='') openB ?e \<noteq> -1 \<and> find_char (CHR ''='') openB ?e + 2 < find_char (CHR '']'') openB ?e)"
    using find_char_beyond [of openB pre "CHR ''=''" "''[@'' @ n" "CHR '']'' # SLASH # rest"] assms c
    by (auto simp: show_attr_def)
  have "substr ?e (openB + 2) (int (length n)) = Some n"
    using substr_at [of "openB + 2" "pre @ ''[@''" "int (length n)" n "CHR '']'' # SLASH # rest"] assms(3)
    by (simp add: show_attr_def)
  moreover have "char_at ?e (int (length pre) + 3 + int (length n)) = Some SLASH"
    using char_at_nth [of "int (length pre) + 3 + int (length n)" "pre @ ''[@'' @ n @ '']''" SLASH rest]
    by (simp add: show_attr_def)
  ultimately show ?thesis using assms(3) eq unfolding None split_attribute_def Let_def c
    by (auto simp: show_attr_def algebra_simps)
next
  case (Some s)
  let ?e = "pre @ show_attr (Some (n, Some s)) @ SLASH # rest"
  have c: "find_char (CHR '']'') openB ?e = int (length pre) + 5 + int (length n) + int (length s)"
    using find_char_at [of openB pre "CHR '']''" "''[@'' @ n @ ''='' @ [SQUOTE] @ s @ [SQUOTE]" "SLASH # rest"] assms Some
    by (simp add: show_attr_def)
  have eq: "find_char (CHR ''='') openB ?e = int (length pre) + 2 + int (length n)"
    using find_char_at [of openB pre "CHR ''=''" "''[@'' @ n" "[SQUOTE] @ s @ [SQUOTE] @ '']'' @ SLASH # rest"] assms Some
    by (simp add: show_attr_def)
  have "substr ?e (openB + 2) (int (length n)) = Some n"
    using substr_at [of "openB + 2" "pre @ ''[@''" "int (length n)" n "''='' @ [SQUOTE] @ s @ [SQUOTE] @ '']'' @ SLASH # rest"] assms(3)
    by (simp add: show_attr_def)
  moreover have "char_at ?e (int (length pre) + 3 + int (length n)) = Some SQUOTE"
    using char_at_nth [of "int (length pre) + 3 + int (length n)" "pre @ ''[@'' @ n @ ''=''" SQUOTE "s @ [SQUOTE] @ '']'' @ SLASH # rest"]
    by (simp add: show_attr_def)
  moreover have "char_at ?e (int (length pre) + 4 + int (length n) + int (length s)) = Some SQUOTE"
    using char_at_nth [of "int (length pre) + 4 + int (length n) + int (length s)" "pre @ ''[@'' @ n @ ''='' @ [SQUOTE] @ s" SQUOTE "'']'' @ SLASH # rest"]
    by (simp add: show_attr_def)
  moreover have "substr ?e (int (length pre) + 4 + int (length n)) (int (length s)) = Some s"
    using substr_at [of "int (length pre) + 4 + int (length n)" "pre @ ''[@'' @ n @ ''='' @ [SQUOTE]" "int (length s)" s "[SQUOTE] @ '']'' @ SLASH # rest"]
    by (simp add: show_attr_def)
  moreover have "char_at ?e (int (length pre) + 6 + int (length n) + int (length s)) = Some SLASH"
    using char_at_nth [of "int (length pre) + 6 + int (length n) + int (length s)" "pre @ ''[@'' @ n @ ''='' @ [SQUOTE] @ s @ [SQUOTE] @ '']''" SLASH rest]
    by (simp add: show_attr_def)
  ultimately show ?thesis using assms(3) unfolding Some split_attribute_def Let_def c eq
    by (simp add: show_attr_def algebra_simps)
qed

text \<open>The places of the three separators in a step that is written into an expression.\<close>

definition show_prefix :: "string \<Rightarrow> string" where
  "show_prefix p = (if p = [] then [] else p @ '':'')"

lemma show_attr_starts: "a \<noteq> None \<Longrightarrow> \<exists>r. show_attr a = CHR ''['' # CHR ''@'' # r"
  by (auto simp: show_attr_def split: option.split)

lemma name_ok_prefix: "name_ok p \<Longrightarrow> name_ok l \<Longrightarrow> {SLASH, CHR ''[''} \<inter> set (show_prefix p @ l) = {}"
  by (auto simp: show_prefix_def name_ok_def)

lemma head_slash:
  assumes "name_ok p" "name_ok l" "pos = int (length pre)" "SLASH \<in> set w"
  shows "find_char SLASH pos (pre @ show_prefix p @ l @ w) = pos + int (length (show_prefix p @ l @ ahead w))"
proof -
  obtain r where r: "w = ahead w @ SLASH # r" using ahead_split [OF assms(4)] by blast
  have "SLASH \<notin> set (show_prefix p @ l @ ahead w)" using name_ok_prefix [OF assms(1,2)] ahead_no_slash by auto
  from find_char_at [OF assms(3) this, of r] have
    "find_char SLASH pos (pre @ show_prefix p @ l @ ahead w @ SLASH # r) = pos + int (length (show_prefix p @ l @ ahead w))"
    by (simp add: assms(3))
  then show ?thesis by (simp only: r [symmetric])
qed

lemma head_bracket:
  assumes "name_ok p" "name_ok l" "pos = int (length pre)"
  shows "find_char (CHR ''['') pos (pre @ show_prefix p @ l @ CHR ''['' # w) = pos + int (length (show_prefix p @ l))"
    and "find_char (CHR ''['') pos (pre @ show_prefix p @ l @ SLASH # w) \<in> {-1} \<union> {pos + int (length (show_prefix p @ l)) <..}"
proof -
  have q: "CHR ''['' \<notin> set (show_prefix p @ l)" using name_ok_prefix [OF assms(1,2)] by auto
  from find_char_at [OF assms(3) this, of w]
  show "find_char (CHR ''['') pos (pre @ show_prefix p @ l @ CHR ''['' # w) = pos + int (length (show_prefix p @ l))"
    by (simp add: assms(3))
  have "CHR ''['' \<notin> set (show_prefix p @ l @ [SLASH])" using q by simp
  from find_char_beyond [OF assms(3) this, of w]
  have "find_char (CHR ''['') pos (pre @ show_prefix p @ l @ SLASH # w) \<noteq> -1 \<Longrightarrow>
      pos + int (length (show_prefix p @ l)) < find_char (CHR ''['') pos (pre @ show_prefix p @ l @ SLASH # w)"
    by (simp add: assms(3))
  then show "find_char (CHR ''['') pos (pre @ show_prefix p @ l @ SLASH # w) \<in> {-1} \<union> {pos + int (length (show_prefix p @ l)) <..}"
    by blast
qed

lemma head_prefix:
  assumes "name_ok p" "name_ok l" "pos = int (length pre)" "SLASH \<in> set w" "p = [] \<longrightarrow> COLON \<notin> set (ahead w)"
    and "e = pre @ show_prefix p @ l @ w"
  shows "(if find_char COLON pos e \<noteq> -1 \<and> find_char COLON pos e < find_char SLASH pos e
      then err_bind (need Out_of_range (substr e pos (find_char COLON pos e - pos))) (\<lambda>prefix.
             Inr (prefix, find_char COLON pos e + 1))
      else Inr ([], pos)) = (Inr (p, pos + int (length (show_prefix p))) :: si_error + string \<times> int)"
proof (cases "p = []")
  case True
  obtain r where r: "w = ahead w @ SLASH # r" using ahead_split [OF assms(4)] by blast
  have "COLON \<notin> set (l @ ahead w @ [SLASH])" using assms(2,5) True by (auto simp: name_ok_def)
  moreover have "e = pre @ (l @ ahead w @ [SLASH]) @ r" using True r by (simp add: assms(6) show_prefix_def)
  ultimately have "find_char COLON pos e \<noteq> -1 \<Longrightarrow> find_char SLASH pos e < find_char COLON pos e"
    using find_char_beyond [OF assms(3), of COLON "l @ ahead w @ [SLASH]" r] head_slash [OF assms(1-4)] True assms(3)
    by (simp add: assms(6) show_prefix_def)
  then show ?thesis using True by (auto simp: show_prefix_def)
next
  case False
  have c: "find_char COLON pos e = pos + int (length p)"
    using find_char_at [OF assms(3), of COLON p "l @ w"] assms(1,3,6) False by (auto simp: show_prefix_def name_ok_def)
  moreover have "pos + int (length p) < find_char SLASH pos e"
    using head_slash [OF assms(1-4)] False by (simp add: assms(6) show_prefix_def)
  moreover have "substr e pos (int (length p)) = Some p"
    using substr_at [OF assms(3) refl, of p "'':'' @ l @ w"] False by (simp add: assms(6) show_prefix_def)
  ultimately show ?thesis using assms(3) False by (simp add: show_prefix_def)
qed

lemma head_local:
  "pos = int (length pre) \<Longrightarrow>
    substr (pre @ show_prefix p @ l @ w) (pos + int (length (show_prefix p))) (int (length l)) = Some l"
  using substr_at [of _ "pre @ show_prefix p" _ l w] by simp

lemma head_at:
  "pos = int (length pre) \<Longrightarrow>
    char_at (pre @ show_prefix p @ l @ CHR ''['' # CHR ''@'' # r) (pos + int (length (show_prefix p @ l)) + 1) = Some (CHR ''@'')"
  using char_at_nth [of "pos + int (length (show_prefix p @ l)) + 1" "pre @ show_prefix p @ l @ ''[''" "CHR ''@''" r] by simp

text \<open>A colon behind the bracket makes the bracket stand before the local name.\<close>

lemma head_misread:
  assumes "name_ok l" "pos = int (length pre)" "SLASH \<in> set w" "COLON \<in> set (ahead (CHR ''['' # w))"
  shows "split_step (pre @ l @ CHR ''['' # w) pos = Inl Bracket_location"
proof -
  let ?w = "CHR ''['' # w" and ?e = "pre @ l @ CHR ''['' # w"
  have nil: "name_ok []" by (simp add: name_ok_def)
  have sl: "find_char SLASH pos ?e = pos + int (length (l @ ahead ?w))"
    using head_slash [OF nil assms(1,2), of ?w] assms(3) by (simp add: show_prefix_def)
  have op: "find_char (CHR ''['') pos ?e = pos + int (length l)"
    using head_bracket(1) [OF nil assms(1,2), of w] by (simp add: show_prefix_def)
  obtain x y where xy: "ahead ?w = x @ COLON # y" "COLON \<notin> set x" using split_list_first [OF assms(4)] by blast
  have x: "x \<noteq> []" using xy(1) by (cases x) (auto simp: ahead_def)
  obtain r where r: "?w = ahead ?w @ SLASH # r" using ahead_split [of ?w] assms(3) by auto
  have "COLON \<notin> set (l @ x)" using assms(1) xy(2) by (auto simp: name_ok_def)
  from find_char_at [OF assms(2) this, of "y @ SLASH # r"]
  have "find_char COLON pos (pre @ l @ ahead ?w @ SLASH # r) = pos + int (length (l @ x))" by (simp add: xy(1) assms(2))
  then have co: "find_char COLON pos ?e = pos + int (length (l @ x))" by (simp only: r [symmetric])
  have len: "int (length (ahead ?w)) = int (length x) + 1 + int (length y)" using xy(1) by simp
  have "substr ?e pos (int (length (l @ x))) = Some (take (length (l @ x)) (l @ ?w))" by (simp add: substr_def assms(2) nat_int_add)
  moreover have "0 \<le> pos" using assms(2) by simp
  ultimately show ?thesis using x len by (simp add: split_step_def Let_def sl op co)
qed

lemma show_attr_cases:
  obtains (none) "a = None" "show_attr a @ SLASH # rest = SLASH # rest"
  | (some) n v r where "a = Some (n, v)" "show_attr a @ SLASH # rest = CHR ''['' # CHR ''@'' # r"
proof (cases a)
  case None
  then show thesis using none by (simp add: show_attr_def)
next
  case (Some nv)
  then obtain n v where "a = Some (n, v)" by (cases nv) auto
  with show_attr_starts [of a] some show thesis by fastforce
qed

lemma split_step_show:
  assumes "step_ok st" "pos = int (length pre)"
  shows "split_step (pre @ show_step st @ SLASH # rest) pos
    = (if colon_misread st then Inl Bracket_location else Inr (Some (part_of st, pos + int (length (show_step st)) + 1)))"
proof -
  obtain p l a where st: "st = XStep p l a" by (cases st)
  let ?w = "show_attr a @ SLASH # rest" and ?e = "pre @ show_prefix p @ l @ show_attr a @ SLASH # rest"
  have ss: "show_step st = show_prefix p @ l @ show_attr a" by (simp add: st show_step_def show_prefix_def)
  have e: "pre @ show_step st @ SLASH # rest = ?e" by (simp add: ss)
  have ok: "name_ok p" "name_ok l" "l \<noteq> []" using assms(1) by (auto simp: step_ok_def st)
  have sw: "SLASH \<in> set ?w" by simp
  note slash = head_slash [OF ok(1,2) assms(2) sw]
  note bracket = head_bracket [OF ok(1,2) assms(2)]
  note prefix = head_prefix [OF ok(1,2) assms(2) sw _ refl]
  note loc = head_local [OF assms(2), of p l]
  show ?thesis
  proof (cases rule: show_attr_cases [of a rest])
    case none
    have "\<not> colon_misread st" using none(1) by (simp add: colon_misread_def st show_attr_def ahead_def)
    moreover have "p = [] \<longrightarrow> COLON \<notin> set (ahead ?w)" using none(2) by (simp add: ahead_def)
    moreover have no: "\<not> (find_char (CHR ''['') pos ?e \<noteq> -1 \<and> find_char (CHR ''['') pos ?e < find_char SLASH pos ?e)"
      using slash bracket(2) [of rest] unfolding none(2) by (auto simp: ahead_def)
    ultimately show ?thesis
      unfolding e split_step_def Let_def if_not_P [OF no] prefix [OF \<open>p = [] \<longrightarrow> COLON \<notin> set (ahead ?w)\<close>]
      using slash loc assms(2) unfolding ss none(2)
      by (simp add: none(1) st part_of_def ahead_def show_attr_def add.assoc)
  next
    case (some n v r)
    have "SLASH \<in> set (CHR ''['' # CHR ''@'' # r)" using sw unfolding some(2) .
    then have rs: "SLASH \<in> set r" by simp
    show ?thesis
    proof (cases "colon_misread st")
      case True
      then have "p = []" "COLON \<in> set (ahead (CHR ''['' # CHR ''@'' # r))"
        using some(2) ahead_slash [of "show_attr a" rest] by (simp_all add: colon_misread_def st)
      from head_misread [OF ok(2) assms(2) _ this(2)] rs True show ?thesis
        unfolding e some(2) by (simp add: show_prefix_def \<open>p = []\<close>)
    next
      case False
      then have m: "p = [] \<longrightarrow> COLON \<notin> set (ahead ?w)" by (simp add: colon_misread_def st ahead_slash)
      have nok: "set n \<inter> {CHR ''='', CHR '']''} = {}" "CHR '']'' \<notin> set (case v of None \<Rightarrow> [] | Some s \<Rightarrow> s)"
        using assms(1) by (auto simp: step_ok_def st attr_ok_def some(1))
      have "split_attribute ?e (pos + int (length (show_prefix p @ l))) =
        Inr (n, case v of None \<Rightarrow> [] | Some s \<Rightarrow> s, pos + int (length (show_prefix p @ l @ show_attr a)))"
        using split_attribute_show [OF nok, of _ "pre @ show_prefix p @ l" rest] assms(2) by (simp add: some(1) add.assoc)
      moreover have "ahead ?w \<noteq> []" unfolding some(2) by (simp add: ahead_def)
      moreover have "0 \<le> pos" using assms(2) by simp
      ultimately show ?thesis
        unfolding e split_step_def Let_def prefix [OF m]
        using slash bracket(1) [of "CHR ''@'' # r"] loc [of ?w] head_at [OF assms(2), of p l r] ok(3) False unfolding ss some(2)
        by (simp add: some(1) st part_of_def add.assoc)
    qed
  qed
qed

lemma split_step_last: "SLASH \<notin> set t \<Longrightarrow> pos = int (length pre) \<Longrightarrow> split_step (pre @ t) pos = Inr None"
  by (simp add: split_step_def find_char_absent)

lemma split_loop_show:
  assumes "\<forall>st\<in>set steps. step_ok st" "\<not> list_ex colon_misread steps" "pos = int (length pre)"
  shows "split_loop (pre @ concat (map (\<lambda>st. show_step st @ [SLASH]) steps) @ t) pos parts
    = split_loop (pre @ concat (map (\<lambda>st. show_step st @ [SLASH]) steps) @ t)
        (pos + int (length (concat (map (\<lambda>st. show_step st @ [SLASH]) steps)))) (parts @ map part_of steps)"
  using assms
proof (induction steps arbitrary: pre pos parts)
  case (Cons st steps)
  let ?r = "concat (map (\<lambda>st. show_step st @ [SLASH]) steps) @ t"
  have "split_step (pre @ show_step st @ SLASH # ?r) pos = Inr (Some (part_of st, pos + int (length (show_step st)) + 1))"
    using Cons.prems by (subst split_step_show) simp_all
  then have "split_loop (pre @ show_step st @ SLASH # ?r) pos parts
      = split_loop (pre @ show_step st @ SLASH # ?r) (pos + int (length (show_step st)) + 1) (parts @ [part_of st])"
    by (subst split_loop.simps) simp
  also have "\<dots> = split_loop (pre @ show_step st @ SLASH # ?r)
      (pos + int (length (concat (map (\<lambda>st. show_step st @ [SLASH]) (st # steps))))) (parts @ map part_of (st # steps))"
    using Cons.IH [of "pos + int (length (show_step st)) + 1" "pre @ show_step st @ [SLASH]" "parts @ [part_of st]"] Cons.prems
    by (simp add: Cons.prems(3) algebra_simps)
  finally show ?case by simp
qed simp

lemma last_part_show:
  "pos = int (length pre) \<Longrightarrow> last_part (pre @ show_last l) pos = Inr (last_of l)"
proof (cases l)
  case XText
  assume "pos = int (length pre)"
  then show ?thesis using XText char_at_nth [of pos pre "CHR ''t''" "''ext()''"] substr_rest [of pos pre "-1" "''text()''"]
    by (simp add: last_part_def show_last_def last_of_def)
next
  case (XAttr a)
  assume "pos = int (length pre)"
  then show ?thesis using XAttr char_at_nth [of pos pre "CHR ''@''" a] substr_rest [of "pos + 1" "pre @ ''@''" "-1" a]
    by (simp add: last_part_def show_last_def last_of_def)
qed

lemma split_xpath_show:
  assumes "\<forall>st\<in>set steps. step_ok st" "\<not> list_ex colon_misread steps" "last_ok l"
  shows "splitXPathIntoParts (show_xpath steps l) = Some (Inr (map part_of steps @ [last_of l]))"
proof -
  let ?c = "concat (map (\<lambda>st. show_step st @ [SLASH]) steps)"
  have "SLASH \<notin> set (show_last l)" using assms(3) by (auto simp: show_last_def last_ok_def split: xlast.splits)
  then have "split_loop (show_xpath steps l) (1 + int (length ?c)) (map part_of steps)
      = Some (Inr (1 + int (length ?c), map part_of steps))"
    using split_step_last [of "show_last l" "1 + int (length ?c)" "SLASH # ?c"]
    by (subst split_loop.simps) (simp add: show_xpath_def)
  with split_loop_show [OF assms(1,2), of 1 "[SLASH]" "show_last l" "[]"]
  have "split_loop (show_xpath steps l) 1 [] = Some (Inr (1 + int (length ?c), map part_of steps))"
    by (simp add: show_xpath_def)
  moreover have "last_part (show_xpath steps l) (1 + int (length ?c)) = Inr (last_of l)"
    using last_part_show [of "1 + int (length ?c)" "SLASH # ?c" l] by (simp add: show_xpath_def)
  ultimately show ?thesis by (simp add: splitXPathIntoParts_def char_at_def show_xpath_def)
qed

text \<open>The first colon that is misread stops the splitting.\<close>

lemma split_xpath_misread:
  assumes "\<forall>st\<in>set steps. step_ok st" "list_ex colon_misread steps"
  shows "splitXPathIntoParts (show_xpath steps l) = Some (Inl Bracket_location)"
proof -
  obtain before st after where st: "steps = before @ st # after" "colon_misread st" "\<forall>x\<in>set before. \<not> colon_misread x"
    using split_list_first_prop [of steps colon_misread] assms(2) by (auto simp: list_ex_iff)
  let ?c = "concat (map (\<lambda>st. show_step st @ [SLASH]) before)"
    and ?t = "concat (map (\<lambda>st. show_step st @ [SLASH]) after) @ show_last l"
  have e: "show_xpath steps l = [SLASH] @ ?c @ show_step st @ SLASH # ?t" by (simp add: show_xpath_def st(1))
  have "split_step (SLASH # ?c @ show_step st @ SLASH # ?t) (1 + int (length ?c)) = Inl Bracket_location"
    using split_step_show [of st "1 + int (length ?c)" "SLASH # ?c" ?t] assms(1) st(1,2) by simp
  then have "split_loop (show_xpath steps l) (1 + int (length ?c)) (map part_of before) = Some (Inl Bracket_location)"
    by (subst split_loop.simps) (simp add: e)
  moreover have "split_loop (show_xpath steps l) 1 [] = split_loop (show_xpath steps l) (1 + int (length ?c)) (map part_of before)"
    using split_loop_show [of before 1 "[SLASH]" "show_step st @ SLASH # ?t" "[]"] assms(1) st(1,3)
    unfolding e by (simp add: list_ex_iff)
  ultimately show ?thesis by (simp add: splitXPathIntoParts_def char_at_def show_xpath_def)
qed

section \<open>When the splitting ends\<close>

text \<open>Every square bracket that is opened is closed.\<close>

definition brackets_closed :: "string \<Rightarrow> bool" where
  "brackets_closed expr \<longleftrightarrow> (\<forall>i < length expr. expr ! i = CHR ''['' \<longrightarrow>
     (\<exists>j. i < j \<and> j < length expr \<and> expr ! j = CHR '']''))"

lemma split_attribute_result:
  assumes "0 \<le> openB" "openB + 1 < int (length expr)"
  shows "split_attribute expr openB = Inr (att, val, slash) \<Longrightarrow>
      slash = find_char (CHR '']'') openB expr + 1 \<and> 0 \<le> slash \<and> slash < int (length expr)"
    and "split_attribute expr openB = Inl e \<Longrightarrow> e \<notin> {Out_of_range, Undefined}"
proof -
  define eq where "eq = find_char (CHR ''='') openB expr"
  define cl where "cl = find_char (CHR '']'') openB expr"
  have eq: "eq = -1 \<or> openB \<le> eq \<and> eq < int (length expr)" and cl: "cl = -1 \<or> openB \<le> cl \<and> cl < int (length expr)"
    using find_char_range [OF assms(1)] unfolding eq_def cl_def by blast+
  note d = split_attribute_def Let_def eq_def [symmetric] cl_def [symmetric]
  show "slash = find_char (CHR '']'') openB expr + 1 \<and> 0 \<le> slash \<and> slash < int (length expr)"
    if "split_attribute expr openB = Inr (att, val, slash)"
    using that cl assms unfolding d by (auto simp: err_bind_Inr split: if_splits)
  show "e \<notin> {Out_of_range, Undefined}" if "split_attribute expr openB = Inl e"
    using that eq cl assms unfolding d
    by (auto simp: err_bind_Inl need_def substr_def char_at_def split: if_splits option.splits)
qed

lemma split_step_result:
  assumes "0 \<le> pos" "pos \<le> int (length expr)"
  shows "split_step expr pos = Inr (Some (part, pos')) \<Longrightarrow>
      length part = 4 \<and> 0 < pos' \<and> pos' \<le> int (length expr) \<and> (brackets_closed expr \<longrightarrow> pos < pos')"
    and "split_step expr pos = Inl e \<Longrightarrow> e \<notin> {Out_of_range, Undefined}"
proof -
  define co where "co = find_char COLON pos expr"
  define sl where "sl = find_char SLASH pos expr"
  define op where "op = find_char (CHR ''['') pos expr"
  define pre where "pre = (if co \<noteq> -1 \<and> co < sl
      then err_bind (need Out_of_range (substr expr pos (co - pos))) (\<lambda>prefix. Inr (prefix, co + 1))
      else Inr ([], pos))"
  have co: "co = -1 \<or> pos \<le> co \<and> co < int (length expr)" and sl: "sl = -1 \<or> pos \<le> sl \<and> sl < int (length expr)"
    using find_char_range [OF assms(1)] unfolding co_def sl_def by blast+
  have op: "op = -1 \<or> pos \<le> op \<and> op < int (length expr) \<and> expr ! nat op = CHR ''[''"
    using find_char_range [OF assms(1)] unfolding op_def by blast
  obtain p p1 where p1: "pre = Inr (p, p1)" "pos \<le> p1" "sl \<noteq> -1 \<longrightarrow> p1 \<le> sl"
  proof (cases "co \<noteq> -1 \<and> co < sl")
    case True
    then obtain s where "substr expr pos (co - pos) = Some s" using assms co by (auto simp: substr_def)
    with True co show ?thesis by (intro that [of s "co + 1"]) (auto simp: pre_def)
  next
    case False
    then show ?thesis using sl by (intro that [of "[]" pos]) (auto simp: pre_def)
  qed
  have d: "split_step expr pos =
      (if sl = -1 then Inr None
       else if op \<noteq> -1 \<and> op < sl then
         (if op \<le> p1 then Inl Bracket_location
          else
            err_bind (need Out_of_range (substr expr p1 (op - p1))) (\<lambda>localname.
            err_bind (need Undefined (char_at expr (op + 1))) (\<lambda>c.
              if c \<noteq> CHR ''@'' then Inl No_at_sign
              else err_bind (split_attribute expr op) (\<lambda>(attName, attValue, slash).
                Inr (Some ([p, localname, attName, attValue], slash + 1))))))
       else
         err_bind (need Out_of_range (substr expr p1 (sl - p1))) (\<lambda>localname.
           Inr (Some ([p, localname, [], []], sl + 1))))"
    unfolding split_step_def Let_def co_def [symmetric] sl_def [symmetric] op_def [symmetric]
      pre_def [symmetric] p1(1) by simp
  have cl: "op < find_char (CHR '']'') op expr" if "brackets_closed expr" "op \<noteq> -1"
  proof -
    from that op assms(1) obtain j where j: "nat op < j" "j < length expr" "expr ! j = CHR '']''"
      unfolding brackets_closed_def by (metis nat_less_iff order_trans zero_order(1) nat_0_le)
    have o: "0 \<le> op" "op \<le> int j" "expr ! nat op = CHR ''[''" using that(2) op assms(1) j(1) by auto
    from find_char_less [OF o(1,2) j(2,3)] find_char_range [OF o(1), of "CHR '']''" expr] o(3)
    show ?thesis by (cases "find_char (CHR '']'') op expr = op") auto
  qed
  show "length part = 4 \<and> 0 < pos' \<and> pos' \<le> int (length expr) \<and> (brackets_closed expr \<longrightarrow> pos < pos')"
    if "split_step expr pos = Inr (Some (part, pos'))"
  proof (cases "op \<noteq> -1 \<and> op < sl")
    case True
    with that obtain att val slash l where a: "split_attribute expr op = Inr (att, val, slash)"
        "part = [p, l, att, val]" "pos' = slash + 1"
      unfolding d by (auto simp: err_bind_Inr split: if_splits)
    have "0 \<le> op" "op + 1 < int (length expr)" using True op sl assms(1) by auto
    from split_attribute_result(1) [OF this a(1)] a(2,3) cl True op show ?thesis by auto
  next
    case False
    with that show ?thesis using assms(1) sl unfolding d if_not_P [OF False]
      by (auto simp: err_bind_Inr split: if_splits)
  qed
  show "e \<notin> {Out_of_range, Undefined}" if "split_step expr pos = Inl e"
  proof (cases "op \<noteq> -1 \<and> op < sl")
    case True
    then have o: "0 \<le> op" "op + 1 < int (length expr)" using op sl assms(1) by auto
    from that True p1 o sl assms(1) split_attribute_result(2) [OF o] show ?thesis unfolding d
      by (auto simp: err_bind_Inl need_def substr_def char_at_def split: if_splits option.splits)
  next
    case False
    with that p1 sl assms(1) show ?thesis unfolding d if_not_P [OF False]
      by (auto simp: err_bind_Inl need_def substr_def split: if_splits option.splits)
  qed
qed

lemma split_loop_total:
  assumes "brackets_closed expr" "0 \<le> pos" "pos \<le> int (length expr)"
  shows "\<exists>r. split_loop expr pos parts = Some r"
  using assms(2,3)
proof (induction "nat (int (length expr) - pos)" arbitrary: pos parts rule: less_induct)
  case less
  consider e where "split_step expr pos = Inl e" | "split_step expr pos = Inr None"
    | part pos' where "split_step expr pos = Inr (Some (part, pos'))"
    by (metis old.sum.exhaust option.exhaust surj_pair)
  then show ?case
  proof cases
    case 3
    from split_step_result(1) [OF less.prems 3] assms(1) have "pos < pos'" "pos' \<le> int (length expr)" by auto
    with less.hyps [of pos' "parts @ [part]"] less.prems 3 show ?thesis by (subst split_loop.simps) simp
  qed (subst split_loop.simps, simp)+
qed

definition loop_result_ok :: "string \<Rightarrow> si_error + int \<times> string list list \<Rightarrow> bool" where
  "loop_result_ok expr r =
     (case r of
        Inl e \<Rightarrow> e \<notin> {Out_of_range, Undefined}
      | Inr (pos, parts) \<Rightarrow> 0 \<le> pos \<and> pos \<le> int (length expr) \<and> (\<forall>p\<in>set parts. length p = 4))"

lemma split_loop_ok:
  assumes "split_loop expr pos parts = Some r" "0 \<le> pos" "pos \<le> int (length expr)" "\<forall>p\<in>set parts. length p = 4"
  shows "loop_result_ok expr r"
proof -
  have "0 \<le> pos \<longrightarrow> pos \<le> int (length expr) \<longrightarrow> (\<forall>p\<in>set parts. length p = 4) \<longrightarrow> loop_result_ok expr r"
  proof (rule split_loop.raw_induct [where P = "\<lambda>expr pos parts r. 0 \<le> pos \<longrightarrow> pos \<le> int (length expr)
      \<longrightarrow> (\<forall>p\<in>set parts. length p = 4) \<longrightarrow> loop_result_ok expr r", OF _ assms(1)], intro impI)
    fix loop expr pos parts r
    assume IH: "\<And>expr pos parts r. loop expr pos parts = Some r \<Longrightarrow> 0 \<le> pos \<longrightarrow> pos \<le> int (length expr)
        \<longrightarrow> (\<forall>p\<in>set parts. length p = 4) \<longrightarrow> loop_result_ok expr r"
      and step: "(case split_step expr pos of Inl e \<Rightarrow> Some (Inl e) | Inr None \<Rightarrow> Some (Inr (pos, parts))
          | Inr (Some (part, pos')) \<Rightarrow> loop expr pos' (parts @ [part])) = Some r"
      and pos: "0 \<le> pos" "pos \<le> int (length expr)" "\<forall>p\<in>set parts. length p = 4"
    consider e where "split_step expr pos = Inl e" | "split_step expr pos = Inr None"
      | part pos' where "split_step expr pos = Inr (Some (part, pos'))"
      by (metis old.sum.exhaust option.exhaust surj_pair)
    then show "loop_result_ok expr r"
    proof cases
      case 1
      with split_step_result(2) [OF pos(1,2) 1] step show ?thesis by (auto simp: loop_result_ok_def)
    next
      case 2
      with step pos show ?thesis by (auto simp: loop_result_ok_def)
    next
      case 3
      with split_step_result(1) [OF pos(1,2) 3] step pos(3) IH [of expr pos' "parts @ [part]" r]
      show ?thesis by auto
    qed
  qed
  with assms(2-4) show ?thesis by blast
qed

lemma last_part_ok:
  "0 \<le> pos \<Longrightarrow> last_part expr pos = Inl e \<Longrightarrow> e \<notin> {Out_of_range, Undefined}"
  "last_part expr pos = Inr l \<Longrightarrow> length l \<le> 1"
  by (auto simp: last_part_def err_bind_Inl err_bind_Inr need_def substr_def char_at_def split: if_splits option.splits)

text \<open>A bracket that is not closed takes the loop back to its first position.\<close>

lemma split_step_unclosed:
  assumes "name_ok p" "name_ok l" "l \<noteq> []" "pos = int (length pre)" "SLASH \<in> set r" "CHR '']'' \<notin> set r"
    and "p = [] \<longrightarrow> COLON \<notin> set (ahead r)" "hd pre = SLASH" "pre \<noteq> []"
  shows "\<exists>part. split_step (pre @ show_prefix p @ l @ ''[@'' @ r) pos = Inr (Some (part, 1))"
proof -
  let ?w = "CHR ''['' # CHR ''@'' # r"
  let ?e = "pre @ show_prefix p @ l @ ?w" and ?o = "pos + int (length (show_prefix p @ l))"
  have sw: "SLASH \<in> set ?w" "p = [] \<longrightarrow> COLON \<notin> set (ahead ?w)" using assms(5,7) by (auto simp: ahead_def)
  have aw: "ahead ?w \<noteq> []" by (simp add: ahead_def)
  note slash = head_slash [OF assms(1,2,4) sw(1)]
  note op = head_bracket(1) [OF assms(1,2,4), of "CHR ''@'' # r"]
  note pre = head_prefix [OF assms(1,2,4) sw refl]
  have o: "?o = int (length (pre @ show_prefix p @ l))" using assms(4) by simp
  have cl: "find_char (CHR '']'') ?o ?e = -1"
    using find_char_absent [OF o, of "CHR '']''" ?w] assms(6) by simp
  have eq: "find_char (CHR ''='') ?o ?e = -1 \<or> 0 \<le> find_char (CHR ''='') ?o ?e"
    using find_char_range [of ?o "CHR ''=''" ?e] assms(4) by auto
  have len: "?o + 2 \<le> int (length ?e)" "0 \<le> ?o" using assms(4) by simp_all
  have hd: "char_at ?e 0 = Some SLASH" using assms(8,9) by (cases pre) (auto simp: char_at_def)
  have n: "\<exists>n. substr ?e (?o + 2) (-1 - (?o + 2)) = Some n" using len by (simp add: substr_def)
  have "0 < int (length ?e)" using len by linarith
  with eq n hd obtain att where "split_attribute ?e ?o = Inr (att, [], 0)"
    unfolding split_attribute_def Let_def cl by auto
  moreover have "0 \<le> pos" using assms(4) by simp
  ultimately have "split_step ?e pos = Inr (Some ([p, l, att, []], 1))"
    unfolding split_step_def Let_def pre
    using slash aw op head_local [OF assms(4), of p l ?w] head_at [OF assms(4), of p l r] assms(3)
    by (simp add: add.assoc)
  then show ?thesis by simp
qed

text \<open>A loop does not end in positions from which every step leads to another one of them.\<close>

lemma split_loop_stuck:
  assumes "\<forall>pos\<in>Q. \<exists>part. \<exists>pos'\<in>Q. split_step expr pos = Inr (Some (part, pos'))" "pos \<in> Q"
  shows "split_loop expr pos parts = None"
proof (rule ccontr)
  assume "split_loop expr pos parts \<noteq> None"
  then obtain r where r: "split_loop expr pos parts = Some r" by auto
  have "\<not> (pos \<in> Q \<and> (\<forall>pos\<in>Q. \<exists>part. \<exists>pos'\<in>Q. split_step expr pos = Inr (Some (part, pos'))))"
  proof (rule split_loop.raw_induct [where P = "\<lambda>expr pos parts r. \<not> (pos \<in> Q
      \<and> (\<forall>pos\<in>Q. \<exists>part. \<exists>pos'\<in>Q. split_step expr pos = Inr (Some (part, pos'))))", OF _ r])
    fix loop expr pos parts r
    assume IH: "\<And>expr pos parts r. loop expr pos parts = Some r \<Longrightarrow> \<not> (pos \<in> Q
        \<and> (\<forall>pos\<in>Q. \<exists>part. \<exists>pos'\<in>Q. split_step expr pos = Inr (Some (part, pos'))))"
      and step: "(case split_step expr pos of Inl e \<Rightarrow> Some (Inl e) | Inr None \<Rightarrow> Some (Inr (pos, parts))
          | Inr (Some (part, pos')) \<Rightarrow> loop expr pos' (parts @ [part])) = Some r"
    show "\<not> (pos \<in> Q \<and> (\<forall>pos\<in>Q. \<exists>part. \<exists>pos'\<in>Q. split_step expr pos = Inr (Some (part, pos'))))"
    proof
      assume Q: "pos \<in> Q \<and> (\<forall>pos\<in>Q. \<exists>part. \<exists>pos'\<in>Q. split_step expr pos = Inr (Some (part, pos')))"
      then obtain part pos' where "pos' \<in> Q" "split_step expr pos = Inr (Some (part, pos'))" by blast
      with step have "loop expr pos' (parts @ [part]) = Some r" by simp
      from IH [OF this] \<open>pos' \<in> Q\<close> Q show False by blast
    qed
  qed
  with assms show False by blast
qed

text \<open>The positions between the steps of an expression.\<close>

definition step_starts :: "xstep list \<Rightarrow> int set" where
  "step_starts steps = (\<lambda>k. 1 + int (length (concat (map (\<lambda>st. show_step st @ [SLASH]) (take k steps))))) ` {..length steps}"

lemma step_starts_next:
  assumes "\<forall>st\<in>set steps. step_ok st" "\<not> list_ex colon_misread steps"
    and "pos \<in> step_starts steps" "e = SLASH # concat (map (\<lambda>st. show_step st @ [SLASH]) steps) @ t"
  shows "pos = 1 + int (length (concat (map (\<lambda>st. show_step st @ [SLASH]) steps)))
    \<or> (\<exists>part. \<exists>pos'\<in>step_starts steps. split_step e pos = Inr (Some (part, pos')))"
proof -
  let ?c = "\<lambda>steps. concat (map (\<lambda>st. show_step st @ [SLASH]) steps)"
  obtain k where k: "k \<le> length steps" "pos = 1 + int (length (?c (take k steps)))"
    using assms(3) by (auto simp: step_starts_def)
  show ?thesis
  proof (cases "k = length steps")
    case True
    with k(2) show ?thesis by simp
  next
    case False
    with k(1) have lt: "k < length steps" by simp
    then have st: "steps ! k \<in> set steps" by simp
    have "?c steps = ?c (take k steps @ steps ! k # drop (Suc k) steps)" using id_take_nth_drop [OF lt] by simp
    then have e: "e = (SLASH # ?c (take k steps)) @ show_step (steps ! k) @ SLASH # (?c (drop (Suc k) steps) @ t)"
      by (simp add: assms(4))
    have "split_step e pos = Inr (Some (part_of (steps ! k), pos + int (length (show_step (steps ! k))) + 1))"
      unfolding e using split_step_show [of "steps ! k" pos "SLASH # ?c (take k steps)"] k(2) assms(1,2) st
      by (simp add: list_ex_iff)
    moreover have "pos + int (length (show_step (steps ! k))) + 1 \<in> step_starts steps"
      unfolding step_starts_def using lt k(2) by (intro image_eqI [of _ _ "Suc k"]) (simp_all add: take_Suc_conv_app_nth)
    ultimately show ?thesis by blast
  qed
qed

section \<open>Properties of the splitting\<close>



text \<open>C33: The shape of the result: a result has at least one part, all but the last one consist of
  four strings, and the last one of at most one; and the only exceptions are those for a wrong
  configuration: no string is read behind its end and no substring starts behind it.\<close>

theorem splitXPath_shape:
  assumes "splitXPathIntoParts expr = Some r"
  shows "case r of
      Inl e \<Rightarrow> e \<notin> {Out_of_range, Undefined}
    | Inr parts \<Rightarrow> \<exists>ps l. parts = ps @ [l] \<and> (\<forall>p\<in>set ps. length p = 4) \<and> length l \<le> 1"
proof (cases "char_at expr 0 = Some SLASH")
  case False
  with assms show ?thesis by (auto simp: splitXPathIntoParts_def)
next
  case True
  with assms obtain lr where lr: "split_loop expr 1 [] = Some lr"
      "r = err_bind lr (\<lambda>(pos, parts). err_bind (last_part expr pos) (\<lambda>l. Inr (parts @ [l])))"
    by (auto simp: splitXPathIntoParts_def)
  have "1 \<le> int (length expr)" using True by (cases expr) (auto simp: char_at_def)
  with split_loop_ok [OF lr(1)] have ok: "loop_result_ok expr lr" by simp
  show ?thesis
  proof (cases lr)
    case (Inl e)
    with ok lr(2) show ?thesis by (simp add: loop_result_ok_def)
  next
    case (Inr pp)
    obtain pos parts where "pp = (pos, parts)" by (cases pp)
    with ok lr(2) Inr last_part_ok(1) [of pos expr] last_part_ok(2) [of expr pos] show ?thesis
      by (cases "last_part expr pos") (auto simp: loop_result_ok_def)
  qed
qed

theorem splitXPath_shape_witness:
  "splitXPathIntoParts ''/a'' = Some (Inl Bad_last_part) \<and> Bad_last_part \<notin> {Out_of_range, Undefined}"
proof -
  have "splitXPathIntoParts ''/a'' = Some (Inl Bad_last_part)"
    by (simp add: splitXPathIntoParts_def split_loop.simps split_step_def find_char_def find_if_def
        char_at_def last_part_def substr_def Let_def)
  from this splitXPath_shape [OF this] show ?thesis by simp
qed

text \<open>C32: The splitting ends, with parts or an exception, for every expression in which every opened
  square bracket is closed.\<close>

theorem splitXPath_ends:
  assumes "brackets_closed expr"
  shows "\<exists>r. splitXPathIntoParts expr = Some r"
proof (cases "char_at expr 0 = Some SLASH")
  case False
  then show ?thesis by (simp add: splitXPathIntoParts_def)
next
  case True
  then have "1 \<le> int (length expr)" by (cases expr) (auto simp: char_at_def)
  with split_loop_total [OF assms, of 1] show ?thesis using True by (auto simp: splitXPathIntoParts_def)
qed

theorem splitXPath_ends_witness: "\<exists>r. splitXPathIntoParts ''/a[x]b/@c:d'' = Some r"
proof (rule splitXPath_ends)
  have all: "\<forall>i < length ''/a[x]b/@c:d''. ''/a[x]b/@c:d'' ! i = CHR ''['' \<longrightarrow> i = 2"
    by (simp add: All_less_Suc eval_nat_numeral)
  have "2 < (4::nat)" "4 < length ''/a[x]b/@c:d''" "''/a[x]b/@c:d'' ! 4 = CHR '']''" by simp_all
  with all show "brackets_closed ''/a[x]b/@c:d''" unfolding brackets_closed_def by blast
qed

text \<open>C35: A predicate whose bracket is not closed, behind any number of correct steps.  With a slash somewhere behind the
  bracket the splitting runs for ever: the position of the closing bracket is -1, the position behind it is the slash at the begin of the
  expression, and the loop starts again, whatever it has read.  There are two exceptions: without such a slash the rest is taken for
  the last part and rejected, and a colon before the slash, in a step without prefix, is rejected as a wrong bracket.\<close>

theorem splitXPath_unclosed:
  assumes "\<forall>st\<in>set steps. step_ok st" "\<not> list_ex colon_misread steps"
    and "name_ok p" "name_ok l" "l \<noteq> []" "CHR ''@'' \<notin> set (p @ l)" "CHR '']'' \<notin> set r"
  shows "splitXPathIntoParts (SLASH # concat (map (\<lambda>st. show_step st @ [SLASH]) steps) @ show_prefix p @ l @ ''[@'' @ r) =
    (if SLASH \<notin> set r then Some (Inl Bad_last_part)
     else if p = [] \<and> COLON \<in> set (ahead r) then Some (Inl Bracket_location)
     else None)"
proof -
  let ?c = "concat (map (\<lambda>st. show_step st @ [SLASH]) steps)" and ?u = "show_prefix p @ l @ ''[@'' @ r"
  let ?e = "SLASH # ?c @ ?u" and ?pos = "1 + int (length (concat (map (\<lambda>st. show_step st @ [SLASH]) steps)))"
  have loop: "split_loop ?e 1 [] = split_loop ?e ?pos (map part_of steps)"
    using split_loop_show [OF assms(1,2), of 1 "[SLASH]" ?u "[]"] by simp
  have split: "splitXPathIntoParts ?e = map_option (\<lambda>r. err_bind r (\<lambda>(pos, parts).
      err_bind (last_part ?e pos) (\<lambda>l. Inr (parts @ [l])))) (split_loop ?e 1 [])"
    by (simp add: splitXPathIntoParts_def char_at_def)
  consider (last) "SLASH \<notin> set r" | (colon) "SLASH \<in> set r" "p = []" "COLON \<in> set (ahead r)"
    | (endless) "SLASH \<in> set r" "p = [] \<longrightarrow> COLON \<notin> set (ahead r)" by blast
  then show ?thesis
  proof cases
    case last
    have "SLASH \<notin> set ?u" using last name_ok_prefix [OF assms(3,4)] by auto
    from split_step_last [OF this, of ?pos "SLASH # ?c"] have "split_loop ?e ?pos (map part_of steps) = Some (Inr (?pos, map part_of steps))"
      by (subst split_loop.simps) simp
    moreover have "last_part ?e ?pos = Inl Bad_last_part"
    proof -
      obtain x xs where x: "show_prefix p @ l = x # xs" "x \<noteq> CHR ''@''"
        using assms(5,6) by (cases p; cases l) (auto simp: show_prefix_def)
      then have u: "?u = x # xs @ ''[@'' @ r" by (metis append_Cons append_assoc)
      have "?u \<noteq> ''text()''"
      proof
        assume "?u = ''text()''"
        then have "CHR ''['' \<in> set ''text()''" by (metis Un_iff list.set_intros(1) set_append append_Cons)
        then show False by simp
      qed
      then have "x # xs @ ''[@'' @ r \<noteq> ''text()''" unfolding u .
      with char_at_nth [of ?pos "SLASH # ?c" x "xs @ ''[@'' @ r"] substr_rest [of ?pos "SLASH # ?c" "-1" "x # xs @ ''[@'' @ r"] x(2)
      show ?thesis unfolding u by (simp add: last_part_def)
    qed
    ultimately show ?thesis using last split loop by simp
  next
    case colon
    have "COLON \<in> set (ahead (CHR ''['' # CHR ''@'' # r))" using colon(3) by (simp add: ahead_def)
    from head_misread [OF assms(4) _ _ this, of ?pos "SLASH # ?c"] colon(1,2)
    have "split_step ?e ?pos = Inl Bracket_location" by (simp add: show_prefix_def)
    then have "split_loop ?e ?pos (map part_of steps) = Some (Inl Bracket_location)" by (subst split_loop.simps) simp
    with colon split loop show ?thesis by simp
  next
    case endless
    obtain part where "split_step ?e ?pos = Inr (Some (part, 1))"
      using split_step_unclosed [OF assms(3-5) _ endless(1) assms(7) endless(2), of ?pos "SLASH # ?c"] by auto
    moreover have one: "1 \<in> step_starts steps" by (auto simp: step_starts_def intro: image_eqI [of _ _ 0])
    ultimately have "\<forall>pos\<in>step_starts steps. \<exists>part. \<exists>pos'\<in>step_starts steps. split_step ?e pos = Inr (Some (part, pos'))"
      using step_starts_next [OF assms(1,2) _ refl, of _ ?u] by (metis (no_types, lifting))
    from split_loop_stuck [OF this one] have "split_loop ?e 1 [] = None" .
    with endless split show ?thesis by auto
  qed
qed

theorem splitXPath_unclosed_witness:
  "splitXPathIntoParts ''/s:a/b[@c/text()'' = None \<and> splitXPathIntoParts ''/s:a/b[@c'' = Some (Inl Bad_last_part)
    \<and> splitXPathIntoParts ''/s:a/b[@c:d/text()'' = Some (Inl Bracket_location)"
  using splitXPath_unclosed [of "[XStep ''s'' ''a'' None]" "[]" "''b''" "''c/text()''"]
    splitXPath_unclosed [of "[XStep ''s'' ''a'' None]" "[]" "''b''" "''c''"]
    splitXPath_unclosed [of "[XStep ''s'' ''a'' None]" "[]" "''b''" "''c:d/text()''"]
  by (simp add: name_ok_def show_prefix_def show_step_def show_attr_def step_ok_def attr_ok_def colon_misread_def ahead_def)

end
