(* ===== verification/State_Config.thy ===== *)
theory State_Config
  imports State_Info
begin

text \<open>
  The configuration file of the state information (\<open>getXPathExpressions\<close> and \<open>getInfosByType\<close> of
  \<open>StateInfo.cpp\<close>), the information items of a state object, and the receiver of states
  (\<open>cms/receiver/StateReceiver.cpp\<close>).  A result \<open>None\<close> is a loop that does not end, from
  \<open>splitXPathIntoParts\<close>.
\<close>

section \<open>One section of the file\<close>

record XPathInfoMapper =
  namespacePrefixes :: smap
  names2exprString :: smap

record section_state =
  mapper :: XPathInfoMapper
  expr2shortname :: smap
  readNamespacePrefixes :: bool
  readShortNames :: bool

definition is_delim :: "char \<Rightarrow> bool" where
  "is_delim c \<longleftrightarrow> c \<in> set [TAB, SPC, CHR ''='', COLON]"

text \<open>The two sides of a definition, or nothing when one is missing.\<close>

definition split_definition :: "string \<Rightarrow> (string \<times> string) option" where
  "split_definition line =
     (case find_if is_delim 0 line of
        None \<Rightarrow> None
      | Some sepStart \<Rightarrow>
          (case find_if (\<lambda>c. \<not> is_delim c) sepStart line of
             None \<Rightarrow> None
           | Some secondStart \<Rightarrow> Some (take sepStart line, drop secondStart line)))"

definition add_short_name :: "string \<Rightarrow> string \<Rightarrow> section_state \<Rightarrow> (si_error + section_state) option" where
  "add_short_name shortName xpathExpr c =
     map_option (\<lambda>r. err_bind r (\<lambda>parts.
         if smap_get (names2exprString (mapper c)) shortName \<noteq> None then Inl Name_twice
         else if smap_get (expr2shortname c) xpathExpr \<noteq> None then Inl Expression_twice
         else Inr (c\<lparr>mapper := (mapper c)\<lparr>names2exprString := smap_put shortName xpathExpr (names2exprString (mapper c))\<rparr>,
                     expr2shortname := smap_put xpathExpr shortName (expr2shortname c)\<rparr>)))
       (splitXPathIntoParts xpathExpr)"

definition config_line :: "string \<Rightarrow> section_state \<Rightarrow> (si_error + section_state) option" where
  "config_line line c =
     (if line = ''[namespace prefixes]'' then Some (Inr (c\<lparr>readNamespacePrefixes := True\<rparr>))
      else if line = ''[short names]'' then
        (if namespacePrefixes (mapper c) = [] then Some (Inl No_prefixes)
         else Some (Inr (c\<lparr>readShortNames := True, readNamespacePrefixes := False\<rparr>)))
      else if readNamespacePrefixes c then
        Some (err_bind (need Bad_prefix_definition (split_definition line)) (\<lambda>(prefix, uri).
          Inr (c\<lparr>mapper := (mapper c)\<lparr>namespacePrefixes := smap_put prefix uri (namespacePrefixes (mapper c))\<rparr>\<rparr>)))
      else if readShortNames c then
        (case split_definition line of
           None \<Rightarrow> Some (Inl Bad_name_definition)
         | Some (shortName, xpathExpr) \<Rightarrow> add_short_name shortName xpathExpr c)
      else Some (Inr c))"

fun config_lines :: "string list \<Rightarrow> section_state \<Rightarrow> (si_error + section_state) option" where
  "config_lines [] c = Some (Inr c)"
| "config_lines (line # rest) c =
     (case config_line line c of
        None \<Rightarrow> None
      | Some (Inl e) \<Rightarrow> Some (Inl e)
      | Some (Inr c') \<Rightarrow> config_lines rest c')"

definition empty_section :: section_state where
  "empty_section = \<lparr>mapper = \<lparr>namespacePrefixes = [], names2exprString = []\<rparr>, expr2shortname = [],
     readNamespacePrefixes = False, readShortNames = False\<rparr>"

definition getXPathExpressions :: "string list \<Rightarrow> (si_error + XPathInfoMapper) option" where
  "getXPathExpressions configSection =
     map_option (\<lambda>r. err_bind r (\<lambda>c. Inr (mapper c))) (config_lines configSection empty_section)"

section \<open>The file\<close>

datatype Type = AgentState | DialogState | UserState | ContextState | SystemState

definition Types :: "Type list" where
  "Types = [AgentState, DialogState, UserState, ContextState, SystemState]"

fun TypeNames :: "Type \<Rightarrow> string" where
  "TypeNames AgentState = ''AgentState''"
| "TypeNames DialogState = ''DialogState''"
| "TypeNames UserState = ''UserState''"
| "TypeNames ContextState = ''ContextState''"
| "TypeNames SystemState = ''SystemState''"

definition trim :: "string \<Rightarrow> string" where
  "trim str = rev (dropWhile is_space (rev (dropWhile is_space str)))"

text \<open>The lines that \<open>getline\<close> gives until the end of the file is seen.\<close>

function lines_of :: "string \<Rightarrow> string list" where
  "lines_of s =
     takeWhile (\<lambda>c. c \<noteq> LF) s # (case dropWhile (\<lambda>c. c \<noteq> LF) s of [] \<Rightarrow> [] | _ # r \<Rightarrow> lines_of r)"
  by pat_completeness auto
termination
proof (relation "measure length")
  fix s :: string and x r
  assume "dropWhile (\<lambda>c. c \<noteq> LF) s = x # r"
  then have "length (tl (dropWhile (\<lambda>c. c \<noteq> LF) s)) < length s" by (intro length_tl_dropWhile) simp
  with \<open>dropWhile (\<lambda>c. c \<noteq> LF) s = x # r\<close> show "(r, s) \<in> measure length" by simp
qed simp

declare lines_of.simps [simp del]

record file_state =
  configSections :: "Type \<Rightarrow> string list"
  currentSection :: "string list"
  currentType :: "Type option"

definition close_section :: "file_state \<Rightarrow> file_state" where
  "close_section f =
     (case currentType f of None \<Rightarrow> f | Some t \<Rightarrow> f\<lparr>configSections := (configSections f)(t := currentSection f)\<rparr>)"

definition file_line :: "string \<Rightarrow> file_state \<Rightarrow> file_state" where
  "file_line raw f =
     (let line = trim raw
      in if line = [] \<or> hd line = HASH then f
         else
           let f1 = (if hd line = CHR ''['' then
                       (case find (\<lambda>t. line = ''['' @ TypeNames t @ '']'') Types of
                          None \<Rightarrow> f
                        | Some t \<Rightarrow> (close_section f)\<lparr>currentSection := [], currentType := Some t\<rparr>)
                     else f)
           in f1\<lparr>currentSection := currentSection f1 @ [line]\<rparr>)"

definition read_sections :: "string \<Rightarrow> Type \<Rightarrow> string list" where
  "read_sections content =
     configSections (close_section (fold file_line (lines_of content)
       \<lparr>configSections = (\<lambda>t. []), currentSection = [], currentType = None\<rparr>))"

fun infos_of :: "(Type \<Rightarrow> string list) \<Rightarrow> Type list \<Rightarrow> (si_error + (Type \<rightharpoonup> XPathInfoMapper)) option" where
  "infos_of secs [] = Some (Inr Map.empty)"
| "infos_of secs (t # ts) =
     (if secs t = [] then Some (Inl No_section)
      else
        (case getXPathExpressions (secs t) of
           None \<Rightarrow> None
         | Some (Inl e) \<Rightarrow> Some (Inl e)
         | Some (Inr m) \<Rightarrow> map_option (\<lambda>r. err_bind r (\<lambda>t2m. Inr (t2m(t \<mapsto> m)))) (infos_of secs ts)))"

definition getInfosByType :: "string option \<Rightarrow> (si_error + (Type \<rightharpoonup> XPathInfoMapper)) option" where
  "getInfosByType configFile =
     (case configFile of
        None \<Rightarrow> Some (Inl No_file)
      | Some content \<Rightarrow> infos_of (read_sections content) Types)"

section \<open>The information of a state\<close>

text \<open>\<open>doc\<close> is the document made from the items, if it is there.\<close>

record 'doc StateInfo =
  stateName :: string
  si_type :: Type
  info :: smap
  doc :: "'doc option"

definition new_StateInfo :: "XPathInfoMapper \<Rightarrow> smap \<Rightarrow> string \<Rightarrow> Type \<Rightarrow> si_error + 'doc StateInfo" where
  "new_StateInfo xm infoItems whatState t =
     (if list_ex (\<lambda>(key, v). smap_get (names2exprString xm) key = None) infoItems then Inl Unknown_item
      else Inr \<lparr>stateName = whatState, si_type = t, info = infoItems, doc = None\<rparr>)"

definition setInfo :: "XPathInfoMapper \<Rightarrow> string \<Rightarrow> string \<Rightarrow> 'doc StateInfo \<Rightarrow> si_error + 'doc StateInfo" where
  "setInfo xm name v s =
     (if smap_get (names2exprString xm) name = None then Inl Unknown_item
      else Inr (s\<lparr>info := smap_put name v (info s), doc := None\<rparr>))"

definition hasInfo :: "'doc StateInfo \<Rightarrow> string \<Rightarrow> bool" where
  "hasInfo s name \<longleftrightarrow> smap_get (info s) name \<noteq> None"

definition getInfo :: "'doc StateInfo \<Rightarrow> string \<Rightarrow> string" where
  "getInfo s name = (case smap_get (info s) name of Some v \<Rightarrow> v | None \<Rightarrow> [])"

text \<open>The receiver of states: \<open>currentBestGuess\<close> is updated with every state that arrives.\<close>

definition guess_entry :: "string \<times> string \<Rightarrow> smap \<Rightarrow> smap" where
  "guess_entry kv guess =
     (case smap_ref (snd kv) guess of (v, guess1) \<Rightarrow> smap_put (fst kv) v guess1)"

definition updateInformationState :: "smap \<Rightarrow> smap \<Rightarrow> smap" where
  "updateInformationState items currentBestGuess = fold guess_entry items currentBestGuess"

section \<open>What a section guarantees\<close>

definition splits :: "string \<Rightarrow> bool" where
  "splits expr \<longleftrightarrow> (\<exists>parts. splitXPathIntoParts expr = Some (Inr parts))"

definition section_ok :: "section_state \<Rightarrow> bool" where
  "section_ok c \<longleftrightarrow>
     smap_ok (namespacePrefixes (mapper c)) \<and> smap_ok (names2exprString (mapper c)) \<and> smap_ok (expr2shortname c)
     \<and> (\<forall>n e. smap_get (names2exprString (mapper c)) n = Some e \<longleftrightarrow> smap_get (expr2shortname c) e = Some n)
     \<and> (\<forall>n e. smap_get (names2exprString (mapper c)) n = Some e \<longrightarrow> splits e)"

lemma section_ok_empty: "section_ok empty_section"
  by (simp add: section_ok_def empty_section_def smap.ok_empty smap.get_empty)

lemma add_short_name_ok:
  assumes "section_ok c" "add_short_name n e c = Some (Inr c')"
  shows "section_ok c'"
proof -
  from assms(2) obtain parts where s: "splitXPathIntoParts e = Some (Inr parts)"
      "smap_get (names2exprString (mapper c)) n = None" "smap_get (expr2shortname c) e = None"
      "c' = c\<lparr>mapper := (mapper c)\<lparr>names2exprString := smap_put n e (names2exprString (mapper c))\<rparr>,
              expr2shortname := smap_put e n (expr2shortname c)\<rparr>"
    by (auto simp: add_short_name_def err_bind_Inr split: if_splits)
  have "splits e" using s(1) by (auto simp: splits_def)
  moreover have "smap_get (expr2shortname c) e' \<noteq> Some n" "smap_get (names2exprString (mapper c)) n' \<noteq> Some e" for e' n'
    using assms(1) s(2,3) unfolding section_ok_def by (metis option.distinct(1))+
  ultimately show ?thesis using assms(1) s(2-4) unfolding section_ok_def
    by (auto simp: smap.ok_put smap.get_put)
qed

lemma config_line_ok:
  assumes "section_ok c" "config_line line c = Some (Inr c')"
  shows "section_ok c'"
proof -
  consider "line = ''[namespace prefixes]''" | "line = ''[short names]''"
    | "line \<noteq> ''[namespace prefixes]''" "line \<noteq> ''[short names]''" by blast
  then show ?thesis
  proof cases
    case 3
    show ?thesis
    proof (cases "readNamespacePrefixes c")
      case True
      with 3 assms show ?thesis
        by (auto simp: config_line_def err_bind_Inr section_ok_def smap.ok_put)
    next
      case False
      with 3 assms show ?thesis
        by (auto simp: config_line_def intro: add_short_name_ok [OF assms(1)] split: if_splits option.splits)
    qed
  qed (use assms in \<open>auto simp: config_line_def section_ok_def split: if_splits\<close>)
qed

lemma config_lines_ok: "section_ok c \<Longrightarrow> config_lines ls c = Some (Inr c') \<Longrightarrow> section_ok c'"
  by (induction ls arbitrary: c) (auto split: option.splits sum.splits dest: config_line_ok)

section \<open>Writing a configuration\<close>

definition show_def :: "string \<times> string \<Rightarrow> string" where
  "show_def d = fst d @ [SPC] @ snd d"

definition show_section :: "Type \<Rightarrow> smap \<times> smap \<Rightarrow> string list" where
  "show_section t ps =
     (''['' @ TypeNames t @ '']'') # ''[namespace prefixes]'' # map show_def (fst ps)
     @ ''[short names]'' # map show_def (snd ps)"

definition show_lines :: "string list \<Rightarrow> string" where
  "show_lines ls = concat (map (\<lambda>l. l @ [LF]) ls)"

definition show_config :: "(Type \<Rightarrow> smap \<times> smap) \<Rightarrow> string" where
  "show_config cfg = show_lines (concat (map (\<lambda>t. show_section t (cfg t)) Types))"

definition def_ok :: "string \<times> string \<Rightarrow> bool" where
  "def_ok d \<longleftrightarrow> fst d \<noteq> [] \<and> (\<forall>c\<in>set (fst d). \<not> is_space c \<and> \<not> is_delim c) \<and> hd (fst d) \<notin> {HASH, CHR ''[''}
     \<and> snd d \<noteq> [] \<and> \<not> is_delim (hd (snd d)) \<and> LF \<notin> set (snd d) \<and> \<not> is_space (last (snd d))"

definition config_ok :: "smap \<times> smap \<Rightarrow> bool" where
  "config_ok ps \<longleftrightarrow> fst ps \<noteq> [] \<and> (\<forall>d\<in>set (fst ps @ snd ps). def_ok d)
     \<and> distinct (map fst (snd ps)) \<and> distinct (map snd (snd ps)) \<and> (\<forall>d\<in>set (snd ps). splits (snd d))"

definition mapper_of :: "smap \<times> smap \<Rightarrow> XPathInfoMapper" where
  "mapper_of ps =
     \<lparr>namespacePrefixes = fold (\<lambda>(k, v). smap_put k v) (fst ps) [],
      names2exprString = fold (\<lambda>(k, v). smap_put k v) (snd ps) []\<rparr>"

lemma split_definition_show: "def_ok d \<Longrightarrow> split_definition (show_def d) = Some d"
proof -
  assume ok: "def_ok d"
  obtain k v where d: "d = (k, v)" by (cases d)
  obtain c cs where v: "v = c # cs" using ok d by (cases v) (auto simp: def_ok_def)
  have 1: "find_if is_delim 0 (k @ SPC # v) = Some (length k)"
    using find_if_at [of 0 "[]" k is_delim SPC v] ok d by (auto simp: def_ok_def is_delim_def)
  have 2: "find_if (\<lambda>c. \<not> is_delim c) (length k) (k @ SPC # v) = Some (length k + 1)"
    using find_if_at [of "length k" k "[SPC]" "\<lambda>c. \<not> is_delim c" c cs] ok d v by (auto simp: def_ok_def is_delim_def)
  show ?thesis using 1 2 by (simp add: split_definition_def show_def_def d)
qed

lemma show_def_not_header: "def_ok d \<Longrightarrow> hd (show_def d) \<noteq> CHR ''['' \<and> show_def d \<noteq> CHR ''['' # s"
  by (cases "fst d") (auto simp: def_ok_def show_def_def)

lemma config_prefixes:
  assumes "\<forall>d\<in>set ps. def_ok d" "readNamespacePrefixes c"
  shows "config_lines (map show_def ps @ rest) c = config_lines rest (c\<lparr>mapper := (mapper c)
    \<lparr>namespacePrefixes := fold (\<lambda>(k, v). smap_put k v) ps (namespacePrefixes (mapper c))\<rparr>\<rparr>)"
  using assms
proof (induction ps arbitrary: c)
  case (Cons d ps)
  have "config_line (show_def d) c = Some (Inr (c\<lparr>mapper := (mapper c)
      \<lparr>namespacePrefixes := smap_put (fst d) (snd d) (namespacePrefixes (mapper c))\<rparr>\<rparr>))"
    using Cons.prems split_definition_show [of d] show_def_not_header [of d]
    by (cases d) (simp add: config_line_def)
  with Cons show ?case by (simp add: case_prod_unfold)
qed simp

lemma config_names:
  assumes "\<forall>d\<in>set ns. def_ok d" "\<not> readNamespacePrefixes c" "readShortNames c"
    and "section_ok c" "distinct (map fst ns)" "distinct (map snd ns)" "\<forall>d\<in>set ns. splits (snd d)"
    and "\<forall>d\<in>set ns. smap_get (names2exprString (mapper c)) (fst d) = None \<and> smap_get (expr2shortname c) (snd d) = None"
  shows "\<exists>c'. config_lines (map show_def ns) c = Some (Inr c') \<and> mapper c' = (mapper c)
    \<lparr>names2exprString := fold (\<lambda>(k, v). smap_put k v) ns (names2exprString (mapper c))\<rparr>"
  using assms
proof (induction ns arbitrary: c)
  case (Cons d ns)
  let ?c = "c\<lparr>mapper := (mapper c)\<lparr>names2exprString := smap_put (fst d) (snd d) (names2exprString (mapper c))\<rparr>,
              expr2shortname := smap_put (snd d) (fst d) (expr2shortname c)\<rparr>"
  obtain parts where "splitXPathIntoParts (snd d) = Some (Inr parts)" using Cons.prems(7) by (auto simp: splits_def)
  then have a: "add_short_name (fst d) (snd d) c = Some (Inr ?c)" using Cons.prems(8) by (simp add: add_short_name_def)
  then have l: "config_line (show_def d) c = Some (Inr ?c)"
    using Cons.prems split_definition_show [of d] show_def_not_header [of d] by (cases d) (simp add: config_line_def)
  have ok: "section_ok ?c" by (rule add_short_name_ok [OF Cons.prems(4) a])
  have "\<forall>x\<in>set ns. smap_get (names2exprString (mapper ?c)) (fst x) = None \<and> smap_get (expr2shortname ?c) (snd x) = None"
  proof
    fix x
    assume x: "x \<in> set ns"
    with Cons.prems(5,6) have "fst x \<noteq> fst d" "snd x \<noteq> snd d" by (auto simp: image_iff)
    with x Cons.prems(4,8) show "smap_get (names2exprString (mapper ?c)) (fst x) = None \<and> smap_get (expr2shortname ?c) (snd x) = None"
      by (simp add: section_ok_def smap.get_put)
  qed
  with Cons.IH [of ?c] Cons.prems ok obtain c' where "config_lines (map show_def ns) ?c = Some (Inr c')"
      "mapper c' = (mapper ?c)\<lparr>names2exprString := fold (\<lambda>(k, v). smap_put k v) ns (names2exprString (mapper ?c))\<rparr>"
    by auto
  with l show ?case by (simp add: case_prod_unfold)
qed simp

lemma fold_put_nonempty: "ps \<noteq> [] \<Longrightarrow> fold (\<lambda>(k, v). smap_put k v) ps m \<noteq> []"
proof (induction ps arbitrary: m)
  case (Cons d ps)
  have "smap_put k v m' \<noteq> []" for k v m' by (cases m') (auto split: if_splits)
  then show ?case using Cons.IH by (cases "ps = []") (auto simp: case_prod_unfold)
qed simp

lemma getXPathExpressions_show:
  assumes "config_ok ps"
  shows "getXPathExpressions (show_section t ps) = Some (Inr (mapper_of ps))"
proof -
  let ?p = "fold (\<lambda>(k, v). smap_put k v) (fst ps) []"
  let ?c1 = "empty_section\<lparr>readNamespacePrefixes := True\<rparr>"
  let ?c2 = "empty_section\<lparr>mapper := \<lparr>namespacePrefixes = ?p, names2exprString = []\<rparr>,
      readNamespacePrefixes := False, readShortNames := True\<rparr>"
  have ne: "?p \<noteq> []" using assms by (intro fold_put_nonempty) (simp add: config_ok_def)
  have "''['' @ TypeNames t @ '']'' \<noteq> ''[namespace prefixes]''" "''['' @ TypeNames t @ '']'' \<noteq> ''[short names]''"
    by (cases t; simp)+
  then have "config_lines (show_section t ps) empty_section =
      config_lines (map show_def (fst ps) @ ''[short names]'' # map show_def (snd ps)) ?c1"
    by (simp add: show_section_def config_line_def empty_section_def)
  also have "\<dots> = config_lines (map show_def (snd ps)) ?c2"
    using config_prefixes [of "fst ps" ?c1] assms ne
    by (simp add: config_ok_def config_line_def empty_section_def)
  finally have e: "config_lines (show_section t ps) empty_section = config_lines (map show_def (snd ps)) ?c2" .
  have "section_ok ?c2"
    using smap.fold_put_ok [OF smap.ok_empty, of "fst ps"] by (simp add: section_ok_def empty_section_def smap.ok_empty smap.get_empty)
  with config_names [of "snd ps" ?c2] assms obtain c' where
      "config_lines (map show_def (snd ps)) ?c2 = Some (Inr c')" "mapper c' = mapper_of ps"
    by (auto simp: config_ok_def empty_section_def smap.get_empty mapper_of_def)
  with e show ?thesis by (simp add: getXPathExpressions_def)
qed

section \<open>Reading a written configuration\<close>

lemma lines_of_show: "\<forall>l\<in>set ls. LF \<notin> set l \<Longrightarrow> lines_of (show_lines ls) = ls @ [[]]"
proof (induction ls)
  case Nil
  show ?case by (subst lines_of.simps) (simp add: show_lines_def)
next
  case (Cons l ls)
  then have "LF \<notin> set l" by simp
  with Cons show ?case
    by (subst lines_of.simps) (simp add: show_lines_def takeWhile_until dropWhile_until)
qed

lemma trim_id: "l \<noteq> [] \<Longrightarrow> \<not> is_space (hd l) \<Longrightarrow> \<not> is_space (last l) \<Longrightarrow> trim l = l"
proof -
  assume a: "l \<noteq> []" "\<not> is_space (hd l)" "\<not> is_space (last l)"
  have "dropWhile is_space l = l" using a(1,2) by (cases l) auto
  moreover have "dropWhile is_space (rev l) = rev l" using a(1,3) by (cases l rule: rev_cases) auto
  ultimately show ?thesis by (simp add: trim_def)
qed

lemma file_line_show_def:
  assumes "def_ok d"
  shows "file_line (show_def d) f = f\<lparr>currentSection := currentSection f @ [show_def d]\<rparr>"
proof -
  have "show_def d \<noteq> []" "hd (show_def d) = hd (fst d)" "last (show_def d) = last (snd d)"
    using assms by (auto simp: show_def_def def_ok_def)
  moreover have "\<not> is_space (hd (fst d))" using assms by (auto simp: def_ok_def)
  ultimately have "trim (show_def d) = show_def d" using assms by (intro trim_id) (auto simp: def_ok_def)
  with \<open>show_def d \<noteq> []\<close> \<open>hd (show_def d) = hd (fst d)\<close> show ?thesis using assms
    by (simp add: file_line_def def_ok_def)
qed

lemma file_lines_defs:
  "\<forall>d\<in>set ds. def_ok d \<Longrightarrow> fold file_line (map show_def ds) f = f\<lparr>currentSection := currentSection f @ map show_def ds\<rparr>"
  by (induction ds arbitrary: f) (simp_all add: file_line_show_def)

lemma file_line_header:
  "file_line (''['' @ TypeNames t @ '']'') f
     = (close_section f)\<lparr>currentSection := [''['' @ TypeNames t @ '']''], currentType := Some t\<rparr>"
proof -
  have "trim (''['' @ TypeNames t @ '']'') = ''['' @ TypeNames t @ '']''" by (rule trim_id) (simp_all add: is_space_def)
  moreover have "find (\<lambda>u. ''['' @ TypeNames t @ '']'' = ''['' @ TypeNames u @ '']'') Types = Some t"
    by (cases t) (simp_all add: Types_def)
  ultimately show ?thesis by (simp add: file_line_def Let_def)
qed

lemma file_line_part:
  "file_line ''[namespace prefixes]'' f = f\<lparr>currentSection := currentSection f @ [''[namespace prefixes]'']\<rparr>"
  "file_line ''[short names]'' f = f\<lparr>currentSection := currentSection f @ [''[short names]'']\<rparr>"
  by (simp_all add: file_line_def Let_def trim_id is_space_def Types_def)

lemma file_section:
  assumes "config_ok ps"
  shows "fold file_line (show_section t ps) f
    = (close_section f)\<lparr>currentSection := show_section t ps, currentType := Some t\<rparr>"
  using assms
  by (simp add: show_section_def file_line_header file_line_part file_lines_defs config_ok_def del: append.simps)

lemma show_def_no_LF: "def_ok d \<Longrightarrow> LF \<notin> set (show_def d)"
  by (auto simp: def_ok_def show_def_def is_space_def)

lemma header_no_LF: "LF \<notin> set (TypeNames u)"
  by (cases u) simp_all

lemma read_sections_show:
  assumes "\<forall>t. config_ok (cfg t)"
  shows "read_sections (show_config cfg) t = show_section t (cfg t)"
proof -
  have "LF \<notin> set l" if "l \<in> set (show_section u (cfg u))" for u l
  proof -
    have "\<forall>d\<in>set (fst (cfg u) @ snd (cfg u)). LF \<notin> set (show_def d)"
      using assms show_def_no_LF unfolding config_ok_def by blast
    with that header_no_LF [of u] show ?thesis by (auto simp: show_section_def)
  qed
  then have l: "lines_of (show_config cfg) = concat (map (\<lambda>t. show_section t (cfg t)) Types) @ [[]]"
    unfolding show_config_def by (intro lines_of_show) auto
  have "file_line [] f = f" for f by (simp add: file_line_def trim_def)
  then show ?thesis using assms unfolding read_sections_def l
    by (cases t) (simp_all add: Types_def file_section close_section_def)
qed

section \<open>Properties of the configuration\<close>

text \<open>C20: A configuration file is read back: writing the prefixes and short names of all five kinds
  of state as sections and reading the file gives, for every kind, the map from prefixes to
  namespaces and the map from short names to expressions.\<close>

theorem getInfosByType_roundtrip:
  assumes "\<forall>t. config_ok (cfg t)"
  shows "getInfosByType (Some (show_config cfg)) = Some (Inr (\<lambda>t. Some (mapper_of (cfg t))))"
proof -
  have ne: "show_section t ps \<noteq> []" for t ps by (simp add: show_section_def)
  have "infos_of (read_sections (show_config cfg)) ts
      = Some (Inr (\<lambda>t. if t \<in> set ts then Some (mapper_of (cfg t)) else None))" for ts
    using assms ne by (induction ts) (auto simp: read_sections_show getXPathExpressions_show fun_eq_iff)
  moreover have "t \<in> set Types" for t by (cases t) (simp_all add: Types_def)
  ultimately show ?thesis by (simp add: getInfosByType_def)
qed

definition ex_config :: "Type \<Rightarrow> smap \<times> smap" where
  "ex_config t = ([(''s'', ''http://semaine'')], [(''mood'', ''/s:a/@mood'')])"

lemma ex_config_ok: "config_ok (ex_config t)"
proof -
  have "splits ''/s:a/@mood''"
    using split_xpath_show [of "[XStep ''s'' ''a'' None]" "XAttr ''mood''"]
    by (auto simp: splits_def show_xpath_def show_step_def show_attr_def show_last_def step_ok_def name_ok_def
        attr_ok_def last_ok_def colon_misread_def ahead_def)
  then show ?thesis by (simp add: config_ok_def ex_config_def def_ok_def is_delim_def is_space_def)
qed

theorem getInfosByType_roundtrip_witness:
  "getInfosByType (Some (show_config ex_config))
    = Some (Inr (\<lambda>t. Some \<lparr>namespacePrefixes = [(''s'', ''http://semaine'')], names2exprString = [(''mood'', ''/s:a/@mood'')]\<rparr>))"
  using getInfosByType_roundtrip [of ex_config] ex_config_ok
  by (simp add: ex_config_def [abs_def] mapper_of_def)

text \<open>What a section that is accepted guarantees: no two short names have the same expression, and
  every expression has been split without an exception.\<close>

theorem getXPathExpressions_sound:
  assumes "getXPathExpressions configSection = Some (Inr xm)"
  shows "(\<forall>n n' e. smap_get (names2exprString xm) n = Some e \<and> smap_get (names2exprString xm) n' = Some e \<longrightarrow> n = n')
    \<and> (\<forall>n e. smap_get (names2exprString xm) n = Some e \<longrightarrow> splits e)"
proof -
  from assms obtain c where "config_lines configSection empty_section = Some (Inr c)" "xm = mapper c"
    by (auto simp: getXPathExpressions_def err_bind_Inr)
  with config_lines_ok [OF section_ok_empty] have "section_ok c" "xm = mapper c" by auto
  then show ?thesis unfolding section_ok_def by (metis option.inject)
qed

theorem getXPathExpressions_sound_witness:
  "\<exists>xm. getXPathExpressions (show_section UserState (ex_config UserState)) = Some (Inr xm)
    \<and> smap_get (names2exprString xm) ''mood'' = Some ''/s:a/@mood'' \<and> splits ''/s:a/@mood''"
proof -
  have s: "getXPathExpressions (show_section UserState (ex_config UserState)) = Some (Inr (mapper_of (ex_config UserState)))"
    by (rule getXPathExpressions_show [OF ex_config_ok])
  have m: "smap_get (names2exprString (mapper_of (ex_config UserState))) ''mood'' = Some ''/s:a/@mood''"
    by (simp add: mapper_of_def ex_config_def smap_get_def)
  from s m getXPathExpressions_sound [OF s] show ?thesis by blast
qed

section \<open>Properties of a state\<close>

text \<open>All items of a state are configured ones.\<close>

definition state_ok :: "XPathInfoMapper \<Rightarrow> 'doc StateInfo \<Rightarrow> bool" where
  "state_ok xm s \<longleftrightarrow> smap_ok (info s) \<and> (\<forall>k v. smap_get (info s) k = Some v \<longrightarrow> smap_get (names2exprString xm) k \<noteq> None)"

text \<open>Setting an item of a state whose items are configured ones: an item that is not configured
  is refused; otherwise it has the new value, the other items keep theirs, the items remain
  configured ones, and the document is dropped, to be built anew.\<close>

theorem setInfo_correct:
  assumes "state_ok xm s"
  shows "case setInfo xm name v s of
      Inl e \<Rightarrow> e = Unknown_item \<and> smap_get (names2exprString xm) name = None
    | Inr s' \<Rightarrow> smap_get (names2exprString xm) name \<noteq> None \<and> state_ok xm s' \<and> doc s' = None
        \<and> hasInfo s' name \<and> getInfo s' name = v
        \<and> (\<forall>k. k \<noteq> name \<longrightarrow> hasInfo s' k = hasInfo s k \<and> getInfo s' k = getInfo s k)"
  using assms
  by (auto simp: setInfo_def state_ok_def hasInfo_def getInfo_def smap.ok_put smap.get_put)

theorem setInfo_correct_witness:
  "case setInfo (mapper_of (ex_config UserState)) ''mood'' ''calm''
      \<lparr>stateName = ''UserState'', si_type = UserState, info = [], doc = Some (1::nat)\<rparr> of
      Inl e \<Rightarrow> False
    | Inr s' \<Rightarrow> getInfo s' ''mood'' = ''calm'' \<and> doc s' = None"
  using setInfo_correct [of "mapper_of (ex_config UserState)"
      "\<lparr>stateName = ''UserState'', si_type = UserState, info = [], doc = Some (1::nat)\<rparr>" "''mood''" "''calm''"]
  by (auto simp: state_ok_def smap_ok_def smap_get_def mapper_of_def ex_config_def split: sum.splits)

text \<open>A guess in which every item is empty.\<close>

definition blank :: "smap \<Rightarrow> bool" where
  "blank g \<longleftrightarrow> smap_ok g \<and> (\<forall>k v. smap_get g k = Some v \<longrightarrow> v = [])"

lemma blank_put: "blank g \<Longrightarrow> blank (smap_put k [] g)"
  by (auto simp: blank_def smap.ok_put smap.get_put)

lemma blank_entry: "blank g \<Longrightarrow> blank (guess_entry kv g)"
proof -
  assume b: "blank g"
  then have "fst (smap_ref (snd kv) g) = []" "blank (snd (smap_ref (snd kv) g))"
    using blank_put [OF b] by (auto simp: smap_ref_def split: option.split) (auto simp: blank_def)
  then show ?thesis by (simp add: guess_entry_def case_prod_unfold blank_put)
qed

lemma blank_update: "blank g \<Longrightarrow> blank (updateInformationState items g)"
  unfolding updateInformationState_def by (induction items arbitrary: g) (simp_all add: blank_entry)

text \<open>The receiver of states never learns anything: the current best guess starts empty, and
  every update copies entries of the guess to each other instead of the values of the state,
  so that every item the guess knows is empty, whatever states arrive.\<close>

theorem guess_never_learns:
  "list_all (\<lambda>(k, v). v = []) (fold updateInformationState states [])"
proof -
  have "blank (fold updateInformationState states g)" if "blank g" for g
    using that by (induction states arbitrary: g) (simp_all add: blank_update)
  from this [of "[]"] have "blank (fold updateInformationState states [])"
    by (simp add: blank_def smap.ok_empty smap.get_empty)
  then show ?thesis by (auto simp: blank_def smap_get_entry list_all_iff)
qed

theorem guess_never_learns_witness:
  "list_all (\<lambda>(k, v). v = []) (updateInformationState [(''mood'', ''calm'')] [])"
  using guess_never_learns [of "[[(''mood'', ''calm'')]]"] by simp

end
