(* ===== verification/Meta_Messenger.thy ===== *)
theory Meta_Messenger
  imports Prelude "HOL-Library.Word"
begin

text \<open>
  The meta messenger of a SEMAINE component (\<open>components/meta/MetaMessenger.cpp\<close>): statistics, state
  reports, answers to the pings of the system manager, and the common time of the system.  Numbers
  of type \<open>long\<close> in the statistics are words of 64 bits; times in milliseconds are integers.  The clock
  is an argument of the operations that read it.  An operation that sends takes the answer of the
  middleware as an argument: \<open>False\<close> is a \<open>CMSException\<close>.
\<close>

section \<open>Statistics\<close>

record Statistics =
  memory :: nat
  actTimes :: "64 word list"
  reactTimes :: "64 word list"
  transmitTimes :: "64 word list"
  messagesReceived :: int

definition new_Statistics :: "nat \<Rightarrow> Statistics" where
  "new_Statistics mem = \<lparr>memory = mem, actTimes = [], reactTimes = [], transmitTimes = [], messagesReceived = 0\<rparr>"

text \<open>Appending to a list and dropping its first element when it is longer than the memory.\<close>

definition remember :: "nat \<Rightarrow> 64 word \<Rightarrow> 64 word list \<Rightarrow> 64 word list" where
  "remember mem millis ts =
     (let ts1 = ts @ [millis] in if length ts1 > mem then tl ts1 else ts1)"

definition actTime :: "64 word \<Rightarrow> Statistics \<Rightarrow> Statistics" where
  "actTime millis st = st\<lparr>actTimes := remember (memory st) millis (actTimes st)\<rparr>"

definition reactTime :: "64 word \<Rightarrow> Statistics \<Rightarrow> Statistics" where
  "reactTime millis st = st\<lparr>reactTimes := remember (memory st) millis (reactTimes st)\<rparr>"

definition transmitTime :: "64 word \<Rightarrow> Statistics \<Rightarrow> Statistics" where
  "transmitTime millis st = st\<lparr>transmitTimes := remember (memory st) millis (transmitTimes st)\<rparr>"

definition countMessageReceived :: "Statistics \<Rightarrow> Statistics" where
  "countMessageReceived st = st\<lparr>messagesReceived := messagesReceived st + 1\<rparr>"

text \<open>
  The quotient \<open>total/size\<close> of a \<open>long\<close> and a \<open>size_t\<close> is a quotient of unsigned numbers.
\<close>

definition average :: "64 word list \<Rightarrow> 64 word" where
  "average vals =
     (if vals = [] then -1 else fold (\<lambda>v total. total + v) vals 0 div word_of_nat (length vals))"

section \<open>The messenger\<close>

datatype pval = P_str string | P_bool bool | P_long int | P_int int

type_synonym meta_message = "(string \<times> pval) list"

record MetaMessenger =
  componentName :: string
  systemReady :: bool
  timeDelta :: int
  lastSeenAlive :: int
  lastSeenState :: string
  receiveTopics :: string
  sendTopics :: string
  meta_isInput :: bool
  meta_isOutput :: bool
  stats :: Statistics
  outbox :: "meta_message list"

definition STATE_STARTING :: string where "STATE_STARTING = ''starting''"
definition STATE_READY :: string where "STATE_READY = ''ready''"
definition STATE_STOPPED :: string where "STATE_STOPPED = ''stopped''"
definition STATE_FAILURE :: string where "STATE_FAILURE = ''failure''"
definition STATE_STALLED :: string where "STATE_STALLED = ''stalled''"

lemmas states = STATE_STARTING_def STATE_READY_def STATE_STOPPED_def STATE_FAILURE_def STATE_STALLED_def

definition TIMEOUT_PERIOD :: int where
  "TIMEOUT_PERIOD = 3000"

definition new_MetaMessenger :: "string \<Rightarrow> MetaMessenger" where
  "new_MetaMessenger name =
     \<lparr>componentName = name, systemReady = False, timeDelta = 0, lastSeenAlive = 0, lastSeenState = [],
      receiveTopics = [], sendTopics = [], meta_isInput = False, meta_isOutput = False,
      stats = new_Statistics 30, outbox = []\<rparr>"

definition getTime :: "int \<Rightarrow> MetaMessenger \<Rightarrow> int" where
  "getTime now mm = now + timeDelta mm"

definition setTime :: "int \<Rightarrow> int \<Rightarrow> MetaMessenger \<Rightarrow> MetaMessenger" where
  "setTime now systemTime mm = mm\<lparr>timeDelta := systemTime - now\<rparr>"

definition setSystemReady :: "bool \<Rightarrow> MetaMessenger \<Rightarrow> MetaMessenger" where
  "setSystemReady ready mm = mm\<lparr>systemReady := ready\<rparr>"

definition IamAlive :: "int \<Rightarrow> MetaMessenger \<Rightarrow> MetaMessenger" where
  "IamAlive now mm =
     (if timeDelta mm \<noteq> 0 then mm\<lparr>lastSeenAlive := getTime now mm\<rparr> else mm)\<lparr>lastSeenState := STATE_READY\<rparr>"

definition send_meta :: "bool \<Rightarrow> meta_message \<Rightarrow> MetaMessenger \<Rightarrow> bool \<times> MetaMessenger" where
  "send_meta ok m mm = (ok, if ok then mm\<lparr>outbox := outbox mm @ [m]\<rparr> else mm)"

text \<open>
  \<open>details\<close> is the text with that of the exception appended.  The state is remembered when the
  message could be made, even if it cannot be sent.
\<close>

definition reportState :: "bool \<Rightarrow> bool \<Rightarrow> string \<Rightarrow> string \<Rightarrow> MetaMessenger \<Rightarrow> bool \<times> MetaMessenger" where
  "reportState made ok st details mm =
     (if \<not> made then (False, mm)
      else send_meta ok ([(''ComponentName'', P_str (componentName mm)), (''ComponentState'', P_str st)]
             @ (if details = [] then [] else [(''ComponentStateDetails'', P_str details)])) (mm\<lparr>lastSeenState := st\<rparr>))"

definition report_topics :: "bool \<Rightarrow> MetaMessenger \<Rightarrow> bool \<times> MetaMessenger" where
  "report_topics ok mm =
     send_meta ok [(''ComponentName'', P_str (componentName mm)), (''ReceiveTopics'', P_str (receiveTopics mm)),
       (''SendTopics'', P_str (sendTopics mm)), (''IsInputComponent'', P_bool (meta_isInput mm)),
       (''IsOutputComponent'', P_bool (meta_isOutput mm))] mm"

fun join_topics :: "string list \<Rightarrow> string" where
  "join_topics [] = []"
| "join_topics [t] = t"
| "join_topics (t # ts) = t @ [SPC] @ join_topics ts"

definition reportTopics ::
  "bool \<Rightarrow> string list \<Rightarrow> string list \<Rightarrow> bool \<Rightarrow> bool \<Rightarrow> MetaMessenger \<Rightarrow> bool \<times> MetaMessenger" where
  "reportTopics ok receivers senders isInput isOutput mm =
     report_topics ok (mm\<lparr>receiveTopics := join_topics receivers, sendTopics := join_topics senders,
       meta_isInput := isInput, meta_isOutput := isOutput\<rparr>)"

text \<open>
  A message of the system manager, with the properties it may have.  A ping is answered in two
  steps, with the update of the last state in between: \<open>seems_stalled\<close> and \<open>ping_reply\<close>.
\<close>

record manager_message =
  SYSTEM_READY :: "bool option"
  SYSTEM_READY_TIME :: "int option"
  PING :: bool
  REPORT_TOPICS :: bool

definition seems_stalled :: "int \<Rightarrow> MetaMessenger \<Rightarrow> bool" where
  "seems_stalled now mm \<longleftrightarrow>
     lastSeenState mm = STATE_READY \<and> systemReady mm
     \<and> (lastSeenAlive mm > getTime now mm \<or> getTime now mm - lastSeenAlive mm > TIMEOUT_PERIOD)"

definition optional_avg :: "string \<Rightarrow> 64 word list \<Rightarrow> meta_message" where
  "optional_avg key vals = (if average vals \<noteq> -1 then [(key, P_long (sint (average vals)))] else [])"

definition ping_message :: "MetaMessenger \<Rightarrow> meta_message" where
  "ping_message mm =
     [(''ComponentName'', P_str (componentName mm)), (''ComponentState'', P_str (lastSeenState mm)),
      (''LastSeenAlive'', P_long (lastSeenAlive mm))]
     @ optional_avg ''AverageActTime'' (actTimes (stats mm))
     @ optional_avg ''AverageReactTime'' (reactTimes (stats mm))
     @ optional_avg ''AverageTransmitTime'' (transmitTimes (stats mm))
     @ [(''TotalMessagesReceived'', P_int (messagesReceived (stats mm)))]"

definition ping_reply :: "bool \<Rightarrow> MetaMessenger \<Rightarrow> bool \<times> MetaMessenger" where
  "ping_reply ok mm = send_meta ok (ping_message mm) mm"

definition take_settings :: "int \<Rightarrow> manager_message \<Rightarrow> MetaMessenger \<Rightarrow> MetaMessenger" where
  "take_settings now m mm =
     (let mm1 = (case SYSTEM_READY m of Some ready \<Rightarrow> setSystemReady ready mm | None \<Rightarrow> mm)
      in case SYSTEM_READY_TIME m of Some t \<Rightarrow> setTime now t mm1 | None \<Rightarrow> mm1)"

definition mark_stalled :: "int \<Rightarrow> MetaMessenger \<Rightarrow> MetaMessenger" where
  "mark_stalled now mm = (if seems_stalled now mm then mm\<lparr>lastSeenState := STATE_STALLED\<rparr> else mm)"

text \<open>The whole handler; an exception ends it.\<close>

definition onMessage :: "int \<Rightarrow> int \<Rightarrow> bool \<Rightarrow> bool \<Rightarrow> manager_message \<Rightarrow> MetaMessenger \<Rightarrow> MetaMessenger" where
  "onMessage now1 now2 ok1 ok2 m mm =
     (let mm1 = take_settings now1 m mm
      in case (if PING m then ping_reply ok1 (mark_stalled now2 mm1) else (True, mm1)) of (ok, mm2) \<Rightarrow>
           if ok \<and> REPORT_TOPICS m then snd (report_topics ok2 mm2) else mm2)"

section \<open>Properties of the statistics\<close>

lemma remember_last: "0 < mem \<Longrightarrow>
    remember mem x (drop (length xs - mem) xs) = drop (Suc (length xs) - mem) (xs @ [x])"
  by (cases "length xs < mem") (auto simp: remember_def Let_def Suc_diff_le drop_Suc tl_drop)

text \<open>The statistics remember the latest values: after any sequence of times the list holds
  exactly the last ones, at most as many as its memory, in order.\<close>

theorem actTime_remembers:
  assumes "0 < mem"
  shows "actTimes (fold actTime ts (new_Statistics mem)) = drop (length ts - mem) ts"
proof -
  have "memory (fold actTime ts (new_Statistics mem)) = mem
      \<and> actTimes (fold actTime ts (new_Statistics mem)) = drop (length ts - mem) ts"
  proof (induction ts rule: rev_induct)
    case (snoc x xs)
    with remember_last [OF assms, of x xs] show ?case by (simp add: actTime_def)
  qed (simp add: new_Statistics_def)
  then show ?thesis by simp
qed

theorem actTime_remembers_witness:
  "actTimes (fold actTime [5, 7, 9] (new_Statistics 2)) = [7, 9]"
  using actTime_remembers [of 2 "[5, 7, 9]"] by simp

lemma fold_sum_word: "fold (\<lambda>v total. total + v) vals (a :: 64 word) = a + sum_list vals"
  by (induction vals arbitrary: a) (simp_all add: algebra_simps)

lemma uint_sum_list:
  "(\<Sum>v\<leftarrow>vals. uint v) < 2 ^ 64 \<Longrightarrow> uint (sum_list (vals :: 64 word list)) = (\<Sum>v\<leftarrow>vals. uint v)"
proof (induction vals)
  case (Cons v vals)
  have "0 \<le> (\<Sum>v\<leftarrow>vals. uint v)" by (intro sum_list_nonneg) auto
  moreover have "(\<Sum>v\<leftarrow>vals. uint v) < 2 ^ 64"
  proof (rule le_less_trans [OF _ Cons.prems])
    show "(\<Sum>v\<leftarrow>vals. uint v) \<le> (\<Sum>v\<leftarrow>v # vals. uint v)" by simp
  qed
  ultimately show ?case using Cons by (simp add: uint_word_ariths)
qed simp

lemma sint_small: "uint (w :: 64 word) < 2 ^ 63 \<Longrightarrow> sint w = uint w"
proof -
  assume "uint w < 2 ^ 63"
  moreover have "- (2 ^ 63) \<le> uint w" by (rule order_trans [OF _ uint_ge_0]) simp
  ultimately have "signed_take_bit 63 (uint w) = uint w" by (simp add: signed_take_bit_int_eq_self)
  then show ?thesis by (simp add: sint_uint)
qed

lemma uint_average:
  "vals \<noteq> [] \<Longrightarrow> length vals < 2 ^ 63 \<Longrightarrow> uint (average vals) = uint (sum_list vals) div int (length vals)"
  by (simp add: average_def fold_sum_word uint_div_distrib unsigned_of_nat take_bit_nat_eq_self)

text \<open>The average of times that are not negative, with a sum in the range of \<open>long\<close>, is the
  quotient of their sum and their number, rounded down.\<close>

theorem average_correct:
  assumes "vals \<noteq> []" "(\<Sum>v\<leftarrow>vals. uint v) < 2 ^ 63" "length vals < 2 ^ 63"
  shows "sint (average vals) = (\<Sum>v\<leftarrow>vals. uint v) div int (length vals)"
proof -
  have s: "uint (sum_list vals) = (\<Sum>v\<leftarrow>vals. uint v)" using assms(2) by (intro uint_sum_list) simp
  have "uint (sum_list vals) div int (length vals) \<le> uint (sum_list vals) div 1"
    using assms(1) by (intro zdiv_mono2) (auto simp: Suc_le_eq)
  with assms s uint_average [OF assms(1,3)] have "uint (average vals) < 2 ^ 63" by simp
  with sint_small uint_average [OF assms(1,3)] s show ?thesis by simp
qed

theorem average_correct_witness: "sint (average [4, 7, 9]) = 6"
  using average_correct [of "[4, 7, 9]"] by simp

lemma uint_sum_sint:
  "uint (sum_list (vals :: 64 word list)) = (\<Sum>v\<leftarrow>vals. sint v) mod 2 ^ 64"
proof (induction vals)
  case (Cons v vals)
  have "uint v = sint v mod 2 ^ 64" by (simp add: uint_sint take_bit_eq_mod)
  with Cons show ?case by (simp add: uint_word_ariths mod_add_eq)
qed simp

text \<open>When the sum of the times is negative, as the differences of clocks of two machines can be,
  the average of two or more times is a huge positive number: the sum is divided as an unsigned
  number.\<close>

theorem average_negative:
  assumes "2 \<le> length vals" "length vals < 2 ^ 63" "(\<Sum>v\<leftarrow>vals. sint v) < 0" "- (2 ^ 63) \<le> (\<Sum>v\<leftarrow>vals. sint v)"
  shows "sint (average vals) = (2 ^ 64 + (\<Sum>v\<leftarrow>vals. sint v)) div int (length vals)
    \<and> 2 ^ 63 div int (length vals) \<le> sint (average vals)"
proof -
  let ?s = "\<Sum>v\<leftarrow>vals. sint v" and ?n = "int (length vals)"
  have "?s mod 2 ^ 64 = (2 ^ 64 + ?s) mod 2 ^ 64" by simp
  also have "\<dots> = 2 ^ 64 + ?s" using assms(3,4) by (intro mod_pos_pos_trivial) simp_all
  finally have u: "uint (average vals) = (2 ^ 64 + ?s) div ?n"
    using uint_average [OF _ assms(2)] uint_sum_sint [of vals] assms(1) by (cases vals) simp_all
  have "(2 ^ 64 + ?s) div ?n \<le> (2 ^ 64 + ?s) div 2" using assms(1,3,4) by (intro zdiv_mono2) auto
  also have "\<dots> < 2 ^ 63" using assms(3) by simp
  finally have "sint (average vals) = uint (average vals)" using u by (intro sint_small) simp
  moreover have "2 ^ 63 div ?n \<le> (2 ^ 64 + ?s) div ?n" using assms(1,4) by (intro zdiv_mono1) auto
  ultimately show ?thesis using u by simp
qed

theorem average_negative_witness: "sint (average [-3, 1]) = 9223372036854775807"
  using average_negative [of "[-3, 1]"] by simp

section \<open>Properties of the messenger\<close>

text \<open>The answer to a ping that changes no settings: the state that is
  reported is the last one seen, except that a ready component of a ready system that was not
  seen alive during the last three seconds of the common time is reported, and remembered, as
  stalled; its time stamp and topics stay as they are.\<close>

theorem ping_answer:
  assumes "PING m" "SYSTEM_READY m = None" "SYSTEM_READY_TIME m = None" "\<not> REPORT_TOPICS m"
  shows "let st = (if lastSeenState mm = STATE_READY \<and> systemReady mm
           \<and> \<not> (getTime now mm - TIMEOUT_PERIOD \<le> lastSeenAlive mm \<and> lastSeenAlive mm \<le> getTime now mm)
           then STATE_STALLED else lastSeenState mm);
         mm' = onMessage now1 now True ok2 m mm
     in lastSeenState mm' = st \<and> map_of (last (outbox mm')) ''ComponentState'' = Some (P_str st)
       \<and> butlast (outbox mm') = outbox mm \<and> lastSeenAlive mm' = lastSeenAlive mm"
  using assms
  by (auto simp: onMessage_def take_settings_def mark_stalled_def seems_stalled_def ping_reply_def send_meta_def
      ping_message_def Let_def)

definition ex_meta :: MetaMessenger where
  "ex_meta = (new_MetaMessenger ''ASR'')\<lparr>systemReady := True, timeDelta := 10, lastSeenAlive := 500, lastSeenState := STATE_READY\<rparr>"

definition ex_ping :: manager_message where
  "ex_ping = \<lparr>SYSTEM_READY = None, SYSTEM_READY_TIME = None, PING = True, REPORT_TOPICS = False\<rparr>"

theorem ping_answer_witness:
  "lastSeenState (onMessage 0 4000 True True ex_ping ex_meta) = ''stalled''
    \<and> lastSeenState (onMessage 0 3000 True True ex_ping ex_meta) = ''ready''"
  using ping_answer [of ex_ping ex_meta 4000 0 True] ping_answer [of ex_ping ex_meta 3000 0 True]
  by (simp add: ex_ping_def ex_meta_def new_MetaMessenger_def getTime_def TIMEOUT_PERIOD_def states Let_def)

text \<open>A component whose clock agrees with the system time is reported as stalled although it has
  just said that it is alive: the difference 0 is taken for a time that is not known yet, and the
  time stamp is never set.\<close>

theorem alive_but_stalled:
  assumes "timeDelta mm = 0" "systemReady mm" "lastSeenAlive mm + TIMEOUT_PERIOD < now"
    and "PING m" "SYSTEM_READY m = None" "SYSTEM_READY_TIME m = None"
  shows "lastSeenState (onMessage now1 now ok1 ok2 m (IamAlive now mm)) = STATE_STALLED"
  using assms
  by (auto simp: onMessage_def IamAlive_def take_settings_def mark_stalled_def seems_stalled_def ping_reply_def
      send_meta_def report_topics_def getTime_def Let_def states)

theorem alive_but_stalled_witness:
  "lastSeenState (onMessage 0 4000 True True ex_ping (IamAlive 4000
     (setTime 1000 1000 (setSystemReady True (new_MetaMessenger ''ASR''))))) = ''stalled''"
  using alive_but_stalled [of "setTime 1000 1000 (setSystemReady True (new_MetaMessenger ''ASR''))" 4000 ex_ping 0 True True]
  by (simp add: ex_ping_def setTime_def setSystemReady_def new_MetaMessenger_def TIMEOUT_PERIOD_def states)

end
