(* ===== verification/Component_Thread.thy ===== *)
theory Component_Thread
  imports Meta_Messenger
begin

text \<open>
  A running SEMAINE component: the thread of \<open>Component::run\<close> (\<open>components/Component.cpp\<close>), the threads
  of its receivers (\<open>cms/receiver/Receiver.cpp\<close>), and the thread of the meta messenger.  The state has
  a program counter for every thread; a step runs one of them to its next access to what the threads
  share.  What depends on the subclass of the component or on the middleware (whether \<open>act\<close>, \<open>react\<close> or a
  report throws, the clock) is the argument \<open>outcome\<close> of a step.  Further members record the message
  that \<open>run\<close> has taken and not yet given to \<open>react\<close> (\<open>in_hand\<close>), the messages
  accepted by the receivers (\<open>delivered\<close>) and those given to \<open>react\<close> (\<open>handled\<close>).
\<close>

section \<open>State\<close>

text \<open>The places in \<open>run\<close>; \<open>C_abort\<close> is the failed assertion that the receiver has a message.\<close>

datatype 'm cpc =
    C_start | C_report | C_loop | C_alive | C_ready | C_wait | C_act | C_poll
  | C_got nat | C_react nat 'm | C_done | C_abort

datatype rpc = R_idle | R_stored | R_waiting

datatype mpc = M_idle | M_stall manager_message | M_reply manager_message

record 'm Comp =
  pc :: "'m cpc"
  comp_state :: string
  exit_requested :: bool
  inputWaiting :: "nat list"
  meta :: MetaMessenger
  mpc_of :: mpc
  receive_topics :: "string list"
  send_topics :: "string list"
  is_input :: bool
  is_output :: bool
  connected :: nat
  rpc_of :: "nat \<Rightarrow> rpc"
  message :: "nat \<Rightarrow> 'm option"
  in_hand :: "(nat \<times> 'm) option"
  delivered :: "nat \<Rightarrow> 'm list"
  handled :: "(nat \<times> 'm) list"

text \<open>
  \<open>made\<close> and \<open>sent_ok\<close> are for a report of the step, \<open>fail_made\<close> and \<open>fail_sent\<close> for the report of a failure that
  follows; \<open>timed\<close> is whether the time of the message can be read.
\<close>

record outcome =
  ok :: bool
  timed :: bool
  started :: nat
  made :: bool
  sent_ok :: bool
  fail_made :: bool
  fail_sent :: bool
  details :: string
  clock :: int
  duration :: "64 word"
  travelled :: "64 word"

text \<open>The constructor reports the state; it throws when this is not possible.\<close>

definition new_Component ::
  "outcome \<Rightarrow> string \<Rightarrow> string list \<Rightarrow> string list \<Rightarrow> bool \<Rightarrow> bool \<Rightarrow> 'm Comp option" where
  "new_Component oc name rs ss isIn isOut =
     (case reportState (made oc) (sent_ok oc) STATE_STARTING [] (new_MetaMessenger name) of (reported, mm) \<Rightarrow>
        if \<not> reported then None
        else Some
          \<lparr>pc = C_start, comp_state = STATE_STARTING, exit_requested = False, inputWaiting = [],
           meta = mm, mpc_of = M_idle,
           receive_topics = rs, send_topics = ss, is_input = isIn, is_output = isOut, connected = 0,
           rpc_of = (\<lambda>r. R_idle), message = (\<lambda>r. None), in_hand = None, delivered = (\<lambda>r. []), handled = []\<rparr>)"

section \<open>The operations\<close>

definition messageAvailableFrom :: "nat \<Rightarrow> 'm Comp \<Rightarrow> 'm Comp" where
  "messageAvailableFrom r s = s\<lparr>inputWaiting := inputWaiting s @ [r]\<rparr>"

definition requestExit :: "'m Comp \<Rightarrow> 'm Comp" where
  "requestExit s = s\<lparr>exit_requested := True\<rparr>"

definition getMessage :: "nat \<Rightarrow> 'm Comp \<Rightarrow> 'm option \<times> 'm Comp" where
  "getMessage r s = (message s r, s\<lparr>message := (message s)(r := None)\<rparr>)"

definition notPickedUp :: "nat \<Rightarrow> 'm Comp \<Rightarrow> bool" where
  "notPickedUp r s \<longleftrightarrow> message s r \<noteq> None"

definition fail_component :: "outcome \<Rightarrow> 'm Comp \<Rightarrow> 'm Comp" where
  "fail_component oc s =
     requestExit (s\<lparr>comp_state := STATE_FAILURE,
       meta := snd (reportState (fail_made oc) (fail_sent oc) STATE_FAILURE (details oc) (meta s))\<rparr>)"

definition update_stats :: "(Statistics \<Rightarrow> Statistics) \<Rightarrow> 'm Comp \<Rightarrow> 'm Comp" where
  "update_stats g s = s\<lparr>meta := (meta s)\<lparr>stats := g (stats (meta s))\<rparr>\<rparr>"

text \<open>
  \<open>startIO\<close>: the topics are reported and the receivers connected, then the state is reported.  When
  it throws, the receivers connected so far stay connected, and the loop finds the request to exit.
\<close>

definition startIO :: "outcome \<Rightarrow> 'm Comp \<Rightarrow> 'm Comp" where
  "startIO oc s =
     (case reportTopics (sent_ok oc) (receive_topics s) (send_topics s) (is_input s) (is_output s) (meta s) of
        (reported, mm) \<Rightarrow>
          let s1 = s\<lparr>meta := mm\<rparr>
          in if \<not> reported then (fail_component oc s1)\<lparr>pc := C_loop\<rparr>
             else if ok oc then s1\<lparr>connected := length (receive_topics s), pc := C_report\<rparr>
             else (fail_component oc (s1\<lparr>connected := min (started oc) (length (receive_topics s))\<rparr>))\<lparr>pc := C_loop\<rparr>)"

definition report_ready :: "outcome \<Rightarrow> 'm Comp \<Rightarrow> 'm Comp" where
  "report_ready oc s =
     (let s1 = s\<lparr>comp_state := STATE_READY\<rparr>
      in case reportState (made oc) (sent_ok oc) STATE_READY (details oc) (meta s1) of (reported, mm) \<Rightarrow>
           if reported then s1\<lparr>meta := mm, pc := C_loop\<rparr>
           else (fail_component oc (s1\<lparr>meta := mm\<rparr>))\<lparr>pc := C_loop\<rparr>)"

definition component_step :: "outcome \<Rightarrow> 'm Comp \<Rightarrow> 'm Comp" where
  "component_step oc s =
     (case pc s of
        C_start \<Rightarrow> startIO oc s
      | C_report \<Rightarrow> report_ready oc s
      | C_loop \<Rightarrow> s\<lparr>pc := (if exit_requested s then C_done else C_alive)\<rparr>
      | C_alive \<Rightarrow> s\<lparr>meta := IamAlive (clock oc) (meta s), pc := C_ready\<rparr>
      | C_ready \<Rightarrow> s\<lparr>pc := (if systemReady (meta s) then C_act else C_wait)\<rparr>
      | C_wait \<Rightarrow> s\<lparr>pc := (if exit_requested s then C_done else C_ready)\<rparr>
      | C_act \<Rightarrow>
          if ok oc then (update_stats (actTime (duration oc)) s)\<lparr>pc := C_poll\<rparr>
          else (fail_component oc s)\<lparr>pc := C_done\<rparr>
      | C_poll \<Rightarrow>
          (case inputWaiting s of
             [] \<Rightarrow> s\<lparr>pc := C_loop\<rparr>
           | r # rs \<Rightarrow> s\<lparr>inputWaiting := rs, pc := C_got r\<rparr>)
      | C_got r \<Rightarrow>
          (case getMessage r s of
             (None, s1) \<Rightarrow> s1\<lparr>pc := C_abort\<rparr>
           | (Some m, s1) \<Rightarrow>
               (update_stats countMessageReceived s1)\<lparr>pc := C_react r m, in_hand := Some (r, m)\<rparr>)
      | C_react r m \<Rightarrow>
          if \<not> timed oc then (fail_component oc s)\<lparr>pc := C_done\<rparr>
          else let s1 = (update_stats (transmitTime (travelled oc)) s)\<lparr>in_hand := None, handled := handled s @ [(r, m)]\<rparr>
          in if ok oc then (update_stats (reactTime (duration oc)) s1)\<lparr>pc := C_loop\<rparr>
             else (fail_component oc s1)\<lparr>pc := C_done\<rparr>
      | C_done \<Rightarrow> s
      | C_abort \<Rightarrow> s)"

text \<open>
  The threads of the receivers (\<open>Receiver::onMessage\<close>): a message is made and stored, the component is
  told, and the thread blocks until the message has been picked up.  A message that cannot be made
  changes nothing.
\<close>

definition deliver :: "nat \<Rightarrow> 'm \<Rightarrow> 'm Comp \<Rightarrow> 'm Comp" where
  "deliver r m s =
     s\<lparr>message := (message s)(r := Some m), rpc_of := (rpc_of s)(r := R_stored),
       delivered := (delivered s)(r := delivered s r @ [m])\<rparr>"

definition notify_component :: "nat \<Rightarrow> 'm Comp \<Rightarrow> 'm Comp" where
  "notify_component r s = (messageAvailableFrom r s)\<lparr>rpc_of := (rpc_of s)(r := R_waiting)\<rparr>"

definition resume_receiver :: "nat \<Rightarrow> 'm Comp \<Rightarrow> 'm Comp" where
  "resume_receiver r s = s\<lparr>rpc_of := (rpc_of s)(r := R_idle)\<rparr>"

text \<open>
  The thread of the meta messenger (\<open>MetaMessenger::onMessage\<close>), which shares \<open>lastSeenState\<close> with the
  thread of the component: between its test and its update the other thread may run.
\<close>

definition meta_receive :: "int \<Rightarrow> int \<Rightarrow> bool \<Rightarrow> manager_message \<Rightarrow> 'm Comp \<Rightarrow> 'm Comp" where
  "meta_receive now1 now2 sok m s =
     (let mm1 = take_settings now1 m (meta s)
      in if PING m then s\<lparr>meta := mm1, mpc_of := (if seems_stalled now2 mm1 then M_stall m else M_reply m)\<rparr>
         else s\<lparr>meta := (if REPORT_TOPICS m then snd (report_topics sok mm1) else mm1)\<rparr>)"

definition meta_continue :: "bool \<Rightarrow> bool \<Rightarrow> 'm Comp \<Rightarrow> 'm Comp" where
  "meta_continue ok1 ok2 s =
     (case mpc_of s of
        M_idle \<Rightarrow> s
      | M_stall m \<Rightarrow> s\<lparr>meta := (meta s)\<lparr>lastSeenState := STATE_STALLED\<rparr>, mpc_of := M_reply m\<rparr>
      | M_reply m \<Rightarrow>
          (case ping_reply ok1 (meta s) of (replied, mm) \<Rightarrow>
             s\<lparr>meta := (if replied \<and> REPORT_TOPICS m then snd (report_topics ok2 mm) else mm), mpc_of := M_idle\<rparr>))"

inductive step :: "'m Comp \<Rightarrow> 'm Comp \<Rightarrow> bool" where
  component: "step s (component_step oc s)"
| deliver: "r < connected s \<Longrightarrow> rpc_of s r = R_idle \<Longrightarrow> step s (deliver r m s)"
| notify: "rpc_of s r = R_stored \<Longrightarrow> step s (notify_component r s)"
| resume: "rpc_of s r = R_waiting \<Longrightarrow> \<not> notPickedUp r s \<Longrightarrow> step s (resume_receiver r s)"
| meta_receive: "mpc_of s = M_idle \<Longrightarrow> step s (meta_receive now1 now2 sok m s)"
| meta_continue: "step s (meta_continue ok1 ok2 s)"
| exit: "step s (requestExit s)"

inductive reachable :: "'m Comp \<Rightarrow> bool" where
  init: "new_Component oc name rs ss isIn isOut = Some s \<Longrightarrow> reachable s"
| steps: "reachable s \<Longrightarrow> step s s' \<Longrightarrow> reachable s'"

inductive_cases stepE: "step s s'"

section \<open>The handshake of receivers and component\<close>

text \<open>The notices of a receiver that the component has not answered by taking its message.\<close>

definition tickets :: "'m Comp \<Rightarrow> nat \<Rightarrow> nat" where
  "tickets s r = count_list (inputWaiting s) r + (if pc s = C_got r then 1 else 0)"

definition pending :: "'m Comp \<Rightarrow> nat \<Rightarrow> 'm list" where
  "pending s r = (case message s r of None \<Rightarrow> [] | Some m \<Rightarrow> [m])"

definition handled_of :: "'m Comp \<Rightarrow> nat \<Rightarrow> 'm list" where
  "handled_of s r = map snd (filter (\<lambda>(r', m). r' = r) (handled s))"

definition taken :: "'m Comp \<Rightarrow> nat \<Rightarrow> 'm list" where
  "taken s r = (case in_hand s of None \<Rightarrow> [] | Some (r', m) \<Rightarrow> if r' = r then [m] else [])"

text \<open>A message in hand is about to be given to \<open>react\<close>, or the thread has failed with it.\<close>

definition hand_ok :: "'m Comp \<Rightarrow> bool" where
  "hand_ok s \<longleftrightarrow>
     (case pc s of
        C_react r m \<Rightarrow> in_hand s = Some (r, m)
      | C_done \<Rightarrow> in_hand s \<noteq> None \<longrightarrow> comp_state s = STATE_FAILURE
      | _ \<Rightarrow> in_hand s = None)"

text \<open>What a receiver at a place of its thread knows of its message and of its notices.\<close>

fun place_ok :: "rpc \<Rightarrow> bool \<Rightarrow> nat \<Rightarrow> bool" where
  "place_ok R_idle has n \<longleftrightarrow> \<not> has \<and> n = 0"
| "place_ok R_stored has n \<longleftrightarrow> has \<and> n = 0"
| "place_ok R_waiting has n \<longleftrightarrow> n = (if has then 1 else 0)"

definition handshake :: "'m Comp \<Rightarrow> bool" where
  "handshake s \<longleftrightarrow> pc s \<noteq> C_abort \<and> hand_ok s \<and>
     (\<forall>r. place_ok (rpc_of s r) (message s r \<noteq> None) (tickets s r)
          \<and> delivered s r = handled_of s r @ taken s r @ pending s r)"

lemma place_ok_ticket: "place_ok p has n \<Longrightarrow> 1 \<le> n \<Longrightarrow> p = R_waiting \<and> has \<and> n = 1"
  by (cases p) (auto split: if_splits)

lemma handshake_ticket:
  "handshake s \<Longrightarrow> 1 \<le> tickets s r \<Longrightarrow> rpc_of s r = R_waiting \<and> message s r \<noteq> None \<and> tickets s r = 1"
  using place_ok_ticket unfolding handshake_def by metis

text \<open>A step of the component thread that neither takes a notice nor a message, nor gives one to \<open>react\<close>.\<close>

lemma handshake_cong:
  assumes "handshake s" "inputWaiting s' = inputWaiting s" "message s' = message s" "rpc_of s' = rpc_of s"
    and "delivered s' = delivered s" "handled s' = handled s" "in_hand s' = in_hand s" "hand_ok s'"
    and "\<forall>r. pc s \<noteq> C_got r" "\<forall>r. pc s' \<noteq> C_got r" "pc s' \<noteq> C_abort"
  shows "handshake s'"
  using assms by (simp add: handshake_def tickets_def pending_def handled_of_def taken_def)

lemma handshake_same_pc:
  assumes "handshake s" "inputWaiting s' = inputWaiting s" "message s' = message s" "rpc_of s' = rpc_of s"
    and "delivered s' = delivered s" "handled s' = handled s" "in_hand s' = in_hand s" "comp_state s' = comp_state s" "pc s' = pc s"
  shows "handshake s'"
  using assms by (simp add: handshake_def hand_ok_def tickets_def pending_def handled_of_def taken_def cong: cpc.case_cong)

lemma frame_simps [simp]:
  "inputWaiting (fail_component oc s) = inputWaiting s" "message (fail_component oc s) = message s"
  "rpc_of (fail_component oc s) = rpc_of s" "delivered (fail_component oc s) = delivered s"
  "handled (fail_component oc s) = handled s" "mpc_of (fail_component oc s) = mpc_of s" "in_hand (fail_component oc s) = in_hand s"
  "exit_requested (fail_component oc s)" "comp_state (fail_component oc s) = STATE_FAILURE"
  "inputWaiting (update_stats g s) = inputWaiting s" "message (update_stats g s) = message s"
  "rpc_of (update_stats g s) = rpc_of s" "delivered (update_stats g s) = delivered s"
  "handled (update_stats g s) = handled s" "mpc_of (update_stats g s) = mpc_of s" "in_hand (update_stats g s) = in_hand s"
  "comp_state (update_stats g s) = comp_state s"
  "exit_requested (update_stats g s) = exit_requested s" "connected (update_stats g s) = connected s"
  "systemReady (meta (update_stats g s)) = systemReady (meta s)"
  "lastSeenState (meta (update_stats g s)) = lastSeenState (meta s)"
  by (simp_all add: fail_component_def requestExit_def update_stats_def)

lemma component_frame:
  assumes "pc s \<noteq> C_poll" "\<forall>r. pc s \<noteq> C_got r" "\<forall>r m. pc s \<noteq> C_react r m" "pc s \<noteq> C_abort" "hand_ok s"
  shows "inputWaiting (component_step oc s) = inputWaiting s \<and> message (component_step oc s) = message s
    \<and> rpc_of (component_step oc s) = rpc_of s \<and> delivered (component_step oc s) = delivered s
    \<and> handled (component_step oc s) = handled s \<and> in_hand (component_step oc s) = in_hand s \<and> hand_ok (component_step oc s)
    \<and> (\<forall>r. pc (component_step oc s) \<noteq> C_got r) \<and> pc (component_step oc s) \<noteq> C_abort"
  using assms
  by (cases "pc s") (auto simp: component_step_def hand_ok_def startIO_def report_ready_def Let_def split: prod.split)

lemma handshake_hand: "handshake s \<Longrightarrow> hand_ok s"
  by (simp add: handshake_def)

lemma handshake_component:
  assumes "handshake s"
  shows "handshake (component_step oc s)"
proof (cases "pc s")
  case C_poll
  show ?thesis
  proof (cases "inputWaiting s")
    case Nil
    with C_poll show ?thesis using handshake_hand [OF assms]
      by (intro handshake_cong [OF assms]) (auto simp: component_step_def hand_ok_def)
  next
    case (Cons r rs)
    have "component_step oc s = s\<lparr>inputWaiting := rs, pc := C_got r\<rparr>"
      using C_poll Cons by (simp add: component_step_def)
    moreover have "tickets (s\<lparr>inputWaiting := rs, pc := C_got r\<rparr>) r' = tickets s r'" for r'
      using C_poll Cons by (simp add: tickets_def)
    ultimately show ?thesis using assms C_poll
      by (simp add: handshake_def hand_ok_def pending_def handled_of_def taken_def cong: rpc.case_cong)
  qed
next
  case (C_got r)
  then have "tickets s r \<ge> 1" by (simp add: tickets_def)
  then have w: "rpc_of s r = R_waiting" "message s r \<noteq> None" "tickets s r = 1"
    using handshake_ticket [OF assms] by simp_all
  then obtain m where m: "message s r = Some m" by auto
  let ?s = "component_step oc s"
  have e: "pc ?s = C_react r m" "inputWaiting ?s = inputWaiting s" "message ?s = (message s)(r := None)"
    "rpc_of ?s = rpc_of s" "delivered ?s = delivered s" "handled ?s = handled s"
    "in_hand ?s = Some (r, m)" "in_hand s = None"
    using handshake_hand [OF assms] C_got m by (simp_all add: component_step_def getMessage_def hand_ok_def)
  have t: "tickets ?s r' = (if r' = r then 0 else tickets s r')" for r'
    using w(3) C_got e(1,2) by (simp add: tickets_def)
  show ?thesis unfolding handshake_def
  proof (intro conjI allI)
    fix r'
    show "delivered ?s r' = handled_of ?s r' @ taken ?s r' @ pending ?s r'"
      using assms m e(8) by (auto simp: e(3,5-7) handshake_def handled_of_def taken_def pending_def dest!: spec [of _ r'])
    show "place_ok (rpc_of ?s r') (message ?s r' \<noteq> None) (tickets ?s r')"
      using assms w(1) unfolding t e by (auto simp: handshake_def)
  qed (simp_all add: e hand_ok_def)
next
  case (C_react r m)
  let ?s = "component_step oc s"
  have h: "in_hand s = Some (r, m)" using handshake_hand [OF assms] C_react by (simp add: hand_ok_def)
  show ?thesis
  proof (cases "timed oc")
    case False
    with C_react show ?thesis
      by (intro handshake_cong [OF assms]) (auto simp: component_step_def hand_ok_def)
  next
    case True
    have e: "inputWaiting ?s = inputWaiting s" "message ?s = message s" "rpc_of ?s = rpc_of s" "delivered ?s = delivered s"
      "handled ?s = handled s @ [(r, m)]" "in_hand ?s = None" "pc ?s \<in> {C_loop, C_done}"
      using C_react True by (simp_all add: component_step_def Let_def)
    have "tickets ?s r' = tickets s r'" for r' using C_react e(1,7) by (auto simp: tickets_def)
    moreover have "hand_ok ?s" "pc ?s \<noteq> C_abort" using e(6,7) by (auto simp: hand_ok_def)
    moreover have "handled_of ?s r' @ taken ?s r' = handled_of s r' @ taken s r'" for r'
      using h by (simp add: handled_of_def taken_def e(5,6))
    ultimately show ?thesis using assms by (simp add: handshake_def e(2-4) pending_def flip: append_assoc)
  qed
next
  case C_abort
  with assms show ?thesis by (simp add: handshake_def)
qed (use assms component_frame [of s oc] handshake_hand [OF assms] in \<open>auto intro!: handshake_cong [OF assms]\<close>)

lemma handshake_step: "handshake s \<Longrightarrow> step s s' \<Longrightarrow> handshake s'"
proof -
  assume h: "handshake s" and "step s s'"
  from this(2) show "handshake s'"
  proof cases
    case (component oc)
    with handshake_component [OF h] show ?thesis by simp
  next
    case (deliver r m)
    with h show ?thesis
      by (auto simp: handshake_def hand_ok_def taken_def tickets_def pending_def handled_of_def deliver_def dest!: spec [of _ r] cong: cpc.case_cong)
  next
    case (notify r)
    with h show ?thesis
      by (auto simp: handshake_def hand_ok_def taken_def tickets_def pending_def handled_of_def notify_component_def messageAvailableFrom_def
          dest!: spec [of _ r] cong: cpc.case_cong)
  next
    case (resume r)
    with h show ?thesis
      by (auto simp: handshake_def hand_ok_def taken_def tickets_def pending_def handled_of_def resume_receiver_def notPickedUp_def
          dest!: spec [of _ r] cong: cpc.case_cong)
  qed (use h in \<open>auto intro!: handshake_same_pc [OF h] simp: meta_receive_def meta_continue_def requestExit_def Let_def
    split: mpc.split prod.split\<close>)
qed

lemma handshake_reachable: "reachable s \<Longrightarrow> handshake s"
proof (induction rule: reachable.induct)
  case (init oc name rs ss isIn isOut s)
  then show ?case
    by (auto simp: new_Component_def handshake_def hand_ok_def taken_def tickets_def pending_def handled_of_def split: prod.splits if_splits)
next
  case (steps s s')
  then show ?case by (blast intro: handshake_step)
qed

section \<open>Progress of the component thread\<close>

definition succeeds :: "outcome \<Rightarrow> bool" where
  "succeeds oc \<longleftrightarrow> ok oc \<and> timed oc \<and> made oc \<and> sent_ok oc"

definition running :: "'m Comp \<Rightarrow> bool" where
  "running s \<longleftrightarrow> handshake s \<and> systemReady (meta s) \<and> \<not> exit_requested s \<and> pc s \<noteq> C_done"

text \<open>The number of steps to the next look at the queue, and to the end after a request to exit.\<close>

fun to_poll :: "'m cpc \<Rightarrow> nat" where
  "to_poll C_start = 6"
| "to_poll C_report = 5"
| "to_poll C_loop = 4"
| "to_poll C_alive = 3"
| "to_poll C_ready = 2"
| "to_poll C_wait = 3"
| "to_poll C_act = 1"
| "to_poll C_poll = 0"
| "to_poll (C_got r) = 6"
| "to_poll (C_react r m) = 5"
| "to_poll C_done = 0"
| "to_poll C_abort = 0"

fun to_exit :: "'m cpc \<Rightarrow> nat" where
  "to_exit C_start = 3"
| "to_exit C_report = 2"
| "to_exit C_loop = 1"
| "to_exit C_alive = 7"
| "to_exit C_ready = 6"
| "to_exit C_wait = 1"
| "to_exit C_act = 5"
| "to_exit C_poll = 4"
| "to_exit (C_got r) = 3"
| "to_exit (C_react r m) = 2"
| "to_exit C_done = 0"
| "to_exit C_abort = 0"

lemma running_step:
  assumes "running s" "succeeds oc"
  shows "running (component_step oc s)"
proof -
  have "handshake (component_step oc s)" using assms(1) handshake_component by (auto simp: running_def)
  with assms show ?thesis
    by (cases "pc s")
      (auto simp: running_def succeeds_def component_step_def startIO_def report_ready_def reportTopics_def report_topics_def
        reportState_def send_meta_def IamAlive_def getMessage_def Let_def handshake_def split: list.split option.split)
qed

lemma to_poll_step:
  assumes "running s" "succeeds oc" "pc s \<noteq> C_poll"
  shows "to_poll (pc (component_step oc s)) + 1 = to_poll (pc s)"
    and "inputWaiting (component_step oc s) = inputWaiting s"
    and "pc s \<noteq> C_got r \<Longrightarrow> message (component_step oc s) r = message s r"
proof -
  have "message s r' \<noteq> None" if "pc s = C_got r'" for r'
    using assms(1) that handshake_ticket [of s r'] by (simp add: running_def tickets_def)
  with assms show "to_poll (pc (component_step oc s)) + 1 = to_poll (pc s)"
    "inputWaiting (component_step oc s) = inputWaiting s"
    "pc s \<noteq> C_got r \<Longrightarrow> message (component_step oc s) r = message s r"
    by (cases "pc s"; auto simp: running_def succeeds_def component_step_def startIO_def report_ready_def reportTopics_def
      report_topics_def reportState_def send_meta_def getMessage_def Let_def handshake_def split: option.split)+
qed

lemma handled_grows: "\<exists>xs. handled (component_step oc s) = handled s @ xs"
  by (cases "pc s") (auto simp: component_step_def startIO_def report_ready_def getMessage_def Let_def split: list.split option.split prod.split)

text \<open>
  How many component steps a message of a receiver is from \<open>react\<close>: its notice is in the queue, or taken, or the
  message is in hand.
\<close>

definition on_its_way :: "nat \<Rightarrow> 'm \<Rightarrow> nat \<Rightarrow> 'm Comp \<Rightarrow> bool" where
  "on_its_way r m n s \<longleftrightarrow> running s \<and>
     ((\<exists>q rest. inputWaiting s = q @ r # rest \<and> message s r = Some m \<and> 7 * length q + to_poll (pc s) + 3 \<le> n)
      \<or> pc s = C_got r \<and> message s r = Some m \<and> 2 \<le> n
      \<or> pc s = C_react r m \<and> 1 \<le> n)"

lemma on_its_way_step:
  assumes "on_its_way r m n s" "succeeds oc"
  shows "on_its_way r m (n - 1) (component_step oc s) \<or> handled (component_step oc s) = handled s @ [(r, m)]"
proof -
  have run: "running s" using assms(1) by (simp add: on_its_way_def)
  have run': "running (component_step oc s)" by (rule running_step [OF run assms(2)])
  have h: "handshake s" using run by (simp add: running_def)
  from assms(1) consider (queue) q rest where "inputWaiting s = q @ r # rest" "message s r = Some m" "7 * length q + to_poll (pc s) + 3 \<le> n"
    | (got) "pc s = C_got r" "message s r = Some m" "2 \<le> n" | (react) "pc s = C_react r m" "1 \<le> n"
    unfolding on_its_way_def by blast
  then show ?thesis
  proof cases
    case queue
    show ?thesis
    proof (cases "pc s = C_poll")
      case False
      have "tickets s r = 1" using handshake_ticket [OF h, of r] queue(1) by (simp add: tickets_def)
      then have "pc s \<noteq> C_got r" using queue(1) by (auto simp: tickets_def)
      with to_poll_step [OF run assms(2) False] queue have
        "inputWaiting (component_step oc s) = q @ r # rest" "message (component_step oc s) r = Some m"
        "7 * length q + to_poll (pc (component_step oc s)) + 3 \<le> n - 1" by auto
      with run' show ?thesis unfolding on_its_way_def by blast
    next
      case True
      show ?thesis
      proof (cases q)
        case Nil
        have "component_step oc s = s\<lparr>inputWaiting := rest, pc := C_got r\<rparr>"
          using True Nil queue(1) by (simp add: component_step_def)
        moreover have "2 \<le> n - 1" using queue(3) True Nil by simp
        ultimately show ?thesis using queue(2) run' by (simp add: on_its_way_def)
      next
        case (Cons r0 q')
        have e: "component_step oc s = s\<lparr>inputWaiting := q' @ r # rest, pc := C_got r0\<rparr>"
          using True Cons queue(1) by (simp add: component_step_def)
        have "7 * length q' + 6 + 3 \<le> n - 1" using queue(3) True Cons by simp
        with e queue(2) run' show ?thesis by (auto simp: on_its_way_def)
      qed
    qed
  next
    case got
    then have "pc (component_step oc s) = C_react r m" by (simp add: component_step_def getMessage_def)
    moreover have "1 \<le> n - 1" using got(3) by simp
    ultimately show ?thesis using run' by (simp add: on_its_way_def)
  next
    case react
    with assms(2) show ?thesis by (simp add: component_step_def succeeds_def Let_def)
  qed
qed

text \<open>
  Runs of all threads in which nothing throws in the component, nobody requests to exit, and the system stays
  ready, with the number of component steps.
\<close>

inductive calm_run :: "nat \<Rightarrow> 'm Comp \<Rightarrow> 'm Comp \<Rightarrow> bool" where
  start: "calm_run 0 s s"
| component: "calm_run n s u \<Longrightarrow> succeeds oc \<Longrightarrow> calm_run (Suc n) s (component_step oc u)"
| deliver: "calm_run n s u \<Longrightarrow> r < connected u \<Longrightarrow> rpc_of u r = R_idle \<Longrightarrow> calm_run n s (deliver r m u)"
| notify: "calm_run n s u \<Longrightarrow> rpc_of u r = R_stored \<Longrightarrow> calm_run n s (notify_component r u)"
| resume: "calm_run n s u \<Longrightarrow> rpc_of u r = R_waiting \<Longrightarrow> \<not> notPickedUp r u \<Longrightarrow> calm_run n s (resume_receiver r u)"
| meta_receive: "calm_run n s u \<Longrightarrow> mpc_of u = M_idle \<Longrightarrow> SYSTEM_READY m \<noteq> Some False \<Longrightarrow>
    calm_run n s (meta_receive now1 now2 sok m u)"
| meta_continue: "calm_run n s u \<Longrightarrow> calm_run n s (meta_continue ok1 ok2 u)"

lemma other_thread_running:
  assumes "running u" "step u u'" "exit_requested u' = exit_requested u" "systemReady (meta u')" "pc u' = pc u"
  shows "running u'"
  using assms handshake_step by (auto simp: running_def)

lemma ready_kept:
  "systemReady (meta u) \<Longrightarrow> SYSTEM_READY m \<noteq> Some False \<Longrightarrow> systemReady (meta (meta_receive now1 now2 sok m u))"
  "systemReady (meta (meta_continue ok1 ok2 u)) = systemReady (meta u)"
  by (auto simp: meta_receive_def meta_continue_def take_settings_def setSystemReady_def setTime_def Let_def ping_reply_def
      report_topics_def send_meta_def split: option.split prod.split mpc.split)

lemma on_its_way_other:
  assumes "on_its_way r m n u" "step u u'" "exit_requested u' = exit_requested u" "systemReady (meta u')" "pc u' = pc u"
    and "\<exists>more. inputWaiting u' = inputWaiting u @ more" "rpc_of u r = R_waiting \<Longrightarrow> message u' r = message u r"
  shows "on_its_way r m n u'"
proof -
  have run: "running u" using assms(1) by (simp add: on_its_way_def)
  have "message u' r = message u r" if "r \<in> set (inputWaiting u) \<or> pc u = C_got r"
  proof -
    have "count_list (inputWaiting u) r \<noteq> 0 \<or> pc u = C_got r" using that by (simp add: count_list_0_iff)
    then have "1 \<le> tickets u r" by (auto simp: tickets_def)
    with assms(7) handshake_ticket [of u r] run show ?thesis by (simp add: running_def)
  qed
  moreover obtain more where "inputWaiting u' = inputWaiting u @ more" using assms(6) by blast
  moreover from this have "\<exists>rest'. inputWaiting u' = q @ r # rest'" if "inputWaiting u = q @ r # rest" for q rest
    using that by simp
  ultimately show ?thesis using assms(1) other_thread_running [OF run assms(2-5)] assms(5) unfolding on_its_way_def
    by (metis Un_iff list.set_intros(1) set_append)
qed

lemma calm_run_handles:
  "calm_run n s u \<Longrightarrow> on_its_way r m N s \<Longrightarrow>
    \<exists>xs. handled u = handled s @ xs \<and> ((r, m) \<in> set xs \<or> n \<le> N \<and> on_its_way r m (N - n) u)"
proof (induction rule: calm_run.induct)
  case (component n s u oc)
  then obtain xs where xs: "handled u = handled s @ xs" "(r, m) \<in> set xs \<or> n \<le> N \<and> on_its_way r m (N - n) u" by blast
  obtain ys where ys: "handled (component_step oc u) = handled u @ ys" using handled_grows by blast
  show ?case
  proof (cases "(r, m) \<in> set xs")
    case True
    with xs(1) ys show ?thesis by (intro exI [of _ "xs @ ys"]) simp
  next
    case False
    with xs(2) have w: "n \<le> N" "on_its_way r m (N - n) u" by auto
    from w(2) have "1 \<le> N - n" by (auto simp: on_its_way_def)
    with on_its_way_step [OF w(2) component.hyps(2)] xs(1) ys w(1) show ?thesis
      by (intro exI [of _ "xs @ ys"]) auto
  qed
next
  case (deliver n s u r' m')
  have "step u (Component_Thread.deliver r' m' u)" by (rule step.deliver [OF deliver.hyps(2,3)])
  from on_its_way_other [OF _ this, of r m "N - n"] deliver show ?case by (fastforce simp: deliver_def on_its_way_def running_def)
next
  case (notify n s u r')
  have "step u (notify_component r' u)" by (rule step.notify [OF notify.hyps(2)])
  from on_its_way_other [OF _ this, of r m "N - n"] notify show ?case
    by (fastforce simp: notify_component_def messageAvailableFrom_def on_its_way_def running_def)
next
  case (resume n s u r')
  have "step u (resume_receiver r' u)" by (rule step.resume [OF resume.hyps(2,3)])
  from on_its_way_other [OF _ this, of r m "N - n"] resume show ?case by (fastforce simp: resume_receiver_def on_its_way_def running_def)
next
  case (meta_receive n s u m' now1 now2 sok)
  have st: "step u (Component_Thread.meta_receive now1 now2 sok m' u)" by (rule step.meta_receive [OF meta_receive.hyps(2)])
  have e: "handled (Component_Thread.meta_receive now1 now2 sok m' u) = handled u" "pc (Component_Thread.meta_receive now1 now2 sok m' u) = pc u"
    "exit_requested (Component_Thread.meta_receive now1 now2 sok m' u) = exit_requested u"
    "inputWaiting (Component_Thread.meta_receive now1 now2 sok m' u) = inputWaiting u"
    "message (Component_Thread.meta_receive now1 now2 sok m' u) = message u"
    by (simp_all add: meta_receive_def Let_def)
  have "on_its_way r m k (Component_Thread.meta_receive now1 now2 sok m' u)" if "on_its_way r m k u" for k
  proof (rule on_its_way_other [OF that st])
    show "systemReady (meta (Component_Thread.meta_receive now1 now2 sok m' u))"
      by (rule ready_kept(1) [OF _ meta_receive.hyps(3)]) (use that in \<open>simp add: on_its_way_def running_def\<close>)
  qed (simp_all add: e)
  with meta_receive show ?case by (auto simp: e(1))
next
  case (meta_continue n s u ok1 ok2)
  have st: "step u (Component_Thread.meta_continue ok1 ok2 u)" by (rule step.meta_continue)
  have e: "handled (Component_Thread.meta_continue ok1 ok2 u) = handled u" "pc (Component_Thread.meta_continue ok1 ok2 u) = pc u"
    "exit_requested (Component_Thread.meta_continue ok1 ok2 u) = exit_requested u"
    "inputWaiting (Component_Thread.meta_continue ok1 ok2 u) = inputWaiting u"
    "message (Component_Thread.meta_continue ok1 ok2 u) = message u"
    by (simp_all add: meta_continue_def split: mpc.split prod.split)
  have "on_its_way r m k (Component_Thread.meta_continue ok1 ok2 u)" if "on_its_way r m k u" for k
  proof (rule on_its_way_other [OF that st])
    show "systemReady (meta (Component_Thread.meta_continue ok1 ok2 u))"
      using that by (simp add: ready_kept(2) on_its_way_def running_def)
  qed (simp_all add: e)
  with meta_continue show ?case by (auto simp: e(1))
qed auto

lemma to_exit_step:
  assumes "handshake s" "exit_requested s"
  shows "to_exit (pc (component_step oc s)) \<le> to_exit (pc s) - 1 \<and> exit_requested (component_step oc s)"
  using assms
  by (cases "pc s")
    (auto simp: component_step_def startIO_def report_ready_def getMessage_def Let_def handshake_def
      split: list.split option.split prod.split)

lemma exit_fold:
  "handshake s \<Longrightarrow> exit_requested s \<Longrightarrow> to_exit (pc s) \<le> length ocs \<Longrightarrow> pc (fold component_step ocs s) = C_done"
proof (induction ocs arbitrary: s)
  case Nil
  then show ?case by (cases "pc s") (auto simp: handshake_def)
next
  case (Cons oc ocs)
  from to_exit_step [OF Cons.prems(1,2), of oc] Cons.prems(3) have "to_exit (pc (component_step oc s)) \<le> length ocs"
    by (simp del: One_nat_def) linarith
  with Cons.IH [OF handshake_component [OF Cons.prems(1)]] to_exit_step [OF Cons.prems(1,2), of oc]
  show ?case by simp
qed

section \<open>Properties\<close>

text \<open>C7: However the threads are interleaved, every message a receiver accepts is given to \<open>react\<close>
  exactly once and in the order of arrival of that receiver: what the receiver has accepted is
  what the component has handled, followed by the message that it has in its hand and at most one message that waits.  A message stays in
  its hand only when the component ends with a failure on reading the time of the message.  And the component
  never finds a receiver without the message it announced.\<close>

theorem messages_exactly_once:
  assumes "reachable s"
  shows "pc s \<noteq> C_abort
    \<and> (\<forall>r. delivered s r = handled_of s r @ (case in_hand s of None \<Rightarrow> [] | Some (r', m) \<Rightarrow> if r' = r then [m] else [])
        @ (case message s r of None \<Rightarrow> [] | Some m \<Rightarrow> [m]))
    \<and> (\<forall>r m. in_hand s = Some (r, m) \<longrightarrow> pc s = C_react r m \<or> pc s = C_done \<and> comp_state s = STATE_FAILURE)"
proof -
  note h = handshake_reachable [OF assms]
  have "pc s = C_react r m \<or> pc s = C_done \<and> comp_state s = STATE_FAILURE" if "in_hand s = Some (r, m)" for r m
    using handshake_hand [OF h] that by (cases "pc s") (auto simp: hand_ok_def)
  with h show ?thesis by (auto simp: handshake_def pending_def taken_def)
qed

text \<open>C29: A message that has been announced is handled, in every interleaving of the threads, as long as the system stays ready, nobody requests to exit
  and nothing throws in the component: however many steps the receivers and the messenger take in between, the message has been given to \<open>react\<close> when
  the thread of the component has taken seven steps for every notice in front of it, and nine more.\<close>

theorem message_handled:
  assumes "reachable s" "systemReady (meta s)" "\<not> exit_requested s" "pc s \<noteq> C_done"
    and "inputWaiting s = q @ r # rest" "calm_run n s s'" "7 * length q + 9 \<le> n"
  shows "\<exists>m xs. message s r = Some m \<and> handled s' = handled s @ xs \<and> (r, m) \<in> set xs"
proof -
  have run: "running s" using assms(2-4) handshake_reachable [OF assms(1)] by (simp add: running_def)
  obtain m where m: "message s r = Some m"
    using handshake_ticket [OF handshake_reachable [OF assms(1)], of r] assms(5) by (auto simp: tickets_def)
  have "to_poll (pc s) \<le> 6" by (cases "pc s") simp_all
  then have "on_its_way r m (7 * length q + 9) s" using run m assms(5) unfolding on_its_way_def by fastforce
  from calm_run_handles [OF assms(6) this] obtain xs where xs: "handled s' = handled s @ xs"
      "(r, m) \<in> set xs \<or> n \<le> 7 * length q + 9 \<and> on_its_way r m (7 * length q + 9 - n) s'" by blast
  have "\<not> on_its_way r m 0 s'" by (simp add: on_its_way_def)
  with xs(2) assms(7) have "(r, m) \<in> set xs" by auto
  with m xs(1) show ?thesis by blast
qed

text \<open>C30: A request to exit ends the thread: after it at most seven steps are taken, whatever the
  component and the middleware do in them.\<close>

theorem exit_ends_thread:
  assumes "reachable s" "exit_requested s" "7 \<le> length ocs"
  shows "pc (fold component_step ocs s) = C_done"
proof -
  have "to_exit (pc s) \<le> 7" by (cases "pc s") simp_all
  with exit_fold [OF handshake_reachable [OF assms(1)] assms(2)] assms(3) show ?thesis by simp
qed

text \<open>A failure is final: when the thread of a component has ended and the messenger
  is not just about to call it stalled, its last state stays what it is, and so does what every
  later ping is answered, unless this is the state of a ready component.\<close>

lemma last_state_kept:
  assumes "step\<^sup>*\<^sup>* s s'" "pc s = C_done" "comp_state s = STATE_FAILURE" "lastSeenState (meta s) = l" "l \<noteq> STATE_READY"
    and "\<forall>m. mpc_of s \<noteq> M_stall m"
  shows "lastSeenState (meta s') = l \<and> comp_state s' = STATE_FAILURE"
proof -
  from assms(1) have "pc s' = C_done \<and> comp_state s' = STATE_FAILURE \<and> lastSeenState (meta s') = l \<and> (\<forall>m. mpc_of s' \<noteq> M_stall m)"
  proof (induction rule: rtranclp_induct)
    case base
    then show ?case using assms(2-6) by simp
  next
    case (step u v)
    from step(2) show ?case
      by cases (use step.IH assms(5) in \<open>auto simp: component_step_def deliver_def notify_component_def messageAvailableFrom_def
        resume_receiver_def meta_receive_def meta_continue_def requestExit_def take_settings_def setSystemReady_def
        setTime_def seems_stalled_def ping_reply_def report_topics_def send_meta_def Let_def
        split: mpc.split option.split prod.split\<close>)
  qed
  then show ?thesis by simp
qed

section \<open>Runs of a component\<close>

definition ex_ok :: outcome where
  "ex_ok = \<lparr>ok = True, timed = True, started = 0, made = True, sent_ok = True, fail_made = True, fail_sent = True,
     details = [], clock = 20, duration = 1, travelled = 1\<rparr>"

definition ex_fail :: outcome where
  "ex_fail = ex_ok\<lparr>ok := False\<rparr>"

definition ex_settings :: manager_message where
  "ex_settings = \<lparr>SYSTEM_READY = Some True, SYSTEM_READY_TIME = Some 5, PING = False, REPORT_TOPICS = False\<rparr>"

definition ex_comp :: "nat Comp" where
  "ex_comp = the (new_Component ex_ok ''ASR'' [''topic.in''] [''topic.out''] False False)"

lemma reachable_ex_comp: "reachable ex_comp"
  by (rule reachable.init [of ex_ok "''ASR''" "[''topic.in'']" "[''topic.out'']" False False])
    (simp add: ex_comp_def new_Component_def ex_ok_def reportState_def send_meta_def)

text \<open>A message arrives while the component waits for the system to become ready.\<close>

definition ex_waiting :: "nat Comp" where
  "ex_waiting = notify_component 0 (deliver 0 42 (meta_receive 10 10 True ex_settings
     (component_step ex_ok (component_step ex_ok ex_comp))))"

lemma reachable_component: "reachable s \<Longrightarrow> reachable (component_step oc s)"
  by (rule reachable.steps [OF _ step.component])

lemma ex_comp_started:
  "component_step ex_ok (component_step ex_ok ex_comp) =
     \<lparr>pc = C_loop, comp_state = STATE_READY, exit_requested = False, inputWaiting = [],
      meta = meta (component_step ex_ok (component_step ex_ok ex_comp)), mpc_of = M_idle,
      receive_topics = [''topic.in''], send_topics = [''topic.out''], is_input = False, is_output = False, connected = 1,
      rpc_of = (\<lambda>r. R_idle), message = (\<lambda>r. None), in_hand = None, delivered = (\<lambda>r. []), handled = []\<rparr>"
  by (simp add: ex_comp_def new_Component_def ex_ok_def reportState_def send_meta_def component_step_def startIO_def
      report_ready_def reportTopics_def report_topics_def Let_def)

lemma reachable_ex_waiting: "reachable ex_waiting"
proof -
  let ?s = "component_step ex_ok (component_step ex_ok ex_comp)"
  have "reachable ?s" by (intro reachable_component reachable_ex_comp)
  moreover have "mpc_of ?s = M_idle" by (subst ex_comp_started) simp
  ultimately have m: "reachable (meta_receive 10 10 True ex_settings ?s)"
    by (blast intro: reachable.steps step.meta_receive)
  have "0 < connected (meta_receive 10 10 True ex_settings ?s)" "rpc_of (meta_receive 10 10 True ex_settings ?s) 0 = R_idle"
    by (subst ex_comp_started, simp add: meta_receive_def ex_settings_def Let_def)+
  with m have d: "reachable (deliver 0 42 (meta_receive 10 10 True ex_settings ?s))"
    by (blast intro: reachable.steps step.deliver)
  moreover have "rpc_of (deliver 0 42 (meta_receive 10 10 True ex_settings ?s)) 0 = R_stored" by (simp add: deliver_def)
  ultimately show ?thesis unfolding ex_waiting_def by (blast intro: reachable.steps step.notify)
qed

lemmas ex_run_simps = ex_waiting_def notify_component_def messageAvailableFrom_def deliver_def meta_receive_def
  ex_settings_def take_settings_def setSystemReady_def setTime_def Let_def

lemma ex_waiting_state:
  "pc ex_waiting = C_loop" "inputWaiting ex_waiting = [0]" "systemReady (meta ex_waiting)" "\<not> exit_requested ex_waiting"
  "message ex_waiting = (\<lambda>r. None)(0 := Some 42)" "handled ex_waiting = []" "in_hand ex_waiting = None" "mpc_of ex_waiting = M_idle"
  "delivered ex_waiting = (\<lambda>r. [])(0 := [42])"
  by (subst ex_waiting_def, subst ex_comp_started, simp add: ex_run_simps)+

theorem messages_exactly_once_witness:
  "pc ex_waiting \<noteq> C_abort \<and> delivered ex_waiting 0 = [42] \<and> handled_of ex_waiting 0 @ [42] = [42]"
  using messages_exactly_once [OF reachable_ex_waiting] ex_waiting_state by (auto dest!: spec [of _ "0::nat"])

lemma calm_run_steps: "calm_run n s u \<Longrightarrow> succeeds oc \<Longrightarrow> calm_run (n + k) s ((component_step oc ^^ k) u)"
  by (induction k) (auto intro: calm_run.component)

theorem message_handled_witness:
  "\<exists>xs. handled ((component_step ex_ok ^^ 9) ex_waiting) = xs \<and> (0, 42) \<in> set xs"
proof -
  have "succeeds ex_ok" by (simp add: succeeds_def ex_ok_def)
  from calm_run_steps [OF calm_run.start this, of 9 ex_waiting]
  have "calm_run 9 ex_waiting ((component_step ex_ok ^^ 9) ex_waiting)" by simp
  from message_handled [OF reachable_ex_waiting ex_waiting_state(3,4) _ _ this, of "[]" 0 "[]"] show ?thesis
    by (simp add: ex_waiting_state)
qed

theorem exit_ends_thread_witness:
  "pc (fold component_step (replicate 7 ex_ok) (requestExit ex_waiting)) = C_done"
proof (rule exit_ends_thread)
  show "reachable (requestExit ex_waiting)"
    by (rule reachable.steps [OF reachable_ex_waiting step.exit])
qed (simp_all add: requestExit_def)

text \<open>The component fails while a ping is answered that found it ready but not alive.\<close>

definition ex_acting :: "nat Comp" where
  "ex_acting = fold component_step [ex_ok, ex_ok, ex_ok] ex_waiting"

lemma ex_acting_state:
  "pc ex_acting = C_act" "mpc_of ex_acting = M_idle" "seems_stalled 9000 (meta ex_acting)"
  by (simp_all add: ex_acting_def component_step_def ex_waiting_state seems_stalled_def IamAlive_def getTime_def
      TIMEOUT_PERIOD_def ex_ok_def)
    (subst ex_waiting_def, subst ex_comp_started, simp add: ex_run_simps)+

lemma reachable_ex_acting: "reachable ex_acting"
  unfolding ex_acting_def by (simp add: reachable_component reachable_ex_waiting)

text \<open>C36: The report of a failure can be overwritten.  When \<open>act\<close> throws in a thread, the failure is reported and is the last state of the component;
  it stays so for ever, unless the messenger, in its own thread, had decided before that the component is stalled and not yet
  written this: then it writes it over the failure, answers the ping that a failed component is stalled, and this is never corrected.\<close>

theorem failure_overwritten:
  assumes "pc s = C_act" "\<not> ok oc" "fail_made oc" "fail_sent oc" "f = component_step oc s"
  shows "pc f = C_done \<and> comp_state f = STATE_FAILURE \<and> lastSeenState (meta f) = STATE_FAILURE
    \<and> (\<exists>report. outbox (meta f) = outbox (meta s) @ [report] \<and> (''ComponentState'', P_str STATE_FAILURE) \<in> set report)
    \<and> (if \<exists>m. mpc_of s = M_stall m
       then \<forall>ok1 ok2 s'. step\<^sup>*\<^sup>* (meta_continue ok1 ok2 f) s' \<longrightarrow>
          comp_state s' = STATE_FAILURE \<and> lastSeenState (meta s') = STATE_STALLED
            \<and> (''ComponentState'', P_str STATE_STALLED) \<in> set (ping_message (meta s'))
       else \<forall>s'. step\<^sup>*\<^sup>* f s' \<longrightarrow> lastSeenState (meta s') = STATE_FAILURE)"
proof -
  have f: "pc f = C_done" "comp_state f = STATE_FAILURE" "lastSeenState (meta f) = STATE_FAILURE" "mpc_of f = mpc_of s"
    "\<exists>report. outbox (meta f) = outbox (meta s) @ [report] \<and> (''ComponentState'', P_str STATE_FAILURE) \<in> set report"
    using assms by (auto simp: component_step_def fail_component_def requestExit_def reportState_def send_meta_def)
  have "comp_state s' = STATE_FAILURE \<and> lastSeenState (meta s') = STATE_STALLED
      \<and> (''ComponentState'', P_str STATE_STALLED) \<in> set (ping_message (meta s'))"
    if "mpc_of s = M_stall m" "step\<^sup>*\<^sup>* (meta_continue ok1 ok2 f) s'" for m ok1 ok2 s'
  proof -
    have "comp_state s' = STATE_FAILURE \<and> lastSeenState (meta s') = STATE_STALLED"
      using last_state_kept [OF that(2), of STATE_STALLED] that(1) f by (simp add: meta_continue_def states)
    then show ?thesis by (simp add: ping_message_def)
  qed
  moreover have "lastSeenState (meta s') = STATE_FAILURE" if "\<nexists>m. mpc_of s = M_stall m" "step\<^sup>*\<^sup>* f s'" for s'
    using last_state_kept [OF that(2) f(1-3)] that(1) f(4) by (simp add: states)
  ultimately show ?thesis using f by auto
qed

theorem failure_overwritten_witness:
  "\<exists>s :: nat Comp. reachable s \<and> pc s = C_act \<and> mpc_of s = M_stall ex_ping
    \<and> lastSeenState (meta (component_step ex_fail s)) = STATE_FAILURE
    \<and> lastSeenState (meta (meta_continue True True (component_step ex_fail s))) = STATE_STALLED"
proof -
  let ?p = "meta_receive 10 9000 True ex_ping ex_acting"
  have p: "pc ?p = C_act" "mpc_of ?p = M_stall ex_ping"
    using ex_acting_state by (simp_all add: meta_receive_def ex_ping_def take_settings_def Let_def)
  have r: "reachable ?p"
    by (intro reachable.steps [OF _ step.meta_receive] reachable_ex_acting ex_acting_state)
  have "\<not> ok ex_fail" "fail_made ex_fail" "fail_sent ex_fail" by (simp_all add: ex_fail_def ex_ok_def)
  from failure_overwritten [OF p(1) this refl] p r show ?thesis by auto
qed

end
