(* ===== verification/Semaine_Message.thy ===== *)
theory Semaine_Message
  imports Cpp_String
begin

text \<open>
  Messages of SEMAINE and how they are sent and read (\<open>cms/message\<close>, \<open>cms/sender\<close>): the properties a
  sender puts into a message, the checks of the receiving side, and the text form of feature
  vectors.  The messages themselves belong to the middleware: their operations are the record
  \<open>cms\<close>, and \<open>cms_ok\<close> states what the interface of CMS documents of them.  Formatting and scanning of
  floating point numbers by the streams of C++ are parameters too.
\<close>

section \<open>Messages of the middleware\<close>

text \<open>A result \<open>None\<close> of a getter is a \<open>CMSException\<close>; \<open>text_of\<close> and \<open>bytes_of\<close> are the dynamic casts.\<close>

record 'm cms =
  createTextMessage :: "string \<Rightarrow> 'm"
  createBytesMessage :: "string \<Rightarrow> 'm"
  setStringProperty :: "string \<Rightarrow> string \<Rightarrow> 'm \<Rightarrow> 'm"
  setLongProperty :: "string \<Rightarrow> int \<Rightarrow> 'm \<Rightarrow> 'm"
  setIntProperty :: "string \<Rightarrow> int \<Rightarrow> 'm \<Rightarrow> 'm"
  setBooleanProperty :: "string \<Rightarrow> bool \<Rightarrow> 'm \<Rightarrow> 'm"
  getStringProperty :: "'m \<Rightarrow> string \<Rightarrow> string option"
  getLongProperty :: "'m \<Rightarrow> string \<Rightarrow> int option"
  getIntProperty :: "'m \<Rightarrow> string \<Rightarrow> int option"
  getBooleanProperty :: "'m \<Rightarrow> string \<Rightarrow> bool option"
  propertyExists :: "'m \<Rightarrow> string \<Rightarrow> bool"
  text_of :: "'m \<Rightarrow> string option"
  bytes_of :: "'m \<Rightarrow> string option"

text \<open>The values of all properties with a name, and the body: what a reader can see of a message.\<close>

definition view :: "'m cms \<Rightarrow> 'm \<Rightarrow> string \<Rightarrow> string option \<times> int option \<times> int option \<times> bool option \<times> bool" where
  "view C m k = (getStringProperty C m k, getLongProperty C m k, getIntProperty C m k, getBooleanProperty C m k,
     propertyExists C m k)"

definition body :: "'m cms \<Rightarrow> 'm \<Rightarrow> string option \<times> string option" where
  "body C m = (text_of C m, bytes_of C m)"

definition sets_only :: "'m cms \<Rightarrow> string \<Rightarrow> 'm \<Rightarrow> 'm \<Rightarrow> bool" where
  "sets_only C k m m' \<longleftrightarrow> propertyExists C m' k \<and> body C m' = body C m \<and> (\<forall>k'. k' \<noteq> k \<longrightarrow> view C m' k' = view C m k')"

definition cms_ok :: "'m cms \<Rightarrow> bool" where
  "cms_ok C \<longleftrightarrow>
     (\<forall>k v m. sets_only C k m (setStringProperty C k v m) \<and> getStringProperty C (setStringProperty C k v m) k = Some v)
   \<and> (\<forall>k v m. sets_only C k m (setLongProperty C k v m) \<and> getLongProperty C (setLongProperty C k v m) k = Some v)
   \<and> (\<forall>k v m. sets_only C k m (setIntProperty C k v m) \<and> getIntProperty C (setIntProperty C k v m) k = Some v)
   \<and> (\<forall>k v m. sets_only C k m (setBooleanProperty C k v m) \<and> getBooleanProperty C (setBooleanProperty C k v m) k = Some v)
   \<and> (\<forall>t k. text_of C (createTextMessage C t) = Some t \<and> \<not> propertyExists C (createTextMessage C t) k)
   \<and> (\<forall>b k. bytes_of C (createBytesMessage C b) = Some b \<and> text_of C (createBytesMessage C b) = None
        \<and> \<not> propertyExists C (createBytesMessage C b) k)
   \<and> (\<forall>m k. \<not> propertyExists C m k \<longrightarrow> view C m k = (None, None, None, None, False))"

section \<open>Senders\<close>

text \<open>The kind says which \<open>fillMessageProperties\<close> the virtual call takes.\<close>

datatype sender_kind = Plain | XML

record Sender =
  kind :: sender_kind
  datatype_name :: string
  source :: string
  period :: int
  isConnectionStarted :: bool
  has_exception :: bool
  featureNames :: "string list"

datatype send_error = Not_started | Connection_exception | Periodic_mode | Period_not_positive | Event_based
  | No_feature_names | Names_already_set | Different_length | Null_document

definition setPeriodic :: "int \<Rightarrow> Sender \<Rightarrow> send_error + Sender" where
  "setPeriodic p S = (if p \<le> 0 then Inl Period_not_positive else Inr (S\<lparr>period := p\<rparr>))"

definition setEventBased :: "Sender \<Rightarrow> Sender" where
  "setEventBased S = S\<lparr>period := 0\<rparr>"

definition isPeriodic :: "Sender \<Rightarrow> bool" where
  "isPeriodic S \<longleftrightarrow> period S \<noteq> 0"

definition getPeriod :: "Sender \<Rightarrow> send_error + int" where
  "getPeriod S = (if period S = 0 then Inl Event_based else Inr (period S))"

definition fillMessageProperties :: "'m cms \<Rightarrow> Sender \<Rightarrow> int \<Rightarrow> 'm \<Rightarrow> 'm" where
  "fillMessageProperties C S usertime m =
     (let m1 = setLongProperty C ''usertime'' usertime
                 (setStringProperty C ''source'' (source S) (setStringProperty C ''datatype'' (datatype_name S) m))
      in case kind S of Plain \<Rightarrow> m1 | XML \<Rightarrow> setBooleanProperty C ''xml'' True m1)"

definition fillContentProperties ::
  "'m cms \<Rightarrow> Sender \<Rightarrow> int \<Rightarrow> string \<Rightarrow> int \<Rightarrow> string \<Rightarrow> 'm \<Rightarrow> 'm" where
  "fillContentProperties C S usertime contentID creationTime contentType m =
     (let m1 = fillMessageProperties C S usertime m;
          m2 = (if contentID \<noteq> [] then setStringProperty C ''content-id'' contentID m1 else m1);
          m3 = (if creationTime \<ge> 0 then setLongProperty C ''content-creation-time'' creationTime m2 else m2)
      in if contentType \<noteq> [] then setStringProperty C ''content-type'' contentType m3 else m3)"

definition check_connection :: "Sender \<Rightarrow> send_error + unit" where
  "check_connection S =
     (if \<not> isConnectionStarted S then Inl Not_started
      else if has_exception S then Inl Connection_exception else Inr ())"

text \<open>The property that says whether the message is periodic or an event.\<close>

definition set_timing :: "'m cms \<Rightarrow> Sender \<Rightarrow> string \<Rightarrow> 'm \<Rightarrow> send_error + 'm" where
  "set_timing C S event m =
     (if isPeriodic S then err_bind (getPeriod S) (\<lambda>p. Inr (setIntProperty C ''period'' p m))
      else Inr (setStringProperty C ''event'' event m))"

text \<open>The functions that send; the result is the message given to the producer.\<close>

definition sendTextMessage ::
  "'m cms \<Rightarrow> Sender \<Rightarrow> string \<Rightarrow> int \<Rightarrow> string \<Rightarrow> int \<Rightarrow> string \<Rightarrow> send_error + 'm" where
  "sendTextMessage C S text usertime contentID creationTime contentType =
     err_bind (check_connection S) (\<lambda>_.
       set_timing C S ''single''
         (fillContentProperties C S usertime contentID creationTime contentType (createTextMessage C text)))"

definition sendTextEvent ::
  "'m cms \<Rightarrow> Sender \<Rightarrow> string \<Rightarrow> int \<Rightarrow> string \<Rightarrow> string \<Rightarrow> int \<Rightarrow> string \<Rightarrow> send_error + 'm" where
  "sendTextEvent C S text usertime event contentID creationTime contentType =
     (if \<not> isConnectionStarted S then Inl Not_started
      else if isPeriodic S then Inl Periodic_mode
      else if has_exception S then Inl Connection_exception
      else Inr (setStringProperty C ''event'' event
             (fillContentProperties C S usertime contentID creationTime contentType (createTextMessage C text))))"

definition sendBytesMessage ::
  "'m cms \<Rightarrow> Sender \<Rightarrow> string \<Rightarrow> int \<Rightarrow> string \<Rightarrow> string \<Rightarrow> int \<Rightarrow> string \<Rightarrow> send_error + 'm" where
  "sendBytesMessage C S bytes usertime event contentID creationTime contentType =
     (if \<not> isConnectionStarted S then Inl Not_started
      else set_timing C S event
             (fillContentProperties C S usertime contentID creationTime contentType (createBytesMessage C bytes)))"

text \<open>\<open>doc\<close> is the text of the document, \<open>None\<close> for a null pointer.\<close>

definition sendXML ::
  "'m cms \<Rightarrow> Sender \<Rightarrow> string option \<Rightarrow> int \<Rightarrow> string \<Rightarrow> string \<Rightarrow> int \<Rightarrow> string \<Rightarrow> send_error + 'm" where
  "sendXML C S doc usertime event contentID creationTime contentType =
     (if isPeriodic S then Inl Periodic_mode
      else if \<not> isConnectionStarted S then Inl Not_started
      else sendTextEvent C S (case doc of None \<Rightarrow> [] | Some t \<Rightarrow> t) usertime event contentID creationTime contentType)"

definition sendStateInfo ::
  "'m cms \<Rightarrow> Sender \<Rightarrow> string \<Rightarrow> string \<Rightarrow> string option \<Rightarrow> int \<Rightarrow> string \<Rightarrow> int \<Rightarrow> send_error + 'm" where
  "sendStateInfo C S state_name version doc usertime contentID creationTime =
     (case doc of
        None \<Rightarrow> Inl Null_document
      | Some text \<Rightarrow>
          if isPeriodic S then Inl Periodic_mode
          else err_bind (check_connection S) (\<lambda>_.
            Inr (setStringProperty C ''event'' ''single'' (setStringProperty C (state_name @ ''APIVersion'') version
              (fillContentProperties C S usertime contentID creationTime [] (createTextMessage C text))))))"

section \<open>Received messages\<close>

datatype msg_error = Bad_usertime | Bad_datatype | Bad_source | No_timing | Not_text | Not_xml | Not_bytes
  | Not_features | Cannot_parse | Cannot_read | Not_periodic | Not_event | Cms_exception | Assertion_failed

definition verifyProperties :: "'m cms \<Rightarrow> 'm \<Rightarrow> msg_error + unit" where
  "verifyProperties C m =
     (if getLongProperty C m ''usertime'' = None then Inl Bad_usertime
      else if getStringProperty C m ''datatype'' = None then Inl Bad_datatype
      else if getStringProperty C m ''source'' = None then Inl Bad_source
      else if \<not> propertyExists C m ''period'' \<and> \<not> propertyExists C m ''event'' then Inl No_timing
      else Inr ())"

definition getEventType :: "'m cms \<Rightarrow> 'm \<Rightarrow> msg_error + string" where
  "getEventType C m =
     (if \<not> propertyExists C m ''event'' then Inl Not_event else need Cms_exception (getStringProperty C m ''event''))"

definition msg_getPeriod :: "'m cms \<Rightarrow> 'm \<Rightarrow> msg_error + int" where
  "msg_getPeriod C m =
     (if \<not> propertyExists C m ''period'' then Inl Not_periodic else need Cms_exception (getIntProperty C m ''period''))"

definition getContentID :: "'m cms \<Rightarrow> 'm \<Rightarrow> msg_error + string" where
  "getContentID C m =
     (if propertyExists C m ''content-id'' then need Cms_exception (getStringProperty C m ''content-id'') else Inr [])"

definition getContentType :: "'m cms \<Rightarrow> 'm \<Rightarrow> msg_error + string" where
  "getContentType C m =
     (if propertyExists C m ''content-type'' then need Cms_exception (getStringProperty C m ''content-type'') else Inr [])"

definition getContentCreationTime :: "'m cms \<Rightarrow> 'm \<Rightarrow> msg_error + int" where
  "getContentCreationTime C m =
     (if propertyExists C m ''content-creation-time''
      then need Cms_exception (getLongProperty C m ''content-creation-time'') else Inr (-1))"

definition getText :: "'m cms \<Rightarrow> 'm \<Rightarrow> msg_error + string" where
  "getText C m = need Not_text (text_of C m)"

definition SEMAINEXMLMessage :: "'m cms \<Rightarrow> (string \<Rightarrow> 'doc option) \<Rightarrow> 'm \<Rightarrow> msg_error + 'doc" where
  "SEMAINEXMLMessage C parse m =
     err_bind (verifyProperties C m) (\<lambda>_.
     err_bind (getText C m) (\<lambda>text.
       case getBooleanProperty C m ''xml'' of
         None \<Rightarrow> Inl Not_xml
       | Some isXML \<Rightarrow> if \<not> isXML then Inl Not_xml else need Cannot_parse (parse text)))"

text \<open>The length in the middleware and the number of bytes it can read are those of the body.\<close>

definition SEMAINEBytesMessage :: "'m cms \<Rightarrow> 'm \<Rightarrow> msg_error + string" where
  "SEMAINEBytesMessage C m = err_bind (verifyProperties C m) (\<lambda>_. need Not_bytes (bytes_of C m))"

section \<open>Feature vectors\<close>

text \<open>
  \<open>shw\<close> and \<open>scan\<close> are the output and input of a number by a stream: \<open>scan\<close> gives the number and the
  rest of the line, and nothing when there is none, in which case the number is \<open>zero\<close>.
\<close>

definition features_text :: "('f \<Rightarrow> string) \<Rightarrow> 'f list \<Rightarrow> string list \<Rightarrow> string" where
  "features_text shw features names = concat (map (\<lambda>(x, n). shw x @ [SPC] @ n @ [LF]) (zip features names))"

definition setFeatureNames :: "string list \<Rightarrow> Sender \<Rightarrow> send_error + Sender" where
  "setFeatureNames names S = (if featureNames S \<noteq> [] then Inl Names_already_set else Inr (S\<lparr>featureNames := names\<rparr>))"

definition sendBinaryFeatureVector ::
  "'m cms \<Rightarrow> Sender \<Rightarrow> ('f list \<Rightarrow> string) \<Rightarrow> 'f list \<Rightarrow> int \<Rightarrow> string \<Rightarrow> int \<Rightarrow> string \<Rightarrow> send_error + 'm" where
  "sendBinaryFeatureVector C S enc features usertime contentID creationTime contentType =
     err_bind (check_connection S) (\<lambda>_.
       set_timing C S ''single''
         (fillContentProperties C S usertime contentID creationTime contentType (createBytesMessage C (enc features))))"

definition sendFeatureVector ::
  "'m cms \<Rightarrow> Sender \<Rightarrow> ('f \<Rightarrow> string) \<Rightarrow> ('f list \<Rightarrow> string) \<Rightarrow> 'f list \<Rightarrow> int \<Rightarrow> bool
    \<Rightarrow> string \<Rightarrow> int \<Rightarrow> string \<Rightarrow> send_error + 'm" where
  "sendFeatureVector C S shw enc features usertime sendBinary contentID creationTime contentType =
     (if featureNames S = [] then Inl No_feature_names
      else if length (featureNames S) \<noteq> length features then Inl Different_length
      else if sendBinary then sendBinaryFeatureVector C S enc features usertime contentID creationTime contentType
      else sendTextMessage C S (features_text shw features (featureNames S)) usertime contentID creationTime contentType)"

text \<open>The lines that end with a newline; what stands behind the last one is not read.\<close>

function full_lines :: "string \<Rightarrow> string list" where
  "full_lines s =
     (case dropWhile (\<lambda>c. c \<noteq> LF) s of [] \<Rightarrow> [] | _ # r \<Rightarrow> takeWhile (\<lambda>c. c \<noteq> LF) s # full_lines r)"
  by pat_completeness auto
termination
proof (relation "measure length")
  fix s :: string and x r
  assume "dropWhile (\<lambda>c. c \<noteq> LF) s = x # r"
  then have "length (tl (dropWhile (\<lambda>c. c \<noteq> LF) s)) < length s" by (intro length_tl_dropWhile) simp
  with \<open>dropWhile (\<lambda>c. c \<noteq> LF) s = x # r\<close> show "(r, s) \<in> measure length" by simp
qed simp

declare full_lines.simps [simp del]

definition read_feature :: "(string \<Rightarrow> ('f \<times> string) option) \<Rightarrow> 'f \<Rightarrow> string \<Rightarrow> 'f \<times> string" where
  "read_feature scan zero line =
     (case scan line of
        None \<Rightarrow> (zero, [])
      | Some (x, rest) \<Rightarrow> (x, takeWhile (\<lambda>c. \<not> is_space c) (dropWhile is_space rest)))"

definition readFromTextMessage ::
  "(string \<Rightarrow> ('f \<times> string) option) \<Rightarrow> 'f \<Rightarrow> string \<Rightarrow> 'f list \<times> string list" where
  "readFromTextMessage scan zero text =
     (map (fst \<circ> read_feature scan zero) (full_lines text), map (snd \<circ> read_feature scan zero) (full_lines text))"

definition SEMAINEFeatureMessage :: "'m cms \<Rightarrow> 'm \<Rightarrow> msg_error + unit" where
  "SEMAINEFeatureMessage C m =
     err_bind (verifyProperties C m) (\<lambda>_.
       if text_of C m = None \<and> bytes_of C m = None then Inl Not_features else Inr ())"

text \<open>
  The features and names read so far are fields of the message, empty at first; both functions give
  their result and the fields behind the call.  A vector of bytes is refused.
\<close>

definition getFeatureVector ::
  "'m cms \<Rightarrow> (string \<Rightarrow> ('f \<times> string) option) \<Rightarrow> 'f \<Rightarrow> 'm \<Rightarrow> 'f list \<times> string list
    \<Rightarrow> msg_error + ('f list \<times> 'f list \<times> string list)" where
  "getFeatureVector C scan zero m st =
     (if fst st \<noteq> [] then Inr (fst st, st)
      else case text_of C m of
        None \<Rightarrow> Inl (if bytes_of C m = None then Assertion_failed else Cannot_read)
      | Some text \<Rightarrow>
          (let (fs, ns) = readFromTextMessage scan zero text
           in if fs = [] then Inl Assertion_failed else Inr (fs, fs, snd st @ ns)))"

definition getFeatureNames ::
  "'m cms \<Rightarrow> (string \<Rightarrow> ('f \<times> string) option) \<Rightarrow> 'f \<Rightarrow> 'm \<Rightarrow> 'f list \<times> string list
    \<Rightarrow> msg_error + (string list \<times> 'f list \<times> string list)" where
  "getFeatureNames C scan zero m st =
     (if snd st \<noteq> [] then Inr (snd st, st)
      else case text_of C m of
        None \<Rightarrow> Inr ([], st)
      | Some text \<Rightarrow>
          (let (fs, ns) = readFromTextMessage scan zero text
           in if ns = [] then Inl Assertion_failed else Inr (ns, fst st @ fs, ns)))"

section \<open>The replacement of memcpy\<close>

text \<open>
  The function that \<open>SEMAINEBytesMessage.cpp\<close> defines when there is no \<open>memcpy\<close>: \<open>unit\<close> is the size of
  the elements copied, 4 or 1.  The result \<open>None\<close> is an access outside an array.
\<close>

function memcpy_loop :: "nat \<Rightarrow> nat \<Rightarrow> int \<Rightarrow> string \<Rightarrow> string \<Rightarrow> string option" where
  "memcpy_loop unit k n s1 s2 =
     (if \<not> 0 < n then Some s1
      else if unit = 0 \<or> length s1 < unit * k + unit \<or> length s2 < unit * k + unit then None
      else memcpy_loop unit (k + 1) (n + int unit)
             (take (unit * k) s1 @ take unit (drop (unit * k) s2) @ drop (unit * k + unit) s1) s2)"
  by pat_completeness auto
termination
proof (relation "measure (\<lambda>(unit, k, n, s1, s2). Suc (length s2) - k)")
  fix unit k :: nat and n :: int and s1 s2 :: string
  assume a: "\<not> (unit = 0 \<or> length s1 < unit * k + unit \<or> length s2 < unit * k + unit)"
  then have "k \<le> unit * k" by (cases unit) simp_all
  moreover from a have "unit * k \<le> length s2" by simp
  ultimately have "k < Suc (length s2)" by linarith
  then show "((unit, k + 1, n + int unit, take (unit * k) s1 @ take unit (drop (unit * k) s2) @ drop (unit * k + unit) s1, s2),
      unit, k, n, s1, s2) \<in> measure (\<lambda>(unit, k, n, s1, s2). Suc (length s2) - k)" by simp
qed simp

declare memcpy_loop.simps [simp del]

definition memcpy_own :: "string \<Rightarrow> string \<Rightarrow> int \<Rightarrow> string option" where
  "memcpy_own s1 s2 n = memcpy_loop (if n mod 4 = 0 then 4 else 1) 0 n s1 s2"

section \<open>Properties\<close>

lemma sets_onlyD:
  assumes "sets_only C k m m'"
  shows "k' \<noteq> k \<Longrightarrow> getStringProperty C m' k' = getStringProperty C m k'"
    "k' \<noteq> k \<Longrightarrow> getLongProperty C m' k' = getLongProperty C m k'"
    "k' \<noteq> k \<Longrightarrow> getIntProperty C m' k' = getIntProperty C m k'"
    "k' \<noteq> k \<Longrightarrow> getBooleanProperty C m' k' = getBooleanProperty C m k'"
    "propertyExists C m' k' \<longleftrightarrow> k' = k \<or> propertyExists C m k'"
    "text_of C m' = text_of C m" "bytes_of C m' = bytes_of C m"
  using assms by (auto simp: sets_only_def view_def body_def)

lemma cms_set:
  assumes "cms_ok C"
  shows "sets_only C k m (setStringProperty C k s m)" "getStringProperty C (setStringProperty C k s m) k = Some s"
    "sets_only C k m (setLongProperty C k v m)" "getLongProperty C (setLongProperty C k v m) k = Some v"
    "sets_only C k m (setIntProperty C k v m)" "getIntProperty C (setIntProperty C k v m) k = Some v"
    "sets_only C k m (setBooleanProperty C k b m)" "getBooleanProperty C (setBooleanProperty C k b m) k = Some b"
    "text_of C (createTextMessage C t) = Some t" "\<not> propertyExists C (createTextMessage C t) k"
    "bytes_of C (createBytesMessage C t) = Some t" "text_of C (createBytesMessage C t) = None"
    "\<not> propertyExists C (createBytesMessage C t) k"
    "\<not> propertyExists C m k \<Longrightarrow> view C m k = (None, None, None, None, False)"
  using assms unfolding cms_ok_def by blast+

text \<open>What the properties of a filled message say, whatever was set before and is set behind it.\<close>

definition content_ok :: "'m cms \<Rightarrow> Sender \<Rightarrow> int \<Rightarrow> string \<Rightarrow> int \<Rightarrow> string \<Rightarrow> 'm \<Rightarrow> bool" where
  "content_ok C S usertime contentID creationTime contentType m \<longleftrightarrow>
     getLongProperty C m ''usertime'' = Some usertime \<and> getStringProperty C m ''datatype'' = Some (datatype_name S)
     \<and> getStringProperty C m ''source'' = Some (source S) \<and> (kind S = XML \<longrightarrow> getBooleanProperty C m ''xml'' = Some True)
     \<and> getContentID C m = Inr contentID \<and> getContentType C m = Inr contentType
     \<and> getContentCreationTime C m = Inr (if creationTime \<ge> 0 then creationTime else -1)"

definition timing_keys :: "string set" where
  "timing_keys = {''period'', ''event''}"

lemma fill_content:
  assumes "cms_ok C" "\<forall>k. \<not> propertyExists C m k"
  shows "content_ok C S u i t ty (fillContentProperties C S u i t ty m)"
    and "k \<in> timing_keys \<Longrightarrow> \<not> propertyExists C (fillContentProperties C S u i t ty m) k"
    and "text_of C (fillContentProperties C S u i t ty m) = text_of C m"
    and "bytes_of C (fillContentProperties C S u i t ty m) = bytes_of C m"
    and "kind S = Plain \<Longrightarrow> \<not> propertyExists C (fillContentProperties C S u i t ty m) ''xml''"
proof -
  note set = cms_set [OF assms(1)]
  note frames = sets_onlyD [OF set(1)] sets_onlyD [OF set(3)] sets_onlyD [OF set(7)]
  show "content_ok C S u i t ty (fillContentProperties C S u i t ty m)"
    by (cases "kind S") (auto simp: content_ok_def fillContentProperties_def fillMessageProperties_def getContentID_def
      getContentType_def getContentCreationTime_def Let_def set frames assms(2))
  show "\<not> propertyExists C (fillContentProperties C S u i t ty m) k" if "k \<in> timing_keys"
    using that by (cases "kind S") (auto simp: timing_keys_def fillContentProperties_def fillMessageProperties_def Let_def
      set frames assms(2))
  show "text_of C (fillContentProperties C S u i t ty m) = text_of C m"
    "bytes_of C (fillContentProperties C S u i t ty m) = bytes_of C m"
    by (cases "kind S"; simp add: fillContentProperties_def fillMessageProperties_def Let_def frames)+
  show "\<not> propertyExists C (fillContentProperties C S u i t ty m) ''xml''" if "kind S = Plain"
    using that by (simp add: fillContentProperties_def fillMessageProperties_def Let_def set frames assms(2))
qed

lemma timing_content:
  assumes "cms_ok C" "content_ok C S u i t ty m" "sets_only C k m m'" "k \<in> timing_keys"
  shows "content_ok C S u i t ty m'"
proof -
  from assms(4) have "k = ''period'' \<or> k = ''event''" by (simp add: timing_keys_def)
  then have "content_ok C S u i t ty m' = content_ok C S u i t ty m"
    by (elim disjE) (simp_all add: content_ok_def getContentID_def getContentType_def getContentCreationTime_def
      sets_onlyD [OF assms(3)])
  with assms(2) show ?thesis by simp
qed

text \<open>What \<open>set_timing\<close> and the senders of events leave in the message.\<close>

definition timing_ok :: "'m cms \<Rightarrow> Sender \<Rightarrow> string \<Rightarrow> 'm \<Rightarrow> bool" where
  "timing_ok C S event m \<longleftrightarrow>
     (if period S = 0 then getEventType C m = Inr event \<and> msg_getPeriod C m = Inl Not_periodic
      else msg_getPeriod C m = Inr (period S) \<and> getEventType C m = Inl Not_event)"

lemma set_timing_ok:
  assumes "cms_ok C" "\<And>k. k \<in> timing_keys \<Longrightarrow> \<not> propertyExists C m k" "set_timing C S event m = Inr m'"
  shows "timing_ok C S event m'" and "\<exists>k \<in> timing_keys. sets_only C k m m'"
proof -
  note set = cms_set [OF assms(1)]
  note frames = sets_onlyD [OF set(1)] sets_onlyD [OF set(5)]
  have m': "m' = (if period S = 0 then setStringProperty C ''event'' event m else setIntProperty C ''period'' (period S) m)"
    using assms(3) by (simp add: set_timing_def isPeriodic_def getPeriod_def err_bind_def split: if_splits)
  have new: "\<not> propertyExists C m ''period''" "\<not> propertyExists C m ''event''"
    using assms(2) by (simp_all add: timing_keys_def)
  show "timing_ok C S event m'" unfolding m' timing_ok_def
    by (cases "period S = 0") (simp_all add: getEventType_def msg_getPeriod_def need_def set frames new)
  show "\<exists>k \<in> timing_keys. sets_only C k m m'" unfolding m' timing_keys_def
    by (cases "period S = 0") (simp_all add: set)
qed

lemma verified:
  assumes "content_ok C S u i t ty m" "timing_ok C S event m"
  shows "verifyProperties C m = Inr ()"
  using assms by (auto simp: verifyProperties_def content_ok_def timing_ok_def msg_getPeriod_def getEventType_def
    split: if_splits)

text \<open>All functions that send fill the content and set the timing of a fresh message.\<close>

lemma sent_ok:
  assumes "cms_ok C" "\<And>k. \<not> propertyExists C m0 k"
    and "set_timing C S event (fillContentProperties C S u i t ty m0) = Inr m"
  shows "verifyProperties C m = Inr ()" "content_ok C S u i t ty m" "timing_ok C S event m"
    and "text_of C m = text_of C m0" "bytes_of C m = bytes_of C m0"
    and "kind S = Plain \<Longrightarrow> getBooleanProperty C m ''xml'' = None"
proof -
  from assms(2) have none: "\<forall>k. \<not> propertyExists C m0 k" by blast
  note fill = fill_content [OF assms(1) none]
  note timing = set_timing_ok [OF assms(1) _ assms(3)]
  have new: "\<not> propertyExists C (fillContentProperties C S u i t ty m0) k" if "k \<in> timing_keys" for k
    using fill(2) [OF that] by simp
  obtain k where k: "k \<in> timing_keys" "sets_only C k (fillContentProperties C S u i t ty m0) m"
    using timing(2) new by blast
  show "timing_ok C S event m" using timing(1) new by blast
  show "content_ok C S u i t ty m" by (rule timing_content [OF assms(1) _ k(2,1)]) (simp add: fill(1))
  then show "verifyProperties C m = Inr ()" using \<open>timing_ok C S event m\<close> by (rule verified)
  show "text_of C m = text_of C m0" "bytes_of C m = bytes_of C m0"
    by (simp_all add: sets_onlyD [OF k(2)] fill)
  show "getBooleanProperty C m ''xml'' = None" if "kind S = Plain"
  proof -
    have "''xml'' \<noteq> k" using k(1) by (auto simp: timing_keys_def)
    then have "\<not> propertyExists C m ''xml''" using fill(5) that by (simp add: sets_onlyD [OF k(2)])
    from cms_set(14) [OF assms(1) this] show ?thesis by (simp add: view_def)
  qed
qed

text \<open>C18: what is sent is what is received.  Whenever \<open>sendTextMessage\<close> or \<open>sendBytesMessage\<close> gives a message
  to the producer, a receiver accepts it (\<open>verifyProperties\<close>), finds the user time, data type, source,
  content id, content type and content creation time that the sender was given (an absent id or type reads as
  the empty string, a negative time as -1), the period of a periodic sender and the event of the others,
  never both, and the same text or bytes.\<close>

theorem message_roundtrip:
  assumes "cms_ok C"
    and "(bytes = False \<and> event = ''single'' \<and> sendTextMessage C S x u i t ty = Inr m)
       \<or> (bytes = True \<and> sendBytesMessage C S x u event i t ty = Inr m)"
  shows "verifyProperties C m = Inr () \<and> content_ok C S u i t ty m \<and> timing_ok C S event m
    \<and> (if bytes then SEMAINEBytesMessage C m = Inr x \<and> getText C m = Inl Not_text else getText C m = Inr x)"
proof (cases bytes)
  case True
  with assms(2) have "set_timing C S event (fillContentProperties C S u i t ty (createBytesMessage C x)) = Inr m"
    by (auto simp: sendBytesMessage_def split: if_splits)
  note sent = sent_ok [OF assms(1) _ this] 
  from True show ?thesis
    using sent(1-5) by (simp add: cms_set [OF assms(1)] SEMAINEBytesMessage_def getText_def)
next
  case False
  with assms(2) have "set_timing C S event (fillContentProperties C S u i t ty (createTextMessage C x)) = Inr m"
    by (auto simp: sendTextMessage_def err_bind_Inr)
  note sent = sent_ok [OF assms(1) _ this]
  from False show ?thesis
    using sent(1-5) by (simp add: cms_set [OF assms(1)] getText_def)
qed

text \<open>An event is what \<open>set_timing\<close> does for a sender that is not periodic.\<close>

lemma sendTextEvent_timing:
  assumes "sendTextEvent C S x u event i t ty = Inr m"
  shows "set_timing C S event (fillContentProperties C S u i t ty (createTextMessage C x)) = Inr m" "period S = 0"
  using assms by (auto simp: sendTextEvent_def set_timing_def isPeriodic_def split: if_splits)

text \<open>documents.  \<open>sendXML\<close> succeeds exactly for an event based sender with a started connection and no
  exception; the message it sends is read by \<open>SEMAINEXMLMessage\<close> as the document that parsing the text
  gives, with the event and the content properties of the sender, when the sender is an XML sender, and it is
  refused as not being XML when the sender is a plain one, whatever its text.\<close>

theorem xml_roundtrip:
  assumes "cms_ok C"
  shows "((\<exists>m. sendXML C S (Some x) u event i t ty = Inr m) \<longleftrightarrow>
      period S = 0 \<and> isConnectionStarted S \<and> \<not> has_exception S)
    \<and> (\<forall>m. sendXML C S (Some x) u event i t ty = Inr m \<longrightarrow>
      content_ok C S u i t ty m \<and> getEventType C m = Inr event
      \<and> SEMAINEXMLMessage C parse m = (if kind S = XML then need Cannot_parse (parse x) else Inl Not_xml))"
proof
  show "(\<exists>m. sendXML C S (Some x) u event i t ty = Inr m) \<longleftrightarrow>
      period S = 0 \<and> isConnectionStarted S \<and> \<not> has_exception S"
    by (simp add: sendXML_def sendTextEvent_def isPeriodic_def)
  show "\<forall>m. sendXML C S (Some x) u event i t ty = Inr m \<longrightarrow>
      content_ok C S u i t ty m \<and> getEventType C m = Inr event
      \<and> SEMAINEXMLMessage C parse m = (if kind S = XML then need Cannot_parse (parse x) else Inl Not_xml)"
  proof (intro allI impI)
    fix m assume "sendXML C S (Some x) u event i t ty = Inr m"
    then have s: "sendTextEvent C S x u event i t ty = Inr m" by (simp add: sendXML_def split: if_splits)
    note sent = sent_ok [OF assms _ sendTextEvent_timing(1) [OF s]]
    have xml: "kind S = XML \<Longrightarrow> getBooleanProperty C m ''xml'' = Some True"
      using sent(2) by (simp add: cms_set [OF assms] content_ok_def)
    have "SEMAINEXMLMessage C parse m = (if kind S = XML then need Cannot_parse (parse x) else Inl Not_xml)"
      using sent(1,4,6) xml by (cases "kind S") (simp_all add: cms_set [OF assms] SEMAINEXMLMessage_def getText_def)
    with sent(2,3) sendTextEvent_timing(2) [OF s]
    show "content_ok C S u i t ty m \<and> getEventType C m = Inr event
      \<and> SEMAINEXMLMessage C parse m = (if kind S = XML then need Cannot_parse (parse x) else Inl Not_xml)"
      by (simp add: cms_set [OF assms] timing_ok_def)
  qed
qed

text \<open>Reading the lines of a feature vector.\<close>

lemma full_lines_Cons:
  assumes "LF \<notin> set l"
  shows "full_lines (l @ LF # r) = l # full_lines r"
proof -
  from assms have "dropWhile (\<lambda>c. c \<noteq> LF) (l @ LF # r) = LF # r" "takeWhile (\<lambda>c. c \<noteq> LF) (l @ LF # r) = l"
    by (simp_all add: dropWhile_append takeWhile_append)
  then show ?thesis by (subst full_lines.simps) simp
qed

lemma full_lines_Nil: "full_lines [] = []"
  by (subst full_lines.simps) simp

definition word :: "string \<Rightarrow> bool" where
  "word n \<longleftrightarrow> (\<forall>c \<in> set n. \<not> is_space c)"

lemma word_no_newline: "word n \<Longrightarrow> LF \<notin> set n"
  unfolding word_def by (metis is_space_def insert_iff)

lemma word_ends: "word n \<Longrightarrow> takeWhile (\<lambda>c. \<not> is_space c) (dropWhile is_space (SPC # n)) = n"
  by (cases n) (auto simp: word_def is_space_def takeWhile_eq_all_conv)

text \<open>A number that prints without a newline and is read back as \<open>rnd x\<close>, up to the space behind it.\<close>

definition number_ok :: "('f \<Rightarrow> string) \<Rightarrow> (string \<Rightarrow> ('f \<times> string) option) \<Rightarrow> ('f \<Rightarrow> 'f) \<Rightarrow> 'f \<Rightarrow> bool" where
  "number_ok shw scan rnd x \<longleftrightarrow> LF \<notin> set (shw x) \<and> (\<forall>r. scan (shw x @ SPC # r) = Some (rnd x, SPC # r))"

lemma readFrom_features_text:
  assumes "length xs = length ns" "\<forall>x \<in> set xs. number_ok shw scan rnd x" "\<forall>n \<in> set ns. word n"
  shows "readFromTextMessage scan zero (features_text shw xs ns) = (map rnd xs, ns)"
  using assms
proof (induction xs ns rule: list_induct2)
  case Nil
  then show ?case by (simp add: features_text_def readFromTextMessage_def full_lines_Nil)
next
  case (Cons x xs n ns)
  have "LF \<notin> set (shw x @ SPC # n)"
    using Cons.prems word_no_newline [of n] by (simp add: number_ok_def)
  from full_lines_Cons [OF this, of "features_text shw xs ns"]
  have "full_lines (features_text shw (x # xs) (n # ns)) = (shw x @ SPC # n) # full_lines (features_text shw xs ns)"
    by (simp add: features_text_def)
  moreover have "read_feature scan zero (shw x @ SPC # n) = (rnd x, n)"
    using Cons.prems word_ends [of n] by (simp only: read_feature_def number_ok_def list.set) simp
  moreover from Cons.prems have "readFromTextMessage scan zero (features_text shw xs ns) = (map rnd xs, ns)"
    by (intro Cons.IH) simp_all
  ultimately show ?case by (simp only: readFromTextMessage_def) simp
qed

text \<open>feature vectors.  A vector sent as text is accepted by a receiver and read as the same
  number of features, in the same order, each the number that scanning its printed form gives, under the same
  names, provided that no name contains white space; the receiver keeps them, so that the names read afterwards
  are those of the vector.  A vector sent as bytes is accepted too, but its features cannot be read.\<close>

theorem features_roundtrip:
  assumes "cms_ok C" "sendFeatureVector C S shw enc xs u binary i t ty = Inr m" "xs \<noteq> []"
    and "\<forall>x \<in> set xs. number_ok shw scan rnd x" "\<forall>n \<in> set (featureNames S). word n"
  shows "SEMAINEFeatureMessage C m = Inr () \<and> content_ok C S u i t ty m
    \<and> (if binary then getFeatureVector C scan zero m ([], []) = Inl Cannot_read
       else getFeatureVector C scan zero m ([], []) = Inr (map rnd xs, map rnd xs, featureNames S)
         \<and> getFeatureNames C scan zero m (map rnd xs, featureNames S)
             = Inr (featureNames S, map rnd xs, featureNames S))"
proof -
  have len: "length xs = length (featureNames S)" "featureNames S \<noteq> []"
    using assms(2) by (auto simp: sendFeatureVector_def split: if_splits)
  show ?thesis
  proof (cases binary)
    case True
    with assms(2) have "set_timing C S ''single'' (fillContentProperties C S u i t ty (createBytesMessage C (enc xs))) = Inr m"
      by (auto simp: sendFeatureVector_def sendBinaryFeatureVector_def err_bind_Inr split: if_splits)
    note sent = sent_ok [OF assms(1) _ this]
    from True show ?thesis using sent(1-5)
      by (simp add: cms_set [OF assms(1)] SEMAINEFeatureMessage_def getFeatureVector_def)
  next
    case False
    with assms(2) have "set_timing C S ''single''
        (fillContentProperties C S u i t ty (createTextMessage C (features_text shw xs (featureNames S)))) = Inr m"
      by (auto simp: sendFeatureVector_def sendTextMessage_def err_bind_Inr split: if_splits)
    note sent = sent_ok [OF assms(1) _ this]
    note read = readFrom_features_text [OF len(1) assms(4,5)]
    from False show ?thesis using sent(1-5) read len(2) assms(3)
      by (simp add: cms_set [OF assms(1)] SEMAINEFeatureMessage_def getFeatureVector_def getFeatureNames_def)
  qed
qed

text \<open>the replacement for \<open>memcpy\<close> never copies what it is asked to.  Its loops increase the number
  of bytes instead of the index, so that for every positive number of bytes and all arrays they run until they
  access an element outside one of them.\<close>

theorem memcpy_own_overruns:
  "memcpy_own s1 s2 n = (if n \<le> 0 then Some s1 else None)"
proof -
  have "memcpy_loop unit k n s1 s2 = None" if "0 < n" for unit k n s1 s2
    using that
  proof (induction unit k n s1 s2 rule: memcpy_loop.induct)
    case (1 unit k n s1 s2)
    then show ?case by (subst memcpy_loop.simps) auto
  qed
  then show ?thesis by (simp add: memcpy_own_def memcpy_loop.simps [of _ _ n])
qed

section \<open>Concrete messages\<close>

text \<open>A message of the middleware as maps, on which the properties above are tried.\<close>

record map_message =
  strings :: "string \<Rightarrow> string option"
  longs :: "string \<Rightarrow> int option"
  ints :: "string \<Rightarrow> int option"
  booleans :: "string \<Rightarrow> bool option"
  is_text :: bool
  contents :: string

definition map_cms :: "map_message cms" where
  "map_cms = \<lparr>
     createTextMessage = (\<lambda>s. \<lparr>strings = Map.empty, longs = Map.empty, ints = Map.empty, booleans = Map.empty,
        is_text = True, contents = s\<rparr>),
     createBytesMessage = (\<lambda>s. \<lparr>strings = Map.empty, longs = Map.empty, ints = Map.empty, booleans = Map.empty,
        is_text = False, contents = s\<rparr>),
     setStringProperty = (\<lambda>k v. strings_update (\<lambda>f. f(k \<mapsto> v))),
     setLongProperty = (\<lambda>k v. longs_update (\<lambda>f. f(k \<mapsto> v))),
     setIntProperty = (\<lambda>k v. ints_update (\<lambda>f. f(k \<mapsto> v))),
     setBooleanProperty = (\<lambda>k v. booleans_update (\<lambda>f. f(k \<mapsto> v))),
     getStringProperty = strings, getLongProperty = longs, getIntProperty = ints, getBooleanProperty = booleans,
     propertyExists = (\<lambda>m k. strings m k \<noteq> None \<or> longs m k \<noteq> None \<or> ints m k \<noteq> None \<or> booleans m k \<noteq> None),
     text_of = (\<lambda>m. if is_text m then Some (contents m) else None),
     bytes_of = (\<lambda>m. if is_text m then None else Some (contents m))\<rparr>"

lemma map_cms_ok: "cms_ok map_cms"
  by (simp add: cms_ok_def sets_only_def view_def body_def map_cms_def)

definition tester :: "sender_kind \<Rightarrow> int \<Rightarrow> Sender" where
  "tester k p = \<lparr>kind = k, datatype_name = ''EMMA'', source = ''SpeechRecogniser'', period = p,
     isConnectionStarted = True, has_exception = False, featureNames = [''pitch'', ''energy'']\<rparr>"

lemmas tester_simps = tester_def sendTextMessage_def sendBytesMessage_def sendXML_def sendTextEvent_def
  sendFeatureVector_def sendBinaryFeatureVector_def check_connection_def set_timing_def isPeriodic_def getPeriod_def

lemma message_roundtrip_witness:
  "\<exists>m. sendTextMessage map_cms (tester Plain 40) ''hello'' 7 ''id'' 3 '''' = Inr m
    \<and> content_ok map_cms (tester Plain 40) 7 ''id'' 3 '''' m \<and> timing_ok map_cms (tester Plain 40) ''single'' m
    \<and> getText map_cms m = Inr ''hello''"
proof -
  obtain m where m: "sendTextMessage map_cms (tester Plain 40) ''hello'' 7 ''id'' 3 '''' = Inr m"
    by (simp add: tester_simps)
  from message_roundtrip [OF map_cms_ok, of False "''single''" "tester Plain 40" "''hello''" 7 "''id''" 3 "''''" m] m
  show ?thesis by simp
qed

lemma xml_roundtrip_witness:
  "\<exists>m. sendXML map_cms (tester XML 0) (Some ''<a/>'') 7 ''single'' ''id'' 3 '''' = Inr m
    \<and> SEMAINEXMLMessage map_cms (\<lambda>s. Some (length s)) m = Inr 4"
proof -
  from xml_roundtrip [OF map_cms_ok, of "tester XML 0" "''<a/>''" 7 "''single''" "''id''" 3 "''''"]
  obtain m where m: "sendXML map_cms (tester XML 0) (Some ''<a/>'') 7 ''single'' ''id'' 3 '''' = Inr m"
    by (auto simp: tester_def)
  with xml_roundtrip [OF map_cms_ok, of "tester XML 0" "''<a/>''" 7 "''single''" "''id''" 3 "''''" "\<lambda>s. Some (length s)"]
  show ?thesis by (simp add: tester_def)
qed

definition show_bit :: "bool \<Rightarrow> string" where
  "show_bit b = (if b then ''1'' else ''0'')"

definition scan_bit :: "string \<Rightarrow> (bool \<times> string) option" where
  "scan_bit s = (case s of [] \<Rightarrow> None
     | c # r \<Rightarrow> if c = CHR ''1'' then Some (True, r) else if c = CHR ''0'' then Some (False, r) else None)"

lemma features_roundtrip_witness:
  "\<exists>m. sendFeatureVector map_cms (tester Plain 0) show_bit (\<lambda>_. '''') [True, False] 7 False '''' (-1) '''' = Inr m
    \<and> getFeatureVector map_cms scan_bit False m ([], []) =
        Inr ([True, False], [True, False], [''pitch'', ''energy''])"
proof -
  have num: "\<forall>x \<in> set [True, False]. number_ok show_bit scan_bit id x"
    by (simp add: number_ok_def show_bit_def scan_bit_def)
  have names: "\<forall>n \<in> set (featureNames (tester Plain 0)). word n"
    by (simp add: tester_def word_def is_space_def)
  obtain m where
    m: "sendFeatureVector map_cms (tester Plain 0) show_bit (\<lambda>_. '''') [True, False] 7 False '''' (-1) '''' = Inr m"
    by (simp add: tester_simps)
  from features_roundtrip [OF map_cms_ok m _ num names, of False] m show ?thesis by (simp add: tester_def)
qed


section \<open>Receiving without a listener\<close>

text \<open>
  The synchronous functions of \<open>Receiver.cpp\<close>.  \<open>next_message\<close> is what the consumer gives, a message or \<open>NULL\<close>.
  Their exception specification allows the exceptions of CMS and the one for a wrong configuration only: with the one for a
  message that cannot be made, the program is terminated.
\<close>

datatype 'm received = Throws send_error | Terminated msg_error | Received "'m option"

datatype create_error = Null_message | Bad_message msg_error

definition createSEMAINEMessage :: "'m cms \<Rightarrow> 'm option \<Rightarrow> create_error + 'm" where
  "createSEMAINEMessage C message =
     (case message of
        None \<Rightarrow> Inl Null_message
      | Some m \<Rightarrow> (case verifyProperties C m of Inl e \<Rightarrow> Inl (Bad_message e) | Inr _ \<Rightarrow> Inr m))"

definition receive :: "'m cms \<Rightarrow> bool \<Rightarrow> 'm option \<Rightarrow> 'm received" where
  "receive C connection_started next_message =
     (if \<not> connection_started then Throws Not_started
      else case next_message of
        None \<Rightarrow> Received None
      | Some m \<Rightarrow>
          (case createSEMAINEMessage C (Some m) of
             Inl (Bad_message e) \<Rightarrow> Terminated e
           | Inl Null_message \<Rightarrow> Received None
           | Inr m' \<Rightarrow> Received (Some m')))"

text \<open>A message that a sender made is received, and one that lacks a property terminates the program.\<close>

theorem receive_sent:
  assumes "cms_ok C" and "sendTextMessage C S x u i t ty = Inr m"
  shows "receive C True (Some m) = Received (Some m)
    \<and> (\<forall>m' e. verifyProperties C m' = Inl e \<longrightarrow> receive C True (Some m') = Terminated e)"
proof -
  have "set_timing C S ''single'' (fillContentProperties C S u i t ty (createTextMessage C x)) = Inr m"
    using assms(2) by (auto simp: sendTextMessage_def err_bind_Inr)
  from sent_ok(1) [OF assms(1) _ this] have "verifyProperties C m = Inr ()" by (simp add: cms_set [OF assms(1)])
  then show ?thesis by (simp add: receive_def createSEMAINEMessage_def)
qed

lemma receive_sent_witness:
  "\<exists>m. sendTextMessage map_cms (tester Plain 40) ''hello'' 7 ''id'' 3 '''' = Inr m
    \<and> receive map_cms True (Some m) = Received (Some m)
    \<and> receive map_cms True (Some (createTextMessage map_cms ''bare'')) = Terminated Bad_usertime"
proof -
  obtain m where m: "sendTextMessage map_cms (tester Plain 40) ''hello'' 7 ''id'' 3 '''' = Inr m"
    by (simp add: tester_simps)
  have "verifyProperties map_cms (createTextMessage map_cms ''bare'') = Inl Bad_usertime"
    by (simp add: verifyProperties_def map_cms_def)
  with receive_sent [OF map_cms_ok m] m show ?thesis by blast
qed

end
