(* ===== verification/Search_Node.thy ===== *)
theory Search_Node
  imports Word_Align
begin

text \<open>
  Hypothesis nodes of the second pass (\<open>search_bestfirst_v1.c\<close>, first part): making, stocking,
  recycling and copying them.  Nodes live in a store from addresses to records; the stocker is the
  chain of unused nodes along their \<open>next\<close> pointers.  A result \<open>None\<close> is an access to a released
  node or word graph, or outside an array.  The arrays of a node belong to it alone, so they are
  lists in the record.  The build is the one with \<open>CM_SEARCH\<close> and without \<open>CM_MULTIPLE_ALPHA\<close> and the
  debugging options; \<open>SCAN_BEAM\<close> and \<open>GRAPHOUT_PRECISE_BOUNDARY\<close> are parameters.
\<close>

section \<open>Data\<close>

datatype lm_type = LM_UNDEF | LM_PROB | LM_DFA

text \<open>
  What the functions use of a recognition process beyond the modes of \<open>align_env\<close>.  The last two
  members are the compile options.
\<close>

record search_env = align_env +
  peseqlen :: nat
  lmtype :: lm_type
  graphout :: bool
  MAXSEQNUM :: nat
  maxwn :: nat
  maxwlen :: nat
  looktrellis_flag :: bool
  framemaxscore :: "real list"
  scan_beam_thres :: real
  SCAN_BEAM :: bool
  GRAPHOUT_PRECISE_BOUNDARY :: bool

text \<open>A word of the trellis of the first pass, as far as the second pass reads it.\<close>

record TRELLIS_ATOM =
  backscore :: real
  begintime :: int
  endtime :: int

text \<open>
  A node.  \<open>nd_g_prev\<close> is \<open>None\<close> for the pointer \<open>NULL\<close>; \<open>nd_seq\<close> and \<open>nd_cmscore\<close> are arrays of
  \<open>MAXSEQNUM\<close> entries, of which the first \<open>nd_seqnum\<close> count.
\<close>

record NODE =
  nd_next :: "addr option"
  nd_prev :: "addr option"
  nd_g :: "real list"
  nd_g_prev :: "real list option"
  nd_seq :: "WORD_ID list"
  nd_cmscore :: "real list"
  nd_seqnum :: nat
  nd_score :: real
  nd_bestt :: int
  nd_estimated_next_t :: int
  nd_endflag :: bool
  nd_state :: int
  nd_tre :: "TRELLIS_ATOM option"
  nd_last_ph :: "HMM_Logical option"
  nd_last_ph_sp_attached :: bool
  nd_lscore :: real
  nd_totallscore :: real
  nd_final_g :: real
  nd_wordend_frame :: "int list"
  nd_wordend_gscore :: "real list"
  nd_prevgraph :: "addr option"
  nd_lastcontext :: "addr option"
  nd_tail_g_score :: real

text \<open>\<open>graph_saved\<close> are the word graphs that are allocated, with their flag \<open>saved\<close>.\<close>

record stock =
  nodes :: "NODE store"
  stocker_root :: "addr option"
  graph_saved :: "bool store"

section \<open>Making and recycling nodes\<close>

text \<open>
  The members that \<open>newnode\<close> sets, in whatever state the node is; the others keep what was in
  memory.  The stores run over the first \<open>peseqlen\<close> entries of the arrays.
\<close>

definition init_node :: "search_env \<Rightarrow> real \<Rightarrow> NODE \<Rightarrow> NODE option" where
  "init_node R lz n =
     (if length (nd_g n) < peseqlen R \<or> (ccd_flag R \<and> (case nd_g_prev n of None \<Rightarrow> True | Some gp \<Rightarrow> length gp < peseqlen R))
      then None
      else
        let n1 = n\<lparr>nd_next := None, nd_prev := None, nd_last_ph := None, nd_last_ph_sp_attached := False\<rparr>;
            n2 = (if ccd_flag R then
                    (case lmtype R of
                       LM_PROB \<Rightarrow> n1\<lparr>nd_lscore := lz, nd_totallscore := lz\<rparr>
                     | LM_DFA \<Rightarrow> n1\<lparr>nd_lscore := 0, nd_totallscore := 0\<rparr>
                     | LM_UNDEF \<Rightarrow> n1)
                  else n1);
            n3 = n2\<lparr>nd_endflag := False, nd_seqnum := 0,
                    nd_g := replicate (peseqlen R) lz @ drop (peseqlen R) (nd_g n)\<rparr>;
            n4 = (if ccd_flag R
                  then n3\<lparr>nd_g_prev := map_option (\<lambda>gp. replicate (peseqlen R) lz @ drop (peseqlen R) gp) (nd_g_prev n)\<rparr>
                  else n3);
            n5 = n4\<lparr>nd_final_g := lz, nd_tre := None\<rparr>
        in Some (if graphout R then n5\<lparr>nd_prevgraph := None, nd_lastcontext := None\<rparr> else n5))"

text \<open>
  A node from the allocator: \<open>junk\<close> is what the memory of the record holds; the arrays are allocated
  with \<open>peseqlen\<close> entries, also of any content.
\<close>

definition alloc_node :: "search_env \<Rightarrow> NODE \<Rightarrow> NODE" where
  "alloc_node R junk =
     (let arr = (\<lambda>xs. take (peseqlen R) (xs @ replicate (peseqlen R) 0));
          n1 = junk\<lparr>nd_g := arr (nd_g junk),
                    nd_g_prev := (if ccd_flag R then Some (arr (case nd_g_prev junk of None \<Rightarrow> [] | Some xs \<Rightarrow> xs)) else None)\<rparr>
      in if GRAPHOUT_PRECISE_BOUNDARY R \<and> graphout R
         then n1\<lparr>nd_wordend_frame := take (peseqlen R) (nd_wordend_frame junk @ replicate (peseqlen R) 0),
                 nd_wordend_gscore := arr (nd_wordend_gscore junk)\<rparr>
         else n1)"

text \<open>\<open>a\<close> is the address that the allocator gives when it is asked.\<close>

definition newnode :: "search_env \<Rightarrow> real \<Rightarrow> addr \<Rightarrow> NODE \<Rightarrow> stock \<Rightarrow> (addr \<times> stock) option" where
  "newnode R lz a junk s =
     (case stocker_root s of
        Some b \<Rightarrow>
          Option.bind (nodes s b) (\<lambda>n.
          Option.bind (init_node R lz n) (\<lambda>n'.
            Some (b, s\<lparr>stocker_root := nd_next n, nodes := (nodes s)(b \<mapsto> n')\<rparr>)))
      | None \<Rightarrow>
          Option.bind (init_node R lz (alloc_node R junk)) (\<lambda>n'.
            Some (a, s\<lparr>nodes := (nodes s)(a \<mapsto> n')\<rparr>)))"

text \<open>\<open>wordgraph_free\<close> belongs to libjulius.\<close>

definition free_node ::
  "search_env \<Rightarrow> (addr \<Rightarrow> bool store \<Rightarrow> bool store) \<Rightarrow> addr option \<Rightarrow> stock \<Rightarrow> stock option" where
  "free_node R wordgraph_free p s =
     (case p of
        None \<Rightarrow> Some s
      | Some a \<Rightarrow>
          Option.bind (nodes s a) (\<lambda>n.
          Option.bind
            (if \<not> graphout R then Some s
             else case nd_prevgraph n of
               None \<Rightarrow> Some s
             | Some w \<Rightarrow>
                 Option.bind (graph_saved s w) (\<lambda>saved.
                   Some (if saved then s else s\<lparr>graph_saved := wordgraph_free w (graph_saved s)\<rparr>)))
            (\<lambda>s1. Some (s1\<lparr>nodes := (nodes s1)(a \<mapsto> n\<lparr>nd_next := stocker_root s1\<rparr>), stocker_root := Some a\<rparr>))))"

definition free_node_exec :: "addr \<Rightarrow> NODE store \<Rightarrow> NODE store" where
  "free_node_exec a h = h(a := None)"

partial_function (option) clear_loop :: "addr option \<Rightarrow> NODE store \<Rightarrow> NODE store option" where
  "clear_loop p h =
     (case p of
        None \<Rightarrow> Some h
      | Some a \<Rightarrow> (case h a of None \<Rightarrow> None | Some n \<Rightarrow> clear_loop (nd_next n) (free_node_exec a h)))"

definition clear_stocker :: "stock \<Rightarrow> stock option" where
  "clear_stocker s = map_option (\<lambda>h. s\<lparr>nodes := h, stocker_root := None\<rparr>) (clear_loop (stocker_root s) (nodes s))"

section \<open>Copying\<close>

text \<open>Copying the first \<open>k\<close> entries of an array.\<close>

definition memcpy_list :: "nat \<Rightarrow> 'a list \<Rightarrow> 'a list \<Rightarrow> 'a list option" where
  "memcpy_list k dst src =
     (if length dst < k \<or> length src < k then None else Some (take k src @ drop k dst))"

text \<open>The context of the last phone is copied when the source has scores for it.\<close>

definition copy_context :: "search_env \<Rightarrow> NODE \<Rightarrow> NODE \<Rightarrow> NODE option" where
  "copy_context R dst src =
     (case nd_g_prev src of
        None \<Rightarrow> Some dst
      | Some gp \<Rightarrow>
          Option.bind (nd_g_prev dst) (\<lambda>gd.
          Option.bind (memcpy_list (peseqlen R) gd gp) (\<lambda>gd'.
            Some (dst\<lparr>nd_g_prev := Some gd', nd_last_ph := nd_last_ph src,
                      nd_last_ph_sp_attached := nd_last_ph_sp_attached src, nd_lscore := nd_lscore src\<rparr>))))"

definition copy_graph :: "search_env \<Rightarrow> NODE \<Rightarrow> NODE \<Rightarrow> NODE option" where
  "copy_graph R dst src =
     (if \<not> graphout R then Some dst
      else
        Option.bind
          (if GRAPHOUT_PRECISE_BOUNDARY R then
             Option.bind (memcpy_list (peseqlen R) (nd_wordend_frame dst) (nd_wordend_frame src)) (\<lambda>fr.
             Option.bind (memcpy_list (peseqlen R) (nd_wordend_gscore dst) (nd_wordend_gscore src)) (\<lambda>gs.
               Some (dst\<lparr>nd_wordend_frame := fr, nd_wordend_gscore := gs\<rparr>)))
           else Some (dst\<lparr>nd_tail_g_score := nd_tail_g_score src\<rparr>))
          (\<lambda>d. Some (d\<lparr>nd_prevgraph := nd_prevgraph src, nd_lastcontext := nd_lastcontext src\<rparr>)))"

definition cpy_node :: "search_env \<Rightarrow> NODE \<Rightarrow> NODE \<Rightarrow> NODE option" where
  "cpy_node R dst src =
     Option.bind (memcpy_list (peseqlen R) (nd_g dst) (nd_g src)) (\<lambda>g'.
     Option.bind (memcpy_list (MAXSEQNUM R) (nd_seq dst) (nd_seq src)) (\<lambda>seq'.
     Option.bind (memcpy_list (MAXSEQNUM R) (nd_cmscore dst) (nd_cmscore src)) (\<lambda>cm'.
     Option.bind
       (copy_context R
          (dst\<lparr>nd_next := nd_next src, nd_prev := nd_prev src, nd_g := g', nd_seq := seq', nd_cmscore := cm',
               nd_seqnum := nd_seqnum src, nd_score := nd_score src, nd_bestt := nd_bestt src,
               nd_estimated_next_t := nd_estimated_next_t src, nd_endflag := nd_endflag src,
               nd_state := nd_state src, nd_tre := nd_tre src\<rparr>) src) (\<lambda>d.
       copy_graph R (d\<lparr>nd_totallscore := nd_totallscore src, nd_final_g := nd_final_g src\<rparr>) src))))"

section \<open>What every node of a process looks like\<close>

text \<open>Memory for a record: its two arrays of fixed length.\<close>

definition shaped :: "search_env \<Rightarrow> NODE \<Rightarrow> bool" where
  "shaped R n \<longleftrightarrow> length (nd_seq n) = MAXSEQNUM R \<and> length (nd_cmscore n) = MAXSEQNUM R"

definition sized :: "search_env \<Rightarrow> NODE \<Rightarrow> bool" where
  "sized R n \<longleftrightarrow>
     shaped R n \<and> length (nd_g n) = peseqlen R
     \<and> (case nd_g_prev n of None \<Rightarrow> \<not> ccd_flag R | Some gp \<Rightarrow> ccd_flag R \<and> length gp = peseqlen R)
     \<and> (GRAPHOUT_PRECISE_BOUNDARY R \<and> graphout R \<longrightarrow>
          length (nd_wordend_frame n) = peseqlen R \<and> length (nd_wordend_gscore n) = peseqlen R)"

lemma sized_alloc: "shaped R junk \<Longrightarrow> sized R (alloc_node R junk)"
  by (auto simp: sized_def alloc_node_def shaped_def Let_def)

text \<open>The members of a fresh node that have a value of their own.\<close>

definition fresh_node :: "search_env \<Rightarrow> real \<Rightarrow> NODE \<Rightarrow> bool" where
  "fresh_node R lz n \<longleftrightarrow>
     nd_next n = None \<and> nd_prev n = None \<and> nd_last_ph n = None \<and> \<not> nd_last_ph_sp_attached n \<and> \<not> nd_endflag n
     \<and> nd_seqnum n = 0 \<and> nd_g n = replicate (peseqlen R) lz \<and> nd_final_g n = lz \<and> nd_tre n = None
     \<and> nd_g_prev n = (if ccd_flag R then Some (replicate (peseqlen R) lz) else None)
     \<and> (graphout R \<longrightarrow> nd_prevgraph n = None \<and> nd_lastcontext n = None)
     \<and> (ccd_flag R \<and> lmtype R = LM_PROB \<longrightarrow> nd_lscore n = lz \<and> nd_totallscore n = lz)
     \<and> (ccd_flag R \<and> lmtype R = LM_DFA \<longrightarrow> nd_lscore n = 0 \<and> nd_totallscore n = 0)"

lemma init_node_sized:
  assumes "sized R n"
  obtains n' where "init_node R lz n = Some n'" "sized R n'" "fresh_node R lz n'"
proof -
  from assms have len: "length (nd_g n) = peseqlen R" by (simp add: sized_def)
  show ?thesis
  proof (cases "nd_g_prev n")
    case None
    with assms have "\<not> ccd_flag R" by (simp add: sized_def)
    with assms len None show ?thesis
      by (intro that [of "the (init_node R lz n)"])
        (simp_all add: init_node_def sized_def shaped_def fresh_node_def Let_def)
  next
    case (Some gp)
    with assms have "ccd_flag R" "length gp = peseqlen R" by (simp_all add: sized_def)
    with assms len Some show ?thesis
      by (intro that [of "the (init_node R lz n)"])
        (simp_all add: init_node_def sized_def shaped_def fresh_node_def Let_def split: lm_type.split)
  qed
qed

text \<open>Copying between nodes of one process gives the source, apart from what the build leaves out.\<close>

lemma memcpy_list_all: "length dst = k \<Longrightarrow> length src = k \<Longrightarrow> memcpy_list k dst src = Some src"
  by (simp add: memcpy_list_def)

lemma cpy_node_sized:
  assumes "sized R dst" "sized R src"
  obtains n where "cpy_node R dst src = Some n" "sized R n"
    "n = src\<lparr>nd_last_ph := (if ccd_flag R then nd_last_ph src else nd_last_ph dst),
        nd_last_ph_sp_attached := (if ccd_flag R then nd_last_ph_sp_attached src else nd_last_ph_sp_attached dst),
        nd_lscore := (if ccd_flag R then nd_lscore src else nd_lscore dst),
        nd_wordend_frame := (if graphout R \<and> GRAPHOUT_PRECISE_BOUNDARY R then nd_wordend_frame src else nd_wordend_frame dst),
        nd_wordend_gscore := (if graphout R \<and> GRAPHOUT_PRECISE_BOUNDARY R then nd_wordend_gscore src else nd_wordend_gscore dst),
        nd_tail_g_score := (if graphout R \<and> \<not> GRAPHOUT_PRECISE_BOUNDARY R then nd_tail_g_score src else nd_tail_g_score dst),
        nd_prevgraph := (if graphout R then nd_prevgraph src else nd_prevgraph dst),
        nd_lastcontext := (if graphout R then nd_lastcontext src else nd_lastcontext dst)\<rparr>"
proof -
  note cp = cpy_node_def copy_context_def copy_graph_def memcpy_list_all
  have "ccd_flag R \<longleftrightarrow> nd_g_prev src \<noteq> None" "ccd_flag R \<longleftrightarrow> nd_g_prev dst \<noteq> None"
    using assms by (auto simp: sized_def split: option.splits)
  then consider (plain) "\<not> ccd_flag R" "nd_g_prev src = None" "nd_g_prev dst = None"
    | (ccd) gs gd where "ccd_flag R" "nd_g_prev src = Some gs" "nd_g_prev dst = Some gd"
    by (cases "ccd_flag R") auto
  then show ?thesis
  proof cases
    case plain
    with assms show ?thesis
      by (intro that [of "the (cpy_node R dst src)"]) (simp_all add: cp sized_def shaped_def)
  next
    case ccd
    with assms show ?thesis
      by (intro that [of "the (cpy_node R dst src)"]) (simp_all add: cp sized_def shaped_def)
  qed
qed

section \<open>The life of nodes\<close>

text \<open>The chain of a pointer along \<open>next\<close>.\<close>

fun chain :: "NODE store \<Rightarrow> addr option \<Rightarrow> addr list \<Rightarrow> bool" where
  "chain h p [] \<longleftrightarrow> p = None"
| "chain h p (a # as) \<longleftrightarrow> p = Some a \<and> (\<exists>n. h a = Some n \<and> chain h (nd_next n) as)"

lemma chain_cong:
  assumes "\<And>a. a \<in> set as \<Longrightarrow> h' a = h a"
  shows "chain h p as \<Longrightarrow> chain h' p as"
  using assms by (induction as arbitrary: p) auto

text \<open>
  \<open>U\<close> are the nodes in use.  The stocked ones are a chain of other nodes without repetition, there are
  no more, and every node has arrays of the right size.
\<close>

definition stock_inv :: "search_env \<Rightarrow> addr set \<Rightarrow> stock \<Rightarrow> bool" where
  "stock_inv R U s \<longleftrightarrow>
     (\<exists>as. chain (nodes s) (stocker_root s) as \<and> distinct as \<and> set as \<inter> U = {} \<and> dom (nodes s) = U \<union> set as)
     \<and> (\<forall>a n. nodes s a = Some n \<longrightarrow> sized R n)"

text \<open>
  What the search does with nodes: it asks for one, where the allocator gives an address that is
  not allocated, gives one back, copies one, writes to one, clears the stocker; and word graphs come
  and go.
\<close>

inductive stock_step ::
  "search_env \<Rightarrow> real \<Rightarrow> (addr \<Rightarrow> bool store \<Rightarrow> bool store) \<Rightarrow> addr set \<times> stock \<Rightarrow> addr set \<times> stock \<Rightarrow> bool"
  for R lz wordgraph_free where
  new: "nodes s a = None \<Longrightarrow> shaped R junk \<Longrightarrow> newnode R lz a junk s = Some (b, s') \<Longrightarrow>
      stock_step R lz wordgraph_free (U, s) (insert b U, s')"
| free: "a \<in> U \<Longrightarrow> free_node R wordgraph_free (Some a) s = Some s' \<Longrightarrow>
      stock_step R lz wordgraph_free (U, s) (U - {a}, s')"
| copy: "a \<in> U \<Longrightarrow> b \<in> U \<Longrightarrow> nodes s a = Some dst \<Longrightarrow> nodes s b = Some src \<Longrightarrow> cpy_node R dst src = Some n \<Longrightarrow>
      stock_step R lz wordgraph_free (U, s) (U, s\<lparr>nodes := (nodes s)(a \<mapsto> n)\<rparr>)"
| store: "a \<in> U \<Longrightarrow> sized R n \<Longrightarrow> stock_step R lz wordgraph_free (U, s) (U, s\<lparr>nodes := (nodes s)(a \<mapsto> n)\<rparr>)"
| graphs: "stock_step R lz wordgraph_free (U, s) (U, s\<lparr>graph_saved := gs\<rparr>)"
| clear: "clear_stocker s = Some s' \<Longrightarrow> stock_step R lz wordgraph_free (U, s) (U, s')"

inductive_cases stock_stepE: "stock_step R lz wordgraph_free x y"

definition empty_stock :: stock where
  "empty_stock = \<lparr>nodes = Map.empty, stocker_root = None, graph_saved = Map.empty\<rparr>"

text \<open>One lemma per operation.\<close>

lemma newnode_inv:
  assumes inv: "stock_inv R U s" and a: "nodes s a = None" "shaped R junk"
  obtains b s' n where "newnode R lz a junk s = Some (b, s')" "b \<notin> U" "stock_inv R (insert b U) s'"
    "nodes s' = (nodes s)(b \<mapsto> n)" "fresh_node R lz n"
proof -
  from inv obtain as where as: "chain (nodes s) (stocker_root s) as" "distinct as" "set as \<inter> U = {}"
      "dom (nodes s) = U \<union> set as" and sz: "\<And>a n. nodes s a = Some n \<Longrightarrow> sized R n"
    unfolding stock_inv_def by blast
  show ?thesis
  proof (cases as)
    case Nil
    obtain n where n: "init_node R lz (alloc_node R junk) = Some n" "sized R n" "fresh_node R lz n"
      using sized_alloc [OF a(2)] by (rule init_node_sized)
    have "a \<notin> U" using a(1) as(4) by auto
    moreover have "stock_inv R (insert a U) (s\<lparr>nodes := (nodes s)(a \<mapsto> n)\<rparr>)"
      unfolding stock_inv_def using as Nil n(2) sz by (auto intro!: exI [of _ "[]"])
    ultimately show ?thesis using that [of a "s\<lparr>nodes := (nodes s)(a \<mapsto> n)\<rparr>" n] as(1) Nil n
      by (simp add: newnode_def)
  next
    case (Cons b bs)
    with as(1) obtain m where m: "stocker_root s = Some b" "nodes s b = Some m" "chain (nodes s) (nd_next m) bs"
      by auto
    obtain n where n: "init_node R lz m = Some n" "sized R n" "fresh_node R lz n"
      using sz [OF m(2)] by (rule init_node_sized)
    let ?s = "s\<lparr>stocker_root := nd_next m, nodes := (nodes s)(b \<mapsto> n)\<rparr>"
    have "chain ((nodes s)(b \<mapsto> n)) (nd_next m) bs"
      using as(2) Cons by (intro chain_cong [OF _ m(3)]) auto
    then have "stock_inv R (insert b U) ?s"
      unfolding stock_inv_def using as Cons n(2) sz by (auto intro!: exI [of _ bs])
    moreover have "b \<notin> U" using as(3) Cons by auto
    ultimately show ?thesis using that [of b ?s n] m n by (simp add: newnode_def)
  qed
qed

lemma free_node_inv:
  assumes inv: "stock_inv R U s" and a: "a \<in> U" and s': "free_node R wordgraph_free (Some a) s = Some s'"
  shows "stock_inv R (U - {a}) s'"
proof -
  from inv obtain as where as: "chain (nodes s) (stocker_root s) as" "distinct as" "set as \<inter> U = {}"
      "dom (nodes s) = U \<union> set as" and sz: "\<And>a n. nodes s a = Some n \<Longrightarrow> sized R n"
    unfolding stock_inv_def by blast
  from a as(4) obtain n where n: "nodes s a = Some n" by blast
  let ?n = "n\<lparr>nd_next := stocker_root s\<rparr>"
  from s' n have s'': "nodes s' = (nodes s)(a \<mapsto> ?n)" "stocker_root s' = Some a"
    by (auto simp: free_node_def bind_eq_Some_conv split: if_splits option.splits)
  have "chain ((nodes s)(a \<mapsto> ?n)) (stocker_root s) as"
    using as(3) a by (intro chain_cong [OF _ as(1)]) auto
  moreover have "sized R ?n" using sz [OF n] by (simp add: sized_def shaped_def)
  ultimately show ?thesis
    unfolding stock_inv_def s'' using as a sz by (auto intro!: exI [of _ "a # as"])
qed

lemma clear_loop_chain:
  assumes "chain h p as" "distinct as"
  shows "clear_loop p h = Some (h |` (- set as))"
  using assms
proof (induction as arbitrary: h p)
  case Nil
  then show ?case by (subst clear_loop.simps) (simp add: restrict_map_def)
next
  case (Cons a as)
  from Cons.prems obtain n where n: "p = Some a" "h a = Some n" "chain h (nd_next n) as" by auto
  have "chain (free_node_exec a h) (nd_next n) as"
    using Cons.prems(2) by (intro chain_cong [OF _ n(3)]) (auto simp: free_node_exec_def)
  with Cons.IH Cons.prems(2) have "clear_loop (nd_next n) (free_node_exec a h) = Some (free_node_exec a h |` (- set as))"
    by simp
  moreover have "free_node_exec a h |` (- set as) = h |` (- set (a # as))"
    by (auto simp: free_node_exec_def restrict_map_def fun_eq_iff)
  ultimately show ?case using n by (subst clear_loop.simps) simp
qed

lemma clear_stocker_inv:
  assumes "stock_inv R U s"
  obtains s' where "clear_stocker s = Some s'" "stock_inv R U s'" "dom (nodes s') = U" "stocker_root s' = None"
proof -
  from assms obtain as where as: "chain (nodes s) (stocker_root s) as" "distinct as" "set as \<inter> U = {}"
      "dom (nodes s) = U \<union> set as" and sz: "\<And>a n. nodes s a = Some n \<Longrightarrow> sized R n"
    unfolding stock_inv_def by blast
  let ?s = "s\<lparr>nodes := nodes s |` (- set as), stocker_root := None\<rparr>"
  have "clear_stocker s = Some ?s" by (simp add: clear_stocker_def clear_loop_chain [OF as(1,2)])
  moreover have d: "dom (nodes ?s) = U" using as(3,4) by auto
  moreover have "stock_inv R U ?s"
    unfolding stock_inv_def using d sz by (auto intro!: exI [of _ "[]"] simp: restrict_map_def split: if_splits)
  ultimately show ?thesis using that by simp
qed

lemma write_inv:
  assumes "stock_inv R U s" "a \<in> U" "sized R n"
  shows "stock_inv R U (s\<lparr>nodes := (nodes s)(a \<mapsto> n)\<rparr>)"
proof -
  from assms(1) obtain as where as: "chain (nodes s) (stocker_root s) as" "distinct as" "set as \<inter> U = {}"
      "dom (nodes s) = U \<union> set as" and sz: "\<And>a n. nodes s a = Some n \<Longrightarrow> sized R n"
    unfolding stock_inv_def by blast
  have "chain ((nodes s)(a \<mapsto> n)) (stocker_root s) as"
    using as(3) assms(2) by (intro chain_cong [OF _ as(1)]) auto
  then show ?thesis
    unfolding stock_inv_def using as assms(2,3) sz by (auto intro!: exI [of _ as])
qed

lemma stock_step_inv:
  assumes "stock_step R lz wordgraph_free x y" "stock_inv R (fst x) (snd x)"
  shows "stock_inv R (fst y) (snd y)"
  using assms
proof cases
  case (new s a junk b s' U)
  with assms(2) show ?thesis using newnode_inv [of R U s a junk lz] by (metis fst_conv option.inject prod.inject snd_conv)
next
  case (free a U s s')
  with assms(2) show ?thesis using free_node_inv [of R U s a wordgraph_free s'] by simp
next
  case (copy a U b s dst src n)
  with assms(2) have "sized R dst" "sized R src" unfolding stock_inv_def by auto
  then have "sized R n" using copy by (metis cpy_node_sized option.inject)
  with copy assms(2) show ?thesis by (simp add: write_inv)
next
  case (store a U n s)
  with assms(2) show ?thesis by (simp add: write_inv)
next
  case (graphs U s gs)
  with assms(2) show ?thesis by (simp add: stock_inv_def)
next
  case (clear s s' U)
  with assms(2) show ?thesis using clear_stocker_inv [of R U s] by (metis fst_conv option.inject snd_conv)
qed

lemma stock_reachable_inv:
  assumes "(stock_step R lz wordgraph_free)\<^sup>*\<^sup>* ({}, empty_stock) (U, s)"
  shows "stock_inv R U s"
proof -
  have "stock_inv R (fst y) (snd y)" if "(stock_step R lz wordgraph_free)\<^sup>*\<^sup>* ({}, empty_stock) y" for y
    using that
  proof (induction rule: rtranclp_induct)
    case base
    show ?case by (auto simp: stock_inv_def empty_stock_def intro!: exI [of _ "[]"])
  qed (rule stock_step_inv)
  from this [OF assms] show ?thesis by simp
qed

section \<open>Properties\<close>

text \<open>C16: hypothesis nodes.  After any sequence of operations in which the search gives back, copies and
  writes only nodes that it holds, every operation it may ask for next succeeds: a new node is never one
  that is in use, its scores are cleared over all frames and no other node changes, whether it is recycled
  or allocated; giving back a node succeeds when its word graph, if any, is still there; nodes can be copied;
  and clearing the stocker releases exactly the nodes that are not in use.\<close>

theorem stocker_safe:
  assumes "(stock_step R lz wordgraph_free)\<^sup>*\<^sup>* ({}, empty_stock) (U, s)"
    and "nodes s a = None" "shaped R junk"
  shows "(\<exists>b s' n. newnode R lz a junk s = Some (b, s') \<and> b \<notin> U \<and> nodes s' = (nodes s)(b \<mapsto> n) \<and> fresh_node R lz n)
    \<and> (\<forall>b \<in> U. \<exists>n. nodes s b = Some n
        \<and> ((graphout R \<longrightarrow> (\<forall>w. nd_prevgraph n = Some w \<longrightarrow> graph_saved s w \<noteq> None)) \<longrightarrow>
             free_node R wordgraph_free (Some b) s \<noteq> None)
        \<and> (\<forall>c \<in> U. cpy_node R n (the (nodes s c)) \<noteq> None))
    \<and> (\<exists>s'. clear_stocker s = Some s' \<and> dom (nodes s') = U)"
proof (intro conjI ballI)
  note inv = stock_reachable_inv [OF assms(1)]
  show "\<exists>b s' n. newnode R lz a junk s = Some (b, s') \<and> b \<notin> U \<and> nodes s' = (nodes s)(b \<mapsto> n) \<and> fresh_node R lz n"
    using newnode_inv [OF inv assms(2,3)] by metis
  show "\<exists>s'. clear_stocker s = Some s' \<and> dom (nodes s') = U"
    using clear_stocker_inv [OF inv] by metis
  fix b assume b: "b \<in> U"
  have node: "\<exists>n. nodes s c = Some n \<and> sized R n" if "c \<in> U" for c
    using inv that unfolding stock_inv_def by blast
  from node [OF b] obtain n where n: "nodes s b = Some n" "sized R n" by blast
  moreover have "cpy_node R n (the (nodes s c)) \<noteq> None" if "c \<in> U" for c
    using node [OF that] n(2) by (metis cpy_node_sized option.sel option.simps(3))
  moreover have "free_node R wordgraph_free (Some b) s \<noteq> None"
    if "graphout R \<longrightarrow> (\<forall>w. nd_prevgraph n = Some w \<longrightarrow> graph_saved s w \<noteq> None)"
    using that n(1) by (auto simp: free_node_def split: option.split)
  ultimately show "\<exists>n. nodes s b = Some n
        \<and> ((graphout R \<longrightarrow> (\<forall>w. nd_prevgraph n = Some w \<longrightarrow> graph_saved s w \<noteq> None)) \<longrightarrow>
             free_node R wordgraph_free (Some b) s \<noteq> None)
        \<and> (\<forall>c \<in> U. cpy_node R n (the (nodes s c)) \<noteq> None)" by blast
qed

definition ex_words :: WORD_INFO where
  "ex_words = \<lparr>wseq = [[\<lparr>ph_name = ''a'', ph_addr = 1\<rparr>]], head_silwid = 0, tail_silwid = 0\<rparr>"

definition ex_search :: search_env where
  "ex_search = \<lparr>words_info = ex_words, multipath = False, enable_iwsp = False, ccd_flag = True, peseqlen = 2,
     lmtype = LM_PROB, graphout = False, MAXSEQNUM = 2, maxwn = 3, maxwlen = 1, looktrellis_flag = False,
     framemaxscore = [0, 0], scan_beam_thres = 100, SCAN_BEAM = True, GRAPHOUT_PRECISE_BOUNDARY = False\<rparr>"

definition ex_junk :: NODE where
  "ex_junk = \<lparr>nd_next = Some 7, nd_prev = None, nd_g = [], nd_g_prev = None, nd_seq = [4, 5], nd_cmscore = [0, 0],
     nd_seqnum = 9, nd_score = 3, nd_bestt = 0, nd_estimated_next_t = 0, nd_endflag = True, nd_state = 0,
     nd_tre = None, nd_last_ph = None, nd_last_ph_sp_attached = True, nd_lscore = 1, nd_totallscore = 2,
     nd_final_g = 5, nd_wordend_frame = [], nd_wordend_gscore = [], nd_prevgraph = None, nd_lastcontext = None,
     nd_tail_g_score = 0\<rparr>"

lemma stocker_safe_witness:
  "\<exists>s. (stock_step ex_search (-1000) (\<lambda>w gs. gs))\<^sup>*\<^sup>* ({}, empty_stock) ({3}, s)
     \<and> (\<exists>b s' n. newnode ex_search (-1000) 8 ex_junk s = Some (b, s') \<and> b \<notin> {3} \<and> fresh_node ex_search (-1000) n
          \<and> nodes s' b = Some n)"
proof -
  have sh: "shaped ex_search ex_junk" by (simp add: shaped_def ex_search_def ex_junk_def)
  have "sized ex_search (alloc_node ex_search ex_junk)" by (rule sized_alloc [OF sh])
  then obtain n where n: "init_node ex_search (-1000) (alloc_node ex_search ex_junk) = Some n"
    by (rule init_node_sized [of _ _ "-1000"])
  let ?s = "empty_stock\<lparr>nodes := [3 \<mapsto> n]\<rparr>"
  have "newnode ex_search (-1000) 3 ex_junk empty_stock = Some (3, ?s)"
    using n by (simp add: newnode_def empty_stock_def)
  then have "stock_step ex_search (-1000) (\<lambda>w gs. gs) ({}, empty_stock) (insert 3 {}, ?s)"
    by (intro stock_step.new [OF _ sh]) (simp_all add: empty_stock_def)
  then have r: "(stock_step ex_search (-1000) (\<lambda>w gs. gs))\<^sup>*\<^sup>* ({}, empty_stock) ({3}, ?s)" by auto
  have "nodes ?s 8 = None" by (simp add: empty_stock_def)
  from conjunct1 [OF stocker_safe [OF r this sh]] obtain b s' m where m:
    "newnode ex_search (-1000) 8 ex_junk ?s = Some (b, s')" "b \<notin> {3}" "nodes s' = (nodes ?s)(b \<mapsto> m)"
    "fresh_node ex_search (-1000) m" by (elim exE conjE)
  from m(3) have "nodes s' b = Some m" by (simp only: fun_upd_same)
  with r m(1,2,4) show ?thesis by (intro exI conjI)
qed

text \<open>A copy shares the word graph of its source: when neither is saved, giving back both releases the
  graph and then reads it.\<close>

lemma free_node_shared_graph:
  assumes "graphout R" "a \<noteq> b" "nodes s a = Some na" "nodes s b = Some nb" "cpy_node R nb na = Some nb'"
    and "nd_prevgraph na = Some w" "graph_saved s w = Some False" "\<And>gs. wordgraph_free w gs w = None"
  shows "Option.bind (free_node R wordgraph_free (Some a) (s\<lparr>nodes := (nodes s)(b \<mapsto> nb')\<rparr>))
     (free_node R wordgraph_free (Some b)) = None"
proof -
  from assms(5) obtain d where "copy_graph R d na = Some nb'"
    unfolding cpy_node_def bind_eq_Some_conv by blast
  with assms(1) obtain d' where "nb' = d'\<lparr>nd_prevgraph := nd_prevgraph na, nd_lastcontext := nd_lastcontext na\<rparr>"
    by (auto simp only: copy_graph_def if_False not_True_eq_False bind_eq_Some_conv option.inject)
  then have "nd_prevgraph nb' = nd_prevgraph na" by simp
  with assms(6) have "nd_prevgraph nb' = Some w" by simp
  with assms show ?thesis by (simp add: free_node_def)
qed

end
