(* ===== verification/Scan_Word.thy ===== *)
theory Scan_Word
  imports Search_Node
begin

text \<open>
  The forward scores of a hypothesis (\<open>search_bestfirst_v1.c\<close>, \<open>scan_word\<close>): a Viterbi search through
  the HMM of the last word, from the last frame to the first, in the modes with and without multipath,
  context dependency, the score envelope and word graphs.  With context dependency the head phone of
  the previous word is scanned again with its new context (backscan), from the scores that the previous
  scan stored.  Log probabilities are real numbers; the models of libsent are the record \<open>scan_ops\<close>.
  Messages about missing triphones are left out.  A result \<open>None\<close> is an access outside an array, the use
  of a variable that was never set, or the end of the program by \<open>j_internal_error\<close>.
\<close>

section \<open>Preparation\<close>

text \<open>
  More operations of libsent: the transition matrix of a phone, whether it is a pseudo phone, and the
  output probability of its last state at a frame.
\<close>

record scan_ops = hmm_ops +
  hmm_logical_trans :: "HMM_Logical \<Rightarrow> real list list"
  is_pseudo :: "HMM_Logical \<Rightarrow> bool"
  tail_outprob_cd :: "HMM_Logical \<Rightarrow> nat \<Rightarrow> real"
  tail_outprob_state :: "HMM_Logical \<Rightarrow> nat \<Rightarrow> real"

definition get_max_out_arc :: "real \<Rightarrow> real list list \<Rightarrow> nat \<Rightarrow> real" where
  "get_max_out_arc lz tr state_num =
     fold (\<lambda>afrom max_a. let a = tr ! afrom ! (state_num - 1) in if max_a < a then a else max_a) [0..<state_num - 1] lz"

definition max_out_arc :: "scan_ops \<Rightarrow> HMM_Logical \<Rightarrow> real" where
  "max_out_arc X l = get_max_out_arc (log_zero X) (hmm_logical_trans X l) (hmm_logical_state_num X l)"

abbreviation state_num :: "scan_ops \<Rightarrow> HMM_Logical \<Rightarrow> int" where
  "state_num X l \<equiv> int (hmm_logical_state_num X l)"

text \<open>
  What the scan works on: the HMM, the scores before the word, the state whose scores are stored for
  the next backscan, the best way out of the phone it ends, the state before which the last word ends,
  and the first phone with its short pause.
\<close>

record scan_par =
  p_hmm :: HMM
  p_g :: "real list"
  p_store :: int
  p_maxarc :: real
  p_cross :: int
  p_back :: bool
  p_ph0 :: HMM_Logical
  p_sp0 :: bool

definition use_sp :: "search_env \<Rightarrow> bool" where
  "use_sp R \<longleftrightarrow> enable_iwsp R \<and> multipath R"

definition store_of :: "search_env \<Rightarrow> scan_ops \<Rightarrow> HMM_Logical \<Rightarrow> bool \<Rightarrow> int \<times> real" where
  "store_of R X ph0 sp0 =
     (if multipath R then
        (if enable_iwsp R \<and> sp0
         then (state_num X ph0 - 2 + (state_num X (sp_model X) - 2),
               if max_out_arc X ph0 < max_out_arc X (sp_model X) then max_out_arc X (sp_model X) else max_out_arc X ph0)
         else (state_num X ph0 - 2, max_out_arc X ph0))
      else (state_num X ph0 - 2 - 1, 0))"

text \<open>The phones of the word and the last phone, in their new contexts.\<close>

definition backscan_phones :: "scan_ops \<Rightarrow> HMM_Logical list \<Rightarrow> HMM_Logical \<Rightarrow> HMM_Logical list" where
  "backscan_phones X phs last_ph =
     (let wend = last phs
      in butlast phs
         @ [case get_right_context_HMM X wend (ph_name last_ph) of None \<Rightarrow> wend | Some q \<Rightarrow> q,
            case get_left_context_HMM X last_ph (ph_name wend) of None \<Rightarrow> last_ph | Some q \<Rightarrow> q])"

definition prepare_back :: "search_env \<Rightarrow> scan_ops \<Rightarrow> NODE \<Rightarrow> HMM_Logical list \<Rightarrow> HMM_Logical \<Rightarrow> scan_par option" where
  "prepare_back R X now phs last_ph =
     (let phmmseq = backscan_phones X phs last_ph;
          has_sp = replicate (length phs - 1) False @ [True, nd_last_ph_sp_attached now]
      in if length phs + 1 > maxwlen R + 2 then None
         else
           Option.bind (new_make_word_hmm X phmmseq (if use_sp R then Some has_sp else None)) (\<lambda>whmm.
           Option.bind (nd_g_prev now) (\<lambda>gp.
             let ph0 = hd phmmseq; sp0 = use_sp R \<and> hd has_sp;
                 lastp = last phmmseq;
                 cross = (if multipath R
                          then int (length whmm) - state_num X lastp
                               - (if enable_iwsp R \<and> last has_sp then state_num X (sp_model X) - 2 else 0)
                          else int (length whmm) - (state_num X lastp - 2) - 1)
             in Some \<lparr>p_hmm = whmm, p_g = gp, p_store = fst (store_of R X ph0 sp0),
                      p_maxarc = snd (store_of R X ph0 sp0), p_cross = cross, p_back = True, p_ph0 = ph0, p_sp0 = sp0\<rparr>)))"

definition prepare_plain :: "search_env \<Rightarrow> scan_ops \<Rightarrow> NODE \<Rightarrow> HMM_Logical list \<Rightarrow> scan_par option" where
  "prepare_plain R X now phs =
     (let has_sp = replicate (length phs - 1) False @ [True]
      in Option.bind (new_make_word_hmm X phs (if use_sp R then Some has_sp else None)) (\<lambda>whmm.
           let ph0 = hd phs; sp0 = use_sp R \<and> hd has_sp
           in Some \<lparr>p_hmm = whmm, p_g = nd_g now,
                    p_store = (if ccd_flag R then fst (store_of R X ph0 sp0) else if multipath R then -1 else 0),
                    p_maxarc = snd (store_of R X ph0 sp0),
                    p_cross = (if ccd_flag R then -1 else 0), p_back = False, p_ph0 = ph0, p_sp0 = sp0\<rparr>))"

definition prepare_scan :: "search_env \<Rightarrow> scan_ops \<Rightarrow> NODE \<Rightarrow> scan_par option" where
  "prepare_scan R X now =
     (if nd_seqnum now = 0 \<or> length (nd_seq now) < nd_seqnum now then None
      else
        let word = nd_seq now ! (nd_seqnum now - 1)
        in if word \<ge> length (wseq (words_info R)) then None
           else
             let phs = wseq (words_info R) ! word
             in if phs = [] then None
                else case (if ccd_flag R then nd_last_ph now else None) of
                  Some last_ph \<Rightarrow> prepare_back R X now phs last_ph
                | None \<Rightarrow> prepare_plain R X now phs)"

section \<open>One frame\<close>

text \<open>The test of the score envelope.\<close>

definition above :: "search_env \<Rightarrow> real \<Rightarrow> nat \<Rightarrow> real \<Rightarrow> bool" where
  "above R lz t s \<longleftrightarrow> (SCAN_BEAM R \<longrightarrow> s > framemaxscore R ! t - scan_beam_thres R) \<and> s > lz"

type_synonym token = "int \<times> real"

text \<open>
  The state between frames.  \<open>w_row\<close> and \<open>w_tok\<close> are the current halves of \<open>wordtrellis\<close> and the word-end
  tokens, \<open>w_old\<close> and \<open>w_oldtok\<close> the other halves, \<open>w_flip\<close> says which is which.  \<open>w_j\<close> is the variable \<open>j\<close>,
  \<open>None\<close> as long as it is not set.
\<close>

record wstate =
  w_row :: "real list"
  w_old :: "real list"
  w_tok :: "token list"
  w_oldtok :: "token list"
  w_flip :: bool
  w_g :: "real list"
  w_gprev :: "real list"
  w_wend :: "token list"
  w_endt :: nat
  w_j :: "nat option"

definition precise :: "search_env \<Rightarrow> bool" where
  "precise R \<longleftrightarrow> GRAPHOUT_PRECISE_BOUNDARY R \<and> graphout R"

text \<open>The score of the way over one arc of state \<open>i\<close> at frame \<open>t\<close>; \<open>prev\<close> are the scores of frame \<open>t + 1\<close>.\<close>

definition arc_score ::
  "search_env \<Rightarrow> real \<Rightarrow> scan_par \<Rightarrow> real \<Rightarrow> nat \<Rightarrow> nat \<Rightarrow> real list \<Rightarrow> nat \<Rightarrow> A_CELL \<Rightarrow> real" where
  "arc_score R lz P lscore startt t prev i c =
     (if \<not> multipath R then prev ! ac_arc c
      else if ac_arc c = length (p_hmm P) - 1 then p_g P ! t
      else if t + 1 > startt then lz else prev ! ac_arc c) + ac_a c
     + (if ccd_flag R \<and> int i \<le> p_cross P \<and> int (ac_arc c) > p_cross P then lscore else 0)"

text \<open>The best way into a state, and the best ways that count for the store point.\<close>

record best =
  b_max :: real
  b_j :: "nat option"
  b_max2 :: real
  b_store :: real

definition take_arc ::
  "search_env \<Rightarrow> scan_par \<Rightarrow> (A_CELL \<Rightarrow> real) \<Rightarrow> nat \<Rightarrow> A_CELL \<Rightarrow> best \<Rightarrow> best" where
  "take_arc R P sc i c b =
     (let score1 = sc c;
          b1 = (if ccd_flag R then
                  if multipath R then
                    (if int i \<le> p_store P \<and> int (ac_arc c) > p_store P \<and> b_store b < score1
                     then b\<lparr>b_store := score1\<rparr> else b)
                  else
                    (if int i = p_store P \<and> i \<noteq> ac_arc c \<and> b_max2 b < score1 then b\<lparr>b_max2 := score1\<rparr> else b)
                else b)
      in if b_max b1 < score1 then b1\<lparr>b_max := score1, b_j := Some (ac_arc c)\<rparr> else b1)"

text \<open>The states of a frame are scanned downwards: results are put in front of the lists.\<close>

record nstate =
  n_row :: "real list"
  n_tok :: "token list"
  n_j :: "nat option"
  n_store :: real
  n_prev :: "real option"
  n_exist :: bool

definition node_token ::
  "search_env \<Rightarrow> scan_par \<Rightarrow> nat \<Rightarrow> token list \<Rightarrow> nat \<Rightarrow> nat \<Rightarrow> real \<Rightarrow> token" where
  "node_token R P t prevtok i j tmpmax =
     (let crosses = int i \<le> p_cross P \<and> int j > p_cross P;
          fresh = (if multipath R then (ccd_flag R \<and> p_back P \<and> crosses) \<or> j = length (p_hmm P) - 1
                   else ccd_flag R \<and> crosses)
      in if fresh then (int t, tmpmax) else prevtok ! j)"

definition scan_node ::
  "search_env \<Rightarrow> scan_ops \<Rightarrow> scan_par \<Rightarrow> real \<Rightarrow> nat \<Rightarrow> nat \<Rightarrow> real list \<Rightarrow> token list \<Rightarrow> nat \<Rightarrow> nstate \<Rightarrow> nstate" where
  "scan_node R X P lscore startt t prev prevtok i n =
     (let lz = log_zero X;
          b = fold (take_arc R P (arc_score R lz P lscore startt t prev i) i) (st_ac (p_hmm P ! i))
                \<lparr>b_max = lz, b_j = n_j n, b_max2 = lz, b_store = n_store n\<rparr>;
          alive = above R lz t (b_max b);
          val = (if \<not> alive then lz
                 else if \<not> multipath R \<or> i > 0 then b_max b + outprob_of X (p_hmm P) t i else b_max b);
          tok = (if \<not> alive then (-1, lz) else node_token R P t prevtok i (the (b_j b)) (b_max b))
      in \<lparr>n_row = val # n_row n,
          n_tok = (if precise R then tok # n_tok n else n_tok n),
          n_j = b_j b, n_store = b_store b,
          n_prev = (if ccd_flag R \<and> \<not> multipath R \<and> int i = p_store P
                    then Some (if alive then b_max2 b else lz) else n_prev n),
          n_exist = (n_exist n \<or> alive)\<rparr>)"

text \<open>The last state, at the edge, without multipath: entered from \<open>g[t]\<close> or over an arc.\<close>

definition scan_edge ::
  "search_env \<Rightarrow> scan_ops \<Rightarrow> scan_par \<Rightarrow> nat \<Rightarrow> real list \<Rightarrow> token list \<Rightarrow> nat option
    \<Rightarrow> (real \<times> token \<times> nat option \<times> bool) option" where
  "scan_edge R X P t prev prevtok j0 =
     (let lz = log_zero X; e = length (p_hmm P) - 1;
          (tmptmp, j) = fold (\<lambda>c (m, j). let s = prev ! ac_arc c + ac_a c in if m < s then (s, Some (ac_arc c)) else (m, j))
                          (st_ac (p_hmm P ! e)) (lz, j0);
          entered = p_g P ! t > tmptmp;
          tmpmax = (if entered then p_g P ! t else tmptmp);
          alive = above R lz t tmpmax;
          val = (if alive then tmpmax + outprob_of X (p_hmm P) t e else lz)
      in if \<not> precise R then Some (val, (-1, lz), j, alive)
         else if entered \<and> (\<not> p_back P \<or> int e = p_cross P)
         then Some (val, if alive then (int t, p_g P ! t) else (-1, lz), j, alive)
         else
           Option.bind j (\<lambda>k. Some (val, if alive then prevtok ! k else (-1, lz), j, alive)))"

text \<open>A frame starts with the last state, goes over the others and stores the scores of the first.\<close>

definition enter_frame :: "search_env \<Rightarrow> scan_ops \<Rightarrow> scan_par \<Rightarrow> nat \<Rightarrow> wstate \<Rightarrow> nstate option" where
  "enter_frame R X P t w =
     (let lz = log_zero X; e = length (p_hmm P) - 1
      in if multipath R
         then Some \<lparr>n_row = drop e (w_old w), n_tok = drop e (w_oldtok w), n_j = w_j w, n_store = lz,
                    n_prev = None, n_exist = False\<rparr>
         else
           map_option (\<lambda>(val, tok, j, alive).
             \<lparr>n_row = val # drop (e + 1) (w_old w), n_tok = tok # drop (e + 1) (w_oldtok w), n_j = j, n_store = lz,
              n_prev = None, n_exist = alive\<rparr>) (scan_edge R X P t (w_row w) (w_tok w) (w_j w)))"

definition leave_frame :: "search_env \<Rightarrow> scan_ops \<Rightarrow> scan_par \<Rightarrow> nat \<Rightarrow> wstate \<Rightarrow> nstate \<Rightarrow> wstate" where
  "leave_frame R X P t w n =
     (let lz = log_zero X;
          gp = (if \<not> ccd_flag R then w_gprev w
                else if multipath R
                then (w_gprev w)[t := (if n_store n - p_maxarc P < lz then lz else n_store n - p_maxarc P)]
                else case n_prev n of None \<Rightarrow> w_gprev w | Some v \<Rightarrow> (w_gprev w)[t := v])
      in w\<lparr>w_row := n_row n, w_old := w_row w, w_tok := n_tok n, w_oldtok := w_tok w, w_flip := \<not> w_flip w,
           w_g := (w_g w)[t := n_row n ! 0], w_gprev := gp,
           w_wend := (if precise R then (w_wend w)[t := n_tok n ! 0] else w_wend w),
           w_endt := (if n_exist n then t else w_endt w), w_j := n_j n\<rparr>)"

definition scan_frame ::
  "search_env \<Rightarrow> scan_ops \<Rightarrow> scan_par \<Rightarrow> real \<Rightarrow> nat \<Rightarrow> nat \<Rightarrow> wstate \<Rightarrow> (wstate \<times> bool) option" where
  "scan_frame R X P lscore startt t w =
     map_option (\<lambda>n0.
         let n = fold (scan_node R X P lscore startt t (w_row w) (w_tok w)) (rev [0..<length (p_hmm P) - 1]) n0
         in (leave_frame R X P t w n, n_exist n))
       (enter_frame R X P t w)"

section \<open>All frames\<close>

text \<open>Clearing what is stored for the frames in a list.\<close>

definition clear_frame :: "search_env \<Rightarrow> real \<Rightarrow> nat \<Rightarrow> wstate \<Rightarrow> wstate" where
  "clear_frame R lz t w =
     w\<lparr>w_g := (w_g w)[t := lz], w_gprev := (if ccd_flag R then (w_gprev w)[t := lz] else w_gprev w),
       w_wend := (if precise R then (w_wend w)[t := (-1, lz)] else w_wend w)\<rparr>"

fun scan_loop ::
  "search_env \<Rightarrow> scan_ops \<Rightarrow> scan_par \<Rightarrow> real \<Rightarrow> int \<Rightarrow> nat \<Rightarrow> nat list \<Rightarrow> wstate \<Rightarrow> wstate option" where
  "scan_loop R X P lscore estimated_next_t startt [] w = Some w"
| "scan_loop R X P lscore estimated_next_t startt (t # ts) w =
     (case scan_frame R X P lscore startt t w of
        None \<Rightarrow> None
      | Some (w', node_exist_p) \<Rightarrow>
          if int t < estimated_next_t \<and> \<not> node_exist_p then Some (fold (clear_frame R (log_zero X)) ts w')
          else scan_loop R X P lscore estimated_next_t startt ts w')"

text \<open>The first frame of the scan, with the scores of the last state at it in the mode without multipath.\<close>

definition scan_init :: "search_env \<Rightarrow> scan_ops \<Rightarrow> scan_par \<Rightarrow> nat \<Rightarrow> wstate \<Rightarrow> wstate" where
  "scan_init R X P startt w =
     (let lz = log_zero X; e = length (p_hmm P) - 1;
          w1 = fold (clear_frame R lz) (rev [startt + 1..<peseqlen R]) w;
          w2 = (if precise R then w1\<lparr>w_tok := replicate (e + 1) (-1, lz) @ drop (e + 1) (w_tok w1)\<rparr> else w1);
          w3 = (if multipath R then w2
                else
                  let row = replicate e lz @ (p_g P ! startt + outprob_of X (p_hmm P) startt e) # drop (e + 1) (w_row w2);
                      etok = (if \<not> p_back P \<or> int e = p_cross P then (int startt, p_g P ! startt) else (-1, lz));
                      tok = (if precise R then (w_tok w2)[e := etok] else w_tok w2)
                  in w2\<lparr>w_row := row,
                        w_gprev := (if ccd_flag R then (w_gprev w2)[startt := row ! nat (p_store P)] else w_gprev w2),
                        w_g := (w_g w2)[startt := row ! 0],
                        w_tok := tok,
                        w_wend := (if precise R then (w_wend w2)[startt := tok ! 0] else w_wend w2)\<rparr>)
      in w3\<lparr>w_endt := startt\<rparr>)"

text \<open>The loop over the frames, or the clearing of all scores when no frame is worth scanning.\<close>

definition scan_frames ::
  "search_env \<Rightarrow> scan_ops \<Rightarrow> scan_par \<Rightarrow> real \<Rightarrow> int \<Rightarrow> wstate \<Rightarrow> (wstate \<times> nat) option" where
  "scan_frames R X P lscore estimated_next_t w =
     (case find (\<lambda>t. above R (log_zero X) t (p_g P ! t)) (rev [0..<peseqlen R]) of
        None \<Rightarrow> Some (fold (clear_frame R (log_zero X)) [0..<peseqlen R] w, 0)
      | Some startt \<Rightarrow>
          map_option (\<lambda>w'. (w', startt))
            (scan_loop R X P lscore estimated_next_t startt
               (if multipath R then rev [0..<startt + 1] else rev [0..<startt]) (scan_init R X P startt w)))"

section \<open>The whole scan\<close>

text \<open>The work area that the calls share: the halves of \<open>wordtrellis\<close> and of the word-end tokens.\<close>

record work_area =
  wordtrellis0 :: "real list"
  wordtrellis1 :: "real list"
  wend_token0 :: "token list"
  wend_token1 :: "token list"

text \<open>
  The work area is allocated once for a recognition; what is in it is not specified (\<open>junk\<close>).  The arrays
  \<open>phmmseq\<close> and \<open>has_sp\<close> for \<open>maxwlen + 2\<close> phones are the lists of \<open>prepare_scan\<close>.
\<close>

definition sized_to :: "nat \<Rightarrow> 'a \<Rightarrow> 'a list \<Rightarrow> 'a list" where
  "sized_to n d junk = take n (junk @ replicate n d)"

definition malloc_wordtrellis :: "search_env \<Rightarrow> work_area \<Rightarrow> work_area" where
  "malloc_wordtrellis R junk =
     (let n = maxwn R + 10; tokens = (\<lambda>xs. if precise R then sized_to n (0, 0) xs else [])
      in \<lparr>wordtrellis0 = sized_to n 0 (wordtrellis0 junk), wordtrellis1 = sized_to n 0 (wordtrellis1 junk),
          wend_token0 = tokens (wend_token0 junk), wend_token1 = tokens (wend_token1 junk)\<rparr>)"

text \<open>The rows of the work area have an entry for every state of the HMM.\<close>

definition area_holds :: "search_env \<Rightarrow> scan_par \<Rightarrow> work_area \<Rightarrow> bool" where
  "area_holds R P K \<longleftrightarrow>
     length (p_hmm P) \<le> length (wordtrellis0 K) \<and> length (p_hmm P) \<le> length (wordtrellis1 K)
     \<and> (precise R \<longrightarrow> length (p_hmm P) \<le> length (wend_token0 K) \<and> length (p_hmm P) \<le> length (wend_token1 K))"

text \<open>All accesses of the scan are to entries that exist.\<close>

definition scan_in_range :: "search_env \<Rightarrow> scan_par \<Rightarrow> NODE \<Rightarrow> work_area \<Rightarrow> bool" where
  "scan_in_range R P now K \<longleftrightarrow>
     area_holds R P K
     \<and> p_hmm P \<noteq> [] \<and> list_all (\<lambda>s. list_all (\<lambda>c. ac_arc c < length (p_hmm P)) (st_ac s)) (p_hmm P)
     \<and> peseqlen R \<le> length (p_g P) \<and> peseqlen R \<le> length (nd_g now) \<and> 0 < peseqlen R
     \<and> (SCAN_BEAM R \<longrightarrow> peseqlen R \<le> length (framemaxscore R))
     \<and> (ccd_flag R \<longrightarrow> (case nd_g_prev now of None \<Rightarrow> False | Some gp \<Rightarrow> peseqlen R \<le> length gp))
     \<and> (ccd_flag R \<and> \<not> multipath R \<longrightarrow> 0 \<le> p_store P \<and> p_store P < int (length (p_hmm P)))
     \<and> (multipath R \<longrightarrow> st_ac (hd (p_hmm P)) \<noteq> [])
     \<and> (precise R \<longrightarrow> peseqlen R \<le> length (nd_wordend_frame now) \<and> peseqlen R \<le> length (nd_wordend_gscore now))
     \<and> (ccd_flag R \<and> graphout R \<and> \<not> GRAPHOUT_PRECISE_BOUNDARY R \<longrightarrow>
          0 \<le> nd_bestt now \<and> nd_bestt now < int (length (nd_g now)))"

text \<open>
  What becomes of a call before the first frame: the program ends because the word is too long, the scan
  would leave the work area, it would leave another array, or it goes on.
\<close>

datatype scan_check = Program_ends | Outside_work_area | Outside_arrays | Scans scan_par

definition scan_check :: "search_env \<Rightarrow> scan_ops \<Rightarrow> NODE \<Rightarrow> work_area \<Rightarrow> scan_check" where
  "scan_check R X now K =
     (case prepare_scan R X now of None \<Rightarrow> Outside_arrays
      | Some P \<Rightarrow>
          if length (p_hmm P) \<ge> maxwn R + 10 then Program_ends
          else if \<not> area_holds R P K then Outside_work_area
          else if \<not> scan_in_range R P now K then Outside_arrays
          else Scans P)"

text \<open>
  The final score of the multipath mode: the loop computes the maximum \<open>tmpmax\<close> over the arcs of the
  first state, the score that is kept is the last \<open>score1\<close>.
\<close>

definition final_scores :: "real \<Rightarrow> real list \<Rightarrow> A_CELL list \<Rightarrow> real \<times> real" where
  "final_scores lz row cs =
     fold (\<lambda>c (tmpmax, score1). let s = row ! ac_arc c + ac_a c in (if tmpmax < s then s else tmpmax, s)) cs (lz, lz)"

text \<open>The word boundaries move one frame ahead, in place.\<close>

definition shift_boundaries :: "nat \<Rightarrow> 'a list \<Rightarrow> 'a list" where
  "shift_boundaries len xs = fold (\<lambda>t a. a[t := a ! (t + 1)]) [0..<len - 1] (xs[len - 1 := xs ! 0])"

definition start_state :: "NODE \<Rightarrow> work_area \<Rightarrow> wstate" where
  "start_state now K =
     \<lparr>w_row = wordtrellis0 K, w_old = wordtrellis1 K, w_tok = wend_token0 K, w_oldtok = wend_token1 K, w_flip = False,
      w_g = nd_g now, w_gprev = (case nd_g_prev now of None \<Rightarrow> [] | Some gp \<Rightarrow> gp),
      w_wend = zip (nd_wordend_frame now) (nd_wordend_gscore now), w_endt = 0, w_j = None\<rparr>"

definition work_of :: "wstate \<Rightarrow> work_area" where
  "work_of w =
     (if w_flip w
      then \<lparr>wordtrellis0 = w_old w, wordtrellis1 = w_row w, wend_token0 = w_oldtok w, wend_token1 = w_tok w\<rparr>
      else \<lparr>wordtrellis0 = w_row w, wordtrellis1 = w_old w, wend_token0 = w_tok w, wend_token1 = w_oldtok w\<rparr>)"

text \<open>What is stored in the node behind the loop.\<close>

definition finish_scan :: "search_env \<Rightarrow> scan_ops \<Rightarrow> scan_par \<Rightarrow> nat \<Rightarrow> wstate \<Rightarrow> NODE \<Rightarrow> NODE" where
  "finish_scan R X P startt w now =
     (let lz = log_zero X; len = length (p_hmm P);
          n1 = now\<lparr>nd_g := w_g w, nd_g_prev := (if ccd_flag R then Some (w_gprev w) else nd_g_prev now)\<rparr>;
          n2 = (if precise R then n1\<lparr>nd_wordend_frame := map fst (w_wend w), nd_wordend_gscore := map snd (w_wend w)\<rparr> else n1);
          n3 = (if multipath R
                then n2\<lparr>nd_final_g := (if w_endt w = 0 then snd (final_scores lz (w_row w) (st_ac (hd (p_hmm P)))) else lz)\<rparr>
                else n2);
          n4 = (if ccd_flag R \<and> p_store P = (if multipath R then int len - 2 else int len - 1)
                then n3\<lparr>nd_g_prev := Some (fold (\<lambda>t gp. gp[t := p_g P ! t]) (rev [0..<startt + 1]) (w_gprev w))\<rparr>
                else n3);
          n5 = (if ccd_flag R
                then n4\<lparr>nd_last_ph := Some (p_ph0 P),
                        nd_last_ph_sp_attached := (if use_sp R then p_sp0 P else nd_last_ph_sp_attached n4)\<rparr>
                else n4)
      in if precise R \<and> \<not> multipath R
         then n5\<lparr>nd_wordend_frame := shift_boundaries (peseqlen R) (nd_wordend_frame n5),
                 nd_wordend_gscore := shift_boundaries (peseqlen R) (nd_wordend_gscore n5)\<rparr>
         else n5)"

text \<open>
  The result: the node, the work area, and the score stored in the word graph behind the node, in
  the build without precise boundaries.
\<close>

definition scan_word ::
  "search_env \<Rightarrow> scan_ops \<Rightarrow> NODE \<Rightarrow> work_area \<Rightarrow> (NODE \<times> work_area \<times> (addr \<times> real) option) option" where
  "scan_word R X now K =
     (case scan_check R X now K of
        Scans P \<Rightarrow>
          let tails = ccd_flag R \<and> graphout R \<and> \<not> GRAPHOUT_PRECISE_BOUNDARY R;
              now1 = (if tails then now\<lparr>nd_tail_g_score := nd_g now ! nat (nd_bestt now)\<rparr> else now)
          in map_option (\<lambda>(w, startt).
               (finish_scan R X P startt w now1, work_of w,
                if tails \<and> nd_tail_g_score now1 \<noteq> log_zero X
                then map_option (\<lambda>g. (g, nd_tail_g_score now1)) (nd_prevgraph now1) else None))
             (scan_frames R X P (nd_lscore now1) (nd_estimated_next_t now1) (start_state now1 K))
      | _ \<Rightarrow> None)"

section \<open>Paths\<close>

text \<open>
  What the scan ranges over: a path (given by its frame, its state and its score) enters the last state
  from the scores before the word, and follows arcs backwards in time; over an arc its score
  must stay inside the envelope.  The last state of the multipath mode has no output and belongs to the
  frame behind the one it is entered from.
\<close>

abbreviation last_state :: "scan_par \<Rightarrow> nat" where
  "last_state P \<equiv> length (p_hmm P) - 1"

definition gain :: "search_env \<Rightarrow> scan_par \<Rightarrow> real \<Rightarrow> nat \<Rightarrow> A_CELL \<Rightarrow> real" where
  "gain R P lscore i c = ac_a c + (if ccd_flag R \<and> int i \<le> p_cross P \<and> int (ac_arc c) > p_cross P then lscore else 0)"

definition out_at :: "search_env \<Rightarrow> scan_ops \<Rightarrow> scan_par \<Rightarrow> nat \<Rightarrow> nat \<Rightarrow> real" where
  "out_at R X P t n = (if \<not> multipath R \<or> n > 0 then outprob_of X (p_hmm P) t n else 0)"

inductive scan_path :: "search_env \<Rightarrow> scan_ops \<Rightarrow> scan_par \<Rightarrow> real \<Rightarrow> nat \<Rightarrow> nat \<Rightarrow> real \<Rightarrow> bool"
  for R X P lscore where
  enter: "\<not> multipath R \<Longrightarrow> t < peseqlen R \<Longrightarrow> above R (log_zero X) t (p_g P ! t) \<Longrightarrow>
     scan_path R X P lscore t (last_state P) (p_g P ! t + out_at R X P t (last_state P))"
| enter_multipath: "multipath R \<Longrightarrow> t < peseqlen R \<Longrightarrow>
     scan_path R X P lscore (Suc t) (last_state P) (p_g P ! t)"
| arc: "scan_path R X P lscore (Suc t) (ac_arc c) s \<Longrightarrow> n \<le> last_state P \<Longrightarrow> (multipath R \<Longrightarrow> n < last_state P) \<Longrightarrow>
     c \<in> set (st_ac (p_hmm P ! n)) \<Longrightarrow> above R (log_zero X) t (s + gain R P lscore n c) \<Longrightarrow>
     scan_path R X P lscore t n (s + gain R P lscore n c + out_at R X P t n)"

text \<open>A value is the best score of a path to a state, or \<open>LOG_ZERO\<close> when there is none.\<close>

definition best_at :: "search_env \<Rightarrow> scan_ops \<Rightarrow> scan_par \<Rightarrow> real \<Rightarrow> nat \<Rightarrow> nat \<Rightarrow> real \<Rightarrow> bool" where
  "best_at R X P lscore t n v \<longleftrightarrow>
     (\<forall>s. scan_path R X P lscore t n s \<longrightarrow> s \<le> v)
     \<and> (scan_path R X P lscore t n v \<or> (v = log_zero X \<and> (\<forall>s. \<not> scan_path R X P lscore t n s)))"

text \<open>Transitions are log probabilities, also together with the score of the language model.\<close>

definition arcs_lose :: "search_env \<Rightarrow> scan_par \<Rightarrow> real \<Rightarrow> bool" where
  "arcs_lose R P lscore \<longleftrightarrow>
     (\<forall>n \<le> last_state P. \<forall>c \<in> set (st_ac (p_hmm P ! n)). gain R P lscore n c \<le> 0)"

lemma above_mono: "above R lz t s \<Longrightarrow> s \<le> s' \<Longrightarrow> above R lz t s'"
  by (auto simp: above_def)

lemma above_log_zero: "above R lz t s \<Longrightarrow> lz < s"
  by (simp add: above_def)

text \<open>Every path has entered from a score inside the envelope.\<close>

lemma path_entered:
  assumes "scan_path R X P lscore t n s" "arcs_lose R P lscore"
  shows "(multipath R \<and> n = last_state P \<and> (\<exists>t0. t = Suc t0 \<and> t0 < peseqlen R \<and> s = p_g P ! t0))
    \<or> (\<exists>t' \<ge> t. t' < peseqlen R \<and> above R (log_zero X) t' (p_g P ! t'))"
  using assms
proof (induction rule: scan_path.induct)
  case (arc t c s n)
  from arc.IH [OF arc.prems] show ?case
  proof (elim disjE)
    assume "multipath R \<and> ac_arc c = last_state P \<and> (\<exists>t0. Suc t = Suc t0 \<and> t0 < peseqlen R \<and> s = p_g P ! t0)"
    moreover have "gain R P lscore n c \<le> 0" using arc.prems arc.hyps unfolding arcs_lose_def by blast
    ultimately have "t < peseqlen R" "above R (log_zero X) t (p_g P ! t)"
      using above_mono [OF arc.hyps(5)] by auto
    then show ?thesis by blast
  next
    assume "\<exists>t' \<ge> Suc t. t' < peseqlen R \<and> above R (log_zero X) t' (p_g P ! t')"
    then show ?thesis by (metis Suc_leD)
  qed
qed auto

section \<open>Maxima\<close>

definition top :: "real \<Rightarrow> ('a \<Rightarrow> real) \<Rightarrow> 'a set \<Rightarrow> real \<Rightarrow> bool" where
  "top v0 sc S v \<longleftrightarrow> v0 \<le> v \<and> (\<forall>c \<in> S. sc c \<le> v) \<and> (v = v0 \<or> (\<exists>c \<in> S. v = sc c))"

lemma topD:
  assumes "top v0 sc S v"
  shows "v0 \<le> v" "c \<in> S \<Longrightarrow> sc c \<le> v" "v \<noteq> v0 \<Longrightarrow> \<exists>c \<in> S. v = sc c"
  using assms unfolding top_def by blast+

lemma fold_top:
  "top v0 sc (set cs \<inter> {c. Q c}) (fold (\<lambda>c m. if Q c \<and> m < sc c then sc c else m) cs v0)"
proof (induction cs arbitrary: v0)
  case Nil
  then show ?case by (simp add: top_def)
next
  case (Cons c cs)
  from Cons.IH [of "if Q c \<and> v0 < sc c then sc c else v0"] show ?case
    by (auto simp: top_def split: if_splits)
qed

lemma take_arc_max:
  "b_max (fold (take_arc R P sc i) cs b) = fold (\<lambda>c m. if True \<and> m < sc c then sc c else m) cs (b_max b)"
  by (induction cs arbitrary: b) (simp_all add: take_arc_def Let_def)

lemma take_arc_max2:
  assumes "ccd_flag R" "\<not> multipath R"
  shows "b_max2 (fold (take_arc R P sc i) cs b) =
    fold (\<lambda>c m. if (int i = p_store P \<and> i \<noteq> ac_arc c) \<and> m < sc c then sc c else m) cs (b_max2 b)"
  using assms by (induction cs arbitrary: b) (auto simp: take_arc_def Let_def)

lemma best_max: "top (b_max b) sc (set cs) (b_max (fold (take_arc R P sc i) cs b))"
  using fold_top [of "b_max b" sc cs "\<lambda>_. True"] by (simp add: take_arc_max)

lemma arc_score_gain:
  "arc_score R lz P lscore startt t prev i c =
     (if \<not> multipath R then prev ! ac_arc c
      else if ac_arc c = last_state P then p_g P ! t
      else if t + 1 > startt then lz else prev ! ac_arc c) + gain R P lscore i c"
  by (simp add: arc_score_def gain_def)

section \<open>One frame is exact\<close>

text \<open>The scores of frame \<open>t + 1\<close> as the arcs of frame \<open>t\<close> see them.\<close>

definition seen :: "search_env \<Rightarrow> real \<Rightarrow> scan_par \<Rightarrow> nat \<Rightarrow> nat \<Rightarrow> real list \<Rightarrow> nat \<Rightarrow> real" where
  "seen R lz P startt t prev m =
     (if \<not> multipath R then prev ! m
      else if m = last_state P then p_g P ! t
      else if t + 1 > startt then lz else prev ! m)"

lemma arc_score_seen: "arc_score R lz P lscore startt t prev i c = seen R lz P startt t prev (ac_arc c) + gain R P lscore i c"
  by (simp add: arc_score_gain seen_def)

definition all_seen :: "search_env \<Rightarrow> scan_ops \<Rightarrow> scan_par \<Rightarrow> real \<Rightarrow> nat \<Rightarrow> nat \<Rightarrow> real list \<Rightarrow> bool" where
  "all_seen R X P lscore startt t prev \<longleftrightarrow>
     (\<forall>m \<le> last_state P. best_at R X P lscore (Suc t) m (seen R (log_zero X) P startt t prev m))"

definition arcs_in_range :: "scan_par \<Rightarrow> bool" where
  "arcs_in_range P \<longleftrightarrow> p_hmm P \<noteq> [] \<and> (\<forall>n \<le> last_state P. \<forall>c \<in> set (st_ac (p_hmm P ! n)). ac_arc c \<le> last_state P)"

text \<open>A best way over the arcs that is inside the envelope is a path, and dominates all others.\<close>

lemma arc_path_below:
  assumes "all_seen R X P lscore startt t prev" "arcs_in_range P" "n \<le> last_state P"
    and "scan_path R X P lscore (Suc t) (ac_arc c) s" "c \<in> set (st_ac (p_hmm P ! n))"
  shows "s + gain R P lscore n c \<le> arc_score R (log_zero X) P lscore startt t prev n c"
proof -
  from assms(2,3,5) have "ac_arc c \<le> last_state P" unfolding arcs_in_range_def by blast
  with assms(1,4) have "s \<le> seen R (log_zero X) P startt t prev (ac_arc c)"
    unfolding all_seen_def best_at_def by blast
  then show ?thesis by (simp add: arc_score_seen)
qed

lemma arc_score_path:
  assumes "all_seen R X P lscore startt t prev" "arcs_in_range P" "arcs_lose R P lscore" "n \<le> last_state P"
    and "c \<in> set (st_ac (p_hmm P ! n))" "log_zero X < arc_score R (log_zero X) P lscore startt t prev n c"
  shows "scan_path R X P lscore (Suc t) (ac_arc c) (seen R (log_zero X) P startt t prev (ac_arc c))"
proof -
  let ?v = "seen R (log_zero X) P startt t prev (ac_arc c)"
  from assms(2,4,5) have "ac_arc c \<le> last_state P" unfolding arcs_in_range_def by blast
  with assms(1) have "best_at R X P lscore (Suc t) (ac_arc c) ?v" unfolding all_seen_def by blast
  moreover have "?v \<noteq> log_zero X"
  proof
    assume "?v = log_zero X"
    moreover have "gain R P lscore n c \<le> 0" using assms(3,4,5) unfolding arcs_lose_def by blast
    ultimately show False using assms(6) by (simp add: arc_score_seen)
  qed
  ultimately show ?thesis by (simp add: best_at_def)
qed

text \<open>The best way into a state, and the value of a state that is not entered from outside.\<close>

definition node_max ::
  "search_env \<Rightarrow> scan_ops \<Rightarrow> scan_par \<Rightarrow> real \<Rightarrow> nat \<Rightarrow> nat \<Rightarrow> real list \<Rightarrow> nat \<Rightarrow> real" where
  "node_max R X P lscore startt t prev i =
     fold (\<lambda>c m. if True \<and> m < arc_score R (log_zero X) P lscore startt t prev i c
                 then arc_score R (log_zero X) P lscore startt t prev i c else m) (st_ac (p_hmm P ! i)) (log_zero X)"

definition node_val ::
  "search_env \<Rightarrow> scan_ops \<Rightarrow> scan_par \<Rightarrow> real \<Rightarrow> nat \<Rightarrow> nat \<Rightarrow> real list \<Rightarrow> nat \<Rightarrow> real" where
  "node_val R X P lscore startt t prev i =
     (if above R (log_zero X) t (node_max R X P lscore startt t prev i)
      then node_max R X P lscore startt t prev i + out_at R X P t i else log_zero X)"

lemma node_max_top:
  "top (log_zero X) (arc_score R (log_zero X) P lscore startt t prev i) (set (st_ac (p_hmm P ! i)))
     (node_max R X P lscore startt t prev i)"
  using fold_top [of "log_zero X" _ "st_ac (p_hmm P ! i)" "\<lambda>_. True"] by (simp add: node_max_def)

lemma node_path_alive:
  assumes seen: "all_seen R X P lscore startt t prev" and ok: "arcs_in_range P"
    and i: "i < last_state P" and p: "scan_path R X P lscore t i s"
  shows "above R (log_zero X) t (node_max R X P lscore startt t prev i)
    \<and> s \<le> node_max R X P lscore startt t prev i + out_at R X P t i"
  using p
proof cases
  case (arc c s')
  let ?sc = "arc_score R (log_zero X) P lscore startt t prev i"
  from arc_path_below [OF seen ok _ arc(2) arc(5)] i have "s' + gain R P lscore i c \<le> ?sc c" by simp
  also have "?sc c \<le> node_max R X P lscore startt t prev i"
    using node_max_top arc(5) unfolding top_def by blast
  finally show ?thesis using arc(1,6) above_mono by auto
qed (use i in auto)

lemma node_val_best:
  assumes seen: "all_seen R X P lscore startt t prev" and ok: "arcs_in_range P" "arcs_lose R P lscore"
    and i: "i < last_state P"
  shows "best_at R X P lscore t i (node_val R X P lscore startt t prev i)"
proof (cases "above R (log_zero X) t (node_max R X P lscore startt t prev i)")
  let ?sc = "arc_score R (log_zero X) P lscore startt t prev i" and ?cs = "st_ac (p_hmm P ! i)"
  let ?m = "node_max R X P lscore startt t prev i"
  note upper = node_path_alive [OF seen ok(1) i]
  {
    case True
    obtain c where c: "c \<in> set ?cs" "?m = ?sc c"
      using node_max_top [of X R P lscore startt t prev i] above_log_zero [OF True] unfolding top_def by auto
    have p: "scan_path R X P lscore (Suc t) (ac_arc c) (seen R (log_zero X) P startt t prev (ac_arc c))"
      by (rule arc_score_path [OF seen ok _ c(1)]) (use i above_log_zero [OF True] c(2) in auto)
    have "scan_path R X P lscore t i (?m + out_at R X P t i)"
      unfolding c(2) arc_score_seen
      by (rule scan_path.arc [OF p _ _ c(1)]) (use i True c(2) in \<open>auto simp: arc_score_seen\<close>)
    with True upper show ?thesis by (simp add: best_at_def node_val_def)
  next
    case False
    with upper have "\<not> scan_path R X P lscore t i s" for s by blast
    with False show ?thesis by (simp add: best_at_def node_val_def)
  }
qed

text \<open>The value of the last state without multipath.\<close>

definition edge_max :: "scan_par \<Rightarrow> real \<Rightarrow> nat \<Rightarrow> real list \<Rightarrow> real" where
  "edge_max P lz t prev =
     (let m = fold (\<lambda>c m. if True \<and> m < prev ! ac_arc c + ac_a c then prev ! ac_arc c + ac_a c else m)
                (st_ac (p_hmm P ! last_state P)) lz
      in if p_g P ! t > m then p_g P ! t else m)"

definition edge_val :: "search_env \<Rightarrow> scan_ops \<Rightarrow> scan_par \<Rightarrow> nat \<Rightarrow> real list \<Rightarrow> real" where
  "edge_val R X P t prev =
     (if above R (log_zero X) t (edge_max P (log_zero X) t prev)
      then edge_max P (log_zero X) t prev + out_at R X P t (last_state P) else log_zero X)"

lemma gain_edge:
  assumes "arcs_in_range P" "c \<in> set (st_ac (p_hmm P ! last_state P))"
  shows "gain R P lscore (last_state P) c = ac_a c"
proof -
  from assms have "ac_arc c \<le> last_state P" unfolding arcs_in_range_def by blast
  then show ?thesis by (auto simp: gain_def)
qed

lemma edge_arc_score:
  assumes "arcs_in_range P" "\<not> multipath R" "c \<in> set (st_ac (p_hmm P ! last_state P))"
  shows "prev ! ac_arc c + ac_a c = arc_score R (log_zero X) P lscore startt t prev (last_state P) c"
  unfolding arc_score_seen gain_edge [OF assms(1,3)] using assms(2) by (simp add: seen_def)

lemma edge_max_top:
  obtains m where "top (log_zero X) (\<lambda>c. prev ! ac_arc c + ac_a c) (set (st_ac (p_hmm P ! last_state P))) m"
    "edge_max P (log_zero X) t prev = (if p_g P ! t > m then p_g P ! t else m)"
  using fold_top [of "log_zero X" "\<lambda>c. prev ! ac_arc c + ac_a c" "st_ac (p_hmm P ! last_state P)" "\<lambda>_. True"]
  by (intro that) (auto simp: edge_max_def Let_def)

lemma edge_path_alive:
  assumes seen: "all_seen R X P lscore startt t prev" and ok: "arcs_in_range P"
    and t: "\<not> multipath R" and p: "scan_path R X P lscore t (last_state P) s"
  shows "above R (log_zero X) t (edge_max P (log_zero X) t prev)
    \<and> s \<le> edge_max P (log_zero X) t prev + out_at R X P t (last_state P)"
proof -
  obtain m where m: "top (log_zero X) (\<lambda>c. prev ! ac_arc c + ac_a c) (set (st_ac (p_hmm P ! last_state P))) m"
    "edge_max P (log_zero X) t prev = (if p_g P ! t > m then p_g P ! t else m)" by (rule edge_max_top)
  let ?v = "edge_max P (log_zero X) t prev"
  from p show ?thesis
  proof cases
    case enter
    moreover have "p_g P ! t \<le> ?v" by (simp add: m(2))
    ultimately show ?thesis using above_mono [of R "log_zero X" t "p_g P ! t" ?v] by simp
  next
    case (arc c s')
    from arc_path_below [OF seen ok _ arc(2) arc(5)]
    have "s' + gain R P lscore (last_state P) c \<le> prev ! ac_arc c + ac_a c"
      unfolding edge_arc_score [OF ok t arc(5), of prev X lscore startt t] by simp
    also have "\<dots> \<le> m" using m(1) arc(5) unfolding top_def by blast
    also have "m \<le> ?v" by (simp add: m(2))
    finally show ?thesis using arc(1,6) above_mono by auto
  qed (use t in auto)
qed

lemma edge_val_best:
  assumes seen: "all_seen R X P lscore startt t prev" and ok: "arcs_in_range P" "arcs_lose R P lscore"
    and t: "\<not> multipath R" "t < peseqlen R"
  shows "best_at R X P lscore t (last_state P) (edge_val R X P t prev)"
proof (cases "above R (log_zero X) t (edge_max P (log_zero X) t prev)")
  let ?e = "last_state P" and ?v = "edge_max P (log_zero X) t prev"
  note upper = edge_path_alive [OF seen ok(1) t(1)]
  {
    case True
    obtain m where m: "top (log_zero X) (\<lambda>c. prev ! ac_arc c + ac_a c) (set (st_ac (p_hmm P ! ?e))) m"
      "?v = (if p_g P ! t > m then p_g P ! t else m)" by (rule edge_max_top)
    have "scan_path R X P lscore t ?e (?v + out_at R X P t ?e)"
    proof (cases "p_g P ! t > m")
      case True
      then have v: "?v = p_g P ! t" by (simp add: m(2))
      with \<open>above R (log_zero X) t ?v\<close> scan_path.enter [OF t] show ?thesis by simp
    next
      case False
      then have vm: "?v = m" by (simp add: m(2))
      then obtain c where c: "c \<in> set (st_ac (p_hmm P ! ?e))" "m = prev ! ac_arc c + ac_a c"
        using m(1) above_log_zero [OF True] unfolding top_def by auto
      note sc = edge_arc_score [OF ok(1) t(1) c(1), of prev X lscore startt t]
      have v: "?v = seen R (log_zero X) P startt t prev (ac_arc c) + gain R P lscore ?e c"
        using sc c(2) vm by (simp only: arc_score_seen)
      have p: "scan_path R X P lscore (Suc t) (ac_arc c) (seen R (log_zero X) P startt t prev (ac_arc c))"
        by (rule arc_score_path [OF seen ok _ c(1)]) (use above_log_zero [OF True] c vm sc in auto)
      show ?thesis unfolding v
        by (rule scan_path.arc [OF p _ _ c(1)]) (use t True v in simp_all)
    qed
    with True upper show ?thesis by (simp add: best_at_def edge_val_def)
  next
    case False
    with upper have "\<not> scan_path R X P lscore t ?e s" for s by blast
    with False show ?thesis by (simp add: best_at_def edge_val_def)
  }
qed

section \<open>The loops compute these values\<close>

lemma scan_node_simps:
  "n_row (scan_node R X P lscore startt t prev prevtok i n) = node_val R X P lscore startt t prev i # n_row n"
  "n_exist (scan_node R X P lscore startt t prev prevtok i n) \<longleftrightarrow>
     n_exist n \<or> above R (log_zero X) t (node_max R X P lscore startt t prev i)"
  by (auto simp: scan_node_def node_val_def node_max_def take_arc_max out_at_def Let_def)

text \<open>The score stored for the next backscan, without multipath.\<close>

definition prev_val ::
  "search_env \<Rightarrow> scan_ops \<Rightarrow> scan_par \<Rightarrow> real \<Rightarrow> nat \<Rightarrow> nat \<Rightarrow> real list \<Rightarrow> nat \<Rightarrow> real" where
  "prev_val R X P lscore startt t prev i =
     (if above R (log_zero X) t (node_max R X P lscore startt t prev i)
      then fold (\<lambda>c m. if (int i = p_store P \<and> i \<noteq> ac_arc c) \<and> m < arc_score R (log_zero X) P lscore startt t prev i c
                       then arc_score R (log_zero X) P lscore startt t prev i c else m) (st_ac (p_hmm P ! i)) (log_zero X)
      else log_zero X)"

lemma scan_node_prev:
  "ccd_flag R \<Longrightarrow> \<not> multipath R \<Longrightarrow>
     n_prev (scan_node R X P lscore startt t prev prevtok i n) =
       (if int i = p_store P then Some (prev_val R X P lscore startt t prev i) else n_prev n)"
  by (simp add: scan_node_def prev_val_def node_max_def take_arc_max take_arc_max2 Let_def)

lemma scan_nodes:
  "n_row (fold (scan_node R X P lscore startt t prev prevtok) (rev [0..<e]) n0) =
     map (node_val R X P lscore startt t prev) [0..<e] @ n_row n0"
  "n_exist (fold (scan_node R X P lscore startt t prev prevtok) (rev [0..<e]) n0) \<longleftrightarrow>
     n_exist n0 \<or> (\<exists>i<e. above R (log_zero X) t (node_max R X P lscore startt t prev i))"
  by (induction e arbitrary: n0) (auto simp: scan_node_simps less_Suc_eq)

lemma scan_nodes_prev:
  "ccd_flag R \<Longrightarrow> \<not> multipath R \<Longrightarrow>
     n_prev (fold (scan_node R X P lscore startt t prev prevtok) (rev [0..<e]) n0) =
       (if 0 \<le> p_store P \<and> p_store P < int e then Some (prev_val R X P lscore startt t prev (nat (p_store P))) else n_prev n0)"
  by (induction e arbitrary: n0) (auto simp: scan_node_prev, metis nat_int)

lemma fst_fold_edge:
  "fst (fold (\<lambda>c (m, j). let s = prev ! ac_arc c + ac_a c in if m < s then (s, Some (ac_arc c)) else (m, j)) cs (m0, j0)) =
     fold (\<lambda>c m. if True \<and> m < prev ! ac_arc c + ac_a c then prev ! ac_arc c + ac_a c else m) cs m0"
  by (induction cs arbitrary: m0 j0) (simp_all add: Let_def)

lemma scan_edge_val:
  assumes "scan_edge R X P t prev prevtok j0 = Some (val, tok, j, alive)" "\<not> multipath R"
  shows "val = edge_val R X P t prev" "alive \<longleftrightarrow> above R (log_zero X) t (edge_max P (log_zero X) t prev)"
proof -
  obtain m k where mk: "fold (\<lambda>c (m, j). let s = prev ! ac_arc c + ac_a c in if m < s then (s, Some (ac_arc c)) else (m, j))
      (st_ac (p_hmm P ! last_state P)) (log_zero X, j0) = (m, k)" by fastforce
  with fst_fold_edge [of prev "st_ac (p_hmm P ! last_state P)" "log_zero X" j0]
  have m: "edge_max P (log_zero X) t prev = (if p_g P ! t > m then p_g P ! t else m)"
    by (simp add: edge_max_def)
  show "val = edge_val R X P t prev" "alive \<longleftrightarrow> above R (log_zero X) t (edge_max P (log_zero X) t prev)"
    using assms mk unfolding edge_val_def m scan_edge_def
    by (auto simp: Let_def out_at_def bind_eq_Some_conv split: if_splits)
qed

lemma scan_edge_Some:
  "\<not> precise R \<Longrightarrow> \<exists>r. scan_edge R X P t prev prevtok j0 = Some r"
  by (auto simp: scan_edge_def Let_def split: prod.split)

text \<open>
  What a stored score means: the best way into the store point from another state, as far as it is inside
  the envelope.
\<close>

definition prev_ok :: "search_env \<Rightarrow> scan_ops \<Rightarrow> scan_par \<Rightarrow> real \<Rightarrow> nat \<Rightarrow> real \<Rightarrow> bool" where
  "prev_ok R X P lscore t v \<longleftrightarrow>
     (\<forall>c s. c \<in> set (st_ac (p_hmm P ! nat (p_store P))) \<and> ac_arc c \<noteq> nat (p_store P)
        \<and> scan_path R X P lscore (Suc t) (ac_arc c) s
        \<and> above R (log_zero X) t (s + gain R P lscore (nat (p_store P)) c) \<longrightarrow>
        s + gain R P lscore (nat (p_store P)) c \<le> v)
     \<and> (v = log_zero X
        \<or> (\<exists>c s. c \<in> set (st_ac (p_hmm P ! nat (p_store P))) \<and> ac_arc c \<noteq> nat (p_store P)
             \<and> scan_path R X P lscore (Suc t) (ac_arc c) s \<and> v = s + gain R P lscore (nat (p_store P)) c))"

text \<open>
  With multipath the best way across the store point is stored, from any state up to it to any state behind
  it, less the best way out of the phone it ends.
\<close>

definition crosses_store :: "scan_par \<Rightarrow> nat \<Rightarrow> A_CELL \<Rightarrow> bool" where
  "crosses_store P n c \<longleftrightarrow>
     n < last_state P \<and> c \<in> set (st_ac (p_hmm P ! n)) \<and> int n \<le> p_store P \<and> p_store P < int (ac_arc c)"

definition cross_ok :: "search_env \<Rightarrow> scan_ops \<Rightarrow> scan_par \<Rightarrow> real \<Rightarrow> nat \<Rightarrow> real \<Rightarrow> bool" where
  "cross_ok R X P lscore t m \<longleftrightarrow>
     (\<forall>n c s. crosses_store P n c \<and> scan_path R X P lscore (Suc t) (ac_arc c) s
        \<and> above R (log_zero X) t (s + gain R P lscore n c) \<longrightarrow> s + gain R P lscore n c \<le> m)
     \<and> (m = log_zero X
        \<or> (\<exists>n c s. crosses_store P n c \<and> scan_path R X P lscore (Suc t) (ac_arc c) s \<and> m = s + gain R P lscore n c))"

definition kept_ok :: "search_env \<Rightarrow> scan_ops \<Rightarrow> scan_par \<Rightarrow> real \<Rightarrow> nat \<Rightarrow> real \<Rightarrow> bool" where
  "kept_ok R X P lscore t v \<longleftrightarrow>
     (if \<not> multipath R then prev_ok R X P lscore t v
      else (\<exists>m. cross_ok R X P lscore t m \<and> v = max (log_zero X) (m - p_maxarc P))
        \<or> (cross_ok R X P lscore t (log_zero X) \<and> v = log_zero X))"

text \<open>Not the whole word is scanned again: it has more than one phone.\<close>

definition stores_inside :: "search_env \<Rightarrow> scan_par \<Rightarrow> bool" where
  "stores_inside R P \<longleftrightarrow>
     (if multipath R then p_store P \<noteq> int (length (p_hmm P)) - 2
      else 0 \<le> p_store P \<and> p_store P < int (last_state P))"

lemma prev_val_ok:
  assumes seen: "all_seen R X P lscore startt t prev" and ok: "arcs_in_range P" "arcs_lose R P lscore"
    and sp: "stores_inside R P" "\<not> multipath R"
  shows "prev_ok R X P lscore t (prev_val R X P lscore startt t prev (nat (p_store P)))"
proof -
  let ?i = "nat (p_store P)" and ?m = "node_max R X P lscore startt t prev (nat (p_store P))"
  let ?sc = "arc_score R (log_zero X) P lscore startt t prev ?i" and ?cs = "st_ac (p_hmm P ! ?i)"
  define m2 where "m2 = fold (\<lambda>c m. if (int ?i = p_store P \<and> ?i \<noteq> ac_arc c) \<and> m < ?sc c then ?sc c else m) ?cs (log_zero X)"
  have i: "int ?i = p_store P" "?i < last_state P" using sp by (auto simp: stores_inside_def)
  have top2: "top (log_zero X) ?sc (set ?cs \<inter> {c. int ?i = p_store P \<and> ?i \<noteq> ac_arc c}) m2"
    unfolding m2_def by (rule fold_top)
  have v: "prev_val R X P lscore startt t prev ?i = (if above R (log_zero X) t ?m then m2 else log_zero X)"
    by (simp add: prev_val_def m2_def)
  have above: "s + gain R P lscore ?i c \<le> (if above R (log_zero X) t ?m then m2 else log_zero X)"
    if c: "c \<in> set ?cs" "ac_arc c \<noteq> ?i" and p: "scan_path R X P lscore (Suc t) (ac_arc c) s"
      and a: "above R (log_zero X) t (s + gain R P lscore ?i c)" for c s
  proof -
    have le: "s + gain R P lscore ?i c \<le> ?sc c"
      using arc_path_below [OF seen ok(1) _ p c(1)] i by simp
    moreover have "?sc c \<le> ?m" using node_max_top c(1) unfolding top_def by blast
    ultimately have "above R (log_zero X) t ?m" using above_mono [OF a] by simp
    moreover have "c \<in> set ?cs \<inter> {c. int ?i = p_store P \<and> ?i \<noteq> ac_arc c}" using c i(1) by simp
    then have "?sc c \<le> m2" by (rule topD(2) [OF top2])
    ultimately show ?thesis using le by simp
  qed
  have attained: "m2 = log_zero X \<or> (\<exists>c s. c \<in> set ?cs \<and> ac_arc c \<noteq> ?i
      \<and> scan_path R X P lscore (Suc t) (ac_arc c) s \<and> m2 = s + gain R P lscore ?i c)"
  proof (cases "m2 = log_zero X")
    case False
    with topD(3) [OF top2] obtain c where "c \<in> set ?cs \<inter> {c. int ?i = p_store P \<and> ?i \<noteq> ac_arc c}" "m2 = ?sc c" by blast
    moreover have "log_zero X < m2" using topD(1) [OF top2] False by simp
    ultimately have c: "c \<in> set ?cs" "ac_arc c \<noteq> ?i" "m2 = ?sc c" "log_zero X < m2" by auto
    have "scan_path R X P lscore (Suc t) (ac_arc c) (seen R (log_zero X) P startt t prev (ac_arc c))"
      by (rule arc_score_path [OF seen ok _ c(1)]) (use i c in auto)
    with c show ?thesis by (metis arc_score_seen)
  qed simp
  from above attained show ?thesis unfolding prev_ok_def v by auto
qed

lemma take_arc_store:
  assumes "ccd_flag R" "multipath R"
  shows "b_store (fold (take_arc R P sc i) cs b) =
    fold (\<lambda>c m. if (int i \<le> p_store P \<and> p_store P < int (ac_arc c)) \<and> m < sc c then sc c else m) cs (b_store b)"
  using assms by (induction cs arbitrary: b) (auto simp: take_arc_def Let_def)

lemma top_Un: "top v0 sc S v1 \<Longrightarrow> top v1 sc S' v2 \<Longrightarrow> top v0 sc (S \<union> S') v2"
  unfolding top_def by (auto intro: order_trans)

lemma top_image: "top v0 (\<lambda>c. sc (h c)) S v \<Longrightarrow> top v0 sc (h ` S) v"
  unfolding top_def by blast

lemma scan_nodes_store:
  assumes "ccd_flag R" "multipath R" "e \<le> last_state P"
  shows "top (n_store n0) (\<lambda>(i, c). arc_score R (log_zero X) P lscore startt t prev i c)
     {(i, c). i < e \<and> crosses_store P i c} (n_store (fold (scan_node R X P lscore startt t prev prevtok) (rev [0..<e]) n0))"
  using assms(3)
proof (induction e arbitrary: n0)
  case 0
  then show ?case by (simp add: top_def)
next
  case (Suc e)
  let ?sc = "arc_score R (log_zero X) P lscore startt t prev" and ?n = "scan_node R X P lscore startt t prev prevtok e n0"
  let ?cs = "set (st_ac (p_hmm P ! e)) \<inter> {c. int e \<le> p_store P \<and> p_store P < int (ac_arc c)}"
  have "n_store ?n = fold (\<lambda>c m. if (int e \<le> p_store P \<and> p_store P < int (ac_arc c)) \<and> m < ?sc e c then ?sc e c else m)
      (st_ac (p_hmm P ! e)) (n_store n0)"
    by (simp add: scan_node_def take_arc_store [OF assms(1,2)] Let_def)
  then have "top (n_store n0) (?sc e) ?cs (n_store ?n)" by (simp only: fold_top)
  then have "top (n_store n0) (\<lambda>(i, c). ?sc i c) (Pair e ` ?cs) (n_store ?n)"
    using top_image [where sc = "\<lambda>(i, c). ?sc i c" and h = "Pair e" and S = ?cs] by simp
  from top_Un [OF this Suc.IH [of ?n]] Suc.prems
  have "top (n_store n0) (\<lambda>(i, c). ?sc i c) (Pair e ` ?cs \<union> {(i, c). i < e \<and> crosses_store P i c})
      (n_store (fold (scan_node R X P lscore startt t prev prevtok) (rev [0..<Suc e]) n0))" by simp
  moreover have "Pair e ` ?cs \<union> {(i, c). i < e \<and> crosses_store P i c} = {(i, c). i < Suc e \<and> crosses_store P i c}"
    using Suc.prems by (auto simp: crosses_store_def less_Suc_eq)
  ultimately show ?case by simp
qed

lemma cross_val_ok:
  assumes seen: "all_seen R X P lscore startt t prev" and ok: "arcs_in_range P" "arcs_lose R P lscore"
    and m: "top (log_zero X) (\<lambda>(i, c). arc_score R (log_zero X) P lscore startt t prev i c) {(i, c). crosses_store P i c} m"
  shows "cross_ok R X P lscore t m"
proof -
  let ?sc = "arc_score R (log_zero X) P lscore startt t prev"
  have le: "?sc n c \<le> m" if "crosses_store P n c" for n c using topD(2) [OF m, of "(n, c)"] that by simp
  have "s + gain R P lscore n c \<le> m" if "crosses_store P n c" "scan_path R X P lscore (Suc t) (ac_arc c) s" for n c s
  proof -
    have "s + gain R P lscore n c \<le> ?sc n c"
      by (rule arc_path_below [OF seen ok(1) _ that(2)]) (use that(1) in \<open>auto simp: crosses_store_def\<close>)
    with le [OF that(1)] show ?thesis by simp
  qed
  moreover have "\<exists>n c s. crosses_store P n c \<and> scan_path R X P lscore (Suc t) (ac_arc c) s \<and> m = s + gain R P lscore n c"
    if ne: "m \<noteq> log_zero X"
  proof -
    from topD(3) [OF m ne] obtain n c where c: "crosses_store P n c" "m = ?sc n c" by auto
    moreover have "log_zero X < m" using topD(1) [OF m] ne by simp
    ultimately have "scan_path R X P lscore (Suc t) (ac_arc c) (seen R (log_zero X) P startt t prev (ac_arc c))"
      by (intro arc_score_path [OF seen ok, of n]) (auto simp: crosses_store_def)
    with c show ?thesis by (metis arc_score_seen)
  qed
  ultimately show ?thesis unfolding cross_ok_def by blast
qed

text \<open>The states that a frame gives a value to.\<close>

definition inner :: "search_env \<Rightarrow> scan_par \<Rightarrow> nat \<Rightarrow> bool" where
  "inner R P m \<longleftrightarrow> m \<le> last_state P \<and> (multipath R \<longrightarrow> m < last_state P)"

lemma scan_frame_step:
  assumes frame: "scan_frame R X P lscore startt t w = Some (w', ex)"
    and seen: "all_seen R X P lscore startt t (w_row w)" and ok: "arcs_in_range P" "arcs_lose R P lscore"
    and t: "t < peseqlen R"
  shows "\<forall>m. inner R P m \<longrightarrow> best_at R X P lscore t m (w_row w' ! m)"
    and "w_g w' = (w_g w)[t := w_row w' ! 0]"
    and "\<not> ex \<Longrightarrow> inner R P m \<Longrightarrow> \<not> scan_path R X P lscore t m s"
    and "ccd_flag R \<and> stores_inside R P \<Longrightarrow> \<exists>v. kept_ok R X P lscore t v \<and> w_gprev w' = (w_gprev w)[t := v]"
    and "length (w_gprev w') = length (w_gprev w)"
proof -
  let ?e = "last_state P" and ?val = "node_val R X P lscore startt t (w_row w)"
  let ?alive = "\<lambda>i. above R (log_zero X) t (node_max R X P lscore startt t (w_row w) i)"
  from frame obtain n0 where n0: "enter_frame R X P t w = Some n0"
    unfolding scan_frame_def by blast
  define n where "n = fold (scan_node R X P lscore startt t (w_row w) (w_tok w)) (rev [0..<?e]) n0"
  from frame n0 have "w' = leave_frame R X P t w n" and ex_n: "ex = n_exist n"
    by (auto simp: scan_frame_def n_def Let_def)
  then have w': "w_row w' = n_row n" "w_g w' = (w_g w)[t := n_row n ! 0]" "ex = n_exist n"
    "w_gprev w' = (if \<not> ccd_flag R then w_gprev w
       else if multipath R
       then (w_gprev w)[t := (if n_store n - p_maxarc P < log_zero X then log_zero X else n_store n - p_maxarc P)]
       else case n_prev n of None \<Rightarrow> w_gprev w | Some v \<Rightarrow> (w_gprev w)[t := v])"
    by (simp_all add: leave_frame_def Let_def)
  have row: "n_row n = map ?val [0..<?e] @ n_row n0"
    and exist: "n_exist n \<longleftrightarrow> n_exist n0 \<or> (\<exists>i<?e. ?alive i)"
    unfolding n_def by (rule scan_nodes)+
  have edge: "n_row n0 ! 0 = edge_val R X P t (w_row w)"
    "n_exist n0 \<longleftrightarrow> above R (log_zero X) t (edge_max P (log_zero X) t (w_row w))" if "\<not> multipath R"
    using n0 that scan_edge_val [of R X P t "w_row w" "w_tok w" "w_j w"] by (auto simp: enter_frame_def Let_def)
  have best: "best_at R X P lscore t m (w_row w' ! m)" if m: "inner R P m" for m
  proof (cases "m < ?e")
    case True
    then have "w_row w' ! m = ?val m" by (simp add: w' row nth_append)
    with node_val_best [OF seen ok True] show ?thesis by simp
  next
    case False
    with m have mp: "\<not> multipath R" "m = ?e" by (auto simp: inner_def)
    then have "w_row w' ! m = edge_val R X P t (w_row w)" by (simp add: w' row nth_append edge)
    with edge_val_best [OF seen ok mp(1) t] mp(2) show ?thesis by simp
  qed
  then show "\<forall>m. inner R P m \<longrightarrow> best_at R X P lscore t m (w_row w' ! m)" by blast
  show "w_g w' = (w_g w)[t := w_row w' ! 0]" by (simp add: w')
  show "\<not> scan_path R X P lscore t m s" if ex: "\<not> ex" and m: "inner R P m"
  proof
    assume p: "scan_path R X P lscore t m s"
    show False
    proof (cases "m < ?e")
      case True
      with node_path_alive [OF seen ok(1) True p] ex exist w'(3) show False by blast
    next
      case False
      with m have mp: "\<not> multipath R" "m = ?e" by (auto simp: inner_def)
      from ex exist w'(3) edge(2) [OF mp(1)] have "\<not> above R (log_zero X) t (edge_max P (log_zero X) t (w_row w))"
        by blast
      with edge_path_alive [OF seen ok(1) mp(1)] p mp(2) show False by blast
    qed
  qed
  show "\<exists>v. kept_ok R X P lscore t v \<and> w_gprev w' = (w_gprev w)[t := v]" if b: "ccd_flag R \<and> stores_inside R P"
  proof (cases "multipath R")
    case True
    have "n_store n0 = log_zero X" using n0 True by (auto simp: enter_frame_def Let_def)
    moreover have "{(i, c). i < ?e \<and> crosses_store P i c} = {(i, c). crosses_store P i c}"
      by (auto simp: crosses_store_def)
    ultimately have "cross_ok R X P lscore t (n_store n)"
      using scan_nodes_store [of R ?e P n0 X lscore startt t "w_row w" "w_tok w"] b True
      by (intro cross_val_ok [OF seen ok]) (simp add: n_def)
    then have "kept_ok R X P lscore t (max (log_zero X) (n_store n - p_maxarc P))" using True by (auto simp: kept_ok_def)
    moreover have "w_gprev w' = (w_gprev w)[t := max (log_zero X) (n_store n - p_maxarc P)]"
      using b True by (simp add: w' max_def)
    ultimately show ?thesis by blast
  next
    case False
    with b have "w_gprev w' = (w_gprev w)[t := prev_val R X P lscore startt t (w_row w) (nat (p_store P))]"
      using scan_nodes_prev [of R X P lscore startt t "w_row w" "w_tok w" ?e n0]
      by (simp add: w' stores_inside_def n_def)
    moreover have "kept_ok R X P lscore t (prev_val R X P lscore startt t (w_row w) (nat (p_store P)))"
      using prev_val_ok [OF seen ok] b False by (simp add: kept_ok_def)
    ultimately show ?thesis by blast
  qed
  show "length (w_gprev w') = length (w_gprev w)" by (simp add: w'(4) split: option.split)
qed

section \<open>All frames are exact\<close>

text \<open>The frame \<open>startt\<close>, behind which no score is inside the envelope.\<close>

definition starts_at :: "search_env \<Rightarrow> scan_ops \<Rightarrow> scan_par \<Rightarrow> nat \<Rightarrow> bool" where
  "starts_at R X P startt \<longleftrightarrow>
     startt < peseqlen R \<and> above R (log_zero X) startt (p_g P ! startt)
     \<and> (\<forall>t. startt < t \<and> t < peseqlen R \<longrightarrow> \<not> above R (log_zero X) t (p_g P ! t))"

lemma no_path_behind:
  assumes "arcs_lose R P lscore" "\<forall>t. startt < t \<and> t < peseqlen R \<longrightarrow> \<not> above R (log_zero X) t (p_g P ! t)"
    and "inner R P m" "startt < t"
  shows "\<not> scan_path R X P lscore t m s"
proof
  assume "scan_path R X P lscore t m s"
  from path_entered [OF this assms(1)] show False
    using assms(2-4) unfolding inner_def by (metis less_irrefl order_less_le_trans)
qed

lemma edge_seen_multipath:
  assumes "multipath R" "t < peseqlen R"
  shows "best_at R X P lscore (Suc t) (last_state P) (p_g P ! t)"
proof -
  have "s = p_g P ! t" if "scan_path R X P lscore (Suc t) (last_state P) s" for s
    using that assms(1) by cases auto
  with scan_path.enter_multipath [OF assms] show ?thesis by (simp add: best_at_def)
qed

lemma next_seen:
  assumes "\<forall>m. inner R P m \<longrightarrow> best_at R X P lscore (Suc t) m (row ! m)" "t < startt" "startt < peseqlen R"
  shows "all_seen R X P lscore startt t row"
  unfolding all_seen_def
proof (intro allI impI)
  fix m assume m: "m \<le> last_state P"
  show "best_at R X P lscore (Suc t) m (seen R (log_zero X) P startt t row m)"
  proof (cases "multipath R \<and> m = last_state P")
    case True
    with edge_seen_multipath [of R t X P lscore] assms(2,3) show ?thesis by (simp add: seen_def)
  next
    case False
    with m have "inner R P m" by (auto simp: inner_def)
    with assms(1) False assms(2) show ?thesis by (auto simp: seen_def)
  qed
qed

lemma fold_clear:
  "w_g (fold (clear_frame R lz) ts w) = fold (\<lambda>t xs. xs[t := lz]) ts (w_g w)"
  "w_gprev (fold (clear_frame R lz) ts w) = (if ccd_flag R then fold (\<lambda>t xs. xs[t := lz]) ts (w_gprev w) else w_gprev w)"
  "w_row (fold (clear_frame R lz) ts w) = w_row w" "w_old (fold (clear_frame R lz) ts w) = w_old w"
  "w_endt (fold (clear_frame R lz) ts w) = w_endt w" "w_flip (fold (clear_frame R lz) ts w) = w_flip w"
  "w_tok (fold (clear_frame R lz) ts w) = w_tok w" "w_oldtok (fold (clear_frame R lz) ts w) = w_oldtok w"
  by (induction ts arbitrary: w) (simp_all add: clear_frame_def)

lemma length_fold_update [simp]: "length (fold (\<lambda>t xs. xs[t := v]) ts xs) = length xs"
  by (induction ts arbitrary: xs) simp_all

lemma nth_fold_update:
  "t < length xs \<Longrightarrow> fold (\<lambda>t xs. xs[t := v]) ts xs ! t = (if t \<in> set ts then v else xs ! t)"
  by (induction ts arbitrary: xs) (auto simp: nth_list_update)

text \<open>What the scores are behind the loop, down to the frame at which it stopped.\<close>

definition scanned ::
  "search_env \<Rightarrow> scan_ops \<Rightarrow> scan_par \<Rightarrow> real \<Rightarrow> int \<Rightarrow> nat \<Rightarrow> nat \<Rightarrow> real list \<Rightarrow> real list \<Rightarrow> bool" where
  "scanned R X P lscore est stop k gs gp \<longleftrightarrow>
     (\<forall>t. stop \<le> t \<and> t < k \<longrightarrow> best_at R X P lscore t 0 (gs ! t)) \<and> (\<forall>t < stop. gs ! t = log_zero X)
     \<and> (0 < stop \<longrightarrow> int stop < est \<and> (\<forall>m s. inner R P m \<longrightarrow> \<not> scan_path R X P lscore stop m s))
     \<and> (ccd_flag R \<and> stores_inside R P \<longrightarrow>
          (\<forall>t. stop \<le> t \<and> t < k \<longrightarrow> kept_ok R X P lscore t (gp ! t)) \<and> (\<forall>t < stop. gp ! t = log_zero X))"

lemma scan_frame_gprev:
  assumes "scan_frame R X P lscore startt t w = Some (w', ex)" "u \<noteq> t"
  shows "w_gprev w' ! u = w_gprev w ! u"
  using assms by (auto simp: scan_frame_def leave_frame_def Let_def split: option.split)

lemma scan_frame_length: "scan_frame R X P lscore startt t w = Some (w', ex) \<Longrightarrow> length (w_gprev w') = length (w_gprev w)"
  by (auto simp: scan_frame_def leave_frame_def Let_def split: option.split)

lemma scan_loop_length:
  "scan_loop R X P lscore est startt ts w = Some w' \<Longrightarrow> length (w_gprev w') = length (w_gprev w)"
proof (induction ts arbitrary: w)
  case (Cons t ts)
  from Cons.prems obtain w1 ex where f: "scan_frame R X P lscore startt t w = Some (w1, ex)"
    and rest: "w' = fold (clear_frame R (log_zero X)) ts w1 \<or> scan_loop R X P lscore est startt ts w1 = Some w'"
    by (auto split: option.splits if_splits)
  with Cons.IH scan_frame_length [OF f] show ?case by (auto simp: fold_clear)
qed simp

lemma scan_loop_gprev:
  "scan_loop R X P lscore est startt (rev [0..<k]) w = Some w' \<Longrightarrow> k \<le> t \<Longrightarrow> t < length (w_gprev w) \<Longrightarrow> w_gprev w' ! t = w_gprev w ! t"
proof (induction k arbitrary: w)
  case (Suc k)
  from Suc.prems(1) obtain w1 ex where f: "scan_frame R X P lscore startt k w = Some (w1, ex)"
    and rest: "(if int k < est \<and> \<not> ex then Some (fold (clear_frame R (log_zero X)) (rev [0..<k]) w1)
        else scan_loop R X P lscore est startt (rev [0..<k]) w1) = Some w'"
    by (auto split: option.splits prod.splits)
  have keep: "w_gprev w1 ! t = w_gprev w ! t" by (rule scan_frame_gprev [OF f]) (use Suc.prems in simp)
  note l1 = scan_frame_length [OF f]
  show ?case
  proof (cases "int k < est \<and> \<not> ex")
    case True
    with rest keep l1 Suc.prems show ?thesis by (auto simp: fold_clear nth_fold_update)
  next
    case False
    with rest Suc.IH [of w1] keep l1 Suc.prems show ?thesis by simp
  qed
qed simp

lemma scan_loop_scanned:
  assumes "scan_loop R X P lscore est startt (rev [0..<k]) w = Some w'"
    and ok: "arcs_in_range P" "arcs_lose R P lscore" "inner R P 0" and st: "startt < peseqlen R"
    and k: "k \<le> Suc startt" and seen: "0 < k \<Longrightarrow> all_seen R X P lscore startt (k - 1) (w_row w)"
    and len: "peseqlen R \<le> length (w_g w)" "ccd_flag R \<Longrightarrow> peseqlen R \<le> length (w_gprev w)"
  shows "\<exists>stop \<le> k. scanned R X P lscore est stop k (w_g w') (w_gprev w')
    \<and> (\<forall>t. k \<le> t \<and> t < peseqlen R \<longrightarrow> w_g w' ! t = w_g w ! t \<and> (ccd_flag R \<longrightarrow> w_gprev w' ! t = w_gprev w ! t))"
  using assms(1) k seen len
proof (induction k arbitrary: w)
  case 0
  then show ?case by (auto simp: scanned_def)
next
  case (Suc k)
  from Suc.prems(1) obtain w1 ex where f: "scan_frame R X P lscore startt k w = Some (w1, ex)"
    and rest: "(if int k < est \<and> \<not> ex then Some (fold (clear_frame R (log_zero X)) (rev [0..<k]) w1)
        else scan_loop R X P lscore est startt (rev [0..<k]) w1) = Some w'"
    by (auto split: option.splits prod.splits)
  have kp: "k < peseqlen R" using Suc.prems(2) st by simp
  have seen: "all_seen R X P lscore startt k (w_row w)" using Suc.prems(3) by simp
  note step = scan_frame_step [OF f seen ok(1,2) kp]
  let ?b = "ccd_flag R \<and> stores_inside R P"
  have g1: "best_at R X P lscore k 0 (w_g w1 ! k)"
    using step(1) ok(3) Suc.prems(4) kp by (simp add: step(2))
  have gp1: "kept_ok R X P lscore k (w_gprev w1 ! k)" if b: ?b
  proof -
    from step(4) [OF b] obtain v where "kept_ok R X P lscore k v" "w_gprev w1 = (w_gprev w)[k := v]" by blast
    with b Suc.prems(5) kp show ?thesis by simp
  qed
  have keep: "w_g w1 ! t = w_g w ! t" "w_gprev w1 ! t = w_gprev w ! t" if "k < t" for t
    using that scan_frame_gprev [OF f, of t] by (simp_all add: step(2))
  have len1: "peseqlen R \<le> length (w_g w1)" "ccd_flag R \<Longrightarrow> peseqlen R \<le> length (w_gprev w1)"
    using Suc.prems(4,5) by (simp_all add: step(2,5))
  show ?case
  proof (cases "int k < est \<and> \<not> ex")
    case True
    with rest have w': "w' = fold (clear_frame R (log_zero X)) (rev [0..<k]) w1" by simp
    have cg: "w_g w' ! t = (if t < k then log_zero X else w_g w1 ! t)" if "t < peseqlen R" for t
      using that len1(1) by (simp add: w' fold_clear nth_fold_update)
    have cp: "w_gprev w' ! t = (if t < k then log_zero X else w_gprev w1 ! t)" if "t < peseqlen R" "ccd_flag R" for t
      using that len1(2) by (simp add: w' fold_clear nth_fold_update)
    have "scanned R X P lscore est k (Suc k) (w_g w') (w_gprev w')"
      using True g1 gp1 cg cp kp step(3) by (auto simp: scanned_def less_Suc_eq_le le_antisym)
    moreover have "w_g w' ! t = w_g w ! t \<and> (ccd_flag R \<longrightarrow> w_gprev w' ! t = w_gprev w ! t)" if "Suc k \<le> t" "t < peseqlen R" for t
      using that keep [of t] cg cp by simp
    ultimately show ?thesis by (intro exI [of _ k]) auto
  next
    case False
    with rest have loop: "scan_loop R X P lscore est startt (rev [0..<k]) w1 = Some w'" by simp
    have "all_seen R X P lscore startt (k - 1) (w_row w1)" if "0 < k"
      using step(1) that Suc.prems(2) st by (intro next_seen) simp_all
    with Suc.IH [OF loop] Suc.prems(2) len1 obtain stop where stop: "stop \<le> k"
      "scanned R X P lscore est stop k (w_g w') (w_gprev w')"
      "\<forall>t. k \<le> t \<and> t < peseqlen R \<longrightarrow> w_g w' ! t = w_g w1 ! t \<and> (ccd_flag R \<longrightarrow> w_gprev w' ! t = w_gprev w1 ! t)"
      by auto
    have "scanned R X P lscore est stop (Suc k) (w_g w') (w_gprev w')"
      using stop(2,3) g1 gp1 kp unfolding scanned_def by (auto simp: less_Suc_eq)
    moreover have "w_g w' ! t = w_g w ! t \<and> (ccd_flag R \<longrightarrow> w_gprev w' ! t = w_gprev w ! t)" if "Suc k \<le> t" "t < peseqlen R" for t
      using that keep [of t] stop(3) by simp
    ultimately show ?thesis using stop(1) by (intro exI [of _ stop]) auto
  qed
qed

lemma find_starts:
  assumes "find (\<lambda>t. above R (log_zero X) t (p_g P ! t)) (rev [0..<peseqlen R]) = Some startt"
  shows "starts_at R X P startt"
proof -
  have step: "k < n \<Longrightarrow> starts_at R X P k"
    if "find (\<lambda>t. above R (log_zero X) t (p_g P ! t)) (rev [0..<n]) = Some k" "n \<le> peseqlen R"
      "\<forall>t. n \<le> t \<and> t < peseqlen R \<longrightarrow> \<not> above R (log_zero X) t (p_g P ! t)" for n k
    using that
  proof (induction n)
    case (Suc n)
    show ?case
    proof (cases "above R (log_zero X) n (p_g P ! n)")
      case True
      with Suc.prems show ?thesis by (auto simp: starts_at_def)
    next
      case False
      with Suc.prems(2) have f: "find (\<lambda>t. above R (log_zero X) t (p_g P ! t)) (rev [0..<n]) = Some k" by simp
      then have "k < n" by (auto simp: find_Some_iff rev_nth)
      moreover have "\<forall>t. n \<le> t \<and> t < peseqlen R \<longrightarrow> \<not> above R (log_zero X) t (p_g P ! t)"
        using Suc.prems(4) False by (metis Suc_leI le_neq_implies_less)
      ultimately show ?thesis using Suc.IH f Suc.prems(3) by simp
    qed
  qed simp
  from assms have "startt < peseqlen R" by (auto simp: find_Some_iff rev_nth)
  then show ?thesis by (intro step [OF assms]) auto
qed

lemma nothing_behind:
  assumes "arcs_lose R P lscore" "\<forall>t. startt < t \<and> t < peseqlen R \<longrightarrow> \<not> above R (log_zero X) t (p_g P ! t)"
    and "inner R P 0" "startt < t"
  shows "best_at R X P lscore t 0 (log_zero X)"
  using no_path_behind [OF assms] by (simp add: best_at_def)

text \<open>Without multipath all states are entered over scores inside the envelope.\<close>

lemma path_state: "scan_path R X P lscore t m s \<Longrightarrow> m \<le> last_state P"
  by (cases rule: scan_path.cases) simp_all

lemma no_prev_behind:
  assumes "\<And>m s. inner R P m \<Longrightarrow> \<not> scan_path R X P lscore (Suc t) m s" "\<not> multipath R"
  shows "prev_ok R X P lscore t (log_zero X)"
proof -
  have "\<not> scan_path R X P lscore (Suc t) m s" for m s
    using assms(1) [of m s] assms(2) path_state [of R X P lscore "Suc t" m s] by (auto simp: inner_def)
  then show ?thesis by (simp add: prev_ok_def)
qed

lemma no_cross_behind:
  assumes "\<And>m s. inner R P m \<Longrightarrow> \<not> scan_path R X P lscore t m s" "multipath R"
  shows "kept_ok R X P lscore t (log_zero X)"
proof -
  have "\<not> above R (log_zero X) t (s + gain R P lscore n c)"
    if "crosses_store P n c" "scan_path R X P lscore (Suc t) (ac_arc c) s" for n c s
    using scan_path.arc [OF that(2), of n] assms(1) [of n] that(1) by (auto simp: crosses_store_def inner_def)
  then have "cross_ok R X P lscore t (log_zero X)" unfolding cross_ok_def by blast
  then show ?thesis using assms(2) by (simp add: kept_ok_def)
qed

lemma scan_init_simps:
  "w_g (scan_init R X P startt w) =
     (let gs = fold (\<lambda>t xs. xs[t := log_zero X]) (rev [startt + 1..<peseqlen R]) (w_g w)
      in if multipath R then gs else gs[startt := w_row (scan_init R X P startt w) ! 0])"
  "\<not> multipath R \<Longrightarrow> w_row (scan_init R X P startt w) =
     replicate (last_state P) (log_zero X) @ (p_g P ! startt + outprob_of X (p_hmm P) startt (last_state P))
       # drop (last_state P + 1) (w_row w)"
  "ccd_flag R \<Longrightarrow> \<not> multipath R \<Longrightarrow> w_gprev (scan_init R X P startt w) =
     (fold (\<lambda>t xs. xs[t := log_zero X]) (rev [startt + 1..<peseqlen R]) (w_gprev w))
       [startt := w_row (scan_init R X P startt w) ! nat (p_store P)]"
  "length (w_gprev (scan_init R X P startt w)) = length (w_gprev w)"
  "w_endt (scan_init R X P startt w) = startt"
  by (simp_all add: scan_init_def Let_def fold_clear)

lemma scan_init_cleared:
  assumes "ccd_flag R" "startt < t" "t < peseqlen R" "peseqlen R \<le> length (w_gprev w)"
  shows "w_gprev (scan_init R X P startt w) ! t = log_zero X"
  using assms by (simp add: scan_init_def Let_def fold_clear nth_fold_update)

lemma scan_frames_scanned:
  assumes scan: "scan_frames R X P lscore est w = Some (w', startt)"
    and ok: "arcs_in_range P" "arcs_lose R P lscore" "inner R P 0"
    and len: "peseqlen R \<le> length (w_g w)" "ccd_flag R \<Longrightarrow> peseqlen R \<le> length (w_gprev w)"
  shows "\<exists>stop \<le> peseqlen R. scanned R X P lscore est stop (peseqlen R) (w_g w') (w_gprev w')"
proof (cases "find (\<lambda>t. above R (log_zero X) t (p_g P ! t)) (rev [0..<peseqlen R])")
  case None
  then have none: "\<not> above R (log_zero X) t (p_g P ! t)" if "t < peseqlen R" for t
    using that by (simp add: find_None_iff)
  from scan None have w': "w' = fold (clear_frame R (log_zero X)) [0..<peseqlen R] w" by (simp add: scan_frames_def)
  have path: "\<not> scan_path R X P lscore t m s" if "inner R P m" for t m s
    using path_entered [of R X P lscore t m s] ok(2) none that unfolding inner_def by (metis less_irrefl)
  have "w_g w' ! t = log_zero X" "ccd_flag R \<Longrightarrow> w_gprev w' ! t = log_zero X" if "t < peseqlen R" for t
    using that len by (simp_all add: w' fold_clear nth_fold_update)
  moreover have "best_at R X P lscore t 0 (log_zero X)" for t using path [OF ok(3)] by (simp add: best_at_def)
  moreover have "kept_ok R X P lscore t (log_zero X)" for t
    using no_prev_behind [of R P X lscore t] no_cross_behind [of R P X lscore t] path by (cases "multipath R") (auto simp: kept_ok_def)
  ultimately show ?thesis by (intro exI [of _ 0]) (simp add: scanned_def)
next
  case (Some k)
  with scan have k: "k = startt" and loop: "scan_loop R X P lscore est startt
      (rev [0..<if multipath R then startt + 1 else startt]) (scan_init R X P startt w) = Some w'"
    by (auto simp: scan_frames_def split: if_splits)
  have st: "startt < peseqlen R" "above R (log_zero X) startt (p_g P ! startt)"
    and behind: "\<forall>t. startt < t \<and> t < peseqlen R \<longrightarrow> \<not> above R (log_zero X) t (p_g P ! t)"
    using find_starts [OF Some] by (auto simp: starts_at_def k)
  let ?i = "scan_init R X P startt w" and ?b = "ccd_flag R \<and> stores_inside R P"
  note none = no_path_behind [OF ok(2) behind]
  have lens: "peseqlen R \<le> length (w_g ?i)" "ccd_flag R \<Longrightarrow> peseqlen R \<le> length (w_gprev ?i)"
    using len by (simp_all add: scan_init_simps Let_def)
  have cleared: "w_g ?i ! t = log_zero X" "ccd_flag R \<Longrightarrow> w_gprev ?i ! t = log_zero X" if "startt < t" "t < peseqlen R" for t
    using that len scan_init_cleared [of R startt t w X P] by (simp_all add: scan_init_simps(1) Let_def nth_fold_update)
  let ?k = "if multipath R then startt + 1 else startt"
  have row: "best_at R X P lscore startt m (w_row ?i ! m)" if m: "inner R P m" and mp: "\<not> multipath R" for m
  proof -
    have arcs: "s = p_g P ! startt + out_at R X P startt (last_state P) \<and> m = last_state P"
      if p: "scan_path R X P lscore startt m s" for s
      using p
    proof cases
      case (arc c s')
      with none [of "ac_arc c" "Suc startt"] path_state [OF arc(2)] mp show ?thesis by (simp add: inner_def)
    qed (use mp in auto)
    show ?thesis
    proof (cases "m = last_state P")
      case True
      have "w_row ?i ! m = p_g P ! startt + out_at R X P startt (last_state P)"
        using mp True by (simp add: scan_init_simps(2) nth_append out_at_def)
      with True arcs scan_path.enter [OF mp st] show ?thesis by (auto simp: best_at_def)
    next
      case False
      with m have "w_row ?i ! m = log_zero X" using mp by (simp add: scan_init_simps(2) nth_append inner_def)
      with False arcs show ?thesis by (auto simp: best_at_def)
    qed
  qed
  have seen: "all_seen R X P lscore startt (?k - 1) (w_row ?i)" if "0 < ?k"
  proof (cases "multipath R")
    case True
    have "best_at R X P lscore (Suc startt) m (seen R (log_zero X) P startt startt (w_row ?i) m)" if "m \<le> last_state P" for m
    proof (cases "m = last_state P")
      case True
      with edge_seen_multipath [OF \<open>multipath R\<close> st(1)] \<open>multipath R\<close> show ?thesis by (simp add: seen_def)
    next
      case False
      with that none [of m "Suc startt"] \<open>multipath R\<close> show ?thesis by (simp add: seen_def best_at_def inner_def)
    qed
    with True show ?thesis by (simp add: all_seen_def)
  next
    case False
    with that row st show ?thesis by (intro next_seen) simp_all
  qed
  have "?k \<le> Suc startt" by simp
  from scan_loop_scanned [OF loop ok st(1) this seen lens] obtain stop where stop: "stop \<le> ?k"
    "scanned R X P lscore est stop ?k (w_g w') (w_gprev w')"
    "\<forall>t. ?k \<le> t \<and> t < peseqlen R \<longrightarrow> w_g w' ! t = w_g ?i ! t \<and> (ccd_flag R \<longrightarrow> w_gprev w' ! t = w_gprev ?i ! t)"
    by blast
  have tail: "best_at R X P lscore t 0 (w_g w' ! t) \<and> (?b \<longrightarrow> kept_ok R X P lscore t (w_gprev w' ! t))"
    if t: "?k \<le> t" "t < peseqlen R" for t
  proof (cases "startt < t")
    case True
    have p: "kept_ok R X P lscore t (log_zero X)"
      using no_prev_behind [of R P X lscore t] no_cross_behind [of R P X lscore t] none True
      by (cases "multipath R") (auto simp: kept_ok_def)
    show ?thesis
      using t stop(3) cleared [OF True t(2)] nothing_behind [OF ok(2) behind ok(3) True] p by auto
  next
    case False
    with t have eq: "t = startt" "\<not> multipath R" by (auto split: if_splits)
    have "w_g ?i ! startt = w_row ?i ! 0"
      using eq len st by (simp add: scan_init_simps(1) Let_def)
    with row [OF ok(3) eq(2)] stop(3) eq st have "best_at R X P lscore t 0 (w_g w' ! t)" by simp
    moreover have "kept_ok R X P lscore t (w_gprev w' ! t)" if b: ?b
    proof -
      from b eq(2) have "nat (p_store P) < last_state P" by (auto simp: stores_inside_def)
      then have "w_gprev ?i ! startt = log_zero X"
        using b eq(2) len st by (simp add: scan_init_simps(2,3) nth_append)
      moreover have "prev_ok R X P lscore startt (log_zero X)"
        by (rule no_prev_behind [OF none eq(2)]) simp_all
      ultimately show ?thesis using stop(3) eq st b by (simp add: kept_ok_def)
    qed
    ultimately show ?thesis by blast
  qed
  have "scanned R X P lscore est stop (peseqlen R) (w_g w') (w_gprev w')"
    using stop(1,2) tail unfolding scanned_def by (meson not_le)
  moreover have "stop \<le> peseqlen R" using stop(1) st(1) by (simp split: if_splits)
  ultimately show ?thesis by blast
qed

section \<open>The scan is exact\<close>

lemma store_not_last:
  "stores_inside R P \<Longrightarrow> p_store P \<noteq> (if multipath R then int (length (p_hmm P)) - 2 else int (length (p_hmm P)) - 1)"
  by (cases "length (p_hmm P)") (auto simp: stores_inside_def split: if_splits)

lemma finish_scan_g:
  "nd_g (finish_scan R X P startt w now) = w_g w"
  "ccd_flag R \<Longrightarrow> stores_inside R P \<Longrightarrow> nd_g_prev (finish_scan R X P startt w now) = Some (w_gprev w)"
  "ccd_flag R \<Longrightarrow> p_store P = (if multipath R then int (length (p_hmm P)) - 2 else int (length (p_hmm P)) - 1) \<Longrightarrow>
     nd_g_prev (finish_scan R X P startt w now) = Some (fold (\<lambda>t gp. gp[t := p_g P ! t]) (rev [0..<startt + 1]) (w_gprev w))"
  using store_not_last [of R P] by (auto simp: finish_scan_def Let_def)

lemma scan_in_range_arcs:
  assumes "scan_in_range R P now K"
  shows "arcs_in_range P"
proof -
  from assms have h: "p_hmm P \<noteq> []" "list_all (\<lambda>s. list_all (\<lambda>c. ac_arc c < length (p_hmm P)) (st_ac s)) (p_hmm P)"
    unfolding scan_in_range_def by blast+
  have "ac_arc c \<le> last_state P" if "n \<le> last_state P" "c \<in> set (st_ac (p_hmm P ! n))" for n c
  proof -
    from that(1) h(1) have "n < length (p_hmm P)" by (cases "p_hmm P") simp_all
    then have "p_hmm P ! n \<in> set (p_hmm P)" by (rule nth_mem)
    with h(2) that(2) have "ac_arc c < length (p_hmm P)" unfolding list_all_iff by blast
    then show ?thesis by simp
  qed
  with h(1) show ?thesis unfolding arcs_in_range_def by blast
qed

lemma scan_in_range_len:
  assumes "scan_in_range R P now K"
  shows "peseqlen R \<le> length (w_g (start_state now K))"
    and "ccd_flag R \<Longrightarrow> peseqlen R \<le> length (w_gprev (start_state now K))"
  using assms by (auto simp: scan_in_range_def start_state_def split: option.splits)

text \<open>Only with precise word boundaries and without multipath can a scan stop early.\<close>

lemma scan_frame_returns: "\<not> precise R \<or> multipath R \<Longrightarrow> \<exists>r. scan_frame R X P lscore startt t w = Some r"
  by (auto simp: scan_frame_def enter_frame_def scan_edge_def Let_def split: prod.splits)

lemma scan_loop_returns: "\<not> precise R \<or> multipath R \<Longrightarrow> scan_loop R X P lscore est startt ts w \<noteq> None"
proof (induction ts arbitrary: w)
  case (Cons t ts)
  from scan_frame_returns [OF Cons.prems] obtain w1 ex where "scan_frame R X P lscore startt t w = Some (w1, ex)"
    by fast
  with Cons show ?case by simp
qed simp

lemma scan_frames_returns: "\<not> precise R \<or> multipath R \<Longrightarrow> scan_frames R X P lscore est w \<noteq> None"
  by (simp add: scan_frames_def scan_loop_returns del: not_None_eq upt_Suc scan_loop.simps rev.simps split: option.split)

text \<open>The conditions under which no access of the scan is outside an array.\<close>

definition scan_fits :: "search_env \<Rightarrow> scan_ops \<Rightarrow> NODE \<Rightarrow> work_area \<Rightarrow> scan_par \<Rightarrow> bool" where
  "scan_fits R X now K P \<longleftrightarrow>
     prepare_scan R X now = Some P \<and> length (p_hmm P) < maxwn R + 10 \<and> scan_in_range R P now K"

lemma scan_fits_check: "scan_fits R X now K P \<longleftrightarrow> scan_check R X now K = Scans P"
proof (cases "prepare_scan R X now")
  case (Some Q)
  have "scan_in_range R Q now K \<Longrightarrow> area_holds R Q K" unfolding scan_in_range_def by (rule conjunct1)
  with Some show ?thesis by (auto simp: scan_fits_def scan_check_def)
qed (simp add: scan_fits_def scan_check_def)

lemma scan_word_fits:
  assumes "scan_word R X now K = Some r"
  obtains P where "scan_fits R X now K P"
  using assms by (auto simp: scan_word_def scan_fits_check split: scan_check.splits)

lemma scan_word_runs:
  assumes "scan_fits R X now K P"
  obtains now1 l where "nd_seq now1 = nd_seq now" "nd_seqnum now1 = nd_seqnum now" "nd_cmscore now1 = nd_cmscore now"
    "scan_word R X now K = map_option (\<lambda>(w, startt). (finish_scan R X P startt w now1, work_of w, l))
       (scan_frames R X P (nd_lscore now) (nd_estimated_next_t now) (start_state now1 K))"
    "start_state now1 K = start_state now K"
proof -
  let ?tails = "ccd_flag R \<and> graphout R \<and> \<not> GRAPHOUT_PRECISE_BOUNDARY R"
  let ?n = "if ?tails then now\<lparr>nd_tail_g_score := nd_g now ! nat (nd_bestt now)\<rparr> else now"
  let ?l = "if ?tails \<and> nd_tail_g_score ?n \<noteq> log_zero X
     then map_option (\<lambda>g. (g, nd_tail_g_score ?n)) (nd_prevgraph ?n) else None"
  show thesis
  proof (rule that [of ?n ?l])
    have "nd_lscore ?n = nd_lscore now" "nd_estimated_next_t ?n = nd_estimated_next_t now" by simp_all
    with assms show "scan_word R X now K = map_option (\<lambda>(w, startt). (finish_scan R X P startt w ?n, work_of w, ?l))
       (scan_frames R X P (nd_lscore now) (nd_estimated_next_t now) (start_state ?n K))"
      unfolding scan_word_def scan_fits_check Let_def by (cases ?tails) auto
  qed (simp_all add: start_state_def)
qed


lemma scan_word_scanned:
  assumes fits: "scan_fits R X now K P" and lose: "arcs_lose R P (nd_lscore now)"
    and inner: "\<not> multipath R \<or> 1 < length (p_hmm P)" and scan: "scan_word R X now K = Some (now', K', l)"
  shows "\<exists>stop \<le> peseqlen R. scanned R X P (nd_lscore now) (nd_estimated_next_t now) stop (peseqlen R) (nd_g now')
    (case nd_g_prev now' of None \<Rightarrow> [] | Some gp \<Rightarrow> gp)"
proof -
  from fits obtain now1 l1 where run: "scan_word R X now K = map_option (\<lambda>(w, startt). (finish_scan R X P startt w now1, work_of w, l1))
      (scan_frames R X P (nd_lscore now) (nd_estimated_next_t now) (start_state now1 K))"
    and st: "start_state now1 K = start_state now K"
    by (rule scan_word_runs)
  have range: "scan_in_range R P now K" using fits by (simp add: scan_fits_def)
  from scan obtain w startt where w: "now' = finish_scan R X P startt w now1"
    "scan_frames R X P (nd_lscore now) (nd_estimated_next_t now) (start_state now K) = Some (w, startt)"
    unfolding run st by auto
  have "inner R P 0" using inner by (auto simp: inner_def)
  from scan_frames_scanned [OF w(2) scan_in_range_arcs [OF range] lose this scan_in_range_len [OF range]]
  obtain stop where stop: "stop \<le> peseqlen R"
    "scanned R X P (nd_lscore now) (nd_estimated_next_t now) stop (peseqlen R) (w_g w) (w_gprev w)" by blast
  have "scanned R X P (nd_lscore now) (nd_estimated_next_t now) stop (peseqlen R) (nd_g now')
     (case nd_g_prev now' of None \<Rightarrow> [] | Some gp \<Rightarrow> gp)"
    using stop(2) finish_scan_g(2) [of R P X startt w now1] unfolding scanned_def w(1) finish_scan_g(1) by auto
  with stop(1) show ?thesis by blast
qed

lemma scan_frames_length:
  assumes "scan_frames R X P lscore est w = Some (w', startt)"
  shows "length (w_gprev w') = length (w_gprev w)"
proof (cases "find (\<lambda>t. above R (log_zero X) t (p_g P ! t)) (rev [0..<peseqlen R])")
  case (Some k)
  with assms have "scan_loop R X P lscore est startt (rev [0..<if multipath R then startt + 1 else startt])
      (scan_init R X P startt w) = Some w'"
    by (auto simp: scan_frames_def split: if_splits)
  from scan_loop_length [OF this] show ?thesis by (simp add: scan_init_simps)
qed (use assms in \<open>auto simp: scan_frames_def fold_clear\<close>)

text \<open>
  A word of one phone is scanned again as a whole: the scores that are stored are the scores before the word.
\<close>

definition copied :: "search_env \<Rightarrow> scan_ops \<Rightarrow> scan_par \<Rightarrow> real list \<Rightarrow> bool" where
  "copied R X P gp \<longleftrightarrow>
     (\<forall>t < peseqlen R. gp ! t = p_g P ! t \<or> (gp ! t = log_zero X \<and> \<not> above R (log_zero X) t (p_g P ! t)))"

lemma scan_frames_gprev:
  assumes "scan_frames R X P lscore est w = Some (w', startt)" "ccd_flag R" "peseqlen R \<le> length (w_gprev w)"
    and "startt < t" "t < peseqlen R"
  shows "w_gprev w' ! t = log_zero X \<and> \<not> above R (log_zero X) t (p_g P ! t)"
proof (cases "find (\<lambda>t. above R (log_zero X) t (p_g P ! t)) (rev [0..<peseqlen R])")
  case None
  with assms show ?thesis by (auto simp: scan_frames_def fold_clear nth_fold_update find_None_iff)
next
  case (Some k)
  with assms(1) have k: "k = startt" and loop: "scan_loop R X P lscore est startt
      (rev [0..<if multipath R then startt + 1 else startt]) (scan_init R X P startt w) = Some w'"
    by (auto simp: scan_frames_def split: if_splits)
  have "t < length (w_gprev (scan_init R X P startt w))" using assms(3,5) by (simp add: scan_init_simps(4))
  with scan_loop_gprev [OF loop, of t] assms(4) have "w_gprev w' ! t = w_gprev (scan_init R X P startt w) ! t" by simp
  then have "w_gprev w' ! t = log_zero X" using scan_init_cleared [OF assms(2,4,5,3)] by simp
  with find_starts [OF Some] assms(4,5) show ?thesis by (simp add: starts_at_def k)
qed

lemma scan_word_copied:
  assumes fits: "scan_fits R X now K P" and scan: "scan_word R X now K = Some (now', K', l)"
    and c: "ccd_flag R" "\<not> stores_inside R P"
  shows "\<exists>gp. nd_g_prev now' = Some gp \<and> copied R X P gp"
proof -
  from fits obtain now1 l1 where run: "scan_word R X now K = map_option (\<lambda>(w, startt). (finish_scan R X P startt w now1, work_of w, l1))
      (scan_frames R X P (nd_lscore now) (nd_estimated_next_t now) (start_state now1 K))"
    and st: "start_state now1 K = start_state now K"
    by (rule scan_word_runs)
  have range: "scan_in_range R P now K" using fits by (simp add: scan_fits_def)
  from scan obtain w startt where w: "now' = finish_scan R X P startt w now1"
    "scan_frames R X P (nd_lscore now) (nd_estimated_next_t now) (start_state now K) = Some (w, startt)"
    unfolding run st by auto
  have "p_store P = (if multipath R then int (length (p_hmm P)) - 2 else int (length (p_hmm P)) - 1)"
    using c range by (auto simp: stores_inside_def scan_in_range_def of_nat_diff)
  note gp = finish_scan_g(3) [OF c(1) this, of X startt w now1]
  have len: "peseqlen R \<le> length (w_gprev (start_state now K))" by (rule scan_in_range_len(2) [OF range c(1)])
  with scan_frames_length [OF w(2)] have len': "peseqlen R \<le> length (w_gprev w)" by simp
  have "fold (\<lambda>t gp. gp[t := p_g P ! t]) ts gs ! t = (if t \<in> set ts then p_g P ! t else gs ! t)"
    if "t < length gs" for ts gs t
    using that by (induction ts arbitrary: gs) (auto simp: nth_list_update)
  with len' have "fold (\<lambda>t gp. gp[t := p_g P ! t]) (rev [0..<startt + 1]) (w_gprev w) ! t =
      (if t \<le> startt then p_g P ! t else w_gprev w ! t)" if "t < peseqlen R" for t
    using that by auto
  with scan_frames_gprev [OF w(2) c(1) len] show ?thesis unfolding w(1) gp copied_def by auto
qed

lemma scan_word_returns:
  assumes "scan_fits R X now K P" "\<not> precise R \<or> multipath R"
  shows "\<exists>now' K' l. scan_word R X now K = Some (now', K', l)"
proof -
  from assms(1) obtain now1 l1 where "scan_word R X now K = map_option (\<lambda>(w, startt). (finish_scan R X P startt w now1, work_of w, l1))
      (scan_frames R X P (nd_lscore now) (nd_estimated_next_t now) (start_state now1 K))"
    by (rule scan_word_runs)
  with scan_frames_returns [OF assms(2), of X P "nd_lscore now" "nd_estimated_next_t now" "start_state now1 K"]
  show ?thesis by auto
qed

text \<open>C6: \<open>scan_word\<close> is a Viterbi search.  For a hypothesis whose HMM and arrays fit, whose arcs do not
  gain and whose HMM has, in the multipath mode, more than one state, the scan returns a result unless precise
  word boundaries are computed without multipath.  In every result each frame holds the best score of all paths
  through the HMM that enter it from the scores before the word and stay inside the envelope (\<open>LOG_ZERO\<close> when
  there is none).  The frames that are given up (\<open>t < stop\<close>) lie before the estimated beginning of the word and
  no path reaches frame \<open>stop\<close>.  With context dependency each frame also stores a score for the next backscan
  (\<open>kept_ok\<close>): without multipath the best score that enters the store state from another state, with multipath
  the best score that crosses the store point, less the best way out of its phone; for a word of one phone it is
  the score before the word, for every frame where that is inside the envelope.\<close>

theorem scan_word_best:
  assumes "scan_fits R X now K P" "arcs_lose R P (nd_lscore now)" "\<not> multipath R \<or> 1 < length (p_hmm P)"
  shows "(\<not> precise R \<or> multipath R \<longrightarrow> scan_word R X now K \<noteq> None)
    \<and> (\<forall>now' K' l. scan_word R X now K = Some (now', K', l) \<longrightarrow>
         (\<exists>stop \<le> peseqlen R. scanned R X P (nd_lscore now) (nd_estimated_next_t now) stop (peseqlen R) (nd_g now')
            (case nd_g_prev now' of None \<Rightarrow> [] | Some gp \<Rightarrow> gp))
         \<and> (ccd_flag R \<and> \<not> stores_inside R P \<longrightarrow> (\<exists>gp. nd_g_prev now' = Some gp \<and> copied R X P gp)))"
proof (intro conjI allI impI)
  show "scan_word R X now K \<noteq> None" if "\<not> precise R \<or> multipath R"
    using scan_word_returns [OF assms(1) that] by (elim exE) simp
qed (use scan_word_scanned [OF assms] scan_word_copied [OF assms(1)] in blast)+

definition ex_scan_ops :: scan_ops where
  "ex_scan_ops = \<lparr>hmm_logical_state_num = (\<lambda>_. 3), get_left_context_HMM = (\<lambda>_ _. None), get_right_context_HMM = (\<lambda>_ _. None),
     sp_model = \<lparr>ph_name = ''sp'', ph_addr = 0\<rparr>,
     new_make_word_hmm = (\<lambda>phs _. Some (map (\<lambda>i. \<lparr>st_ac = (if i + 1 < length phs then [\<lparr>ac_a = -1, ac_arc = i + 1\<rparr>] else [])
          @ [\<lparr>ac_a = -2, ac_arc = i\<rparr>], st_out_null = False\<rparr>) [0..<length phs])),
     log_zero = -1000, outprob_of = (\<lambda>_ _ _. -3), hmm_logical_trans = (\<lambda>_. [[0, 0, 0], [0, 0, -1], [0, 0, 0]]), is_pseudo = (\<lambda>_. False),
     tail_outprob_cd = (\<lambda>_ _. -3), tail_outprob_state = (\<lambda>_ _. -3)\<rparr>"

definition ex_scan_env :: search_env where
  "ex_scan_env = ex_search\<lparr>words_info := ex_words\<lparr>wseq := [[\<lparr>ph_name = ''a'', ph_addr = 1\<rparr>, \<lparr>ph_name = ''b'', ph_addr = 2\<rparr>]]\<rparr>\<rparr>"

definition ex_node :: NODE where
  "ex_node = ex_junk\<lparr>nd_g := [-20, -10], nd_g_prev := Some [0, 0], nd_seq := [0, 0], nd_seqnum := 1, nd_lscore := 0\<rparr>"

definition ex_area :: work_area where
  "ex_area = \<lparr>wordtrellis0 = [0, 0, 0], wordtrellis1 = [0, 0, 0], wend_token0 = [], wend_token1 = []\<rparr>"

definition ex_par :: scan_par where
  "ex_par = \<lparr>p_hmm = [\<lparr>st_ac = [\<lparr>ac_a = -1, ac_arc = 1\<rparr>, \<lparr>ac_a = -2, ac_arc = 0\<rparr>], st_out_null = False\<rparr>,
       \<lparr>st_ac = [\<lparr>ac_a = -2, ac_arc = 1\<rparr>], st_out_null = False\<rparr>],
     p_g = [-20, -10], p_store = 0, p_maxarc = 0, p_cross = -1, p_back = False,
     p_ph0 = \<lparr>ph_name = ''a'', ph_addr = 1\<rparr>, p_sp0 = False\<rparr>"

lemmas ex_scan_defs = ex_scan_ops_def ex_scan_env_def ex_search_def ex_words_def ex_node_def ex_junk_def ex_area_def ex_par_def

lemma ex_prepare: "prepare_scan ex_scan_env ex_scan_ops ex_node = Some ex_par"
  by (simp add: prepare_scan_def prepare_plain_def use_sp_def store_of_def ex_scan_defs upt_rec Let_def)

lemma ex_fits: "scan_fits ex_scan_env ex_scan_ops ex_node ex_area ex_par"
  unfolding scan_fits_def using ex_prepare by (simp add: scan_in_range_def area_holds_def precise_def ex_scan_defs)

lemma ex_lose: "arcs_lose ex_scan_env ex_par (nd_lscore ex_node)"
  unfolding arcs_lose_def by (auto simp: gain_def ex_scan_defs less_Suc_eq_le [symmetric] less_Suc_eq)

theorem scan_word_best_witness:
  "\<exists>now' K' l. scan_word ex_scan_env ex_scan_ops ex_node ex_area = Some (now', K', l)
     \<and> (\<exists>stop \<le> 2. scanned ex_scan_env ex_scan_ops ex_par 0 0 stop 2 (nd_g now')
          (case nd_g_prev now' of None \<Rightarrow> [] | Some gp \<Rightarrow> gp))"
proof -
  have p: "\<not> precise ex_scan_env" "\<not> multipath ex_scan_env" "peseqlen ex_scan_env = 2"
    "nd_lscore ex_node = 0" "nd_estimated_next_t ex_node = 0"
    by (simp_all add: precise_def ex_scan_defs)
  have "\<not> multipath ex_scan_env \<or> 1 < length (p_hmm ex_par)" using p(2) by blast
  note best = scan_word_best [OF ex_fits ex_lose this]
  from conjunct1 [OF best] p obtain r where r: "scan_word ex_scan_env ex_scan_ops ex_node ex_area = Some r" by blast
  obtain now' K' l where "r = (now', K', l)" by (cases r)
  with r have run: "scan_word ex_scan_env ex_scan_ops ex_node ex_area = Some (now', K', l)" by simp
  have "\<exists>stop \<le> peseqlen ex_scan_env. scanned ex_scan_env ex_scan_ops ex_par (nd_lscore ex_node) (nd_estimated_next_t ex_node)
     stop (peseqlen ex_scan_env) (nd_g now') (case nd_g_prev now' of None \<Rightarrow> [] | Some gp \<Rightarrow> gp)"
    using conjunct2 [OF best] run by blast
  then show ?thesis unfolding p(3-5) using run by blast
qed

end
