(* ===== verification/Back_Scan.thy ===== *)
theory Back_Scan
  imports Scan_Word
begin

text \<open>
  What a scan leaves for the rest of the search (\<open>search_bestfirst_v1.c\<close>).  With context dependency the
  head phone of a word is scanned again with the word in front of it, from the scores that the scan stored:
  the two scans together are one scan of the HMM of both words.  The second part is about the results that
  are not what they should be: the final score of the multipath mode and the moved word boundaries.
\<close>

section \<open>Scanning a phone again\<close>

text \<open>
  The backscan of the next word stands for a scan of one long HMM: the states of the new word, those of
  the phone that is scanned again, and the rest of the word before.  \<open>whole R P ls Q\<close> is this HMM, with the
  scores before the word of the first scan \<open>P\<close>, whose language score \<open>ls\<close> is put on its arcs, and the cross
  point of the second scan \<open>Q\<close>.
\<close>

definition moved :: "search_env \<Rightarrow> scan_par \<Rightarrow> real \<Rightarrow> nat \<Rightarrow> nat \<Rightarrow> A_CELL \<Rightarrow> A_CELL" where
  "moved R P ls d n c = c\<lparr>ac_arc := ac_arc c + d, ac_a := gain R P ls n c\<rparr>"

abbreviation store :: "scan_par \<Rightarrow> nat" where
  "store P \<equiv> nat (p_store P)"

abbreviation ahead :: "scan_par \<Rightarrow> nat" where
  "ahead Q \<equiv> nat (p_cross Q + 1)"

definition whole :: "search_env \<Rightarrow> scan_par \<Rightarrow> real \<Rightarrow> scan_par \<Rightarrow> scan_par" where
  "whole R P ls Q =
     (let sp = store P; d = ahead Q; s = p_hmm Q ! (d + sp)
      in Q\<lparr>p_g := p_g P,
           p_hmm := take (d + sp) (p_hmm Q)
             @ s\<lparr>st_ac := st_ac s @ map (moved R P ls d sp) (filter (\<lambda>c. sp < ac_arc c) (st_ac (p_hmm P ! sp)))\<rparr>
             # map (\<lambda>n. (p_hmm P ! n)\<lparr>st_ac := map (moved R P ls d n) (st_ac (p_hmm P ! n))\<rparr>) [sp + 1..<length (p_hmm P)]\<rparr>)"

text \<open>
  What the code relies on: the HMM of a word without short pauses has the inner states of its phones one
  after the other, no arc leads back into the first phone or back from its last state (left-to-right
  models), and the variant of a phone for another left context has as many states.
\<close>

definition word_hmm_law :: "scan_ops \<Rightarrow> bool" where
  "word_hmm_law X \<longleftrightarrow>
     (\<forall>ph phs h. new_make_word_hmm X (ph # phs) None = Some h \<longrightarrow>
        (let k = hmm_logical_state_num X ph - 2
         in length h = (\<Sum>q \<leftarrow> ph # phs. hmm_logical_state_num X q - 2)
            \<and> (0 < k \<longrightarrow> (\<forall>c \<in> set (st_ac (h ! (k - 1))). k - 1 \<le> ac_arc c))
            \<and> (\<forall>m c. k \<le> m \<and> m < length h \<and> c \<in> set (st_ac (h ! m)) \<longrightarrow> k \<le> ac_arc c)))
     \<and> (\<forall>l n q. get_left_context_HMM X l n = Some q \<longrightarrow> hmm_logical_state_num X q = hmm_logical_state_num X l)"

text \<open>How the HMMs of the two scans fit together.\<close>

definition joins :: "scan_par \<Rightarrow> scan_par \<Rightarrow> bool" where
  "joins P Q \<longleftrightarrow>
     0 \<le> p_store P \<and> store P < length (p_hmm P) \<and> -1 \<le> p_cross Q \<and> length (p_hmm Q) = ahead Q + store P + 1
     \<and> (\<forall>c \<in> set (st_ac (p_hmm P ! store P)). ac_arc c \<ge> store P)
     \<and> (\<forall>m c. store P < m \<and> m \<le> last_state P \<and> c \<in> set (st_ac (p_hmm P ! m)) \<longrightarrow> store P < ac_arc c)"

lemma prepare_hmm:
  assumes "prepare_scan R X now = Some P" "ccd_flag R" "\<not> multipath R"
  obtains phs where "phs \<noteq> []" "new_make_word_hmm X phs None = Some (p_hmm P)" "p_ph0 P = hd phs"
    "p_store P = state_num X (hd phs) - 3"
    "\<And>l. nd_last_ph now = Some l \<Longrightarrow> p_cross P = int (length (p_hmm P)) - (state_num X (last phs) - 2) - 1
       \<and> (last phs = l \<or> (\<exists>n. get_left_context_HMM X l n = Some (last phs)))"
proof (cases "nd_last_ph now")
  case None
  with assms obtain phs where "phs \<noteq> []" "prepare_plain R X now phs = Some P"
    by (auto simp: prepare_scan_def Let_def split: if_splits)
  with None assms(2,3) show thesis
    by (intro that [of phs]) (auto simp: prepare_plain_def use_sp_def store_of_def Let_def bind_eq_Some_conv)
next
  case (Some l)
  with assms obtain phs where p: "phs \<noteq> []" "prepare_back R X now phs l = Some P"
    by (auto simp: prepare_scan_def Let_def split: if_splits)
  have "last (backscan_phones X phs l) = l \<or> (\<exists>n. get_left_context_HMM X l n = Some (last (backscan_phones X phs l)))"
    by (auto simp: backscan_phones_def Let_def split: option.split)
  moreover have "backscan_phones X phs l \<noteq> []" by (simp add: backscan_phones_def Let_def)
  ultimately show thesis using Some assms(2,3) p
    by (intro that [of "backscan_phones X phs l"])
      (auto simp: prepare_back_def use_sp_def store_of_def Let_def bind_eq_Some_conv split: if_splits)
qed

lemma prepare_joins:
  assumes law: "word_hmm_law X" and P: "prepare_scan R X now = Some P" and Q: "prepare_scan R X new = Some Q"
    and c: "ccd_flag R" "\<not> multipath R" and last: "nd_last_ph new = Some (p_ph0 P)"
    and st: "0 \<le> p_store P" "p_store P < int (length (p_hmm P))"
  shows "joins P Q"
proof -
  from prepare_hmm [OF P c] obtain phs where p: "phs \<noteq> []" "new_make_word_hmm X phs None = Some (p_hmm P)"
    "p_ph0 P = hd phs" "p_store P = state_num X (hd phs) - 3" by metis
  from prepare_hmm [OF Q c] last obtain qhs where q: "qhs \<noteq> []" "new_make_word_hmm X qhs None = Some (p_hmm Q)"
    "p_cross Q = int (length (p_hmm Q)) - (state_num X (List.last qhs) - 2) - 1"
    "List.last qhs = p_ph0 P \<or> (\<exists>n. get_left_context_HMM X (p_ph0 P) n = Some (List.last qhs))" by metis
  have same: "hmm_logical_state_num X (List.last qhs) = hmm_logical_state_num X (hd phs)"
    using q(4) law unfolding word_hmm_law_def p(3) by metis
  let ?k = "hmm_logical_state_num X (hd phs) - 2"
  obtain ph phs' where phs: "phs = ph # phs'" using p(1) by (cases phs) simp_all
  obtain qh qhs' where qhs: "qhs = qh # qhs'" using q(1) by (cases qhs) simp_all
  have k: "store P = ?k - 1" "0 < ?k" using st(1) p(4) by simp_all
  have "length (p_hmm Q) = (\<Sum>q \<leftarrow> qhs. hmm_logical_state_num X q - 2)"
    using law q(2) unfolding word_hmm_law_def qhs by (simp add: Let_def)
  moreover have "hmm_logical_state_num X (List.last qhs) - 2 \<le> (\<Sum>q \<leftarrow> qhs. hmm_logical_state_num X q - 2)"
    using q(1) by (intro member_le_sum_list) simp_all
  ultimately have "?k \<le> length (p_hmm Q)" by (simp add: same)
  then have len: "-1 \<le> p_cross Q" "length (p_hmm Q) = ahead Q + store P + 1"
    using q(3) k p(4) st(1) unfolding same by linarith+
  have arcs: "\<forall>c \<in> set (st_ac (p_hmm P ! (?k - 1))). ?k - 1 \<le> ac_arc c"
    "\<forall>m c. ?k \<le> m \<and> m < length (p_hmm P) \<and> c \<in> set (st_ac (p_hmm P ! m)) \<longrightarrow> ?k \<le> ac_arc c"
    using law p(2) k(2) unfolding word_hmm_law_def phs by (simp_all add: Let_def)
  have "store P < ac_arc c" if "store P < m" "m \<le> last_state P" "c \<in> set (st_ac (p_hmm P ! m))" for m c
  proof -
    have "?k \<le> m" "m < length (p_hmm P)" using that(1,2) k st(2) by linarith+
    with arcs(2) that(3) have "?k \<le> ac_arc c" by blast
    with k show ?thesis by linarith
  qed
  moreover have "store P < length (p_hmm P)" using st by linarith
  ultimately show ?thesis using st(1) len arcs(1) unfolding joins_def k(1) by blast
qed

text \<open>The output probability of a state does not depend on the HMM around it.\<close>

definition same_outprob :: "search_env \<Rightarrow> scan_ops \<Rightarrow> scan_par \<Rightarrow> real \<Rightarrow> scan_par \<Rightarrow> bool" where
  "same_outprob R X P lsP Q \<longleftrightarrow>
     (\<forall>t < peseqlen R. \<forall>n \<le> last_state (whole R P lsP Q). outprob_of X (p_hmm (whole R P lsP Q)) t n
        = (if n \<le> last_state Q then outprob_of X (p_hmm Q) t n else outprob_of X (p_hmm P) t (n - ahead Q)))"

lemma whole_simps [simp]:
  "p_g (whole R P lsP Q) = p_g P" "p_cross (whole R P lsP Q) = p_cross Q"
  by (simp_all add: whole_def Let_def)

lemma whole_hmm:
  assumes "joins P Q" "store P < last_state P"
  shows "last_state (whole R P lsP Q) = ahead Q + last_state P"
    and "last_state Q = ahead Q + store P" and "store P < last_state P"
    and "n < last_state Q \<Longrightarrow> p_hmm (whole R P lsP Q) ! n = p_hmm Q ! n"
    and "st_ac (p_hmm (whole R P lsP Q) ! last_state Q) =
       st_ac (p_hmm Q ! last_state Q) @ map (moved R P lsP (ahead Q) (store P)) (filter (\<lambda>c. store P < ac_arc c) (st_ac (p_hmm P ! store P)))"
    and "store P < m \<Longrightarrow> m \<le> last_state P \<Longrightarrow>
       st_ac (p_hmm (whole R P lsP Q) ! (ahead Q + m)) = map (moved R P lsP (ahead Q) m) (st_ac (p_hmm P ! m))"
proof -
  have len: "length (p_hmm Q) = ahead Q + store P + 1" and sp: "store P < last_state P"
    using assms by (auto simp: joins_def)
  then show "last_state (whole R P lsP Q) = ahead Q + last_state P" "last_state Q = ahead Q + store P" "store P < last_state P"
    by (simp_all add: whole_def Let_def)
  show "n < last_state Q \<Longrightarrow> p_hmm (whole R P lsP Q) ! n = p_hmm Q ! n"
    using len by (simp add: whole_def Let_def nth_append)
  show "st_ac (p_hmm (whole R P lsP Q) ! last_state Q) =
     st_ac (p_hmm Q ! last_state Q) @ map (moved R P lsP (ahead Q) (store P)) (filter (\<lambda>c. store P < ac_arc c) (st_ac (p_hmm P ! store P)))"
    using len by (simp add: whole_def Let_def nth_append)
  show "st_ac (p_hmm (whole R P lsP Q) ! (ahead Q + m)) = map (moved R P lsP (ahead Q) m) (st_ac (p_hmm P ! m))"
    if "store P < m" "m \<le> last_state P"
  proof -
    from that obtain k where k: "m = store P + 1 + k" by (metis Suc_eq_plus1 less_iff_Suc_add add.commute add_Suc_right)
    with that(2) sp have "k < length (p_hmm P) - (store P + 1)" by linarith
    then show ?thesis using len k by (simp add: whole_def Let_def nth_append)
  qed
qed

lemma path_frame: "scan_path R X P lscore t m s \<Longrightarrow> \<not> multipath R \<Longrightarrow> t < peseqlen R"
  by (induction rule: scan_path.induct) simp_all

lemma moved_simps [simp]: "ac_arc (moved R P ls d n c) = ac_arc c + d" "ac_a (moved R P ls d n c) = gain R P ls n c"
  by (simp_all add: moved_def)

lemma whole_last:
  assumes "joins P Q" "store P < last_state P"
  shows "length (p_hmm (whole R P lsP Q)) - Suc 0 = ahead Q + (length (p_hmm P) - Suc 0)"
    and "length (p_hmm Q) - Suc 0 = ahead Q + store P"
  using whole_hmm(1,2) [OF assms] by simp_all

lemma gain_joins:
  "gain R (whole R P lsP Q) ls n c = gain R Q ls n c" "ahead Q \<le> n \<Longrightarrow> gain R Q ls n c = ac_a c"
  by (auto simp: gain_def)

lemma out_whole:
  assumes "same_outprob R X P lsP Q" "joins P Q" "store P < last_state P" "\<not> multipath R" "t < peseqlen R"
  shows "n \<le> last_state Q \<Longrightarrow> out_at R X (whole R P lsP Q) t n = out_at R X Q t n"
    and "store P < m \<Longrightarrow> m \<le> last_state P \<Longrightarrow> out_at R X (whole R P lsP Q) t (ahead Q + m) = out_at R X P t m"
proof -
  have out: "outprob_of X (p_hmm (whole R P lsP Q)) t k
      = (if k \<le> last_state Q then outprob_of X (p_hmm Q) t k else outprob_of X (p_hmm P) t (k - ahead Q))"
    if "k \<le> last_state (whole R P lsP Q)" for k
    using assms(1,5) that unfolding same_outprob_def by blast
  show "out_at R X (whole R P lsP Q) t n = out_at R X Q t n" if "n \<le> last_state Q"
  proof -
    have "n \<le> last_state (whole R P lsP Q)" using that unfolding whole_hmm(1,2) [OF assms(2,3)] using whole_hmm(3) [OF assms(2,3)] by linarith
    with out [of n] that assms(4) show ?thesis by (simp add: out_at_def)
  qed
  show "out_at R X (whole R P lsP Q) t (ahead Q + m) = out_at R X P t m" if "store P < m" "m \<le> last_state P"
  proof -
    have "ahead Q + m \<le> last_state (whole R P lsP Q)" "\<not> ahead Q + m \<le> last_state Q"
      using that unfolding whole_hmm(1,2) [OF assms(2,3)] by simp_all
    with out [of "ahead Q + m"] assms(4) show ?thesis by (simp add: out_at_def)
  qed
qed

text \<open>Behind the phone that is scanned again the paths are those of the first scan.\<close>

lemma path_behind:
  assumes J: "joins P Q" "store P < last_state P" and mp: "\<not> multipath R" and out: "same_outprob R X P lsP Q"
  shows "scan_path R X P lsP t m s \<Longrightarrow> store P < m \<Longrightarrow> scan_path R X (whole R P lsP Q) ls t (ahead Q + m) s"
proof (induction rule: scan_path.induct)
  case (enter t)
  have "out_at R X (whole R P lsP Q) t (ahead Q + last_state P) = out_at R X P t (last_state P)"
    by (rule out_whole(2) [OF out J mp]) (use enter in auto)
  with scan_path.enter [of R t X "whole R P lsP Q" ls] enter(1-3) show ?case by (simp add: whole_last(1) [OF J])
next
  case (arc t c s n)
  have c: "store P < ac_arc c" using J(1) arc.hyps(2,4) arc.prems unfolding joins_def by blast
  have t: "t < peseqlen R" using path_frame [OF arc.hyps(1) mp] by simp
  have g: "gain R (whole R P lsP Q) ls (ahead Q + n) (moved R P lsP (ahead Q) n c) = gain R P lsP n c"
    by (simp add: gain_joins)
  have "scan_path R X (whole R P lsP Q) ls (Suc t) (ac_arc (moved R P lsP (ahead Q) n c)) s"
    using arc.IH [OF c] by (simp add: add.commute)
  from scan_path.arc [OF this, of "ahead Q + n"] arc.hyps(2,4,5) arc.prems mp show ?case
    by (simp add: g whole_last(1) [OF J] whole_hmm(6) [OF J arc.prems arc.hyps(2)]
        out_whole(2) [OF out J mp t arc.prems arc.hyps(2)])
qed (use mp in simp)

lemma path_behind_back:
  assumes J: "joins P Q" "store P < last_state P" and mp: "\<not> multipath R" and out: "same_outprob R X P lsP Q"
  shows "scan_path R X (whole R P lsP Q) ls t n s \<Longrightarrow> n = ahead Q + m \<Longrightarrow> store P < m \<Longrightarrow> scan_path R X P lsP t m s"
proof (induction arbitrary: m rule: scan_path.induct)
  case (enter t)
  then have m: "m = last_state P" by (simp add: whole_last(1) [OF J])
  have "out_at R X (whole R P lsP Q) t (ahead Q + last_state P) = out_at R X P t (last_state P)"
    by (rule out_whole(2) [OF out J mp]) (use enter m in auto)
  with scan_path.enter [of R t X P lsP] enter(1-3) show ?case by (simp add: whole_last(1) [OF J] m)
next
  case (arc t c s n)
  have m: "m \<le> last_state P" using arc.hyps(2) arc.prems(1) by (simp add: whole_last(1) [OF J])
  from arc.hyps(4) obtain c' where c': "c' \<in> set (st_ac (p_hmm P ! m))" "c = moved R P lsP (ahead Q) m c'"
    unfolding arc.prems(1) whole_hmm(6) [OF J arc.prems(2) m] by auto
  have c: "store P < ac_arc c'" using J(1) m c'(1) arc.prems(2) unfolding joins_def by blast
  have t: "t < peseqlen R" using path_frame [OF arc.hyps(1) mp] by simp
  have g: "gain R (whole R P lsP Q) ls (ahead Q + m) c = gain R P lsP m c'"
    by (simp add: gain_joins c'(2))
  have "scan_path R X P lsP (Suc t) (ac_arc c') s"
    by (rule arc.IH) (use c c'(2) in simp_all)
  from scan_path.arc [OF this m _ c'(1)] arc.hyps(5) mp show ?case
    by (simp add: g arc.prems(1) out_whole(2) [OF out J mp t arc.prems(2) m])
qed (use mp in simp)

text \<open>The second scan takes its paths from the stored scores: they are paths of the long HMM, and dominate its paths.\<close>

lemma rescan_path:
  assumes J: "joins P Q" "store P < last_state P" and mp: "\<not> multipath R" and out: "same_outprob R X P lsP Q"
    and prev: "\<And>t. stop \<le> t \<Longrightarrow> t < peseqlen R \<Longrightarrow> prev_ok R X P lsP t (p_g Q ! t)"
  shows "scan_path R X Q ls t n s \<Longrightarrow> stop \<le> t \<Longrightarrow> scan_path R X (whole R P lsP Q) ls t n s"
proof (induction rule: scan_path.induct)
  case (enter t)
  have "p_g Q ! t \<noteq> log_zero X" using above_log_zero [OF enter.hyps(3)] by simp
  with prev [OF enter.prems enter.hyps(2)] obtain c s where c: "c \<in> set (st_ac (p_hmm P ! store P))" "ac_arc c \<noteq> store P"
    "scan_path R X P lsP (Suc t) (ac_arc c) s" "p_g Q ! t = s + gain R P lsP (store P) c"
    unfolding prev_ok_def by blast
  from c(1,2) J(1) have "store P < ac_arc c" unfolding joins_def by fastforce
  from path_behind [OF J mp out c(3) this]
  have p: "scan_path R X (whole R P lsP Q) ls (Suc t) (ac_arc (moved R P lsP (ahead Q) (store P) c)) s" by (simp add: add.commute)
  have g: "gain R (whole R P lsP Q) ls (last_state Q) (moved R P lsP (ahead Q) (store P) c) = gain R P lsP (store P) c"
    using gain_joins(2) [of Q "last_state Q"] unfolding gain_joins(1) whole_hmm(2) [OF J] by simp
  have m: "moved R P lsP (ahead Q) (store P) c \<in> set (st_ac (p_hmm (whole R P lsP Q) ! last_state Q))"
    unfolding whole_hmm(5) [OF J] using c(1) \<open>store P < ac_arc c\<close> by simp
  have le: "last_state Q \<le> last_state (whole R P lsP Q)"
    unfolding whole_hmm(1,2) [OF J] using whole_hmm(3) [OF J] by simp
  from scan_path.arc [OF p le _ m] enter.hyps(3) mp show ?case
    unfolding g c(4) [symmetric] out_whole(1) [OF out J mp enter.hyps(2) order_refl] by blast
next
  case (arc t c s n)
  have t: "t < peseqlen R" using path_frame [OF arc.hyps(1) mp] by simp
  have m: "c \<in> set (st_ac (p_hmm (whole R P lsP Q) ! n))"
    using arc.hyps(2,4) whole_hmm(4) [OF J, of n] whole_hmm(5) [OF J] by (cases "n = last_state Q") auto
  have le: "n \<le> last_state (whole R P lsP Q)"
    using arc.hyps(2) whole_hmm(3) [OF J] unfolding whole_hmm(1,2) [OF J] by linarith
  have p: "scan_path R X (whole R P lsP Q) ls (Suc t) (ac_arc c) s" using arc.IH arc.prems by simp
  from scan_path.arc [OF p le _ m] arc.hyps(5) mp show ?case
    unfolding gain_joins(1) out_whole(1) [OF out J mp t arc.hyps(2)] by blast
qed (use mp in simp)

lemma rescan_dominates:
  assumes J: "joins P Q" "store P < last_state P" and mp: "\<not> multipath R" and out: "same_outprob R X P lsP Q"
    and prev: "\<And>t. stop \<le> t \<Longrightarrow> t < peseqlen R \<Longrightarrow> prev_ok R X P lsP t (p_g Q ! t)" and ok: "arcs_in_range Q"
  shows "scan_path R X (whole R P lsP Q) ls t n s \<Longrightarrow> stop \<le> t \<Longrightarrow> n \<le> last_state Q \<Longrightarrow> \<exists>s' \<ge> s. scan_path R X Q ls t n s'"
proof (induction rule: scan_path.induct)
  case (enter t)
  then show ?case using whole_hmm(3) [OF J] unfolding whole_hmm(1,2) [OF J] by linarith
next
  case (arc t c s n)
  have t: "t < peseqlen R" using path_frame [OF arc.hyps(1) mp] by simp
  have eq: "out_at R X (whole R P lsP Q) t n = out_at R X Q t n" by (rule out_whole(1) [OF out J mp t arc.prems(2)])
  have arcs: "c \<in> set (st_ac (p_hmm Q ! n))
    \<or> (n = last_state Q \<and> (\<exists>c' \<in> set (st_ac (p_hmm P ! store P)). store P < ac_arc c' \<and> c = moved R P lsP (ahead Q) (store P) c'))"
    using arc.hyps(4) arc.prems(2) whole_hmm(4) [OF J, of n] whole_hmm(5) [OF J] by (cases "n = last_state Q") auto
  then show ?case
  proof (elim disjE conjE bexE)
    assume c: "c \<in> set (st_ac (p_hmm Q ! n))"
    with ok arc.prems(2) have "ac_arc c \<le> last_state Q" unfolding arcs_in_range_def by blast
    with arc.IH arc.prems(1) obtain s' where s': "s \<le> s'" "scan_path R X Q ls (Suc t) (ac_arc c) s'" by auto
    have "above R (log_zero X) t (s' + gain R Q ls n c)"
      using arc.hyps(5) s'(1) above_mono unfolding gain_joins(1) by simp
    from scan_path.arc [OF s'(2) arc.prems(2) _ c this] mp
    have "scan_path R X Q ls t n (s' + gain R Q ls n c + out_at R X Q t n)" by blast
    with s'(1) show ?thesis unfolding gain_joins(1) eq by (intro exI conjI) (rule add_right_mono, simp_all)
  next
    fix c' assume c': "n = last_state Q" "c' \<in> set (st_ac (p_hmm P ! store P))" "store P < ac_arc c'" "c = moved R P lsP (ahead Q) (store P) c'"
    have p: "scan_path R X P lsP (Suc t) (ac_arc c') s"
      by (rule path_behind_back [OF J mp out arc.hyps(1) _ c'(3)]) (simp add: c'(4))
    have g: "gain R (whole R P lsP Q) ls n c = gain R P lsP (store P) c'"
      using gain_joins(2) [of Q "last_state Q"]
      unfolding c'(1,4) gain_joins(1) whole_hmm(2) [OF J] by simp
    have "ac_arc c' \<noteq> store P" using c'(3) by simp
    then have le: "s + gain R P lsP (store P) c' \<le> p_g Q ! t"
      using prev [OF arc.prems(1) t] p c'(2) arc.hyps(5) unfolding g prev_ok_def by blast
    then have "above R (log_zero X) t (p_g Q ! t)" using arc.hyps(5) above_mono unfolding g by blast
    from scan_path.enter [OF mp t this, of ls] le show ?thesis
      unfolding g eq unfolding c'(1) by (intro exI conjI) (rule add_right_mono, simp_all)
  qed
qed (use mp in simp)

lemma rescan_best:
  assumes J: "joins P Q" "store P < last_state P" and mp: "\<not> multipath R" and out: "same_outprob R X P lsP Q"
    and prev: "\<And>t. stop \<le> t \<Longrightarrow> t < peseqlen R \<Longrightarrow> prev_ok R X P lsP t (p_g Q ! t)" and ok: "arcs_in_range Q"
    and t: "stop \<le> t" "n \<le> last_state Q" and best: "best_at R X Q ls t n v"
  shows "best_at R X (whole R P lsP Q) ls t n v"
proof -
  note up = rescan_path [OF J mp out prev _ t(1)] and down = rescan_dominates [OF J mp out prev ok _ t]
  show ?thesis using best up down unfolding best_at_def by (meson order_trans)
qed

lemma scannedD:
  assumes "scanned R X P ls est stop k gs gp"
  shows "0 < stop \<longrightarrow> int stop < est" "stop \<le> t \<Longrightarrow> t < k \<Longrightarrow> best_at R X P ls t 0 (gs ! t)"
    and "ccd_flag R \<Longrightarrow> \<not> multipath R \<Longrightarrow> stores_inside R P \<Longrightarrow> stop \<le> t \<Longrightarrow> t < k \<Longrightarrow> prev_ok R X P ls t (gp ! t)"
  using assms by (simp_all add: scanned_def kept_ok_def)

lemma prepare_g_prev:
  assumes "prepare_scan R X new = Some Q" "ccd_flag R" "nd_last_ph new \<noteq> None"
  shows "nd_g_prev new = Some (p_g Q)"
  using assms by (auto simp: prepare_scan_def prepare_back_def Let_def bind_eq_Some_conv split: if_splits)

lemma finish_scan_words:
  "nd_seqnum (finish_scan R X P startt w now) = nd_seqnum now" "nd_seq (finish_scan R X P startt w now) = nd_seq now"
  "nd_cmscore (finish_scan R X P startt w now) = nd_cmscore now"
  "ccd_flag R \<Longrightarrow> nd_last_ph (finish_scan R X P startt w now) = Some (p_ph0 P)"
  by (simp_all add: finish_scan_def Let_def)

lemma scan_word_last:
  assumes "scan_fits R X now K P" "scan_word R X now K = Some (now', K', l)" "ccd_flag R"
  shows "nd_last_ph now' = Some (p_ph0 P)"
proof -
  from assms(1) obtain now1 l1 where "scan_word R X now K = map_option (\<lambda>(w, startt). (finish_scan R X P startt w now1, work_of w, l1))
      (scan_frames R X P (nd_lscore now) (nd_estimated_next_t now) (start_state now1 K))"
    by (rule scan_word_runs)
  with assms(2,3) show ?thesis by (auto simp: finish_scan_words)
qed

text \<open>A word of one phone is scanned again as a whole, from the scores before it.\<close>

lemma whole_one_phone:
  assumes "joins P Q" "arcs_in_range P" "store P = last_state P"
  shows "whole R P lsP Q = Q\<lparr>p_g := p_g P\<rparr>"
proof -
  have len: "length (p_hmm P) = Suc (store P)" "length (p_hmm Q) = Suc (ahead Q + store P)"
    using assms(1,3) by (auto simp: joins_def)
  have "ac_arc c \<le> store P" if "c \<in> set (st_ac (p_hmm P ! store P))" for c
    using assms(2) that unfolding arcs_in_range_def assms(3) by blast
  then have "filter (\<lambda>c. store P < ac_arc c) (st_ac (p_hmm P ! store P)) = []"
    unfolding filter_empty_conv by (meson not_less)
  moreover have "take (ahead Q + store P) (p_hmm Q) @ [p_hmm Q ! (ahead Q + store P)] = p_hmm Q"
    using len(2) by (simp add: take_Suc_conv_app_nth [symmetric])
  ultimately show ?thesis using len(1) by (simp add: whole_def Let_def)
qed

lemma other_scores:
  "out_at R X (Q\<lparr>p_g := gs\<rparr>) t n = out_at R X Q t n" "gain R (Q\<lparr>p_g := gs\<rparr>) ls n c = gain R Q ls n c"
  by (simp_all add: out_at_def gain_def)

lemma path_from:
  assumes "\<not> multipath R" "\<And>t. t < peseqlen R \<Longrightarrow> above R (log_zero X) t (p_g Q ! t) \<Longrightarrow> gs ! t = p_g Q ! t"
  shows "scan_path R X Q ls t n s \<Longrightarrow> scan_path R X (Q\<lparr>p_g := gs\<rparr>) ls t n s"
proof (induction rule: scan_path.induct)
  case (enter t)
  with assms(2) scan_path.enter [of R t X "Q\<lparr>p_g := gs\<rparr>" ls] show ?case by (simp add: other_scores)
next
  case (arc t c s n)
  with scan_path.arc [of R X "Q\<lparr>p_g := gs\<rparr>" ls t c s n] show ?case by (simp add: other_scores)
qed (use assms(1) in simp)

lemma copied_best:
  assumes "\<not> multipath R" "copied R X P (p_g Q)" "best_at R X Q ls t n v"
  shows "best_at R X (Q\<lparr>p_g := p_g P\<rparr>) ls t n v"
proof -
  have "\<not> above R (log_zero X) t (log_zero X)" for t by (simp add: above_def)
  with assms(2) have eq: "p_g P ! t = p_g Q ! t"
    if "t < peseqlen R" "above R (log_zero X) t (p_g Q ! t) \<or> above R (log_zero X) t (p_g P ! t)" for t
    using that unfolding copied_def by metis
  have "scan_path R X (Q\<lparr>p_g := p_g P\<rparr>) ls t n s" if "scan_path R X Q ls t n s" for s
    by (rule path_from [OF assms(1) _ that]) (use eq in blast)
  moreover have "scan_path R X Q ls t n s" if "scan_path R X (Q\<lparr>p_g := p_g P\<rparr>) ls t n s" for s
  proof -
    have "scan_path R X (Q\<lparr>p_g := p_g P, p_g := p_g Q\<rparr>) ls t n s"
      by (rule path_from [OF assms(1) _ that], simp) (metis eq)
    then show ?thesis by simp
  qed
  ultimately show ?thesis using assms(3) unfolding best_at_def by blast
qed

text \<open>C2: without multipath the backscan loses nothing.  The last word of a hypothesis is scanned (with or
  without a backscan of its own), the next hypothesis takes over its head phone and the scores stored for it,
  and the scan of the next word begins with that phone in its new context: the scores that come out are the
  best scores of all paths through the long HMM of both words, from the scores before the first of them, with
  the language score of each word at its boundary.  Only frames before the estimated beginning of one of the
  words may have been given up.  Where the two HMMs meet follows from the positions that the scans compute and
  from \<open>word_hmm_law\<close>; that the output probability of a state is the same in both HMMs is the
  other thing the code relies on.  The multipath mode stores other scores and is not covered.\<close>

theorem backscan_exact:
  assumes "ccd_flag R" and mp: "\<not> multipath R" and law: "word_hmm_law X"
    and first: "scan_fits R X now K P" "arcs_lose R P (nd_lscore now)" "scan_word R X now K = Some (now', K', l)"
    and inherit: "nd_last_ph new = nd_last_ph now'" "nd_g_prev new = nd_g_prev now'"
    and second: "scan_fits R X new K1 Q" "arcs_lose R Q (nd_lscore new)" "scan_word R X new K1 = Some (new', K2, l2)"
    and out: "same_outprob R X P (nd_lscore now) Q"
  shows "\<exists>stop. (0 < stop \<longrightarrow> int stop < max (nd_estimated_next_t now) (nd_estimated_next_t new))
    \<and> (\<forall>t. stop \<le> t \<and> t < peseqlen R \<longrightarrow> best_at R X (whole R P (nd_lscore now) Q) (nd_lscore new) t 0 (nd_g new' ! t))"
proof -
  note c = assms(1) mp
  have ph: "nd_last_ph new = Some (p_ph0 P)"
    using scan_word_last [OF first(1,3) c(1)] inherit(1) by simp
  have range: "scan_in_range R P now K" "scan_in_range R Q new K1"
    and prep: "prepare_scan R X now = Some P" "prepare_scan R X new = Some Q"
    using first(1) second(1) by (simp_all add: scan_fits_def)
  then have st: "0 \<le> p_store P" "p_store P < int (length (p_hmm P))" using c by (simp_all add: scan_in_range_def)
  have J: "joins P Q" by (rule prepare_joins [OF law prep c ph st])
  have gp: "nd_g_prev now' = Some (p_g Q)"
    using prepare_g_prev [OF prep(2) c(1)] ph inherit(2) by simp
  obtain stop2 where "scanned R X Q (nd_lscore new) (nd_estimated_next_t new) stop2 (peseqlen R) (nd_g new')
     (case nd_g_prev new' of None \<Rightarrow> [] | Some gp \<Rightarrow> gp)"
    using scan_word_scanned [OF second(1,2) disjI1 [OF mp] second(3)] by blast
  note s2 = scannedD(1,2) [OF this]
  note ok = range [THEN scan_in_range_arcs]
  show ?thesis
  proof (cases "stores_inside R P")
    case True
    then have "store P < last_state P" using mp by (auto simp: stores_inside_def)
    note J = J this
    obtain stop1 where "scanned R X P (nd_lscore now) (nd_estimated_next_t now) stop1 (peseqlen R) (nd_g now') (p_g Q)"
      using scan_word_scanned [OF first(1,2) disjI1 [OF mp] first(3)] unfolding gp option.case by blast
    note s1 = scannedD(1,3) [OF this]
    have "best_at R X (whole R P (nd_lscore now) Q) (nd_lscore new) t 0 (nd_g new' ! t)"
      if "max stop1 stop2 \<le> t" "t < peseqlen R" for t
      by (rule rescan_best [OF J mp out s1(2) [OF c True] ok(2) _ _ s2(2)]) (use that in auto)
    moreover have "0 < max stop1 stop2 \<longrightarrow> int (max stop1 stop2) < max (nd_estimated_next_t now) (nd_estimated_next_t new)"
      using s1(1) s2(1) by (auto simp: max_def)
    ultimately show ?thesis by (intro exI [of _ "max stop1 stop2"] conjI allI impI) simp_all
  next
    case False
    with st mp have "store P = last_state P" by (auto simp: stores_inside_def)
    note whole = whole_one_phone [OF J ok(1) this]
    have "copied R X P (p_g Q)" using scan_word_copied [OF first(1,3) c(1) False] gp by simp
    from copied_best [OF mp this s2(2)] s2(1) show ?thesis
      unfolding whole by (intro exI [of _ stop2]) auto
  qed
qed

text \<open>A scan keeps the words of the hypothesis and the size of its arrays.\<close>

definition same_size :: "wstate \<Rightarrow> wstate \<Rightarrow> bool" where
  "same_size w w' \<longleftrightarrow> length (w_g w') = length (w_g w) \<and> length (w_gprev w') = length (w_gprev w)"

lemma scan_frame_size: "scan_frame R X P lscore startt t w = Some (w', ex) \<Longrightarrow> same_size w w'"
  by (auto simp: same_size_def scan_frame_def leave_frame_def Let_def split: option.splits)

lemma fold_clear_size: "same_size w (fold (clear_frame R lz) ts w)"
  by (simp add: same_size_def fold_clear)

lemma same_size_trans: "same_size w w1 \<Longrightarrow> same_size w1 w2 \<Longrightarrow> same_size w w2"
  by (simp add: same_size_def)

lemma scan_loop_size: "scan_loop R X P lscore est startt ts w = Some w' \<Longrightarrow> same_size w w'"
proof (induction ts arbitrary: w)
  case (Cons t ts)
  from Cons.prems obtain w1 ex where f: "scan_frame R X P lscore startt t w = Some (w1, ex)"
    and rest: "w' = fold (clear_frame R (log_zero X)) ts w1 \<or> scan_loop R X P lscore est startt ts w1 = Some w'"
    by (auto split: option.splits if_splits)
  from rest have "same_size w1 w'" using Cons.IH fold_clear_size by blast
  with scan_frame_size [OF f] show ?case by (rule same_size_trans)
qed (simp add: same_size_def)

lemma scan_frames_size: "scan_frames R X P lscore est w = Some (w', startt) \<Longrightarrow> same_size w w'"
proof (cases "find (\<lambda>t. above R (log_zero X) t (p_g P ! t)) (rev [0..<peseqlen R])")
  case (Some k)
  assume "scan_frames R X P lscore est w = Some (w', startt)"
  with Some have loop: "scan_loop R X P lscore est startt (rev [0..<if multipath R then startt + 1 else startt])
      (scan_init R X P startt w) = Some w'"
    by (auto simp: scan_frames_def split: if_splits)
  have "same_size w (scan_init R X P startt w)"
    by (simp add: same_size_def scan_init_simps(1,4) Let_def)
  then show ?thesis using scan_loop_size [OF loop] by (rule same_size_trans)
qed (auto simp: scan_frames_def fold_clear_size)

lemma scan_word_keeps:
  assumes "scan_fits R X now K P" "scan_word R X now K = Some (now', K', l)"
  shows "nd_seqnum now' = nd_seqnum now" "nd_seq now' = nd_seq now" "nd_cmscore now' = nd_cmscore now"
    and "length (nd_g now') = length (nd_g now)" "ccd_flag R \<Longrightarrow> nd_last_ph now' = Some (p_ph0 P)"
    and "ccd_flag R \<Longrightarrow> stores_inside R P \<Longrightarrow> nd_g_prev now = Some gp \<Longrightarrow>
      \<exists>gp'. nd_g_prev now' = Some gp' \<and> length gp' = length gp"
proof -
  from assms(1) obtain now1 l1 where n1: "nd_seq now1 = nd_seq now" "nd_seqnum now1 = nd_seqnum now" "nd_cmscore now1 = nd_cmscore now"
    and run: "scan_word R X now K = map_option (\<lambda>(w, startt). (finish_scan R X P startt w now1, work_of w, l1))
      (scan_frames R X P (nd_lscore now) (nd_estimated_next_t now) (start_state now1 K))"
    and st: "start_state now1 K = start_state now K"
    by (rule scan_word_runs)
  from assms(2) obtain w startt where w: "now' = finish_scan R X P startt w now1"
    "scan_frames R X P (nd_lscore now) (nd_estimated_next_t now) (start_state now K) = Some (w, startt)"
    unfolding run st by auto
  have size: "length (w_g w) = length (nd_g now)" "nd_g_prev now = Some gp \<Longrightarrow> length (w_gprev w) = length gp"
    using scan_frames_size [OF w(2)] by (simp_all add: same_size_def start_state_def)
  show "nd_seqnum now' = nd_seqnum now" "nd_seq now' = nd_seq now" "nd_cmscore now' = nd_cmscore now"
    "length (nd_g now') = length (nd_g now)" "ccd_flag R \<Longrightarrow> nd_last_ph now' = Some (p_ph0 P)"
    by (simp_all add: w(1) finish_scan_words n1 finish_scan_g(1) size(1))
  show "\<exists>gp'. nd_g_prev now' = Some gp' \<and> length gp' = length gp"
    if "ccd_flag R" "stores_inside R P" "nd_g_prev now = Some gp"
    using finish_scan_g(2) [OF that(1,2)] size(2) [OF that(3)] by (simp add: w(1))
qed

definition ex_next :: "real list \<Rightarrow> NODE" where
  "ex_next gp = ex_node\<lparr>nd_seqnum := 2, nd_last_ph := Some \<lparr>ph_name = ''a'', ph_addr = 1\<rparr>, nd_g_prev := Some gp\<rparr>"

definition ex_back :: "real list \<Rightarrow> scan_par" where
  "ex_back gp = \<lparr>p_hmm = [\<lparr>st_ac = [\<lparr>ac_a = -1, ac_arc = 1\<rparr>, \<lparr>ac_a = -2, ac_arc = 0\<rparr>], st_out_null = False\<rparr>,
       \<lparr>st_ac = [\<lparr>ac_a = -1, ac_arc = 2\<rparr>, \<lparr>ac_a = -2, ac_arc = 1\<rparr>], st_out_null = False\<rparr>,
       \<lparr>st_ac = [\<lparr>ac_a = -2, ac_arc = 2\<rparr>], st_out_null = False\<rparr>],
     p_g = gp, p_store = 0, p_maxarc = 0, p_cross = 1, p_back = True,
     p_ph0 = \<lparr>ph_name = ''a'', ph_addr = 1\<rparr>, p_sp0 = False\<rparr>"

lemma ex_back_fits:
  assumes "length gp = 2"
  shows "scan_fits ex_scan_env ex_scan_ops (ex_next gp) ex_area (ex_back gp)"
proof -
  have "prepare_scan ex_scan_env ex_scan_ops (ex_next gp) = Some (ex_back gp)"
    by (simp add: prepare_scan_def prepare_back_def backscan_phones_def use_sp_def store_of_def ex_next_def ex_back_def
        ex_scan_defs upt_rec Let_def)
  with assms show ?thesis
    unfolding scan_fits_def by (simp add: scan_in_range_def area_holds_def precise_def ex_next_def ex_back_def ex_scan_defs)
qed

lemma ex_back_lose: "arcs_lose ex_scan_env (ex_back gp) (nd_lscore (ex_next gp))"
  unfolding arcs_lose_def
  by (auto simp: gain_def ex_back_def ex_next_def ex_scan_defs less_Suc_eq_le [symmetric] less_Suc_eq numeral_2_eq_2)

lemma ex_hmm_law: "word_hmm_law ex_scan_ops"
  by (auto simp: word_hmm_law_def ex_scan_ops_def Let_def sum_list_triv nth_append)

lemma ex_same_outprob: "same_outprob ex_scan_env ex_scan_ops ex_par ls (ex_back gp)"
  by (simp add: same_outprob_def ex_scan_ops_def)

theorem backscan_exact_witness:
  "\<exists>now' new' gp. (\<exists>K l. scan_word ex_scan_env ex_scan_ops ex_node ex_area = Some (now', K, l)) \<and> nd_g_prev now' = Some gp
     \<and> (\<exists>K l. scan_word ex_scan_env ex_scan_ops (ex_next gp) ex_area = Some (new', K, l))
     \<and> list_all (\<lambda>t. best_at ex_scan_env ex_scan_ops (whole ex_scan_env ex_par 0 (ex_back gp)) 0 t 0 (nd_g new' ! t)) [0, 1]"
proof -
  have p: "ccd_flag ex_scan_env" "\<not> precise ex_scan_env" "\<not> multipath ex_scan_env" "peseqlen ex_scan_env = 2"
    "nd_estimated_next_t ex_node = 0" "\<And>gp. nd_estimated_next_t (ex_next gp) = 0" "\<And>gp. nd_lscore (ex_next gp) = 0"
    "nd_lscore ex_node = 0" "\<And>gp. nd_g_prev (ex_next gp) = Some gp" "nd_g_prev ex_node = Some [0, 0]"
    "stores_inside ex_scan_env ex_par" "\<And>gp. nd_last_ph (ex_next gp) = Some (p_ph0 ex_par)"
    by (simp_all add: precise_def ex_next_def ex_scan_defs stores_inside_def)
  from scan_word_returns [OF ex_fits disjI1 [OF p(2)]] obtain now' K l
    where r: "scan_word ex_scan_env ex_scan_ops ex_node ex_area = Some (now', K, l)" by blast
  from scan_word_keeps(6) [OF ex_fits r p(1,11,10)]
  obtain gp where "nd_g_prev now' = Some gp" "length gp = length [0, 0 :: real]" by blast
  then have gp: "nd_g_prev now' = Some gp" "length gp = 2" by simp_all
  from scan_word_returns [OF ex_back_fits [OF gp(2)] disjI1 [OF p(2)]] obtain new' K' l'
    where r': "scan_word ex_scan_env ex_scan_ops (ex_next gp) ex_area = Some (new', K', l')" by blast
  have "nd_last_ph (ex_next gp) = nd_last_ph now'" "nd_g_prev (ex_next gp) = nd_g_prev now'"
    using scan_word_last [OF ex_fits r p(1)] by (simp_all add: p(9,12) gp(1))
  from backscan_exact [OF p(1,3) ex_hmm_law ex_fits ex_lose r this ex_back_fits [OF gp(2)] ex_back_lose r' ex_same_outprob]
  obtain stop :: nat where stop: "0 < stop \<longrightarrow> int stop < max 0 0"
    "\<forall>t. stop \<le> t \<and> t < 2 \<longrightarrow> best_at ex_scan_env ex_scan_ops (whole ex_scan_env ex_par 0 (ex_back gp)) 0 t 0 (nd_g new' ! t)"
    unfolding p(4-8) by (elim exE conjE)
  from stop(1) have "stop = 0" by simp
  with stop(2) have "best_at ex_scan_env ex_scan_ops (whole ex_scan_env ex_par 0 (ex_back gp)) 0 t 0 (nd_g new' ! t)"
    if "t < 2" for t using that by blast
  then have "list_all (\<lambda>t. best_at ex_scan_env ex_scan_ops (whole ex_scan_env ex_par 0 (ex_back gp)) 0 t 0 (nd_g new' ! t)) [0, 1]"
    by simp
  with r r' gp(1) show ?thesis by (intro exI conjI)
qed

section \<open>The final score of the multipath mode\<close>

lemma final_scores_snoc:
  "final_scores lz row (cs @ [c]) =
     (fold (\<lambda>c m. if True \<and> m < row ! ac_arc c + ac_a c then row ! ac_arc c + ac_a c else m) (cs @ [c]) lz,
      row ! ac_arc c + ac_a c)"
proof -
  have "fst (fold (\<lambda>c (m, s). let s = row ! ac_arc c + ac_a c in (if m < s then s else m, s)) cs p)
      = fold (\<lambda>c m. if True \<and> m < row ! ac_arc c + ac_a c then row ! ac_arc c + ac_a c else m) cs (fst p)" for cs p
    by (induction cs arbitrary: p) (simp_all add: Let_def split_beta)
  from this [of "cs @ [c]" "(lz, lz)"] show ?thesis
    by (simp add: final_scores_def Let_def split_beta prod_eq_iff)
qed

lemma finish_scan_final_g:
  "multipath R \<Longrightarrow> nd_final_g (finish_scan R X P startt w now) =
     (if w_endt w = 0 then snd (final_scores (log_zero X) (w_row w) (st_ac (hd (p_hmm P)))) else log_zero X)"
  by (simp add: finish_scan_def Let_def)

text \<open>the final score of a scan in multipath mode is the score over the last arc of the first state, not
  the best one: when an earlier arc has a higher score, the score that is kept is smaller than the
  maximum the loop has computed.\<close>

theorem final_g_last_arc:
  assumes "multipath R" "w_endt w = 0" "st_ac (hd (p_hmm P)) = cs @ [c]"
  shows "nd_final_g (finish_scan R X P startt w now) = w_row w ! ac_arc c + ac_a c
    \<and> (\<forall>c' \<in> set cs. w_row w ! ac_arc c + ac_a c < w_row w ! ac_arc c' + ac_a c' \<longrightarrow>
         nd_final_g (finish_scan R X P startt w now) < fst (final_scores (log_zero X) (w_row w) (st_ac (hd (p_hmm P)))))"
proof (intro conjI ballI impI)
  show g: "nd_final_g (finish_scan R X P startt w now) = w_row w ! ac_arc c + ac_a c"
    by (simp add: finish_scan_final_g assms final_scores_snoc)
  fix c' assume c': "c' \<in> set cs" "w_row w ! ac_arc c + ac_a c < w_row w ! ac_arc c' + ac_a c'"
  have "top (log_zero X) (\<lambda>c. w_row w ! ac_arc c + ac_a c) (set (cs @ [c]) \<inter> {c. True})
      (fst (final_scores (log_zero X) (w_row w) (st_ac (hd (p_hmm P)))))"
    unfolding assms(3) final_scores_snoc fst_conv by (rule fold_top)
  from topD(2) [OF this, of c'] c' show
    "nd_final_g (finish_scan R X P startt w now) < fst (final_scores (log_zero X) (w_row w) (st_ac (hd (p_hmm P))))"
    by (simp add: g)
qed

theorem final_g_last_arc_witness:
  "\<exists>R P w. multipath R \<and> w_endt w = 0
     \<and> nd_final_g (finish_scan R ex_scan_ops P 0 w ex_node) = -4
     \<and> nd_final_g (finish_scan R ex_scan_ops P 0 w ex_node) < fst (final_scores (-1000) (w_row w) (st_ac (hd (p_hmm P))))"
proof -
  let ?R = "ex_scan_env\<lparr>multipath := True\<rparr>"
  let ?P = "ex_par\<lparr>p_hmm := [\<lparr>st_ac = [\<lparr>ac_a = -1, ac_arc = 1\<rparr>] @ [\<lparr>ac_a = -3, ac_arc = 1\<rparr>], st_out_null = True\<rparr>]\<rparr>"
  let ?w = "(start_state ex_node ex_area)\<lparr>w_row := [-1, -1]\<rparr>"
  have h: "multipath ?R" "w_endt ?w = 0"
    "st_ac (hd (p_hmm ?P)) = [\<lparr>ac_a = -1, ac_arc = 1\<rparr>] @ [\<lparr>ac_a = -3, ac_arc = 1\<rparr>]"
    by (simp_all add: start_state_def)
  from final_g_last_arc [OF h, of ex_scan_ops 0 ex_node]
  have "nd_final_g (finish_scan ?R ex_scan_ops ?P 0 ?w ex_node) = -4"
    "nd_final_g (finish_scan ?R ex_scan_ops ?P 0 ?w ex_node) < fst (final_scores (log_zero ex_scan_ops) (w_row ?w) (st_ac (hd (p_hmm ?P))))"
    by simp_all
  moreover have "log_zero ex_scan_ops = -1000" by (simp add: ex_scan_ops_def)
  ultimately show ?thesis using h(1,2) by metis
qed

text \<open>when no frame of a hypothesis is worth scanning, the multipath mode still gives it a final score, from
  the trellis row that the scan before left in the work area: the forward scores are all \<open>LOG_ZERO\<close>, the
  final score is that of another hypothesis.\<close>

theorem final_g_stale:
  assumes "scan_fits R X now K P" "multipath R" "st_ac (hd (p_hmm P)) = cs @ [c]"
    and "find (\<lambda>t. above R (log_zero X) t (p_g P ! t)) (rev [0..<peseqlen R]) = None" "length (nd_g now) = peseqlen R"
  shows "\<exists>now' l. scan_word R X now K = Some (now', K, l) \<and> nd_g now' = replicate (peseqlen R) (log_zero X)
    \<and> nd_final_g now' = wordtrellis0 K ! ac_arc c + ac_a c"
proof -
  from assms(1) obtain now1 l1 where run: "scan_word R X now K = map_option (\<lambda>(w, startt). (finish_scan R X P startt w now1, work_of w, l1))
      (scan_frames R X P (nd_lscore now) (nd_estimated_next_t now) (start_state now1 K))"
    and st: "start_state now1 K = start_state now K"
    by (rule scan_word_runs)
  let ?w = "fold (clear_frame R (log_zero X)) [0..<peseqlen R] (start_state now K)"
  have run: "scan_word R X now K = Some (finish_scan R X P 0 ?w now1, work_of ?w, l1)"
    unfolding run st by (simp add: scan_frames_def assms(4))
  have w: "w_row ?w = wordtrellis0 K" "w_endt ?w = 0" by (simp_all add: fold_clear start_state_def)
  have "work_of ?w = K" by (simp add: work_of_def fold_clear start_state_def)
  moreover have "nd_g (finish_scan R X P 0 ?w now1) = replicate (peseqlen R) (log_zero X)"
    unfolding finish_scan_g(1) by (rule nth_equalityI) (simp_all add: fold_clear start_state_def assms(5) nth_fold_update)
  moreover have "nd_final_g (finish_scan R X P 0 ?w now1) = wordtrellis0 K ! ac_arc c + ac_a c"
    unfolding finish_scan_final_g [OF assms(2)] w assms(3) final_scores_snoc by simp
  ultimately show ?thesis using run by (intro exI conjI) simp_all
qed

definition ex_multi :: search_env where
  "ex_multi = ex_scan_env\<lparr>multipath := True, ccd_flag := False\<rparr>"

definition ex_lost :: NODE where
  "ex_lost = ex_node\<lparr>nd_g := [-1000, -1000]\<rparr>"

theorem final_g_stale_witness:
  "\<exists>now' l. scan_word ex_multi ex_scan_ops ex_lost ex_area = Some (now', ex_area, l) \<and> nd_g now' = [-1000, -1000]
     \<and> nd_final_g now' = -2"
proof -
  let ?P = "ex_par\<lparr>p_g := [-1000, -1000], p_store := -1, p_cross := 0,
    p_maxarc := max_out_arc ex_scan_ops \<lparr>ph_name = ''a'', ph_addr = 1\<rparr>\<rparr>"
  have p: "prepare_scan ex_multi ex_scan_ops ex_lost = Some ?P"
    by (simp add: prepare_scan_def prepare_plain_def use_sp_def store_of_def ex_multi_def ex_lost_def ex_scan_defs upt_rec Let_def)
  have fits: "scan_fits ex_multi ex_scan_ops ex_lost ex_area ?P"
    unfolding scan_fits_def p by (simp add: scan_in_range_def area_holds_def precise_def ex_multi_def ex_lost_def ex_scan_defs)
  have h: "multipath ex_multi" "st_ac (hd (p_hmm ?P)) = [\<lparr>ac_a = -1, ac_arc = 1\<rparr>] @ [\<lparr>ac_a = -2, ac_arc = 0\<rparr>]"
    "find (\<lambda>t. above ex_multi (log_zero ex_scan_ops) t (p_g ?P ! t)) (rev [0..<peseqlen ex_multi]) = None"
    "length (nd_g ex_lost) = peseqlen ex_multi"
    by (simp_all add: ex_multi_def ex_lost_def ex_scan_defs above_def find_None_iff nth_Cons')
  from final_g_stale [OF fits h] obtain now' l where r: "scan_word ex_multi ex_scan_ops ex_lost ex_area = Some (now', ex_area, l)"
    "nd_g now' = replicate (peseqlen ex_multi) (log_zero ex_scan_ops)" "nd_final_g now' = wordtrellis0 ex_area ! 0 + -2"
    by (elim exE conjE) simp
  moreover have "peseqlen ex_multi = Suc (Suc 0)" "log_zero ex_scan_ops = -1000" "wordtrellis0 ex_area ! 0 = 0"
    by (simp_all add: ex_multi_def ex_scan_defs)
  ultimately show ?thesis by (intro exI conjI) simp_all
qed

section \<open>The moved word boundaries\<close>

text \<open>The last entry is overwritten before it can move.\<close>

lemma shift_prefix:
  "n < length xs \<Longrightarrow> fold (\<lambda>t a. a[t := a ! (t + 1)]) [0..<n] xs = drop 1 (take (n + 1) xs) @ drop n xs"
proof (induction n)
  case (Suc n)
  then have "fold (\<lambda>t a. a[t := a ! (t + 1)]) [0..<Suc n] xs = (drop 1 (take (n + 1) xs) @ drop n xs)[n := xs ! Suc n]"
    by (simp add: nth_append min_def)
  also have "\<dots> = drop 1 (take (n + 1) xs) @ (drop n xs)[0 := xs ! Suc n]"
    using Suc.prems by (simp add: list_update_append min_def)
  also have "(drop n xs)[0 := xs ! Suc n] = xs ! Suc n # drop (Suc n) xs"
    using Suc.prems by (simp add: Cons_nth_drop_Suc [symmetric])
  also have "drop 1 (take (n + 1) xs) @ xs ! Suc n # drop (Suc n) xs = drop 1 (take (Suc n + 1) xs) @ drop (Suc n) xs"
    using Suc.prems by (cases xs) (simp_all add: take_Suc_conv_app_nth)
  finally show ?case .
qed simp

lemma shift_boundaries_loses:
  assumes "2 \<le> len" "length xs = len"
  shows "shift_boundaries len xs = drop 1 (take (len - 1) xs) @ [xs ! 0, xs ! 0]"
proof -
  obtain n where n: "len = Suc (Suc n)" using assms(1) by (metis add_2_eq_Suc le_Suc_ex)
  let ?ys = "xs[Suc n := xs ! 0]"
  have "shift_boundaries len xs = drop 1 (take (Suc n + 1) ?ys) @ drop (Suc n) ?ys"
    unfolding shift_boundaries_def n using shift_prefix [of "Suc n" ?ys] assms(2) n by simp
  also have "take (Suc n + 1) ?ys = take (Suc n) xs @ [xs ! 0]"
    using assms(2) n by (simp add: upd_conv_take_nth_drop)
  also have "drop (Suc n) ?ys = [xs ! 0]"
    using assms(2) n by (simp add: upd_conv_take_nth_drop)
  also have "drop 1 (take (Suc n) xs @ [xs ! 0]) = drop 1 (take (Suc n) xs) @ [xs ! 0]"
    using assms(2) n by simp
  finally show ?thesis by (simp add: n)
qed

section \<open>The work area\<close>

definition work_sized :: "search_env \<Rightarrow> work_area \<Rightarrow> bool" where
  "work_sized R K \<longleftrightarrow>
     length (wordtrellis0 K) = maxwn R + 10 \<and> length (wordtrellis1 K) = maxwn R + 10
     \<and> (precise R \<longrightarrow> length (wend_token0 K) = maxwn R + 10 \<and> length (wend_token1 K) = maxwn R + 10)"

definition rows :: "search_env \<Rightarrow> nat \<Rightarrow> wstate \<Rightarrow> bool" where
  "rows R n w \<longleftrightarrow> length (w_row w) = n \<and> length (w_old w) = n
     \<and> (precise R \<longrightarrow> length (w_tok w) = n \<and> length (w_oldtok w) = n)"

lemma scan_nodes_length:
  "length (n_row (fold (scan_node R X P lscore startt t prev prevtok) is n)) = length is + length (n_row n)"
  "precise R \<Longrightarrow> length (n_tok (fold (scan_node R X P lscore startt t prev prevtok) is n)) = length is + length (n_tok n)"
  by (induction "is" arbitrary: n) (simp_all add: scan_node_def Let_def)

lemma enter_frame_length:
  assumes "enter_frame R X P t w = Some n" "rows R k w" "p_hmm P \<noteq> []" "length (p_hmm P) \<le> k"
  shows "last_state P + length (n_row n) = k" "precise R \<Longrightarrow> last_state P + length (n_tok n) = k"
  using assms by (auto simp: enter_frame_def rows_def Let_def neq_Nil_conv split: if_splits)

lemma scan_frame_rows:
  assumes "scan_frame R X P lscore startt t w = Some (w', ex)" "rows R k w" "p_hmm P \<noteq> []" "length (p_hmm P) \<le> k"
  shows "rows R k w'"
proof -
  from assms(1) obtain n0 where n0: "enter_frame R X P t w = Some n0"
    "w' = leave_frame R X P t w (fold (scan_node R X P lscore startt t (w_row w) (w_tok w)) (rev [0..<last_state P]) n0)"
    by (auto simp: scan_frame_def Let_def)
  show ?thesis
    using enter_frame_length [OF n0(1) assms(2-4)] assms(2)
    by (simp add: n0(2) leave_frame_def rows_def Let_def scan_nodes_length)
qed

lemma fold_clear_rows: "rows R k w \<Longrightarrow> rows R k (fold (clear_frame R lz) ts w)"
  by (simp add: rows_def fold_clear)

lemma scan_loop_rows:
  "scan_loop R X P lscore est startt ts w = Some w' \<Longrightarrow> rows R k w \<Longrightarrow> p_hmm P \<noteq> [] \<Longrightarrow> length (p_hmm P) \<le> k \<Longrightarrow> rows R k w'"
proof (induction ts arbitrary: w)
  case (Cons t ts)
  from Cons.prems(1) obtain w1 ex where f: "scan_frame R X P lscore startt t w = Some (w1, ex)"
    and rest: "w' = fold (clear_frame R (log_zero X)) ts w1 \<or> scan_loop R X P lscore est startt ts w1 = Some w'"
    by (auto split: option.splits if_splits)
  from scan_frame_rows [OF f Cons.prems(2-4)] rest Cons.IH Cons.prems(3,4) fold_clear_rows show ?case by blast
qed simp

lemma scan_init_rows:
  assumes "rows R k w" "p_hmm P \<noteq> []" "length (p_hmm P) \<le> k"
  shows "rows R k (scan_init R X P startt w)"
  using assms by (auto simp: rows_def scan_init_def fold_clear Let_def neq_Nil_conv)

lemma scan_frames_rows:
  assumes "scan_frames R X P lscore est w = Some (w', startt)" "rows R k w" "p_hmm P \<noteq> []" "length (p_hmm P) \<le> k"
  shows "rows R k w'"
proof (cases "find (\<lambda>t. above R (log_zero X) t (p_g P ! t)) (rev [0..<peseqlen R])")
  case (Some u)
  with assms(1) have loop: "scan_loop R X P lscore est startt (rev [0..<if multipath R then startt + 1 else startt])
      (scan_init R X P startt w) = Some w'"
    by (auto simp: scan_frames_def split: if_splits)
  from scan_loop_rows [OF loop scan_init_rows [OF assms(2-4)] assms(3,4)] show ?thesis .
qed (use assms in \<open>auto simp: scan_frames_def fold_clear_rows\<close>)

lemma sized_to_length: "length (sized_to n d xs) = n"
  by (simp add: sized_to_def min_def)

lemma malloc_sized: "work_sized R (malloc_wordtrellis R junk)"
  by (simp add: work_sized_def malloc_wordtrellis_def sized_to_length Let_def)

lemma scan_word_sized:
  assumes "scan_word R X now K = Some (now', K', l)" "work_sized R K"
  shows "work_sized R K'"
proof -
  from assms(1) obtain P where fits: "scan_fits R X now K P" by (rule scan_word_fits)
  then obtain now1 l1 where run: "scan_word R X now K = map_option (\<lambda>(w, startt). (finish_scan R X P startt w now1, work_of w, l1))
      (scan_frames R X P (nd_lscore now) (nd_estimated_next_t now) (start_state now1 K))"
    by (rule scan_word_runs)
  from assms(1) obtain w startt where w: "K' = work_of w"
    "scan_frames R X P (nd_lscore now) (nd_estimated_next_t now) (start_state now1 K) = Some (w, startt)"
    unfolding run by auto
  have P: "p_hmm P \<noteq> []" "length (p_hmm P) \<le> maxwn R + 10"
    using fits by (simp_all add: scan_fits_def scan_in_range_def)
  have "rows R (maxwn R + 10) (start_state now1 K)" using assms(2) by (simp add: work_sized_def rows_def start_state_def)
  from scan_frames_rows [OF w(2) this P] show ?thesis
    by (simp add: w(1) work_sized_def rows_def work_of_def)
qed

text \<open>The scans of a recognition, one after the other, on one work area.\<close>

fun scan_all :: "search_env \<Rightarrow> scan_ops \<Rightarrow> NODE list \<Rightarrow> work_area \<Rightarrow> work_area option" where
  "scan_all R X [] K = Some K"
| "scan_all R X (now # nows) K = Option.bind (scan_word R X now K) (\<lambda>(_, K', _). scan_all R X nows K')"

lemma scan_all_sized: "scan_all R X nows K = Some K' \<Longrightarrow> work_sized R K \<Longrightarrow> work_sized R K'"
proof (induction nows arbitrary: K)
  case (Cons now nows)
  from Cons.prems(1) obtain now1 K1 l1 where "scan_word R X now K = Some (now1, K1, l1)" "scan_all R X nows K1 = Some K'"
    by (auto simp: bind_eq_Some_conv)
  with Cons.IH Cons.prems(2) scan_word_sized show ?case by blast
qed simp

text \<open>C31: no scan of a recognition leaves the work area.  It is allocated once with \<open>maxwn + 10\<close> entries in
  every row; after any sequence of scans of any hypotheses, a further scan has room for all states of its HMM
  in both halves of the rows (of the word-end tokens too where they are used), or is ended by the length test of
  \<open>scan_word\<close> before it touches them.\<close>

theorem work_area_safe:
  "scan_all R X nows (malloc_wordtrellis R junk) = Some K \<Longrightarrow> scan_check R X now K \<noteq> Outside_work_area"
  using scan_all_sized [OF _ malloc_sized, of R X nows junk K]
  by (auto simp: scan_check_def area_holds_def work_sized_def Let_def split: option.splits)

theorem work_area_safe_witness:
  "\<exists>K. scan_all ex_scan_env ex_scan_ops [ex_node] (malloc_wordtrellis ex_scan_env ex_area) = Some K
     \<and> scan_check ex_scan_env ex_scan_ops ex_node K \<noteq> Outside_work_area"
proof -
  let ?K = "malloc_wordtrellis ex_scan_env ex_area"
  have "\<not> precise ex_scan_env" by (simp add: precise_def ex_scan_defs)
  have "scan_fits ex_scan_env ex_scan_ops ex_node ?K ex_par"
    using ex_fits by (simp add: scan_fits_def scan_in_range_def area_holds_def malloc_wordtrellis_def sized_to_length precise_def ex_scan_defs)
  from scan_word_returns [OF this] \<open>\<not> precise ex_scan_env\<close> obtain now' K' l
    where r: "scan_word ex_scan_env ex_scan_ops ex_node ?K = Some (now', K', l)" by blast
  then have "scan_all ex_scan_env ex_scan_ops [ex_node] ?K = Some K'" by simp
  with work_area_safe [OF this] show ?thesis by blast
qed

end
