(* ===== verification/Next_Word.thy ===== *)
theory Next_Word
  imports Back_Scan
begin

text \<open>
  The expansion of a hypothesis (\<open>search_bestfirst_v1.c\<close>: \<open>next_word\<close>, \<open>start_word\<close> and
  \<open>last_next_word\<close>).  A word is connected at the frame where the forward score of the hypothesis and the
  backward score of the word in the trellis of the first pass are best together.  The lookup
  \<open>bt_binsearch_atom\<close> of libjulius is the parameter \<open>bt\<close>: the atom of a word that ends at a frame, if there
  is one.  Messages about missing triphones are left out.
\<close>

section \<open>A new word\<close>

record NEXTWORD =
  nw_id :: WORD_ID
  nw_next_state :: int
  nw_lscore :: real
  nw_tre :: "TRELLIS_ATOM option"

type_synonym trellis = "nat \<Rightarrow> WORD_ID \<Rightarrow> TRELLIS_ATOM option"

text \<open>The words of the hypothesis and the new one, with the confidence scores of the old ones.\<close>

definition inherit_words :: "search_env \<Rightarrow> real \<Rightarrow> NODE \<Rightarrow> NODE \<Rightarrow> NEXTWORD \<Rightarrow> NODE option" where
  "inherit_words R lz now new nword =
     (let k = nd_seqnum now
      in if k = 0 then None
         else
           Option.bind (memcpy_list k (nd_seq new) (nd_seq now)) (\<lambda>seq'.
           Option.bind (memcpy_list k (nd_cmscore new) (nd_cmscore now)) (\<lambda>cm'.
             if length seq' \<le> k then None
             else Some (new\<lparr>nd_score := lz, nd_seq := seq'[k := nw_id nword], nd_cmscore := cm', nd_seqnum := k + 1,
                            nd_state := nw_next_state nword, nd_totallscore := nd_totallscore now + nw_lscore nword,
                            nd_final_g := (if multipath R then nd_final_g now else nd_final_g new)\<rparr>))))"

text \<open>The last phone of the new word, with context dependency in front of the head phone of the hypothesis.\<close>

definition connect_phone :: "search_env \<Rightarrow> scan_ops \<Rightarrow> NODE \<Rightarrow> WORD_ID \<Rightarrow> HMM_Logical option" where
  "connect_phone R X now word =
     (if word \<ge> length (wseq (words_info R)) \<or> wseq (words_info R) ! word = [] then None
      else
        let wend = last (wseq (words_info R) ! word)
        in if \<not> ccd_flag R then Some wend
           else
             map_option (\<lambda>last_ph. case get_right_context_HMM X wend (ph_name last_ph) of None \<Rightarrow> wend | Some q \<Rightarrow> q)
               (nd_last_ph now))"

definition inherit_context :: "search_env \<Rightarrow> NODE \<Rightarrow> NODE \<Rightarrow> NODE option" where
  "inherit_context R now new =
     (if \<not> ccd_flag R then Some new
      else
        Option.bind (nd_g_prev new) (\<lambda>gd.
        Option.bind (nd_g_prev now) (\<lambda>gs.
          map_option (\<lambda>g'. new\<lparr>nd_last_ph := nd_last_ph now,
              nd_last_ph_sp_attached := (if multipath R then nd_last_ph_sp_attached now else nd_last_ph_sp_attached new),
              nd_g_prev := Some g'\<rparr>)
            (memcpy_list (peseqlen R) gd gs))))"

text \<open>The transition out of the connection phone.\<close>

definition out_trans :: "scan_ops \<Rightarrow> HMM_Logical \<Rightarrow> real" where
  "out_trans X p = hmm_logical_trans X p ! (hmm_logical_state_num X p - 2) ! (hmm_logical_state_num X p - 1)"

text \<open>The number of frames at which the word may end.\<close>

definition end_frames :: "search_env \<Rightarrow> nat" where
  "end_frames R = (if multipath R then peseqlen R else peseqlen R - 1)"

definition connect_scores :: "search_env \<Rightarrow> scan_ops \<Rightarrow> HMM_Logical \<Rightarrow> NEXTWORD \<Rightarrow> NODE \<Rightarrow> NODE \<Rightarrow> NODE option" where
  "connect_scores R X newphone nword now new =
     (let n = peseqlen R
      in if n = 0 \<or> length (nd_g now) < n \<or> length (nd_g new) < n
            \<or> (\<not> multipath R \<and> hmm_logical_state_num X newphone < 2) then None
         else Some (new\<lparr>nd_g :=
           (if multipath R then map (\<lambda>t. nd_g now ! t + nw_lscore nword) [0..<n]
            else map (\<lambda>t. nd_g now ! (t + 1) + out_trans X newphone + nw_lscore nword) [0..<n - 1] @ [log_zero X])
           @ drop n (nd_g new)\<rparr>))"

section \<open>The best connection\<close>

definition tail_outprob :: "scan_ops \<Rightarrow> HMM_Logical \<Rightarrow> nat \<Rightarrow> real" where
  "tail_outprob X p t = (if is_pseudo X p then tail_outprob_cd X p t else tail_outprob_state X p t)"

definition totalscore :: "search_env \<Rightarrow> scan_ops \<Rightarrow> HMM_Logical \<Rightarrow> real list \<Rightarrow> nat \<Rightarrow> TRELLIS_ATOM \<Rightarrow> real" where
  "totalscore R X newphone gs t tre = gs ! t + backscore tre + (if multipath R then 0 else tail_outprob X newphone t)"

definition try_connect :: "search_env \<Rightarrow> scan_ops \<Rightarrow> HMM_Logical \<Rightarrow> nat \<Rightarrow> TRELLIS_ATOM \<Rightarrow> NODE \<Rightarrow> NODE" where
  "try_connect R X newphone t tre new =
     (let s = totalscore R X newphone (nd_g new) t tre
      in if nd_score new < s
         then new\<lparr>nd_score := s, nd_bestt := int t, nd_estimated_next_t := begintime tre - 1, nd_tre := Some tre\<rparr>
         else new)"

text \<open>Over all frames that have the word, or until the word disappears.\<close>

fun connect_all :: "search_env \<Rightarrow> scan_ops \<Rightarrow> trellis \<Rightarrow> HMM_Logical \<Rightarrow> WORD_ID \<Rightarrow> nat list \<Rightarrow> NODE \<Rightarrow> NODE" where
  "connect_all R X bt newphone word [] new = new"
| "connect_all R X bt newphone word (t # ts) new =
     connect_all R X bt newphone word ts
       (case bt t word of None \<Rightarrow> new | Some tre \<Rightarrow> try_connect R X newphone t tre new)"

fun connect_run :: "search_env \<Rightarrow> scan_ops \<Rightarrow> trellis \<Rightarrow> HMM_Logical \<Rightarrow> WORD_ID \<Rightarrow> nat list \<Rightarrow> NODE \<Rightarrow> NODE" where
  "connect_run R X bt newphone word [] new = new"
| "connect_run R X bt newphone word (t # ts) new =
     (case bt t word of
        None \<Rightarrow> new
      | Some tre \<Rightarrow> connect_run R X bt newphone word ts (try_connect R X newphone t tre new))"

definition find_connection ::
  "search_env \<Rightarrow> scan_ops \<Rightarrow> trellis \<Rightarrow> HMM_Logical \<Rightarrow> NEXTWORD \<Rightarrow> NODE \<Rightarrow> NODE option" where
  "find_connection R X bt newphone nword new =
     (if lmtype R = LM_DFA \<and> \<not> looktrellis_flag R
      then Some (connect_all R X bt newphone (nw_id nword) (rev [0..<end_frames R]) new)
      else
        Option.bind (nw_tre nword) (\<lambda>tre.
          if endtime tre < -1 \<or> int (peseqlen R) \<le> endtime tre then None
          else
            let e = nat (endtime tre + 1)
            in Some (connect_run R X bt newphone (nw_id nword) [e..<end_frames R]
                 (connect_run R X bt newphone (nw_id nword) (rev [0..<e]) new))))"

definition next_word ::
  "search_env \<Rightarrow> scan_ops \<Rightarrow> trellis \<Rightarrow> NODE \<Rightarrow> NODE \<Rightarrow> NEXTWORD \<Rightarrow> NODE option" where
  "next_word R X bt now new nword =
     Option.bind (inherit_words R (log_zero X) now new nword) (\<lambda>n1.
     Option.bind (connect_phone R X now (nw_id nword)) (\<lambda>newphone.
     Option.bind (inherit_context R now n1) (\<lambda>n2.
       let n3 = n2\<lparr>nd_lscore := (case lmtype R of LM_PROB \<Rightarrow> nw_lscore nword | LM_DFA \<Rightarrow> 0 | _ \<Rightarrow> nd_lscore n2)\<rparr>
       in Option.bind (connect_scores R X newphone nword now n3) (\<lambda>n4.
            find_connection R X bt newphone nword (n4\<lparr>nd_tre := None\<rparr>)))))"

section \<open>The first and the last word\<close>

definition start_word :: "search_env \<Rightarrow> scan_ops \<Rightarrow> trellis \<Rightarrow> NODE \<Rightarrow> NEXTWORD \<Rightarrow> NODE option" where
  "start_word R X bt new nword =
     (let word = nw_id nword; len = peseqlen R
      in if nd_seq new = [] \<or> len = 0 \<or> length (nd_g new) < len
            \<or> word \<ge> length (wseq (words_info R)) \<or> wseq (words_info R) ! word = [] then None
         else
           let newphone = last (wseq (words_info R) ! word);
               n1 = new\<lparr>nd_score := log_zero X, nd_seqnum := 1, nd_seq := (nd_seq new)[0 := word],
                        nd_state := nw_next_state nword, nd_totallscore := nw_lscore nword\<rparr>;
               n2 = (if ccd_flag R then n1\<lparr>nd_last_ph := None, nd_last_ph_sp_attached := False\<rparr> else n1);
               n3 = n2\<lparr>nd_lscore := nw_lscore nword,
                       nd_g := (case lmtype R of LM_PROB \<Rightarrow> (nd_g n2)[len - 1 := nw_lscore nword]
                                | LM_DFA \<Rightarrow> (nd_g n2)[len - 1 := 0] | _ \<Rightarrow> nd_g n2)\<rparr>
           in case find (\<lambda>t. bt t word \<noteq> None) (rev [0..<len]) of
                None \<Rightarrow> Some (n3\<lparr>nd_score := log_zero X\<rparr>)
              | Some t \<Rightarrow>
                  map_option (\<lambda>tre.
                    n3\<lparr>nd_bestt := (if graphout R then int len - 1 else int t),
                       nd_score := nd_g n3 ! (len - 1) + backscore tre
                         + (if multipath R then 0 else tail_outprob X newphone (len - 1)),
                       nd_estimated_next_t := begintime tre - 1, nd_tre := Some tre\<rparr>) (bt t word))"

definition last_next_word :: "search_env \<Rightarrow> NODE \<Rightarrow> NODE \<Rightarrow> NODE option" where
  "last_next_word R now new =
     Option.bind (cpy_node R new now) (\<lambda>n.
       if multipath R then Some (n\<lparr>nd_score := nd_final_g now\<rparr>)
       else if nd_g now = [] then None
       else Some (n\<lparr>nd_score := nd_g now ! 0\<rparr>))"

section \<open>The connection is the best one\<close>

text \<open>The frames that are searched, in their order.\<close>

definition searched :: "search_env \<Rightarrow> trellis \<Rightarrow> NEXTWORD \<Rightarrow> nat list" where
  "searched R bt nword =
     (let there = (\<lambda>t. bt t (nw_id nword) \<noteq> None)
      in if lmtype R = LM_DFA \<and> \<not> looktrellis_flag R then filter there (rev [0..<end_frames R])
         else case nw_tre nword of
             None \<Rightarrow> []
           | Some tre \<Rightarrow>
               let e = nat (endtime tre + 1) in takeWhile there (rev [0..<e]) @ takeWhile there [e..<end_frames R])"

lemma connect_all_append:
  "connect_all R X bt p w (ts @ us) new = connect_all R X bt p w us (connect_all R X bt p w ts new)"
  by (induction ts arbitrary: new) simp_all

lemma connect_all_filter: "connect_all R X bt p w (filter (\<lambda>t. bt t w \<noteq> None) ts) new = connect_all R X bt p w ts new"
  by (induction ts arbitrary: new) (simp_all split: option.split)

lemma connect_run_all: "connect_run R X bt p w ts new = connect_all R X bt p w (takeWhile (\<lambda>t. bt t w \<noteq> None) ts) new"
  by (induction ts arbitrary: new) (simp_all split: option.split)

lemma find_connection_all:
  "find_connection R X bt p nword new = Some new' \<Longrightarrow>
     new' = connect_all R X bt p (nw_id nword) (searched R bt nword) new"
  by (auto simp: find_connection_def searched_def Let_def connect_all_filter connect_run_all connect_all_append
      bind_eq_Some_conv simp del: not_None_eq split: if_splits)

text \<open>The node with the best connection: no other one has a higher score.\<close>

definition connected ::
  "search_env \<Rightarrow> scan_ops \<Rightarrow> trellis \<Rightarrow> HMM_Logical \<Rightarrow> WORD_ID \<Rightarrow> nat list \<Rightarrow> NODE \<Rightarrow> NODE \<Rightarrow> bool" where
  "connected R X bt p w ts new new' \<longleftrightarrow>
     (\<forall>t \<in> set ts. \<forall>tre. bt t w = Some tre \<longrightarrow> totalscore R X p (nd_g new) t tre \<le> nd_score new')
     \<and> nd_score new \<le> nd_score new'
     \<and> (new' = new
        \<or> (\<exists>t \<in> set ts. \<exists>tre. bt t w = Some tre
             \<and> new' = new\<lparr>nd_score := totalscore R X p (nd_g new) t tre, nd_bestt := int t,
                          nd_estimated_next_t := begintime tre - 1, nd_tre := Some tre\<rparr>))"

lemma connected_g: "connected R X bt p w ts new new' \<Longrightarrow> nd_g new' = nd_g new"
  by (auto simp: connected_def)

lemma connected_snoc:
  assumes "connected R X bt p w ts new n1"
  shows "connected R X bt p w (ts @ [t]) new (case bt t w of None \<Rightarrow> n1 | Some tre \<Rightarrow> try_connect R X p t tre n1)"
proof (cases "bt t w")
  case None
  with assms show ?thesis by (auto simp: connected_def)
next
  case (Some tre)
  let ?s = "totalscore R X p (nd_g new) t tre"
  note g = connected_g [OF assms]
  show ?thesis
  proof (cases "nd_score n1 < ?s")
    case True
    then have n: "try_connect R X p t tre n1 = n1\<lparr>nd_score := ?s, nd_bestt := int t,
        nd_estimated_next_t := begintime tre - 1, nd_tre := Some tre\<rparr>"
      by (simp add: try_connect_def g)
    also have "\<dots> = new\<lparr>nd_score := ?s, nd_bestt := int t, nd_estimated_next_t := begintime tre - 1, nd_tre := Some tre\<rparr>"
      using assms unfolding connected_def by auto
    finally have n: "try_connect R X p t tre n1 = \<dots>" .
    have "totalscore R X p (nd_g new) u a \<le> ?s" if "u \<in> set (ts @ [t])" "bt u w = Some a" for u a
      using assms that True Some unfolding connected_def by fastforce
    moreover have "nd_score new \<le> ?s" using assms True unfolding connected_def by linarith
    ultimately show ?thesis unfolding connected_def Some option.case n using Some by (intro conjI) auto
  next
    case False
    then have n: "try_connect R X p t tre n1 = n1" by (simp add: try_connect_def g)
    show ?thesis
      unfolding Some option.case n using assms False Some unfolding connected_def by (intro conjI) auto
  qed
qed

lemma connect_all_connected: "connected R X bt p w ts new (connect_all R X bt p w ts new)"
proof (induction ts rule: rev_induct)
  case Nil
  show ?case by (simp add: connected_def)
next
  case (snoc t ts)
  from connected_snoc [OF this, of t] show ?case by (simp add: connect_all_append)
qed

section \<open>The new hypothesis\<close>

text \<open>The forward score with which the word begins behind frame \<open>t\<close>.\<close>

definition forward :: "search_env \<Rightarrow> scan_ops \<Rightarrow> HMM_Logical \<Rightarrow> NEXTWORD \<Rightarrow> NODE \<Rightarrow> nat \<Rightarrow> real" where
  "forward R X p nword now t =
     (if multipath R then nd_g now ! t + nw_lscore nword
      else if t < peseqlen R - 1 then nd_g now ! (t + 1) + out_trans X p + nw_lscore nword else log_zero X)"

definition extends :: "search_env \<Rightarrow> scan_ops \<Rightarrow> HMM_Logical \<Rightarrow> NEXTWORD \<Rightarrow> NODE \<Rightarrow> NODE \<Rightarrow> bool" where
  "extends R X p nword now new \<longleftrightarrow>
     nd_seqnum new = nd_seqnum now + 1
     \<and> take (nd_seqnum new) (nd_seq new) = take (nd_seqnum now) (nd_seq now) @ [nw_id nword]
     \<and> nd_totallscore new = nd_totallscore now + nw_lscore nword
     \<and> (\<forall>t < peseqlen R. nd_g new ! t = forward R X p nword now t)
     \<and> (ccd_flag R \<longrightarrow> nd_last_ph new = nd_last_ph now
          \<and> map_option (take (peseqlen R)) (nd_g_prev new) = map_option (take (peseqlen R)) (nd_g_prev now))"

lemma inherit_words_simps:
  assumes "inherit_words R lz now new nword = Some n"
  shows "nd_seqnum n = nd_seqnum now + 1"
    "take (Suc (nd_seqnum now)) (nd_seq n) = take (nd_seqnum now) (nd_seq now) @ [nw_id nword]"
    "nd_totallscore n = nd_totallscore now + nw_lscore nword" "nd_score n = lz"
  using assms
  by (auto simp: inherit_words_def Let_def bind_eq_Some_conv memcpy_list_def take_Suc_conv_app_nth split: if_splits)

lemma inherit_context_simps:
  assumes "inherit_context R now n = Some n'"
  shows "nd_seqnum n' = nd_seqnum n" "nd_seq n' = nd_seq n" "nd_totallscore n' = nd_totallscore n" "nd_score n' = nd_score n"
    "ccd_flag R \<Longrightarrow> nd_last_ph n' = nd_last_ph now"
    "ccd_flag R \<Longrightarrow> map_option (take (peseqlen R)) (nd_g_prev n') = map_option (take (peseqlen R)) (nd_g_prev now)"
  using assms by (auto simp: inherit_context_def bind_eq_Some_conv memcpy_list_def split: if_splits)

lemma connect_scores_simps:
  assumes "connect_scores R X p nword now n = Some n'"
  shows "nd_seqnum n' = nd_seqnum n" "nd_seq n' = nd_seq n" "nd_totallscore n' = nd_totallscore n" "nd_score n' = nd_score n"
    "nd_last_ph n' = nd_last_ph n" "nd_g_prev n' = nd_g_prev n"
    "t < peseqlen R \<Longrightarrow> nd_g n' ! t = forward R X p nword now t"
  using assms by (auto simp: connect_scores_def forward_def Let_def nth_append not_less split: if_splits)

lemma next_word_extends:
  assumes "next_word R X bt now new nword = Some new'"
  obtains p n where "connect_phone R X now (nw_id nword) = Some p" "extends R X p nword now n"
    "nd_score n = log_zero X" "nd_tre n = None"
    "find_connection R X bt p nword n = Some new'"
proof -
  from assms obtain n1 p n2 n4 where n: "inherit_words R (log_zero X) now new nword = Some n1"
    "connect_phone R X now (nw_id nword) = Some p" "inherit_context R now n1 = Some n2"
    "connect_scores R X p nword now
       (n2\<lparr>nd_lscore := (case lmtype R of LM_PROB \<Rightarrow> nw_lscore nword | LM_DFA \<Rightarrow> 0 | _ \<Rightarrow> nd_lscore n2)\<rparr>) = Some n4"
    "find_connection R X bt p nword (n4\<lparr>nd_tre := None\<rparr>) = Some new'"
    by (auto simp only: next_word_def bind_eq_Some_conv Let_def)
  note s = inherit_words_simps [OF n(1)] inherit_context_simps [OF n(3)] connect_scores_simps [OF n(4)]
  show thesis
    by (rule that [OF n(2) _ _ _ n(5)]) (simp_all add: extends_def s)
qed

text \<open>No connection at a searched frame is better, and the one that is kept has the score of the hypothesis.\<close>

definition best_connection :: "search_env \<Rightarrow> scan_ops \<Rightarrow> trellis \<Rightarrow> HMM_Logical \<Rightarrow> NEXTWORD \<Rightarrow> NODE \<Rightarrow> bool" where
  "best_connection R X bt p nword new \<longleftrightarrow>
     (\<forall>t \<in> set (searched R bt nword). \<forall>tre. bt t (nw_id nword) = Some tre \<longrightarrow>
        totalscore R X p (nd_g new) t tre \<le> nd_score new)
     \<and> ((nd_score new = log_zero X \<and> nd_tre new = None)
        \<or> (\<exists>t \<in> set (searched R bt nword). \<exists>tre. bt t (nw_id nword) = Some tre \<and> nd_tre new = Some tre
             \<and> nd_bestt new = int t \<and> nd_estimated_next_t new = begintime tre - 1
             \<and> nd_score new = totalscore R X p (nd_g new) t tre))"

lemma best_connectionE:
  assumes "best_connection R X bt p nword new"
  obtains (none) "nd_score new = log_zero X" "nd_tre new = None"
    | (kept) t tre where "t \<in> set (searched R bt nword)" "bt t (nw_id nword) = Some tre" "nd_tre new = Some tre"
      "nd_bestt new = int t" "nd_score new = totalscore R X p (nd_g new) t tre"
proof -
  from assms have "(nd_score new = log_zero X \<and> nd_tre new = None)
    \<or> (\<exists>t \<in> set (searched R bt nword). \<exists>tre. bt t (nw_id nword) = Some tre \<and> nd_tre new = Some tre
         \<and> nd_bestt new = int t \<and> nd_estimated_next_t new = begintime tre - 1
         \<and> nd_score new = totalscore R X p (nd_g new) t tre)"
    unfolding best_connection_def by (rule conjunct2)
  then show thesis
  proof (elim disjE conjE bexE exE)
    assume "nd_score new = log_zero X" "nd_tre new = None"
    then show thesis by (rule none)
  next
    fix t tre assume "t \<in> set (searched R bt nword)" "bt t (nw_id nword) = Some tre" "nd_tre new = Some tre"
      "nd_bestt new = int t" "nd_score new = totalscore R X p (nd_g new) t tre"
    then show thesis by (rule kept)
  qed
qed

lemma searched_less:
  assumes "find_connection R X bt p nword n = Some n'" "t \<in> set (searched R bt nword)"
  shows "t < peseqlen R"
  using assms
  by (cases "nw_tre nword")
    (auto simp: find_connection_def searched_def end_frames_def Let_def split: if_splits dest!: set_takeWhileD)

lemma next_word_connected:
  assumes "next_word R X bt now new nword = Some new'"
  shows "\<exists>p. connect_phone R X now (nw_id nword) = Some p \<and> extends R X p nword now new'
    \<and> best_connection R X bt p nword new' \<and> (\<forall>t \<in> set (searched R bt nword). t < peseqlen R)"
proof -
  from assms obtain p n where n: "connect_phone R X now (nw_id nword) = Some p" "extends R X p nword now n"
    "nd_score n = log_zero X" "nd_tre n = None" "find_connection R X bt p nword n = Some new'"
    by (rule next_word_extends)
  from find_connection_all [OF n(5)]
  have c: "connected R X bt p (nw_id nword) (searched R bt nword) n new'" by (simp add: connect_all_connected)
  have "extends R X p nword now new'" using n(2) c unfolding connected_def extends_def by auto
  moreover have "best_connection R X bt p nword new'"
    using n(3,4) c unfolding best_connection_def connected_g [OF c] connected_def by auto
  ultimately show ?thesis using n(1) searched_less [OF n(5)] by blast
qed

text \<open>C17: the expansion of a hypothesis.  The new hypothesis has the words of the old one and the new word, the
  language scores add up, and with context dependency it takes over the stored scores and the head phone.
  Its score is the best over the frames that are searched: at no frame is the sum of the forward score, the
  backward score of the word in the trellis and the output probability of its last state higher, and a frame
  with this sum is kept with its trellis word, or no frame exceeds \<open>LOG_ZERO\<close> and there is no trellis word.\<close>

theorem next_word_best:
  assumes "next_word R X bt now new nword = Some new'"
  shows "\<exists>p. connect_phone R X now (nw_id nword) = Some p \<and> extends R X p nword now new'
    \<and> best_connection R X bt p nword new'"
  using next_word_connected [OF assms] by blast

text \<open>Around the estimated frame all frames are found when the frames of the word are a run.\<close>

lemma takeWhile_down:
  assumes "\<And>t. P t \<longleftrightarrow> lo \<le> t \<and> t \<le> hi" "lo < e" "e \<le> Suc hi"
  shows "takeWhile P (rev [0..<e]) = rev [lo..<e]"
proof -
  have "[0..<e] = [0..<lo] @ [lo..<e]" using assms(2) upt_add_eq_append [of 0 lo "e - lo"] by simp
  then have "takeWhile P (rev [0..<e]) = takeWhile P (rev [lo..<e] @ rev [0..<lo])" by simp
  also have "\<dots> = rev [lo..<e] @ takeWhile P (rev [0..<lo])"
    by (rule takeWhile_append2) (use assms in auto)
  also have "takeWhile P (rev [0..<lo]) = []" by (cases lo) (simp_all add: assms(1))
  finally show ?thesis by simp
qed

lemma takeWhile_up:
  assumes "\<And>t. P t \<longleftrightarrow> lo \<le> t \<and> t \<le> hi" "lo \<le> e" "e \<le> Suc hi" "hi < n"
  shows "takeWhile P [e..<n] = [e..<Suc hi]"
proof -
  have "[e..<n] = [e..<Suc hi] @ [Suc hi..<n]" using assms(3,4) upt_add_eq_append [of e "Suc hi" "n - Suc hi"] by simp
  then have "takeWhile P [e..<n] = [e..<Suc hi] @ takeWhile P [Suc hi..<n]"
    by (simp only:) (rule takeWhile_append2, use assms in \<open>auto simp del: upt_Suc\<close>)
  also have "takeWhile P [Suc hi..<n] = []"
    by (cases "Suc hi < n") (simp_all add: upt_conv_Cons assms(1) del: upt_Suc)
  finally show ?thesis by simp
qed

lemma searched_run:
  assumes "\<And>t. bt t (nw_id nword) \<noteq> None \<longleftrightarrow> lo \<le> t \<and> t \<le> hi" "nw_tre nword = Some tre"
    and "int lo \<le> endtime tre" "endtime tre \<le> int hi" "hi < end_frames R"
  shows "set (searched R bt nword) = {lo..hi}"
proof (cases "lmtype R = LM_DFA \<and> \<not> looktrellis_flag R")
  case True
  with assms(1,5) show ?thesis by (auto simp: searched_def simp del: not_None_eq)
next
  case False
  obtain e where e: "endtime tre = int e" using assms(3) by (metis nonneg_int_cases of_nat_0_le_iff order_trans)
  have "searched R bt nword = rev [lo..<Suc e] @ [Suc e..<Suc hi]"
    using False takeWhile_down [of "\<lambda>t. bt t (nw_id nword) \<noteq> None" lo hi "Suc e", OF assms(1)]
      takeWhile_up [of "\<lambda>t. bt t (nw_id nword) \<noteq> None" lo hi "Suc e" "end_frames R", OF assms(1)] assms(2-5) e
    by (auto simp: searched_def Let_def nat_add_distrib simp del: upt_Suc not_None_eq)
  then show ?thesis using assms(3,4) e by (auto simp del: upt_Suc)
qed

text \<open>C24: the search around the estimated end is exact.  When the frames at which the trellis has the new word
  are a run that contains the end of its trellis word, the best frame of all frames is found, in every
  mode of the search.\<close>

theorem next_word_around_exact:
  assumes "next_word R X bt now new nword = Some new'"
    and "\<forall>t. bt t (nw_id nword) \<noteq> None \<longleftrightarrow> lo \<le> t \<and> t \<le> hi" "nw_tre nword = Some tre"
    and "int lo \<le> endtime tre" "endtime tre \<le> int hi" "hi < end_frames R"
  shows "\<exists>p. connect_phone R X now (nw_id nword) = Some p
    \<and> (\<forall>t a. bt t (nw_id nword) = Some a \<longrightarrow> totalscore R X p (nd_g new') t a \<le> nd_score new')"
proof -
  have run: "\<And>t. bt t (nw_id nword) \<noteq> None \<longleftrightarrow> lo \<le> t \<and> t \<le> hi" using assms(2) by blast
  have s: "set (searched R bt nword) = {lo..hi}"
    by (rule searched_run [where bt = bt and nword = nword, OF run assms(3-6)])
  from next_word_connected [OF assms(1)] obtain p where p: "connect_phone R X now (nw_id nword) = Some p"
    "best_connection R X bt p nword new'" by blast
  have "t \<in> set (searched R bt nword)" if "bt t (nw_id nword) = Some a" for t a
    using assms(2) that s by (metis atLeastAtMost_iff option.distinct(1))
  with p show ?thesis unfolding best_connection_def by blast
qed

text \<open>
  The frame at which a path ends that a word in front of it joins at frame \<open>t\<close>, and what the connection adds
  to its score: in the multipath mode the word ends in the same frame, otherwise in the frame before, over
  the transition out of its last phone and with the output probability of its last state.
\<close>

definition joined_frame :: "search_env \<Rightarrow> nat \<Rightarrow> nat" where
  "joined_frame R t = (if multipath R then t else Suc t)"

definition joined_score :: "search_env \<Rightarrow> scan_ops \<Rightarrow> HMM_Logical \<Rightarrow> NEXTWORD \<Rightarrow> nat \<Rightarrow> TRELLIS_ATOM \<Rightarrow> real \<Rightarrow> real" where
  "joined_score R X p nword t tre s =
     s + (if multipath R then 0 else out_trans X p) + nw_lscore nword + backscore tre
       + (if multipath R then 0 else tail_outprob X p t)"

lemma joined_totalscore:
  assumes "extends R X p nword now new" "joined_frame R t < peseqlen R"
  shows "totalscore R X p (nd_g new) t tre = joined_score R X p nword t tre (nd_g now ! joined_frame R t)"
proof -
  have "t < peseqlen R" using assms(2) by (simp add: joined_frame_def split: if_splits)
  with assms show ?thesis
    unfolding extends_def by (auto simp: totalscore_def forward_def joined_score_def joined_frame_def)
qed

text \<open>C11: scanning and expanding together, in every mode.  The last word of a hypothesis is scanned and a word
  is connected: no path through the HMM of the scanned word, continued by the connection at one of the frames
  that \<open>next_word\<close> searches, has a higher score than the new hypothesis; when a trellis word is kept, the score of
  the new hypothesis is that of such a path, or it comes from a frame without a score (\<open>LOG_ZERO\<close>, or the last
  frame without multipath, where no word can be joined).  The frames that are left out are those that
  \<open>next_word\<close> does not search and those before the estimated beginning of the word.  The HMM and the arrays fit,
  arcs do not gain, and an HMM of the multipath mode has more than one state.\<close>

theorem expansion_best:
  assumes "scan_fits R X now K P" "arcs_lose R P (nd_lscore now)" "\<not> multipath R \<or> 1 < length (p_hmm P)"
    and "scan_word R X now K = Some (now', K', l)" "next_word R X bt now' new nword = Some new'"
  shows "\<exists>p stop. connect_phone R X now' (nw_id nword) = Some p
    \<and> (0 < stop \<longrightarrow> int stop < nd_estimated_next_t now)
    \<and> (\<forall>t tre s. t \<in> set (searched R bt nword) \<and> stop \<le> joined_frame R t \<and> bt t (nw_id nword) = Some tre
         \<and> joined_frame R t < peseqlen R \<and> scan_path R X P (nd_lscore now) (joined_frame R t) 0 s \<longrightarrow>
         joined_score R X p nword t tre s \<le> nd_score new')
    \<and> (nd_tre new' = None
       \<or> (\<exists>t \<in> set (searched R bt nword). \<exists>tre. bt t (nw_id nword) = Some tre \<and> nd_tre new' = Some tre \<and> nd_bestt new' = int t
            \<and> (if joined_frame R t < peseqlen R
               then \<exists>s. nd_score new' = joined_score R X p nword t tre s
                 \<and> (s = log_zero X \<or> scan_path R X P (nd_lscore now) (joined_frame R t) 0 s)
               else nd_score new' = log_zero X + backscore tre + tail_outprob X p t)))"
proof -
  obtain stop where scan: "scanned R X P (nd_lscore now) (nd_estimated_next_t now) stop (peseqlen R) (nd_g now')
     (case nd_g_prev now' of None \<Rightarrow> [] | Some gp \<Rightarrow> gp)"
    using scan_word_scanned [OF assms(1-4)] by blast
  note best = scannedD(2) [OF scan]
  from next_word_connected [OF assms(5)] obtain p where p: "connect_phone R X now' (nw_id nword) = Some p"
    "extends R X p nword now' new'" "best_connection R X bt p nword new'"
    and len: "\<And>t. t \<in> set (searched R bt nword) \<Longrightarrow> t < peseqlen R" by blast
  note total = joined_totalscore [OF p(2)]
  have upper: "joined_score R X p nword t tre s \<le> nd_score new'"
    if "t \<in> set (searched R bt nword)" "stop \<le> joined_frame R t" "bt t (nw_id nword) = Some tre"
      "joined_frame R t < peseqlen R" "scan_path R X P (nd_lscore now) (joined_frame R t) 0 s" for t tre s
  proof -
    from best [OF that(2,4)] that(5) have "s \<le> nd_g now' ! joined_frame R t" unfolding best_at_def by blast
    then have "joined_score R X p nword t tre s \<le> totalscore R X p (nd_g new') t tre"
      unfolding total [OF that(4)] by (simp add: joined_score_def)
    also have "\<dots> \<le> nd_score new'" using p(3) that(1,3) unfolding best_connection_def by blast
    finally show ?thesis .
  qed
  have found: "if joined_frame R t < peseqlen R
      then \<exists>s. nd_score new' = joined_score R X p nword t tre s
        \<and> (s = log_zero X \<or> scan_path R X P (nd_lscore now) (joined_frame R t) 0 s)
      else nd_score new' = log_zero X + backscore tre + tail_outprob X p t"
    if s: "nd_score new' = totalscore R X p (nd_g new') t tre" and t: "t < peseqlen R" for t tre
  proof (cases "joined_frame R t < peseqlen R")
    case True
    then have "nd_g now' ! joined_frame R t = log_zero X
        \<or> scan_path R X P (nd_lscore now) (joined_frame R t) 0 (nd_g now' ! joined_frame R t)"
      using best [of "joined_frame R t"] scan unfolding scanned_def best_at_def by (cases "stop \<le> joined_frame R t") auto
    with s True show ?thesis unfolding total [OF True] by auto
  next
    case False
    with t have "\<not> multipath R" "\<not> t < peseqlen R - 1" by (auto simp: joined_frame_def split: if_splits)
    moreover have "nd_g new' ! t = forward R X p nword now' t" using p(2) t unfolding extends_def by blast
    ultimately have "totalscore R X p (nd_g new') t tre = log_zero X + backscore tre + tail_outprob X p t"
      by (simp add: totalscore_def forward_def)
    with s False show ?thesis by simp
  qed
  have "nd_tre new' = None
    \<or> (\<exists>t \<in> set (searched R bt nword). \<exists>tre. bt t (nw_id nword) = Some tre \<and> nd_tre new' = Some tre \<and> nd_bestt new' = int t
         \<and> (if joined_frame R t < peseqlen R
            then \<exists>s. nd_score new' = joined_score R X p nword t tre s
              \<and> (s = log_zero X \<or> scan_path R X P (nd_lscore now) (joined_frame R t) 0 s)
            else nd_score new' = log_zero X + backscore tre + tail_outprob X p t))"
    using p(3)
  proof (cases rule: best_connectionE)
    case (kept t tre)
    with found [OF kept(5) len [OF kept(1)]] show ?thesis by blast
  qed simp
  then show ?thesis using p(1) scannedD(1) [OF scan] upper by (intro exI [of _ p] exI [of _ stop] conjI allI impI) blast+
qed

section \<open>The first and the last hypothesis\<close>

text \<open>the first hypothesis has the one word, and its score joins the last frame with the latest end of the
  word in the trellis; a word that the trellis does not have gets \<open>LOG_ZERO\<close>.\<close>

theorem start_word_latest:
  assumes "start_word R X bt new nword = Some new'"
  shows "nd_seqnum new' = 1 \<and> take 1 (nd_seq new') = [nw_id nword] \<and> nd_totallscore new' = nw_lscore nword
    \<and> ((\<forall>t < peseqlen R. bt t (nw_id nword) = None) \<and> nd_score new' = log_zero X
       \<or> (\<exists>t < peseqlen R. \<exists>tre. bt t (nw_id nword) = Some tre \<and> (\<forall>u < peseqlen R. t < u \<longrightarrow> bt u (nw_id nword) = None)
            \<and> nd_tre new' = Some tre \<and> nd_estimated_next_t new' = begintime tre - 1
            \<and> nd_bestt new' = (if graphout R then int (peseqlen R) - 1 else int t)
            \<and> nd_score new' = nd_g new' ! (peseqlen R - 1) + backscore tre
                 + (if multipath R then 0 else tail_outprob X (last (wseq (words_info R) ! nw_id nword)) (peseqlen R - 1))))"
proof (cases "find (\<lambda>t. bt t (nw_id nword) \<noteq> None) (rev [0..<peseqlen R])")
  case None
  then have "\<forall>t < peseqlen R. bt t (nw_id nword) = None" by (auto simp: find_None_iff)
  with assms None show ?thesis
    by (cases "nd_seq new") (auto simp: start_word_def Let_def split: if_splits)
next
  case (Some t)
  then obtain i where i: "i < peseqlen R" "t = rev [0..<peseqlen R] ! i" "bt t (nw_id nword) \<noteq> None"
    "\<forall>j < i. bt (rev [0..<peseqlen R] ! j) (nw_id nword) = None"
    by (auto simp: find_Some_iff)
  then have t: "t = peseqlen R - 1 - i" by (simp add: rev_nth)
  have later: "bt u (nw_id nword) = None" if "u < peseqlen R" "t < u" for u
  proof -
    have "peseqlen R - 1 - u < i" "u = rev [0..<peseqlen R] ! (peseqlen R - 1 - u)"
      using that t i(1) by (simp_all add: rev_nth)
    with i(4) show ?thesis by metis
  qed
  from i(3) obtain tre where tre: "bt t (nw_id nword) = Some tre" by auto
  have "t < peseqlen R" using t i(1) by simp
  moreover have "nd_seqnum new' = 1 \<and> take 1 (nd_seq new') = [nw_id nword] \<and> nd_totallscore new' = nw_lscore nword
    \<and> nd_tre new' = Some tre \<and> nd_estimated_next_t new' = begintime tre - 1
    \<and> nd_bestt new' = (if graphout R then int (peseqlen R) - 1 else int t)
    \<and> nd_score new' = nd_g new' ! (peseqlen R - 1) + backscore tre
         + (if multipath R then 0 else tail_outprob X (last (wseq (words_info R) ! nw_id nword)) (peseqlen R - 1))"
    using assms tre Some by (cases "nd_seq new") (auto simp: start_word_def Let_def split: if_splits)
  ultimately show ?thesis using tre later by blast
qed

lemma memcpy_list_take: "memcpy_list k dst src = Some xs \<Longrightarrow> take k xs = take k src"
  by (auto simp: memcpy_list_def split: if_splits)

lemma cpy_node_words:
  assumes "cpy_node R dst src = Some n"
  shows "take (MAXSEQNUM R) (nd_seq n) = take (MAXSEQNUM R) (nd_seq src)" "nd_seqnum n = nd_seqnum src"
proof -
  have ctx: "nd_seq d' = nd_seq d \<and> nd_seqnum d' = nd_seqnum d" if "copy_context R d s = Some d'" for d s d'
    using that by (auto simp: copy_context_def bind_eq_Some_conv split: option.splits)
  have graph: "nd_seq d' = nd_seq d \<and> nd_seqnum d' = nd_seqnum d" if "copy_graph R d s = Some d'" for d s d'
    using that by (auto simp: copy_graph_def bind_eq_Some_conv split: if_splits)
  have "take (MAXSEQNUM R) (nd_seq n) = take (MAXSEQNUM R) (nd_seq src) \<and> nd_seqnum n = nd_seqnum src"
    using assms unfolding cpy_node_def bind_eq_Some_conv
    by - (elim exE conjE, drule ctx, drule graph, drule memcpy_list_take, drule memcpy_list_take, drule memcpy_list_take, simp)
  then show "take (MAXSEQNUM R) (nd_seq n) = take (MAXSEQNUM R) (nd_seq src)" "nd_seqnum n = nd_seqnum src" by simp_all
qed

text \<open>C28: the sentence score without multipath.  A scanned hypothesis that is finished keeps its words, and
  its score is the best score of all paths through the HMM of its last word from the scores before it down
  to the first frame; the exception is \<open>LOG_ZERO\<close>, for a scan that gave up before the first frame, which needs
  a word that was expected to begin later than the frame after the first.  (In the multipath mode the score
  is \<open>final_g\<close>, which \<open>final_g_last_arc\<close> in \<open>Back_Scan\<close> is about.)\<close>

theorem sentence_best:
  assumes "scan_fits R X now K P" "arcs_lose R P (nd_lscore now)" and mp: "\<not> multipath R"
    and "scan_word R X now K = Some (now', K', l)" "last_next_word R now' new = Some fin"
  shows "take (MAXSEQNUM R) (nd_seq fin) = take (MAXSEQNUM R) (nd_seq now') \<and> nd_seqnum fin = nd_seqnum now'
    \<and> (best_at R X P (nd_lscore now) 0 0 (nd_score fin)
       \<or> nd_score fin = log_zero X \<and> 1 < nd_estimated_next_t now)"
proof -
  from assms(5) mp obtain n where n: "cpy_node R new now' = Some n" "fin = n\<lparr>nd_score := nd_g now' ! 0\<rparr>"
    by (auto simp: last_next_word_def bind_eq_Some_conv split: if_splits)
  have len: "0 < peseqlen R" using assms(1) by (simp add: scan_fits_def scan_in_range_def)
  obtain stop where scan: "scanned R X P (nd_lscore now) (nd_estimated_next_t now) stop (peseqlen R) (nd_g now')
     (case nd_g_prev now' of None \<Rightarrow> [] | Some gp \<Rightarrow> gp)"
    using scan_word_scanned [OF assms(1,2) disjI1 [OF mp] assms(4)] by blast
  have "best_at R X P (nd_lscore now) 0 0 (nd_g now' ! 0) \<or> nd_g now' ! 0 = log_zero X \<and> 1 < nd_estimated_next_t now"
  proof (cases "stop = 0")
    case True
    with scannedD(2) [OF scan, of 0] len show ?thesis by simp
  next
    case False
    with scan have "nd_g now' ! 0 = log_zero X" unfolding scanned_def by blast
    with scannedD(1) [OF scan] False show ?thesis by auto
  qed
  moreover have "take (MAXSEQNUM R) (nd_seq n) = take (MAXSEQNUM R) (nd_seq now') \<and> nd_seqnum n = nd_seqnum now'"
    using cpy_node_words [OF n(1)] by blast
  ultimately show ?thesis by (simp add: n(2))
qed

section \<open>Instances\<close>

text \<open>An expansion returns a hypothesis when the arrays have room for it.\<close>

lemma next_word_returns:
  assumes "0 < nd_seqnum now" "nd_seqnum now < length (nd_seq new)" "nd_seqnum now \<le> length (nd_seq now)"
    "nd_seqnum now \<le> length (nd_cmscore new)" "nd_seqnum now \<le> length (nd_cmscore now)"
    and "nw_id nword < length (wseq (words_info R))" "wseq (words_info R) ! nw_id nword \<noteq> []"
    and "ccd_flag R \<Longrightarrow> nd_last_ph now \<noteq> None \<and> nd_g_prev new = Some gn \<and> nd_g_prev now = Some go
      \<and> peseqlen R \<le> length gn \<and> peseqlen R \<le> length go"
    and "0 < peseqlen R" "peseqlen R \<le> length (nd_g now)" "peseqlen R \<le> length (nd_g new)"
    and "\<And>p. 2 \<le> hmm_logical_state_num X p"
    and "nw_tre nword = Some tre" "-1 \<le> endtime tre" "endtime tre < int (peseqlen R)"
  shows "\<exists>new'. next_word R X bt now new nword = Some new'"
proof -
  obtain n1 where n1: "inherit_words R (log_zero X) now new nword = Some n1" "nd_g n1 = nd_g new" "nd_g_prev n1 = nd_g_prev new"
    using assms(1-5) by (auto simp: inherit_words_def memcpy_list_def Let_def)
  obtain p where p: "connect_phone R X now (nw_id nword) = Some p"
    using assms(6-8) by (cases "ccd_flag R") (auto simp: connect_phone_def Let_def)
  obtain n2 where n2: "inherit_context R now n1 = Some n2" "nd_g n2 = nd_g new"
    using assms(8) n1(2,3) by (cases "ccd_flag R") (auto simp: inherit_context_def memcpy_list_def)
  have "\<exists>n4. connect_scores R X p nword now (n2\<lparr>nd_lscore := v\<rparr>) = Some n4" for v
    using assms(9-12) n2(2) by (auto simp: connect_scores_def Let_def not_le not_less)
  then obtain n4 where n4: "connect_scores R X p nword now
      (n2\<lparr>nd_lscore := (case lmtype R of LM_PROB \<Rightarrow> nw_lscore nword | LM_DFA \<Rightarrow> 0 | _ \<Rightarrow> nd_lscore n2)\<rparr>) = Some n4"
    by blast
  have "\<exists>new'. find_connection R X bt p nword (n4\<lparr>nd_tre := None\<rparr>) = Some new'"
    using assms(13-15) by (auto simp: find_connection_def Let_def)
  then show ?thesis by (simp add: next_word_def n1(1) p n2(1) n4)
qed

definition ex_new :: NODE where
  "ex_new = ex_junk\<lparr>nd_g := [0, 0], nd_g_prev := Some [0, 0]\<rparr>"

definition ex_atom :: TRELLIS_ATOM where
  "ex_atom = \<lparr>backscore = -5, begintime = 0, endtime = 0\<rparr>"

definition ex_trellis :: trellis where
  "ex_trellis t w = (if t = 0 \<and> w = 0 then Some ex_atom else None)"

definition ex_nword :: NEXTWORD where
  "ex_nword = \<lparr>nw_id = 0, nw_next_state = 0, nw_lscore = -1, nw_tre = Some ex_atom\<rparr>"

definition ex_source :: NODE where
  "ex_source = ex_node\<lparr>nd_last_ph := Some \<lparr>ph_name = ''a'', ph_addr = 1\<rparr>, nd_cmscore := [0, 0]\<rparr>"

lemmas ex_next_defs = ex_new_def ex_atom_def ex_trellis_def ex_nword_def ex_source_def ex_scan_defs

lemma ex_next_word: "\<exists>new'. next_word ex_scan_env ex_scan_ops ex_trellis ex_source ex_new ex_nword = Some new'"
  by (rule next_word_returns [where gn = "[0, 0]" and go = "[0, 0]" and tre = ex_atom]) (simp_all add: ex_next_defs)

theorem next_word_best_witness:
  "\<exists>new'. next_word ex_scan_env ex_scan_ops ex_trellis ex_source ex_new ex_nword = Some new'
     \<and> extends ex_scan_env ex_scan_ops \<lparr>ph_name = ''b'', ph_addr = 2\<rparr> ex_nword ex_source new'
     \<and> best_connection ex_scan_env ex_scan_ops ex_trellis \<lparr>ph_name = ''b'', ph_addr = 2\<rparr> ex_nword new'"
proof -
  obtain new' where n: "next_word ex_scan_env ex_scan_ops ex_trellis ex_source ex_new ex_nword = Some new'"
    using ex_next_word by blast
  have "connect_phone ex_scan_env ex_scan_ops ex_source (nw_id ex_nword) = Some \<lparr>ph_name = ''b'', ph_addr = 2\<rparr>"
    by (simp add: connect_phone_def ex_next_defs)
  with next_word_best [OF n] n show ?thesis by (intro exI [of _ new']) simp
qed

lemma ex_run: "\<forall>t. ex_trellis t (nw_id ex_nword) \<noteq> None \<longleftrightarrow> 0 \<le> t \<and> t \<le> 0"
  by (simp add: ex_next_defs)

theorem next_word_around_exact_witness:
  "\<exists>new' p. next_word ex_scan_env ex_scan_ops ex_trellis ex_source ex_new ex_nword = Some new'
     \<and> totalscore ex_scan_env ex_scan_ops p (nd_g new') 0 ex_atom \<le> nd_score new'"
proof -
  obtain new' where n: "next_word ex_scan_env ex_scan_ops ex_trellis ex_source ex_new ex_nword = Some new'"
    using ex_next_word by blast
  have "nw_tre ex_nword = Some ex_atom" "int 0 \<le> endtime ex_atom" "endtime ex_atom \<le> int 0" "0 < end_frames ex_scan_env"
    by (simp_all add: end_frames_def ex_next_defs)
  from next_word_around_exact [OF n ex_run this] obtain p where
    "\<forall>t a. ex_trellis t (nw_id ex_nword) = Some a \<longrightarrow> totalscore ex_scan_env ex_scan_ops p (nd_g new') t a \<le> nd_score new'"
    by blast
  moreover have "ex_trellis 0 (nw_id ex_nword) = Some ex_atom" by (simp add: ex_next_defs)
  ultimately show ?thesis using n by blast
qed

theorem start_word_latest_witness:
  "\<exists>new'. start_word ex_scan_env ex_scan_ops ex_trellis ex_new ex_nword = Some new'
     \<and> (nd_score new' = log_zero ex_scan_ops \<or> nd_tre new' = Some ex_atom)"
proof -
  have "start_word ex_scan_env ex_scan_ops ex_trellis ex_new ex_nword \<noteq> None"
    by (simp add: start_word_def Let_def ex_next_defs split: option.split) (auto simp: find_Some_iff)
  then obtain new' where n: "start_word ex_scan_env ex_scan_ops ex_trellis ex_new ex_nword = Some new'" by blast
  have "ex_trellis t (nw_id ex_nword) = Some a \<Longrightarrow> a = ex_atom" for t a by (simp add: ex_trellis_def split: if_splits)
  with start_word_latest [OF n] have "nd_score new' = log_zero ex_scan_ops \<or> nd_tre new' = Some ex_atom" by auto
  with n show ?thesis by blast
qed

text \<open>The hypothesis after the scan of the example can be expanded and finished.\<close>

lemma ex_scanned:
  obtains now' K l gp where "scan_word ex_scan_env ex_scan_ops ex_node ex_area = Some (now', K, l)" "nd_seqnum now' = 1"
    "nd_seq now' = [0, 0]" "nd_cmscore now' = [0, 0]" "length (nd_g now') = 2" "nd_last_ph now' \<noteq> None"
    "nd_g_prev now' = Some gp" "length gp = 2"
proof -
  have p: "ccd_flag ex_scan_env" "\<not> precise ex_scan_env" "\<not> multipath ex_scan_env" "stores_inside ex_scan_env ex_par"
    "nd_g_prev ex_node = Some [0, 0]" "nd_seqnum ex_node = 1" "nd_seq ex_node = [0, 0]" "nd_cmscore ex_node = [0, 0]"
    "length (nd_g ex_node) = 2"
    by (simp_all add: precise_def ex_scan_defs stores_inside_def)
  from scan_word_returns [OF ex_fits disjI1 [OF p(2)]] obtain now' K l
    where r: "scan_word ex_scan_env ex_scan_ops ex_node ex_area = Some (now', K, l)" by blast
  note k = scan_word_keeps [OF ex_fits r]
  from k(6) [OF p(1,4,5)] obtain gp where "nd_g_prev now' = Some gp" "length gp = length [0, 0 :: real]" by blast
  then have gp: "nd_g_prev now' = Some gp" "length gp = 2" by simp_all
  have "nd_last_ph now' \<noteq> None" using k(5) [OF p(1)] by simp
  from that [OF r k(1) [unfolded p(6)] k(2) [unfolded p(7)] k(3) [unfolded p(8)] k(4) [unfolded p(9)] this gp] show thesis .
qed

lemma ex_scan_params: "\<not> multipath ex_scan_env" "peseqlen ex_scan_env = 2" "MAXSEQNUM ex_scan_env = 2"
  "nd_lscore ex_node = 0" "nd_estimated_next_t ex_node = 0" "log_zero ex_scan_ops = -1000"
  by (simp_all add: ex_scan_defs)

text \<open>A word of one phone without context dependency.\<close>

definition ex_one :: search_env where
  "ex_one = ex_search\<lparr>ccd_flag := False\<rparr>"

definition ex_one_par :: scan_par where
  "ex_one_par = \<lparr>p_hmm = [\<lparr>st_ac = [\<lparr>ac_a = -2, ac_arc = 0\<rparr>], st_out_null = False\<rparr>], p_g = [-20, -10], p_store = 0,
     p_maxarc = 0, p_cross = 0, p_back = False, p_ph0 = \<lparr>ph_name = ''a'', ph_addr = 1\<rparr>, p_sp0 = False\<rparr>"

lemma ex_one_fits: "scan_fits ex_one ex_scan_ops ex_node ex_area ex_one_par"
proof -
  have "prepare_scan ex_one ex_scan_ops ex_node = Some ex_one_par"
    by (simp add: prepare_scan_def prepare_plain_def use_sp_def store_of_def ex_one_def ex_one_par_def ex_scan_defs Let_def)
  then show ?thesis
    unfolding scan_fits_def by (simp add: scan_in_range_def area_holds_def precise_def ex_one_def ex_one_par_def ex_scan_defs)
qed

lemma ex_one_lose: "arcs_lose ex_one ex_one_par (nd_lscore ex_node)"
  by (simp add: arcs_lose_def gain_def ex_one_def ex_one_par_def ex_scan_defs)

lemma ex_one_path: "scan_path ex_one ex_scan_ops ex_one_par (nd_lscore ex_node) (Suc 0) 0 (-13)"
  using scan_path.enter [of ex_one "Suc 0" ex_scan_ops ex_one_par "nd_lscore ex_node"]
  by (simp add: above_def out_at_def ex_one_def ex_one_par_def ex_scan_defs)

theorem expansion_best_witness:
  "\<exists>now' K l new'. scan_word ex_one ex_scan_ops ex_node ex_area = Some (now', K, l)
     \<and> next_word ex_one ex_scan_ops ex_trellis now' ex_new ex_nword = Some new' \<and> -23 \<le> nd_score new'"
proof -
  have p: "\<not> precise ex_one" "\<not> multipath ex_one" "nd_estimated_next_t ex_node = 0"
    by (simp_all add: precise_def ex_one_def ex_scan_defs)
  from scan_word_returns [OF ex_one_fits disjI1 [OF p(1)]] obtain now' K l
    where r: "scan_word ex_one ex_scan_ops ex_node ex_area = Some (now', K, l)" by blast
  have k: "nd_seqnum now' = 1" "nd_seq now' = [0, 0]" "nd_cmscore now' = [0, 0]" "length (nd_g now') = 2"
    by (simp_all add: scan_word_keeps(1-4) [OF ex_one_fits r] ex_scan_defs)
  have "\<exists>new'. next_word ex_one ex_scan_ops ex_trellis now' ex_new ex_nword = Some new'"
    by (rule next_word_returns [where tre = ex_atom]) (simp_all add: k ex_one_def ex_next_defs)
  then obtain new' where w: "next_word ex_one ex_scan_ops ex_trellis now' ex_new ex_nword = Some new'" by blast
  have one: "\<not> multipath ex_one \<or> 1 < length (p_hmm ex_one_par)" using p(2) by blast
  from expansion_best [OF ex_one_fits ex_one_lose one r w] obtain q and stop :: nat where
    e: "0 < stop \<longrightarrow> int stop < nd_estimated_next_t ex_node"
    "\<forall>t tre s. t \<in> set (searched ex_one ex_trellis ex_nword) \<and> stop \<le> joined_frame ex_one t \<and> ex_trellis t (nw_id ex_nword) = Some tre
       \<and> joined_frame ex_one t < peseqlen ex_one \<and> scan_path ex_one ex_scan_ops ex_one_par (nd_lscore ex_node) (joined_frame ex_one t) 0 s \<longrightarrow>
       joined_score ex_one ex_scan_ops q ex_nword t tre s \<le> nd_score new'"
    by (elim exE conjE)
  have z: "stop \<le> joined_frame ex_one 0" "joined_frame ex_one 0 = Suc 0" "Suc 0 < peseqlen ex_one"
    using e(1) by (simp_all add: joined_frame_def ex_one_def ex_scan_defs)
  have s: "0 \<in> set (searched ex_one ex_trellis ex_nword)" "ex_trellis 0 (nw_id ex_nword) = Some ex_atom"
    by (simp_all add: searched_def end_frames_def Let_def ex_one_def ex_next_defs)
  have "joined_score ex_one ex_scan_ops q ex_nword 0 ex_atom (-13) \<le> nd_score new'"
    using e(2) s z(1) ex_one_path [folded z(2)] z(3) [folded z(2)] by blast
  moreover have "joined_score ex_one ex_scan_ops q ex_nword 0 ex_atom (-13) = -23"
    by (simp add: joined_score_def out_trans_def tail_outprob_def ex_one_def ex_next_defs)
  ultimately have "-23 \<le> nd_score new'" by simp
  with r w show ?thesis by blast
qed

theorem sentence_best_witness:
  "\<exists>now' K l fin. scan_word ex_scan_env ex_scan_ops ex_node ex_area = Some (now', K, l)
     \<and> last_next_word ex_scan_env now' ex_new = Some fin \<and> nd_seqnum fin = 1
     \<and> best_at ex_scan_env ex_scan_ops ex_par 0 0 0 (nd_score fin)"
proof -
  obtain now' K l gp where n: "scan_word ex_scan_env ex_scan_ops ex_node ex_area = Some (now', K, l)" "nd_seqnum now' = 1"
    "nd_seq now' = [0, 0]" "nd_cmscore now' = [0, 0]" "length (nd_g now') = 2" "nd_last_ph now' \<noteq> None"
    "nd_g_prev now' = Some gp" "length gp = 2"
    by (rule ex_scanned)
  have "sized ex_scan_env now'" "sized ex_scan_env ex_new"
    using n(2-8) by (simp_all add: sized_def shaped_def ex_next_defs)
  from cpy_node_sized [OF this(2,1)] obtain c where "cpy_node ex_scan_env ex_new now' = Some c" by metis
  moreover have "nd_g now' \<noteq> []" using n(5) by auto
  ultimately obtain fin where f: "last_next_word ex_scan_env now' ex_new = Some fin"
    by (simp add: last_next_word_def ex_scan_params)
  from sentence_best [OF ex_fits ex_lose ex_scan_params(1) n(1) f] n(2)
  have "nd_seqnum fin = 1" "best_at ex_scan_env ex_scan_ops ex_par 0 0 0 (nd_score fin)"
    by (simp_all add: ex_scan_params)
  with n(1) f show ?thesis by blast
qed

end
