(* ===== verification/State_Document.thy ===== *)
theory State_Document
  imports State_Config
begin

text \<open>
  The documents of state information (\<open>StateInfo.cpp\<close>: \<open>getDocument\<close>, \<open>createDocumentFromInfo\<close> and
  \<open>analyseDocument\<close>) and the functions of \<open>XMLTool.cpp\<close> that they use.  The implementation of DOM and of
  XPath is outside the repository: it is the record \<open>dom_ops\<close> of its operations on a document and its
  nodes, in which \<open>None\<close> is a \<open>DOMException\<close>.  What the theorems need of it is \<open>dom_laws\<close>: it works on a
  tree, as the DOM says.  Strings go to it through \<open>c_str\<close>, which ends at a NUL; the conversion from and to the local
  code page, \<open>XMLString::transcode\<close> of Xerces, is part of the operations, and the laws speak only of strings
  that it keeps.  Messages to the log are left out.
\<close>

section \<open>Documents\<close>

record ('d, 'n) dom_ops =
  createDocument :: "string \<Rightarrow> string \<Rightarrow> 'd option"
  documentElement :: "'d \<Rightarrow> 'n"
  childNodes :: "'d \<Rightarrow> 'n \<Rightarrow> 'n list"
  isElement :: "'d \<Rightarrow> 'n \<Rightarrow> bool"
  node_localName :: "'d \<Rightarrow> 'n \<Rightarrow> string option"
  node_namespaceURI :: "'d \<Rightarrow> 'n \<Rightarrow> string option"
  node_hasAttribute :: "'d \<Rightarrow> 'n \<Rightarrow> string \<Rightarrow> bool"
  node_getAttribute :: "'d \<Rightarrow> 'n \<Rightarrow> string \<Rightarrow> string option"
  node_setAttribute :: "'d \<Rightarrow> 'n \<Rightarrow> string \<Rightarrow> string \<Rightarrow> 'd option"
  node_appendNew :: "'d \<Rightarrow> 'n \<Rightarrow> string \<Rightarrow> string \<Rightarrow> ('n \<times> 'd) option"
  node_setPrefix :: "'d \<Rightarrow> 'n \<Rightarrow> string \<Rightarrow> 'd option"
  node_setTextContent :: "'d \<Rightarrow> 'n \<Rightarrow> string \<Rightarrow> 'd option"
  evaluateXPath :: "'d \<Rightarrow> (string \<Rightarrow> string option) \<Rightarrow> string \<Rightarrow> string option option"

text \<open>
  \<open>node_appendNew\<close> is \<open>createElementNS\<close> of the document of a node followed by \<open>appendChild\<close>; \<open>evaluateXPath\<close> gives the
  string value of the first result if it is a node.
\<close>

section \<open>XMLTool\<close>

definition c_str :: "string \<Rightarrow> string" where
  "c_str s = takeWhile (\<lambda>c. c \<noteq> NUL) s"

definition transcode :: "string option \<Rightarrow> string" where
  "transcode xmlString = (case xmlString of None \<Rightarrow> [] | Some s \<Rightarrow> s)"

text \<open>Strings of Xerces are compared with \<open>XMLString::equals\<close>, for which \<open>NULL\<close> is the empty string.\<close>

definition xml_equals :: "string option \<Rightarrow> string \<Rightarrow> bool" where
  "xml_equals s t \<longleftrightarrow> transcode s = c_str t"

definition newDocument :: "('d, 'n) dom_ops \<Rightarrow> string \<Rightarrow> string \<Rightarrow> 'd option" where
  "newDocument D rootTagname aNamespace = createDocument D (c_str aNamespace) (c_str rootTagname)"

definition appendChildElement :: "('d, 'n) dom_ops \<Rightarrow> 'd \<Rightarrow> 'n \<Rightarrow> string \<Rightarrow> string \<Rightarrow> ('n \<times> 'd) option" where
  "appendChildElement D d node childName childNamespace = node_appendNew D d node (c_str childNamespace) (c_str childName)"

definition setTextContent :: "('d, 'n) dom_ops \<Rightarrow> 'd \<Rightarrow> 'n \<Rightarrow> string \<Rightarrow> 'd option" where
  "setTextContent D d node text = node_setTextContent D d node (c_str text)"

definition getChildrenByLocalNameNS :: "('d, 'n) dom_ops \<Rightarrow> 'd \<Rightarrow> 'n \<Rightarrow> string \<Rightarrow> string \<Rightarrow> 'n list" where
  "getChildrenByLocalNameNS D d node childName childNamespace =
     filter (\<lambda>n. isElement D d n \<and> xml_equals (node_localName D d n) childName
                 \<and> xml_equals (node_namespaceURI D d n) childNamespace) (childNodes D d node)"

definition getNamespaceURI :: "('d, 'n) dom_ops \<Rightarrow> 'd \<Rightarrow> 'n \<Rightarrow> string" where
  "getNamespaceURI D d node = transcode (node_namespaceURI D d node)"

definition getLocalName :: "('d, 'n) dom_ops \<Rightarrow> 'd \<Rightarrow> 'n \<Rightarrow> string" where
  "getLocalName D d e = transcode (node_localName D d e)"

definition setPrefix :: "('d, 'n) dom_ops \<Rightarrow> 'd \<Rightarrow> 'n \<Rightarrow> string \<Rightarrow> 'd option" where
  "setPrefix D d e prefix = node_setPrefix D d e (c_str prefix)"

definition hasAttribute :: "('d, 'n) dom_ops \<Rightarrow> 'd \<Rightarrow> 'n \<Rightarrow> string \<Rightarrow> bool" where
  "hasAttribute D d e attributeName = node_hasAttribute D d e (c_str attributeName)"

definition getAttribute :: "('d, 'n) dom_ops \<Rightarrow> 'd \<Rightarrow> 'n \<Rightarrow> string \<Rightarrow> string" where
  "getAttribute D d e attributeName = transcode (node_getAttribute D d e (c_str attributeName))"

definition setAttribute :: "('d, 'n) dom_ops \<Rightarrow> 'd \<Rightarrow> 'n \<Rightarrow> string \<Rightarrow> string \<Rightarrow> 'd option" where
  "setAttribute D d e attributeName v = node_setAttribute D d e (c_str attributeName) (c_str v)"

section \<open>From items to a document\<close>

text \<open>
  The exceptions, one value for every place.  \<open>Dom_exception\<close> is a \<open>DOMException\<close> that nothing catches.
\<close>

datatype doc_error =
    No_info_entry | Split_failed si_error | Cannot_create | Root_name | Root_namespace | No_elements
  | Null_document | Wrong_root | Wrong_root_namespace | Problem_analysing | Dom_exception

definition context_getNamespaceURI :: "smap \<Rightarrow> string \<Rightarrow> string" where
  "context_getNamespaceURI pref2ns prefix = (case smap_get pref2ns prefix of Some ns \<Rightarrow> ns | None \<Rightarrow> [])"

definition context_lookup :: "smap \<Rightarrow> string \<Rightarrow> string option" where
  "context_lookup pref2ns prefix = smap_get pref2ns prefix"

definition part_namespace :: "smap \<Rightarrow> string list \<Rightarrow> string" where
  "part_namespace nsc part = (if part ! 0 \<noteq> [] then context_getNamespaceURI nsc (part ! 0) else [])"

text \<open>The first part names the document element, of a new document or of the one that is there.\<close>

definition enter_root ::
  "('d, 'n) dom_ops \<Rightarrow> smap \<Rightarrow> string list \<Rightarrow> 'd option \<Rightarrow> (doc_error \<times> 'd option) + ('d \<times> 'n)" where
  "enter_root D nsc part document =
     (let localName = part ! 1; namespaceURI = part_namespace nsc part
      in case document of
           None \<Rightarrow>
             (case newDocument D localName namespaceURI of
                None \<Rightarrow> Inl (Cannot_create, None)
              | Some d \<Rightarrow>
                  (case setPrefix D d (documentElement D d) (part ! 0) of
                     None \<Rightarrow> Inl (Dom_exception, Some d)
                   | Some d' \<Rightarrow> Inr (d', documentElement D d)))
         | Some d \<Rightarrow>
             let e = documentElement D d
             in if getLocalName D d e \<noteq> localName then Inl (Root_name, Some d)
                else if getNamespaceURI D d e \<noteq> namespaceURI then Inl (Root_namespace, Some d)
                else Inr (d, e))"

text \<open>Another part: the first child that fits, or a new one.\<close>

definition find_child :: "('d, 'n) dom_ops \<Rightarrow> 'd \<Rightarrow> string \<Rightarrow> string \<Rightarrow> 'n list \<Rightarrow> 'n option" where
  "find_child D d attName attValue sameNameChildren =
     (if attName = [] then (case sameNameChildren of [] \<Rightarrow> None | c # cs \<Rightarrow> Some c)
      else find (\<lambda>c. hasAttribute D d c attName \<and> (attValue = [] \<or> attValue = getAttribute D d c attName)) sameNameChildren)"

definition child_step ::
  "('d, 'n) dom_ops \<Rightarrow> smap \<Rightarrow> string list \<Rightarrow> 'd \<Rightarrow> 'n \<Rightarrow> (doc_error \<times> 'd option) + ('d \<times> 'n)" where
  "child_step D nsc part d currentElt =
     (let localName = part ! 1; attName = part ! 2; attValue = part ! 3; namespaceURI = part_namespace nsc part
      in case find_child D d attName attValue (getChildrenByLocalNameNS D d currentElt localName namespaceURI) of
           Some c \<Rightarrow> Inr (d, c)
         | None \<Rightarrow>
             (case appendChildElement D d currentElt localName namespaceURI of
                None \<Rightarrow> Inl (Dom_exception, Some d)
              | Some (c, d1) \<Rightarrow>
                  (case (if part ! 0 \<noteq> [] then setPrefix D d1 c (part ! 0) else Some d1) of
                     None \<Rightarrow> Inl (Dom_exception, Some d1)
                   | Some d2 \<Rightarrow>
                       (case (if attName \<noteq> [] then setAttribute D d2 c attName attValue else Some d2) of
                          None \<Rightarrow> Inl (Dom_exception, Some d2)
                        | Some d3 \<Rightarrow> Inr (d3, c)))))"

fun descend ::
  "('d, 'n) dom_ops \<Rightarrow> smap \<Rightarrow> string list list \<Rightarrow> 'd \<Rightarrow> 'n \<Rightarrow> (doc_error \<times> 'd option) + ('d \<times> 'n)" where
  "descend D nsc [] d n = Inr (d, n)"
| "descend D nsc (part # parts) d n = err_bind (child_step D nsc part d n) (\<lambda>(d', c). descend D nsc parts d' c)"

definition put_value ::
  "('d, 'n) dom_ops \<Rightarrow> string list \<Rightarrow> string \<Rightarrow> 'd \<Rightarrow> 'n \<Rightarrow> (doc_error \<times> 'd option) + 'd" where
  "put_value D lastPart v d n =
     need (Dom_exception, Some d) (case lastPart of [] \<Rightarrow> setTextContent D d n v | attName # _ \<Rightarrow> setAttribute D d n attName v)"

definition store_item ::
  "('d, 'n) dom_ops \<Rightarrow> smap \<Rightarrow> string list list \<Rightarrow> string \<Rightarrow> 'd option \<Rightarrow> (doc_error \<times> 'd option) + 'd" where
  "store_item D nsc parts v document =
     (case butlast parts of
        [] \<Rightarrow> Inl (No_elements, document)
      | part # rest \<Rightarrow>
          err_bind (enter_root D nsc part document) (\<lambda>(d, root).
          err_bind (descend D nsc rest d root) (\<lambda>(d', n). put_value D (last parts) v d' n)))"

fun store_items ::
  "('d, 'n) dom_ops \<Rightarrow> XPathInfoMapper \<Rightarrow> smap \<Rightarrow> 'd option \<Rightarrow> ((doc_error \<times> 'd option) + 'd option) option" where
  "store_items D xm [] document = Some (Inr document)"
| "store_items D xm ((shortName, v) # items) document =
     (if v = [] then store_items D xm items document
      else case smap_get (names2exprString xm) shortName of
          None \<Rightarrow> Some (Inl (No_info_entry, document))
        | Some expr \<Rightarrow>
            (case splitXPathIntoParts expr of
               None \<Rightarrow> None
             | Some (Inl e) \<Rightarrow> Some (Inl (Split_failed e, document))
             | Some (Inr parts) \<Rightarrow>
                 (case store_item D (namespacePrefixes xm) parts v document of
                    Inl e \<Rightarrow> Some (Inl e)
                  | Inr d \<Rightarrow> store_items D xm items (Some d))))"

text \<open>
  How a call ends: the splitting may run for ever, and an exception that the specification of the function does not
  name ends the program (\<open>std::unexpected\<close>).  \<open>createDocumentFromInfo\<close> declares only \<open>SystemConfigurationException\<close>.  The
  document as far as it was built stays in the state when such an exception is thrown.
\<close>

datatype 'a outcome = Endless | Terminated | Returns 'a

definition createDocumentFromInfo ::
  "('d, 'n) dom_ops \<Rightarrow> XPathInfoMapper \<Rightarrow> 'd StateInfo \<Rightarrow> (doc_error option \<times> 'd StateInfo) outcome" where
  "createDocumentFromInfo D xm s =
     (case store_items D xm (info s) None of
        None \<Rightarrow> Endless
      | Some (Inl (e, document)) \<Rightarrow> if e = Dom_exception then Terminated else Returns (Some e, s\<lparr>doc := document\<rparr>)
      | Some (Inr document) \<Rightarrow> Returns (None, s\<lparr>doc := document\<rparr>))"

definition getDocument ::
  "('d, 'n) dom_ops \<Rightarrow> XPathInfoMapper \<Rightarrow> 'd StateInfo \<Rightarrow> (doc_error option \<times> 'd StateInfo) outcome" where
  "getDocument D xm s = (if doc s = None then createDocumentFromInfo D xm s else Returns (None, s))"

section \<open>From a document to items\<close>

definition read_item ::
  "('d, 'n) dom_ops \<Rightarrow> smap \<Rightarrow> 'd \<Rightarrow> string \<times> string \<Rightarrow> smap \<Rightarrow> doc_error + smap" where
  "read_item D nsc d item m =
     (case item of (shortName, xpathExpr) \<Rightarrow>
        (case evaluateXPath D d (context_lookup nsc) (c_str xpathExpr) of
           None \<Rightarrow> Inl Problem_analysing
         | Some None \<Rightarrow> Inr m
         | Some (Some resultString) \<Rightarrow> Inr (if resultString \<noteq> [] then smap_put shortName resultString m else m)))"

fun read_items :: "('d, 'n) dom_ops \<Rightarrow> smap \<Rightarrow> 'd \<Rightarrow> smap \<Rightarrow> smap \<Rightarrow> doc_error + smap" where
  "read_items D nsc d [] m = Inr m"
| "read_items D nsc d (item # items) m = err_bind (read_item D nsc d item m) (read_items D nsc d items)"

definition analyseDocument ::
  "('d, 'n) dom_ops \<Rightarrow> XPathInfoMapper \<Rightarrow> string \<Rightarrow> string \<Rightarrow> 'd StateInfo \<Rightarrow> doc_error + 'd StateInfo" where
  "analyseDocument D xm rootName rootNamespace s =
     (case doc s of
        None \<Rightarrow> Inl Null_document
      | Some d \<Rightarrow>
          let root = documentElement D d
          in if getLocalName D d root \<noteq> rootName then Inl Wrong_root
             else if getNamespaceURI D d root \<noteq> rootNamespace then Inl Wrong_root_namespace
             else err_bind (read_items D (namespacePrefixes xm) d (names2exprString xm) (info s)) (\<lambda>m. Inr (s\<lparr>info := m\<rparr>)))"

definition read_StateInfo ::
  "('d, 'n) dom_ops \<Rightarrow> XPathInfoMapper \<Rightarrow> 'd option \<Rightarrow> string \<Rightarrow> string \<Rightarrow> string \<Rightarrow> Type \<Rightarrow> doc_error + 'd StateInfo" where
  "read_StateInfo D xm document whatState rootName rootNamespace t =
     analyseDocument D xm rootName rootNamespace \<lparr>stateName = whatState, si_type = t, info = [], doc = document\<rparr>"

section \<open>Trees\<close>

text \<open>What the DOM says of documents: an element has a namespace, a local name, attributes and child nodes.\<close>

datatype xml = Text string | Elem (e_ns: string) (e_name: string) (e_attrs: "string \<Rightarrow> string option") (e_kids: "xml list")

fun sub_at :: "xml \<Rightarrow> nat list \<Rightarrow> xml option" where
  "sub_at e [] = Some e"
| "sub_at (Elem ns nm as ks) (i # p) = (if i < length ks then sub_at (ks ! i) p else None)"
| "sub_at (Text s) (i # p) = None"

fun change :: "nat list \<Rightarrow> (xml \<Rightarrow> xml) \<Rightarrow> xml \<Rightarrow> xml" where
  "change [] g e = g e"
| "change (i # p) g (Elem ns nm as ks) = Elem ns nm as (ks[i := change p g (ks ! i)])"
| "change (i # p) g (Text s) = Text s"

fun put_attr :: "string \<Rightarrow> string \<Rightarrow> xml \<Rightarrow> xml" where
  "put_attr a v (Elem ns nm as ks) = Elem ns nm (as(a := Some v)) ks"
| "put_attr a v (Text s) = Text s"

fun put_text :: "string \<Rightarrow> xml \<Rightarrow> xml" where
  "put_text v (Elem ns nm as ks) = Elem ns nm as [Text v]"
| "put_text v (Text s) = Text v"

fun add_kid :: "xml \<Rightarrow> xml \<Rightarrow> xml" where
  "add_kid k (Elem ns nm as ks) = Elem ns nm as (ks @ [k])"
| "add_kid k (Text s) = Text s"

abbreviation fresh_elem :: "string \<Rightarrow> string \<Rightarrow> xml" where
  "fresh_elem ns nm \<equiv> Elem ns nm (\<lambda>_. None) []"

text \<open>
  A step of an expression with its namespace, and the values that a sequence of steps selects, in document
  order: text of child nodes, where neighbours count as one, or an attribute.
\<close>

datatype xkey = Key (k_ns: string) (k_name: string) (k_att: string) (k_val: string)

fun matches :: "xkey \<Rightarrow> xml \<Rightarrow> bool" where
  "matches k (Text s) = False"
| "matches k (Elem ns nm as ks) =
     (ns = k_ns k \<and> nm = k_name k \<and> (k_att k = [] \<or> (case as (k_att k) of None \<Rightarrow> False | Some v \<Rightarrow> k_val k = [] \<or> v = k_val k)))"

fun text_node :: "xml \<Rightarrow> string option" where
  "text_node (Text s) = Some s"
| "text_node (Elem ns nm as ks) = None"

fun text_runs :: "string \<Rightarrow> string option list \<Rightarrow> string list" where
  "text_runs acc [] = (if acc = [] then [] else [acc])"
| "text_runs acc (Some s # ns) = text_runs (acc @ s) ns"
| "text_runs acc (None # ns) = (if acc = [] then [] else [acc]) @ text_runs [] ns"

definition own_values :: "string list \<Rightarrow> xml \<Rightarrow> string list" where
  "own_values l e =
     (case l of [] \<Rightarrow> text_runs [] (map text_node (e_kids e)) | a # _ \<Rightarrow> (case e_attrs e a of None \<Rightarrow> [] | Some v \<Rightarrow> [v]))"

fun values_of :: "xkey list \<Rightarrow> string list \<Rightarrow> xml \<Rightarrow> string list" where
  "values_of [] l e = own_values l e"
| "values_of (k # path) l e = concat (map (values_of path l) (filter (matches k) (e_kids e)))"

definition xpath_values :: "xkey list \<Rightarrow> string list \<Rightarrow> xml \<Rightarrow> string list" where
  "xpath_values path l e = (case path of [] \<Rightarrow> [] | k # rest \<Rightarrow> if matches k e then values_of rest l e else [])"

definition first_of :: "'a list \<Rightarrow> 'a option" where
  "first_of xs = (case xs of [] \<Rightarrow> None | x # _ \<Rightarrow> Some x)"

definition key_of :: "smap \<Rightarrow> xstep \<Rightarrow> xkey" where
  "key_of nsc st =
     Key (part_namespace nsc (part_of st)) (xlocal st) (part_of st ! 2) (part_of st ! 3)"

section \<open>What is assumed of the DOM\<close>

text \<open>
  \<open>tree\<close> is the tree of a document, with its strings in the local code page, \<open>loc\<close> the place of a node in it, \<open>valid\<close>
  holds for the names without a prefix that XML and the code page allow, but not for those of declarations of
  namespaces, and \<open>legal\<close> for the values that the conversion of code pages keeps.  With such strings every operation is the
  one on trees; a prefix needs a namespace.
\<close>

definition is_declaration :: "string \<Rightarrow> bool" where
  "is_declaration a \<longleftrightarrow> a = ''xmlns'' \<or> take 6 a = ''xmlns:''"

definition xml_name :: "string \<Rightarrow> bool" where
  "xml_name q \<longleftrightarrow> q \<noteq> [] \<and> NUL \<notin> set q \<and> \<not> is_declaration q"

definition law_names :: "(string \<Rightarrow> bool) \<Rightarrow> (string \<Rightarrow> bool) \<Rightarrow> bool" where
  "law_names valid legal \<longleftrightarrow> (\<forall>q. valid q \<longrightarrow> xml_name q) \<and> legal [] \<and> (\<forall>v. legal v \<longrightarrow> NUL \<notin> set v)"

definition law_create ::
  "('d, 'n) dom_ops \<Rightarrow> ('d \<Rightarrow> xml) \<Rightarrow> ('d \<Rightarrow> 'n \<Rightarrow> nat list option) \<Rightarrow> (string \<Rightarrow> bool) \<Rightarrow> (string \<Rightarrow> bool) \<Rightarrow> bool" where
  "law_create D tree loc valid legal \<longleftrightarrow>
     (\<forall>ns q. valid q \<and> legal ns \<longrightarrow> (\<exists>d. createDocument D ns q = Some d \<and> tree d = fresh_elem ns q))
     \<and> (\<forall>d. loc d (documentElement D d) = Some [])"

definition law_read :: "('d, 'n) dom_ops \<Rightarrow> ('d \<Rightarrow> xml) \<Rightarrow> ('d \<Rightarrow> 'n \<Rightarrow> nat list option) \<Rightarrow> bool" where
  "law_read D tree loc \<longleftrightarrow>
     (\<forall>d n p ns nm as ks. loc d n = Some p \<and> sub_at (tree d) p = Some (Elem ns nm as ks) \<longrightarrow>
        isElement D d n \<and> transcode (node_localName D d n) = nm \<and> transcode (node_namespaceURI D d n) = ns
        \<and> (\<forall>a. node_hasAttribute D d n a \<longleftrightarrow> as a \<noteq> None) \<and> (\<forall>a. transcode (node_getAttribute D d n a) = transcode (as a))
        \<and> map (loc d) (childNodes D d n) = map (\<lambda>i. Some (p @ [i])) [0..<length ks])
     \<and> (\<forall>d n p s. loc d n = Some p \<and> sub_at (tree d) p = Some (Text s) \<longrightarrow> \<not> isElement D d n)"

definition law_attribute ::
  "('d, 'n) dom_ops \<Rightarrow> ('d \<Rightarrow> xml) \<Rightarrow> ('d \<Rightarrow> 'n \<Rightarrow> nat list option) \<Rightarrow> (string \<Rightarrow> bool) \<Rightarrow> (string \<Rightarrow> bool) \<Rightarrow> bool" where
  "law_attribute D tree loc valid legal \<longleftrightarrow>
     (\<forall>d n p ns nm as ks a v. loc d n = Some p \<and> sub_at (tree d) p = Some (Elem ns nm as ks) \<and> valid a \<and> legal v \<longrightarrow>
        (\<exists>d'. node_setAttribute D d n a v = Some d' \<and> tree d' = change p (put_attr a v) (tree d) \<and> loc d' = loc d))"

definition law_append ::
  "('d, 'n) dom_ops \<Rightarrow> ('d \<Rightarrow> xml) \<Rightarrow> ('d \<Rightarrow> 'n \<Rightarrow> nat list option) \<Rightarrow> (string \<Rightarrow> bool) \<Rightarrow> (string \<Rightarrow> bool) \<Rightarrow> bool" where
  "law_append D tree loc valid legal \<longleftrightarrow>
     (\<forall>d n p ns q ns' nm as ks. loc d n = Some p \<and> sub_at (tree d) p = Some (Elem ns' nm as ks) \<and> valid q \<and> legal ns \<longrightarrow>
        (\<exists>c d'. node_appendNew D d n ns q = Some (c, d') \<and> tree d' = change p (add_kid (fresh_elem ns q)) (tree d)
           \<and> loc d' c = Some (p @ [length ks])))"

definition law_prefix :: "('d, 'n) dom_ops \<Rightarrow> ('d \<Rightarrow> xml) \<Rightarrow> ('d \<Rightarrow> 'n \<Rightarrow> nat list option) \<Rightarrow> (string \<Rightarrow> bool) \<Rightarrow> bool" where
  "law_prefix D tree loc valid \<longleftrightarrow>
     (\<forall>d n p ns nm as ks prefix. loc d n = Some p \<and> sub_at (tree d) p = Some (Elem ns nm as ks) \<and> ns \<noteq> [] \<and> valid prefix \<longrightarrow>
        (\<exists>d'. node_setPrefix D d n prefix = Some d' \<and> tree d' = tree d \<and> loc d' = loc d))
     \<and> (\<forall>d n p nm as ks prefix. loc d n = Some p \<and> sub_at (tree d) p = Some (Elem [] nm as ks) \<longrightarrow>
          node_setPrefix D d n prefix = None)"

definition law_text ::
  "('d, 'n) dom_ops \<Rightarrow> ('d \<Rightarrow> xml) \<Rightarrow> ('d \<Rightarrow> 'n \<Rightarrow> nat list option) \<Rightarrow> (string \<Rightarrow> bool) \<Rightarrow> bool" where
  "law_text D tree loc legal \<longleftrightarrow>
     (\<forall>d n p ns nm as ks v. loc d n = Some p \<and> sub_at (tree d) p = Some (Elem ns nm as ks) \<and> v \<noteq> [] \<and> legal v \<longrightarrow>
        (\<exists>d'. node_setTextContent D d n v = Some d' \<and> tree d' = change p (put_text v) (tree d)))"

text \<open>
  XPath on expressions of the documented form that the code splits as they are meant, with names that XML allows,
  prefixes that are bound and values that can be compared.
\<close>

definition step_valid :: "(string \<Rightarrow> bool) \<Rightarrow> (string \<Rightarrow> bool) \<Rightarrow> smap \<Rightarrow> xstep \<Rightarrow> bool" where
  "step_valid valid legal nsc st \<longleftrightarrow>
     step_ok st \<and> \<not> colon_misread st \<and> valid (xlocal st) \<and> legal (part_namespace nsc (part_of st))
     \<and> (xprefix st = [] \<or> valid (xprefix st) \<and> part_namespace nsc (part_of st) \<noteq> [])
     \<and> (case xattr st of
          None \<Rightarrow> True
        | Some (a, v) \<Rightarrow> valid a \<and> (case v of None \<Rightarrow> True | Some s \<Rightarrow> s \<noteq> [] \<and> SQUOTE \<notin> set s \<and> legal s))"

definition last_valid :: "(string \<Rightarrow> bool) \<Rightarrow> xlast \<Rightarrow> bool" where
  "last_valid valid l \<longleftrightarrow> last_ok l \<and> (case l of XText \<Rightarrow> True | XAttr a \<Rightarrow> valid a)"

definition law_xpath :: "('d, 'n) dom_ops \<Rightarrow> ('d \<Rightarrow> xml) \<Rightarrow> (string \<Rightarrow> bool) \<Rightarrow> (string \<Rightarrow> bool) \<Rightarrow> bool" where
  "law_xpath D tree valid legal \<longleftrightarrow>
     (\<forall>d nsc steps l. steps \<noteq> [] \<and> list_all (step_valid valid legal nsc) steps \<and> last_valid valid l \<longrightarrow>
        evaluateXPath D d (context_lookup nsc) (show_xpath steps l)
          = Some (first_of (xpath_values (map (key_of nsc) steps) (last_of l) (tree d))))"

definition dom_laws ::
  "('d, 'n) dom_ops \<Rightarrow> ('d \<Rightarrow> xml) \<Rightarrow> ('d \<Rightarrow> 'n \<Rightarrow> nat list option) \<Rightarrow> (string \<Rightarrow> bool) \<Rightarrow> (string \<Rightarrow> bool) \<Rightarrow> bool" where
  "dom_laws D tree loc valid legal \<longleftrightarrow>
     law_names valid legal \<and> law_create D tree loc valid legal \<and> law_read D tree loc \<and> law_attribute D tree loc valid legal
     \<and> law_append D tree loc valid legal \<and> law_prefix D tree loc valid \<and> law_text D tree loc legal \<and> law_xpath D tree valid legal"

text \<open>Rules from the laws.\<close>

lemma c_str_plain: "NUL \<notin> set s \<Longrightarrow> c_str s = s"
  unfolding c_str_def by (simp add: takeWhile_eq_all_conv) metis

lemma dom_names:
  assumes "dom_laws D tree loc valid legal"
  shows "valid q \<Longrightarrow> xml_name q" "valid q \<Longrightarrow> NUL \<notin> set q" "valid q \<Longrightarrow> c_str q = q" "\<not> valid []"
    and "legal []" "legal v \<Longrightarrow> NUL \<notin> set v" "legal v \<Longrightarrow> c_str v = v"
  using assms by (auto simp: dom_laws_def law_names_def xml_name_def c_str_plain)

lemma dom_create:
  "dom_laws D tree loc valid legal \<Longrightarrow> valid q \<Longrightarrow> legal ns \<Longrightarrow> \<exists>d. newDocument D q ns = Some d \<and> tree d = fresh_elem ns q"
  by (simp add: newDocument_def dom_names) (simp add: dom_laws_def law_create_def)

lemma dom_root: "dom_laws D tree loc valid legal \<Longrightarrow> loc d (documentElement D d) = Some []"
  by (simp add: dom_laws_def law_create_def)

lemma dom_elem:
  assumes "dom_laws D tree loc valid legal" "loc d n = Some p" "sub_at (tree d) p = Some (Elem ns nm as ks)"
  shows "isElement D d n" "getLocalName D d n = nm" "getNamespaceURI D d n = ns"
    "hasAttribute D d n a \<longleftrightarrow> as (c_str a) \<noteq> None" "getAttribute D d n a = transcode (as (c_str a))"
    "map (loc d) (childNodes D d n) = map (\<lambda>i. Some (p @ [i])) [0..<length ks]"
proof -
  have "law_read D tree loc" using assms(1) by (simp add: dom_laws_def)
  with assms(2,3) have "isElement D d n \<and> transcode (node_localName D d n) = nm \<and> transcode (node_namespaceURI D d n) = ns
      \<and> (\<forall>a. node_hasAttribute D d n a \<longleftrightarrow> as a \<noteq> None) \<and> (\<forall>a. transcode (node_getAttribute D d n a) = transcode (as a))
      \<and> map (loc d) (childNodes D d n) = map (\<lambda>i. Some (p @ [i])) [0..<length ks]"
    unfolding law_read_def by blast
  then show "isElement D d n" "getLocalName D d n = nm" "getNamespaceURI D d n = ns"
    "hasAttribute D d n a \<longleftrightarrow> as (c_str a) \<noteq> None" "getAttribute D d n a = transcode (as (c_str a))"
    "map (loc d) (childNodes D d n) = map (\<lambda>i. Some (p @ [i])) [0..<length ks]"
    by (simp_all add: getLocalName_def getNamespaceURI_def hasAttribute_def getAttribute_def)
qed

lemma dom_text:
  "dom_laws D tree loc valid legal \<Longrightarrow> loc d n = Some p \<Longrightarrow> sub_at (tree d) p = Some (Text s) \<Longrightarrow> \<not> isElement D d n"
  by (auto simp: dom_laws_def law_read_def)

lemma dom_setAttribute:
  "dom_laws D tree loc valid legal \<Longrightarrow> loc d n = Some p \<Longrightarrow> sub_at (tree d) p = Some (Elem ns nm as ks) \<Longrightarrow> valid a \<Longrightarrow> legal v \<Longrightarrow>
    \<exists>d'. setAttribute D d n a v = Some d' \<and> tree d' = change p (put_attr a v) (tree d) \<and> loc d' = loc d"
  by (simp add: setAttribute_def dom_names) (simp add: dom_laws_def law_attribute_def)

lemma dom_append:
  "dom_laws D tree loc valid legal \<Longrightarrow> loc d n = Some p \<Longrightarrow> sub_at (tree d) p = Some (Elem ns' nm as ks) \<Longrightarrow> valid q \<Longrightarrow> legal ns \<Longrightarrow>
    \<exists>c d'. appendChildElement D d n q ns = Some (c, d') \<and> tree d' = change p (add_kid (fresh_elem ns q)) (tree d)
      \<and> loc d' c = Some (p @ [length ks])"
  by (simp add: appendChildElement_def dom_names) (simp add: dom_laws_def law_append_def)

lemma dom_setPrefix:
  "dom_laws D tree loc valid legal \<Longrightarrow> loc d n = Some p \<Longrightarrow> sub_at (tree d) p = Some (Elem ns nm as ks) \<Longrightarrow>
    ns \<noteq> [] \<Longrightarrow> valid prefix \<Longrightarrow> \<exists>d'. setPrefix D d n prefix = Some d' \<and> tree d' = tree d \<and> loc d' = loc d"
  by (simp add: setPrefix_def dom_names) (simp add: dom_laws_def law_prefix_def)

lemma dom_setPrefix_none:
  "dom_laws D tree loc valid legal \<Longrightarrow> loc d n = Some p \<Longrightarrow> sub_at (tree d) p = Some (Elem [] nm as ks) \<Longrightarrow>
    setPrefix D d n prefix = None"
  unfolding dom_laws_def law_prefix_def setPrefix_def by blast

lemma dom_setText:
  "dom_laws D tree loc valid legal \<Longrightarrow> loc d n = Some p \<Longrightarrow> sub_at (tree d) p = Some (Elem ns nm as ks) \<Longrightarrow> v \<noteq> [] \<Longrightarrow> legal v \<Longrightarrow>
    \<exists>d'. setTextContent D d n v = Some d' \<and> tree d' = change p (put_text v) (tree d)"
  by (simp add: setTextContent_def dom_names) (simp add: dom_laws_def law_text_def)

lemma step_valid_plain:
  assumes D: "dom_laws D tree loc valid legal" and "step_valid valid legal nsc st"
  shows "NUL \<notin> set (show_step st)"
  using assms(2) dom_names(2) [OF D] dom_names(6) [OF D]
  by (auto simp: step_valid_def show_step_def show_attr_def split: option.splits)

lemma show_xpath_plain:
  assumes D: "dom_laws D tree loc valid legal" and "list_all (step_valid valid legal nsc) steps" "last_valid valid l"
  shows "NUL \<notin> set (show_xpath steps l)"
  using assms(2,3) step_valid_plain [OF D, of nsc] dom_names(2) [OF D]
  by (auto simp: show_xpath_def show_last_def last_valid_def list_all_iff split: xlast.splits)

lemma dom_evaluate:
  assumes "dom_laws D tree loc valid legal" "steps \<noteq> []" "list_all (step_valid valid legal nsc) steps" "last_valid valid l"
  shows "evaluateXPath D d (context_lookup nsc) (c_str (show_xpath steps l))
      = Some (first_of (xpath_values (map (key_of nsc) steps) (last_of l) (tree d)))"
  unfolding c_str_plain [OF show_xpath_plain [OF assms(1,3,4)]] using assms by (simp add: dom_laws_def law_xpath_def)

end
