(* ===== verification/Document_Tree.thy ===== *)
theory Document_Tree
  imports State_Document
begin

text \<open>
  The functions that build documents, on trees: with a DOM that obeys \<open>dom_laws\<close>, the steps of an expression
  lead to the place where \<open>at_path\<close> works (\<open>descend_tree\<close>), and storing at one place leaves what is read at places
  that are apart from it (\<open>values_apart\<close>).  The last is the law of the locale \<open>item_store\<close>, a store with places
  that do not interfere.
\<close>

section \<open>Places in a tree\<close>

lemma change_append: "change (p @ q) g e = change p (change q g) e"
  by (induction p g e rule: change.induct) simp_all

lemma change_change: "change p g (change p h e) = change p (\<lambda>x. g (h x)) e"
proof (induction p h e rule: change.induct)
  case (2 i p h ns nm as ks)
  then show ?case by (cases "i < length ks") (simp_all add: list_update_beyond)
qed simp_all

lemma sub_at_change: "sub_at e p = Some x \<Longrightarrow> sub_at (change p g e) p = Some (g x)"
  by (induction e p rule: sub_at.induct) (simp_all split: if_splits)

lemma sub_at_append: "sub_at e p = Some x \<Longrightarrow> sub_at e (p @ q) = sub_at x q"
  by (induction e p rule: sub_at.induct) (simp_all split: if_splits)

lemma change_cong: "sub_at e p = Some x \<Longrightarrow> g x = h x \<Longrightarrow> change p g e = change p h e"
  by (induction e p rule: sub_at.induct) (simp_all split: if_splits)

lemma change_id: "change p (\<lambda>x. x) e = e"
proof (induction e p rule: sub_at.induct)
  case (2 ns nm as ks i p)
  then show ?case by (cases "i < length ks") (simp_all add: list_update_beyond)
qed simp_all

text \<open>What a sequence of steps finds or creates, and a value stored there.\<close>

definition new_elem :: "xkey \<Rightarrow> xml" where
  "new_elem k = Elem (k_ns k) (k_name k) (\<lambda>a. if a = k_att k \<and> k_att k \<noteq> [] then Some (k_val k) else None) []"

fun in_kids :: "(xml \<Rightarrow> bool) \<Rightarrow> (xml \<Rightarrow> xml) \<Rightarrow> xml \<Rightarrow> xml list \<Rightarrow> xml list" where
  "in_kids m g new [] = [g new]"
| "in_kids m g new (e # es) = (if m e then g e # es else e # in_kids m g new es)"

fun at_path :: "xkey list \<Rightarrow> (xml \<Rightarrow> xml) \<Rightarrow> xml \<Rightarrow> xml" where
  "at_path [] g e = g e"
| "at_path (k # path) g (Elem ns nm as ks) = Elem ns nm as (in_kids (matches k) (at_path path g) (new_elem k) ks)"
| "at_path (k # path) g (Text s) = Text s"

definition put_own :: "string list \<Rightarrow> string \<Rightarrow> xml \<Rightarrow> xml" where
  "put_own l v e = (case l of [] \<Rightarrow> put_text v e | a # _ \<Rightarrow> put_attr a v e)"

lemma in_kids_found:
  "i < length ks \<Longrightarrow> m (ks ! i) \<Longrightarrow> \<forall>j<i. \<not> m (ks ! j) \<Longrightarrow> in_kids m g new ks = ks[i := g (ks ! i)]"
proof (induction ks arbitrary: i)
  case (Cons e es)
  then show ?case
  proof (cases i)
    case (Suc j)
    with Cons.prems have "\<not> m e" "\<forall>j'<j. \<not> m (es ! j')" by force+
    with Suc Cons show ?thesis by simp
  qed simp
qed simp

lemma in_kids_absent: "\<forall>e\<in>set ks. \<not> m e \<Longrightarrow> in_kids m g new ks = ks @ [g new]"
  by (induction ks) simp_all

section \<open>The code on a tree\<close>

lemma key_of_sel:
  "k_ns (key_of nsc st) = part_namespace nsc (part_of st)" "k_name (key_of nsc st) = part_of st ! 1"
  "k_att (key_of nsc st) = part_of st ! 2" "k_val (key_of nsc st) = part_of st ! 3"
  by (simp_all add: key_of_def part_of_def split: option.split prod.split)

lemma part_names: "part_of st ! 0 = xprefix st" "part_of st ! 1 = xlocal st" "part_of st ! Suc 0 = xlocal st"
  by (simp_all add: part_of_def split: option.split prod.split)

text \<open>A key without NUL.\<close>

definition plain_key :: "xkey \<Rightarrow> bool" where
  "plain_key k \<longleftrightarrow> c_str (k_ns k) = k_ns k \<and> c_str (k_name k) = k_name k \<and> c_str (k_att k) = k_att k"

lemma key_plain:
  assumes D: "dom_laws D tree loc valid legal" and "step_valid valid legal nsc st"
  shows "plain_key (key_of nsc st)"
proof -
  have "part_of st ! 2 = [] \<or> valid (part_of st ! 2)"
    using assms(2) by (auto simp: step_valid_def part_of_def split: option.splits)
  then have "c_str (part_of st ! 2) = part_of st ! 2" using dom_names(3) [OF D] by (auto simp: c_str_def)
  with assms(2) dom_names(3,7) [OF D] show ?thesis by (simp add: plain_key_def key_of_sel part_names step_valid_def)
qed

lemma find_child_find:
  "find_child D d att val (getChildrenByLocalNameNS D d n nm ns)
    = find (\<lambda>c. (isElement D d c \<and> getLocalName D d c = c_str nm \<and> getNamespaceURI D d c = c_str ns)
        \<and> (att = [] \<or> hasAttribute D d c att \<and> (val = [] \<or> val = getAttribute D d c att))) (childNodes D d n)"
proof -
  have "find_child D d att val (filter P cs)
    = find (\<lambda>c. P c \<and> (att = [] \<or> hasAttribute D d c att \<and> (val = [] \<or> val = getAttribute D d c att))) cs" for P cs
    by (induction cs) (auto simp: find_child_def)
  then show ?thesis
    by (simp add: getChildrenByLocalNameNS_def xml_equals_def getLocalName_def getNamespaceURI_def)
qed

lemma dom_matches:
  assumes "dom_laws D tree loc valid legal" "loc d c = Some p" "sub_at (tree d) p = Some e" "plain_key k"
  shows "(isElement D d c \<and> getLocalName D d c = c_str (k_name k) \<and> getNamespaceURI D d c = c_str (k_ns k))
        \<and> (k_att k = [] \<or> hasAttribute D d c (k_att k) \<and> (k_val k = [] \<or> k_val k = getAttribute D d c (k_att k)))
    \<longleftrightarrow> matches k e"
proof (cases e)
  case (Text s)
  with dom_text [OF assms(1,2)] assms(3) show ?thesis by simp
next
  case (Elem ns nm as ks)
  with assms(3) have "sub_at (tree d) p = Some (Elem ns nm as ks)" by simp
  from dom_elem [OF assms(1,2) this] assms(4) show ?thesis
    by (cases "as (k_att k)") (auto simp: Elem transcode_def plain_key_def)
qed

text \<open>The look-up of a child is the search for the first child that matches.\<close>

lemma find_child_tree:
  assumes D: "dom_laws D tree loc valid legal" and n: "loc d n = Some p" "sub_at (tree d) p = Some (Elem ns nm as ks)"
    and k: "plain_key k"
  shows "case find_child D d (k_att k) (k_val k) (getChildrenByLocalNameNS D d n (k_name k) (k_ns k)) of
      None \<Rightarrow> \<forall>e\<in>set ks. \<not> matches k e
    | Some c \<Rightarrow> \<exists>i. loc d c = Some (p @ [i]) \<and> i < length ks \<and> matches k (ks ! i) \<and> (\<forall>j<i. \<not> matches k (ks ! j))"
proof -
  define cs where "cs = childNodes D d n"
  define P where "P c \<longleftrightarrow> (isElement D d c \<and> getLocalName D d c = c_str (k_name k) \<and> getNamespaceURI D d c = c_str (k_ns k))
        \<and> (k_att k = [] \<or> hasAttribute D d c (k_att k) \<and> (k_val k = [] \<or> k_val k = getAttribute D d c (k_att k)))" for c
  have m: "map (loc d) cs = map (\<lambda>i. Some (p @ [i])) [0..<length ks]"
    unfolding cs_def by (rule dom_elem(6) [OF D n])
  then have "length (map (loc d) cs) = length (map (\<lambda>i. Some (p @ [i])) [0..<length ks])" by (simp only:)
  then have len: "length cs = length ks" by simp
  have l: "loc d (cs ! i) = Some (p @ [i])" if "i < length ks" for i
  proof -
    have "map (loc d) cs ! i = map (\<lambda>i. Some (p @ [i])) [0..<length ks] ! i" by (simp only: m)
    with that len show ?thesis by simp
  qed
  have P: "P (cs ! i) \<longleftrightarrow> matches k (ks ! i)" if "i < length ks" for i
    unfolding P_def using dom_matches [OF D l [OF that] _ k] sub_at_append [OF n(2), of "[i]"] that by simp
  have "case find P cs of None \<Rightarrow> \<forall>e\<in>set ks. \<not> matches k e
    | Some c \<Rightarrow> \<exists>i. loc d c = Some (p @ [i]) \<and> i < length ks \<and> matches k (ks ! i) \<and> (\<forall>j<i. \<not> matches k (ks ! j))"
  proof (cases "find P cs")
    case None
    then have "\<forall>i<length ks. \<not> P (cs ! i)" using len by (auto simp: find_None_iff)
    with None P show ?thesis by (auto simp: in_set_conv_nth)
  next
    case (Some c)
    then obtain i where i: "i < length ks" "P (cs ! i)" "c = cs ! i" "\<forall>j<i. \<not> P (cs ! j)"
      using len by (auto simp: find_Some_iff)
    with P have "matches k (ks ! i)" "\<forall>j<i. \<not> matches k (ks ! j)" by auto
    with Some i l show ?thesis by auto
  qed
  then show ?thesis by (simp add: find_child_find cs_def P_def [abs_def])
qed

fun is_elem :: "xml \<Rightarrow> bool" where
  "is_elem (Text s) = False"
| "is_elem (Elem ns nm as ks) = True"

lemma is_elem_iff: "is_elem e \<longleftrightarrow> (\<exists>ns nm as ks. e = Elem ns nm as ks)"
  by (cases e) simp_all

lemma matches_elem: "matches k e \<Longrightarrow> is_elem e"
  by (cases e) simp_all

text \<open>A child that is created: the element, its prefix and the attribute of the predicate.\<close>

lemma create_child_tree:
  assumes D: "dom_laws D tree loc valid legal" and n: "loc d n = Some p" "sub_at (tree d) p = Some (Elem ns nm as ks)"
    and st: "step_valid valid legal nsc st"
  shows "\<exists>c d1 d2 d3. appendChildElement D d n (part_of st ! 1) (part_namespace nsc (part_of st)) = Some (c, d1)
    \<and> (if part_of st ! 0 \<noteq> [] then setPrefix D d1 c (part_of st ! 0) else Some d1) = Some d2
    \<and> (if part_of st ! 2 \<noteq> [] then setAttribute D d2 c (part_of st ! 2) (part_of st ! 3) else Some d2) = Some d3
    \<and> loc d3 c = Some (p @ [length ks])
    \<and> tree d3 = change p (\<lambda>_. Elem ns nm as (ks @ [new_elem (key_of nsc st)])) (tree d)"
proof -
  let ?ns = "part_namespace nsc (part_of st)" and ?a = "part_of st ! 2" and ?v = "part_of st ! 3"
  let ?new = "fresh_elem ?ns (xlocal st)"
  have nm: "valid (xlocal st)" "xprefix st = [] \<or> valid (xprefix st) \<and> ?ns \<noteq> []" "legal ?ns" using st by (auto simp: step_valid_def)
  have a: "?a \<noteq> [] \<Longrightarrow> valid ?a" "legal ?v"
    using st dom_names(5) [OF D] by (auto simp: step_valid_def part_of_def split: option.splits)
  obtain c d1 where 1: "appendChildElement D d n (xlocal st) ?ns = Some (c, d1)" "loc d1 c = Some (p @ [length ks])"
      "tree d1 = change p (add_kid ?new) (tree d)" using dom_append [OF D n nm(1,3)] by blast
  have s1: "sub_at (tree d1) (p @ [length ks]) = Some ?new"
    using sub_at_append [OF sub_at_change [OF n(2), of "add_kid ?new"], of "[length ks]"] unfolding 1(3) by simp
  obtain d2 where 2: "(if xprefix st \<noteq> [] then setPrefix D d1 c (xprefix st) else Some d1) = Some d2"
      "tree d2 = tree d1" "loc d2 = loc d1"
  proof (cases "xprefix st = []")
    case False
    with nm(2) dom_setPrefix [OF D 1(2) s1, of "xprefix st"] that show thesis by auto
  qed (simp add: that)
  have s2: "loc d2 c = Some (p @ [length ks])" "sub_at (tree d2) (p @ [length ks]) = Some ?new" using 1(2) s1 2 by simp_all
  obtain d3 where 3: "(if ?a \<noteq> [] then setAttribute D d2 c ?a ?v else Some d2) = Some d3" "loc d3 = loc d2"
      "tree d3 = change (p @ [length ks]) (if ?a \<noteq> [] then put_attr ?a ?v else id) (tree d2)"
  proof (cases "?a = []")
    case True
    then show thesis using that by (simp add: id_def change_id)
  next
    case False
    with dom_setAttribute [OF D s2 a(1) [OF False] a(2)] that show thesis by auto
  qed
  have "tree d3 = change p (\<lambda>x. change [length ks] (if ?a \<noteq> [] then put_attr ?a ?v else id) (add_kid ?new x)) (tree d)"
    unfolding 3(3) 2(2) 1(3) by (simp only: change_append change_change)
  also have "\<dots> = change p (\<lambda>_. Elem ns nm as (ks @ [new_elem (key_of nsc st)])) (tree d)"
    by (rule change_cong [OF n(2)]) (auto simp: new_elem_def key_of_sel part_names fun_eq_iff)
  finally show ?thesis using 1(1) 2(1,3) 3(1,2) s2(1) unfolding part_names by auto
qed

lemma child_step_tree:
  assumes D: "dom_laws D tree loc valid legal" and n: "loc d n = Some p" "sub_at (tree d) p = Some (Elem ns nm as ks)"
    and st: "step_valid valid legal nsc st"
  shows "\<exists>d' c i ks'. child_step D nsc (part_of st) d n = Inr (d', c) \<and> loc d' c = Some (p @ [i])
    \<and> tree d' = change p (\<lambda>_. Elem ns nm as ks') (tree d) \<and> i < length ks' \<and> is_elem (ks' ! i)
    \<and> (\<forall>g. in_kids (matches (key_of nsc st)) g (new_elem (key_of nsc st)) ks = ks'[i := g (ks' ! i)])"
proof -
  let ?k = "key_of nsc st"
  let ?f = "find_child D d (part_of st ! 2) (part_of st ! 3)
    (getChildrenByLocalNameNS D d n (part_of st ! 1) (part_namespace nsc (part_of st)))"
  note found = find_child_tree [OF D n key_plain [OF D st], unfolded key_of_sel]
  show ?thesis
  proof (cases ?f)
    case None
    then have "\<forall>e\<in>set ks. \<not> matches ?k e" using found by simp
    with create_child_tree [OF D n st] None show ?thesis
      by (fastforce simp: child_step_def Let_def in_kids_absent new_elem_def split: option.splits)
  next
    case (Some c)
    then obtain i where i: "loc d c = Some (p @ [i])" "i < length ks" "matches ?k (ks ! i)" "\<forall>j<i. \<not> matches ?k (ks ! j)"
      using found by auto
    have "change p (\<lambda>_. Elem ns nm as ks) (tree d) = change p (\<lambda>x. x) (tree d)" by (rule change_cong [OF n(2)]) simp
    also have "\<dots> = tree d" by (rule change_id)
    finally have t: "tree d = change p (\<lambda>_. Elem ns nm as ks) (tree d)" by (rule sym)
    have "child_step D nsc (part_of st) d n = Inr (d, c)" using Some by (simp add: child_step_def Let_def)
    with i(1,2) t in_kids_found [OF i(2-4)] matches_elem [OF i(3)] show ?thesis by blast
  qed
qed


text \<open>Going down the steps of an expression reaches the place where \<open>at_path\<close> works.\<close>

lemma descend_tree:
  assumes D: "dom_laws D tree loc valid legal"
  shows "loc d n = Some p \<Longrightarrow> sub_at (tree d) p = Some e \<Longrightarrow> is_elem e \<Longrightarrow> list_all (step_valid valid legal nsc) sts \<Longrightarrow>
    \<exists>d' n' q e'. descend D nsc (map part_of sts) d n = Inr (d', n') \<and> loc d' n' = Some q \<and> sub_at (tree d') q = Some e'
      \<and> is_elem e' \<and> (\<forall>g. change q g (tree d') = change p (at_path (map (key_of nsc) sts) g) (tree d))"
proof (induction sts arbitrary: d n p e)
  case Nil
  then show ?case by (auto cong: change_cong)
next
  case (Cons st sts)
  let ?k = "key_of nsc st" and ?path = "map (key_of nsc) sts"
  obtain ns nm as ks where e: "e = Elem ns nm as ks" using Cons.prems(3) by (auto simp: is_elem_iff)
  have n: "sub_at (tree d) p = Some (Elem ns nm as ks)" using Cons.prems(2) e by simp
  obtain d' c i ks' where c: "child_step D nsc (part_of st) d n = Inr (d', c)" "loc d' c = Some (p @ [i])"
      "tree d' = change p (\<lambda>_. Elem ns nm as ks') (tree d)" "i < length ks'" "is_elem (ks' ! i)"
      "\<And>g. in_kids (matches ?k) g (new_elem ?k) ks = ks'[i := g (ks' ! i)]"
    using child_step_tree [OF D Cons.prems(1) n, of nsc st] Cons.prems(4) by auto
  have s: "sub_at (tree d') (p @ [i]) = Some (ks' ! i)"
    using sub_at_append [OF sub_at_change [OF n, of "\<lambda>_. Elem ns nm as ks'"], of "[i]"] c(4) unfolding c(3) by simp
  from Cons.IH [OF c(2) s c(5)] Cons.prems(4) obtain d2 n2 q e2 where
    2: "descend D nsc (map part_of sts) d' c = Inr (d2, n2)" "loc d2 n2 = Some q" "sub_at (tree d2) q = Some e2" "is_elem e2"
      "\<And>g. change q g (tree d2) = change (p @ [i]) (at_path ?path g) (tree d')" by auto
  have "change q g (tree d2) = change p (at_path (?k # ?path) g) (tree d)" for g
  proof -
    have "change q g (tree d2) = change p (\<lambda>_. change [i] (at_path ?path g) (Elem ns nm as ks')) (tree d)"
      unfolding 2(5) c(3) by (simp only: change_append change_change)
    also have "\<dots> = change p (at_path (?k # ?path) g) (tree d)"
      by (rule change_cong [OF n]) (simp add: c(6))
    finally show ?thesis .
  qed
  with c(1) 2 show ?case by (auto simp: err_bind_def)
qed

lemma put_value_tree:
  assumes D: "dom_laws D tree loc valid legal" and n: "loc d n = Some p" "sub_at (tree d) p = Some e" "is_elem e"
    and l: "last_valid valid l" "v \<noteq> []" "legal v"
  shows "\<exists>d'. put_value D (last_of l) v d n = Inr d' \<and> tree d' = change p (put_own (last_of l) v) (tree d)"
proof -
  obtain ns nm as ks where "e = Elem ns nm as ks" using n(3) by (auto simp: is_elem_iff)
  with n(2) have n': "sub_at (tree d) p = Some (Elem ns nm as ks)" by simp
  show ?thesis
  proof (cases l)
    case XText
    with dom_setText [OF D n(1) n' l(2,3)] show ?thesis
      by (auto simp: put_value_def last_of_def put_own_def [abs_def] need_def)
  next
    case (XAttr a)
    with l(1) have "valid a" by (simp add: last_valid_def)
    from dom_setAttribute [OF D n(1) n' this l(3)] XAttr show ?thesis
      by (auto simp: put_value_def last_of_def put_own_def [abs_def] need_def)
  qed
qed


section \<open>Places that do not interfere\<close>

type_synonym place = "xkey list \<times> string list"

definition get_at :: "place \<Rightarrow> xml \<Rightarrow> string option" where
  "get_at pl e = first_of (values_of (fst pl) (snd pl) e)"

definition put_at :: "place \<Rightarrow> string \<Rightarrow> xml \<Rightarrow> xml" where
  "put_at pl v e = at_path (fst pl) (put_own (snd pl) v) e"

text \<open>The attribute that is written is not the one in the predicate of the last step.\<close>

definition clear :: "xkey list \<Rightarrow> string list \<Rightarrow> bool" where
  "clear path l \<longleftrightarrow> (case path of [] \<Rightarrow> True | _ \<Rightarrow> l \<noteq> [k_att (last path)])"

definition good_place :: "place \<Rightarrow> bool" where
  "good_place pl \<longleftrightarrow> clear (fst pl) (snd pl) \<and> length (snd pl) \<le> 1"

text \<open>
  Writing to the first place leaves what is read at the second: the ways part at elements with other names, or at
  the same element and predicates that exclude each other, or the rests of both do not interfere.
\<close>

fun apart :: "xkey list \<Rightarrow> string list \<Rightarrow> xkey list \<Rightarrow> string list \<Rightarrow> bool" where
  "apart [] l [] l' \<longleftrightarrow> l \<noteq> l'"
| "apart [] l (k' # path') l' \<longleftrightarrow> l \<noteq> []"
| "apart (k # path) l [] l' \<longleftrightarrow> True"
| "apart (k # path) l (k' # path') l' \<longleftrightarrow>
     k_ns k \<noteq> k_ns k' \<or> k_name k \<noteq> k_name k'
     \<or> (path \<noteq> [] \<or> l \<noteq> [k_att k'])
       \<and> (k_att k = k_att k' \<and> k_att k \<noteq> [] \<and> k_val k \<noteq> [] \<and> k_val k' \<noteq> [] \<and> k_val k \<noteq> k_val k'
          \<or> (path' \<noteq> [] \<or> l' \<noteq> [k_att k]) \<and> apart path l path' l')"

definition apart_places :: "place \<Rightarrow> place \<Rightarrow> bool" where
  "apart_places pl pl' \<longleftrightarrow> apart (fst pl) (snd pl) (fst pl') (snd pl') \<and> length (snd pl) \<le> 1 \<and> length (snd pl') \<le> 1"

lemma text_runs_None: "text_runs acc (ns @ [None]) = text_runs acc ns"
  by (induction acc ns rule: text_runs.induct) simp_all

lemma new_elem_simps: "is_elem (new_elem k)" "e_ns (new_elem k) = k_ns k" "e_name (new_elem k) = k_name k" "e_kids (new_elem k) = []"
  by (simp_all add: new_elem_def)

lemma matches_new: "matches k (new_elem k)"
  by (auto simp: new_elem_def)

lemma put_own_elem:
  "is_elem e \<Longrightarrow> is_elem (put_own l v e) \<and> e_ns (put_own l v e) = e_ns e \<and> e_name (put_own l v e) = e_name e
    \<and> e_attrs (put_own l v e) = (case l of [] \<Rightarrow> e_attrs e | a # _ \<Rightarrow> (e_attrs e)(a := Some v))
    \<and> e_kids (put_own l v e) = (case l of [] \<Rightarrow> [Text v] | a # _ \<Rightarrow> e_kids e)"
  by (cases e) (simp_all add: put_own_def split: list.split)

lemma at_path_elem:
  "is_elem e \<Longrightarrow> is_elem (at_path path (put_own l v) e)
    \<and> e_ns (at_path path (put_own l v) e) = e_ns e \<and> e_name (at_path path (put_own l v) e) = e_name e
    \<and> e_attrs (at_path path (put_own l v) e)
        = (if path = [] then (case l of [] \<Rightarrow> e_attrs e | a # _ \<Rightarrow> (e_attrs e)(a := Some v)) else e_attrs e)"
proof (cases path)
  case (Cons k path')
  assume "is_elem e"
  with Cons show ?thesis by (cases e) simp_all
qed (simp add: put_own_elem)

text \<open>Storing in a child keeps whether it matches.\<close>

lemma matches_at_path:
  assumes "is_elem e" "path \<noteq> [] \<or> l \<noteq> [k_att k]" "length l \<le> 1"
  shows "matches k (at_path path (put_own l v) e) = matches k e"
proof -
  have m: "matches k x \<longleftrightarrow> e_ns x = k_ns k \<and> e_name x = k_name k
      \<and> (k_att k = [] \<or> (case e_attrs x (k_att k) of None \<Rightarrow> False | Some w \<Rightarrow> k_val k = [] \<or> w = k_val k))"
    if "is_elem x" for x using that by (cases x) simp_all
  note g = at_path_elem [OF assms(1), of path l v]
  then have "e_attrs (at_path path (put_own l v) e) (k_att k) = e_attrs e (k_att k)"
    using assms(2,3) by (auto split: list.splits)
  with g show ?thesis using m [OF assms(1)] m [of "at_path path (put_own l v) e"] by simp
qed

lemma first_of_append: "first_of (xs @ ys) = (case first_of xs of None \<Rightarrow> first_of ys | Some x \<Rightarrow> Some x)"
  by (cases xs) (simp_all add: first_of_def)

definition kid_values :: "xkey \<Rightarrow> xkey list \<Rightarrow> string list \<Rightarrow> xml list \<Rightarrow> string list" where
  "kid_values k path l ks = concat (map (values_of path l) (filter (matches k) ks))"

lemma kid_values_simps:
  "kid_values k path l [] = []"
  "kid_values k path l (e # es) = (if matches k e then values_of path l e else []) @ kid_values k path l es"
  by (simp_all add: kid_values_def)

lemma values_of_Cons: "values_of (k # path) l e = kid_values k path l (e_kids e)"
  by (simp add: kid_values_def)

text \<open>A child that is changed, or created, and what is read of the children.\<close>

lemma kid_values_other:
  assumes "\<And>e. matches k e \<Longrightarrow> kid_values k' path' l' [g e] = kid_values k' path' l' [e]"
    and "kid_values k' path' l' [g new] = []"
  shows "kid_values k' path' l' (in_kids (matches k) g new ks) = kid_values k' path' l' ks"
  using assms by (induction ks) (auto simp: kid_values_simps)

lemma kid_values_same:
  assumes "\<And>e. matches k e \<Longrightarrow> matches k (g e) \<and> first_of (values_of path l (g e)) = Some v"
    and "matches k new"
  shows "first_of (kid_values k path l (in_kids (matches k) g new ks)) = Some v"
  using assms by (induction ks) (auto simp: kid_values_simps first_of_append)

lemma values_of_new:
  assumes "path \<noteq> [] \<or> l \<noteq> [k_att k]" "length l \<le> 1"
  shows "values_of path l (new_elem k) = []"
  using assms by (cases path; cases l) (auto simp: own_values_def new_elem_def)

lemma values_apart:
  "is_elem e \<Longrightarrow> apart path l path' l' \<Longrightarrow> length l \<le> 1 \<Longrightarrow> length l' \<le> 1 \<Longrightarrow>
    values_of path' l' (at_path path (put_own l v) e) = values_of path' l' e"
proof (induction path l path' l' arbitrary: e rule: apart.induct)
  case (1 l l')
  from put_own_elem [OF 1(1), of l v] 1(2-4) show ?case
    by (cases l; cases l') (auto simp: own_values_def)
next
  case (2 l k' path' l')
  from put_own_elem [OF 2(1), of l v] 2(2) show ?case by (cases l) simp_all
next
  case (3 k path l l')
  obtain ns nm as ks where e: "e = Elem ns nm as ks" using 3(1) by (auto simp: is_elem_iff)
  have *: "text_node (at_path path (put_own l v) x) = text_node x" if "is_elem x" for x
    using at_path_elem [OF that, of path l v] that unfolding is_elem_iff by (elim exE conjE) simp
  have n: "text_node (at_path path (put_own l v) (new_elem k)) = None"
    using * [OF new_elem_simps(1)] by (simp add: new_elem_def)
  have "text_runs acc (map text_node (in_kids (matches k) (at_path path (put_own l v)) (new_elem k) ks)) = text_runs acc (map text_node ks)"
    for acc
  proof (induction ks arbitrary: acc)
    case (Cons x xs)
    have "text_node (at_path path (put_own l v) x) = text_node x" if "matches k x" by (rule * [OF matches_elem [OF that]])
    with Cons show ?case by (cases "text_node x") auto
  qed (simp add: n)
  then show ?case by (simp add: e own_values_def split: list.split)
next
  case (4 k path l k' path' l')
  obtain ns nm as ks where e: "e = Elem ns nm as ks" using 4(2) by (auto simp: is_elem_iff)
  let ?g = "at_path path (put_own l v)"
  have g: "kid_values k' path' l' [?g x] = kid_values k' path' l' [x]" if x: "matches k x" for x
  proof -
    note el = matches_elem [OF x]
    note ge = at_path_elem [OF el, of path l v]
    have nm: "e_ns x = k_ns k" "e_name x = k_name k" using x by (cases x; simp)+
    show ?thesis
    proof (cases "k_ns k \<noteq> k_ns k' \<or> k_name k \<noteq> k_name k'")
      case True
      have "\<not> matches k' x" using True nm by (cases x) auto
      moreover have "\<not> matches k' (?g x)" using True nm ge by (cases "?g x") auto
      ultimately show ?thesis by (simp add: kid_values_simps)
    next
      case False
      with 4(3) have m: "matches k' (?g x) = matches k' x" by (intro matches_at_path [OF el _ 4(4)]) auto
      show ?thesis
      proof (cases "matches k' x")
        case True
        have "\<not> (k_att k = k_att k' \<and> k_att k \<noteq> [] \<and> k_val k \<noteq> [] \<and> k_val k' \<noteq> [] \<and> k_val k \<noteq> k_val k')"
          using x True by (cases x) (auto split: option.splits)
        with 4(3) False have "apart path l path' l'" by auto
        from 4(1) [OF el this 4(4,5)] m show ?thesis by (simp add: kid_values_simps)
      qed (simp add: kid_values_simps m)
    qed
  qed
  have "kid_values k' path' l' [?g (new_elem k)] = kid_values k' path' l' [new_elem k]" by (rule g [OF matches_new])
  also have "\<dots> = []"
  proof (cases "matches k' (new_elem k)")
    case True
    then have "\<not> (k_att k = k_att k' \<and> k_att k \<noteq> [] \<and> k_val k \<noteq> [] \<and> k_val k' \<noteq> [] \<and> k_val k \<noteq> k_val k')"
        "k_ns k = k_ns k'" "k_name k = k_name k'" by (auto simp: new_elem_def split: if_splits)
    with 4(3) have "path' \<noteq> [] \<or> l' \<noteq> [k_att k]" by auto
    from values_of_new [OF this 4(5)] show ?thesis by (simp add: kid_values_simps)
  qed (simp add: kid_values_simps)
  finally have "kid_values k' path' l' (in_kids (matches k) ?g (new_elem k) ks) = kid_values k' path' l' ks"
    by (intro kid_values_other g)
  then show ?case unfolding values_of_Cons by (simp add: e)
qed

lemma values_same:
  "is_elem e \<Longrightarrow> clear path l \<Longrightarrow> length l \<le> 1 \<Longrightarrow> v \<noteq> [] \<Longrightarrow>
    first_of (values_of path l (at_path path (put_own l v) e)) = Some v"
proof (induction path arbitrary: e)
  case Nil
  from put_own_elem [OF Nil(1), of l v] Nil(4) show ?case by (cases l) (simp_all add: own_values_def first_of_def)
next
  case (Cons k path)
  obtain ns nm as ks where e: "e = Elem ns nm as ks" using Cons.prems(1) by (auto simp: is_elem_iff)
  have c: "clear path l" "path \<noteq> [] \<or> l \<noteq> [k_att k]" using Cons.prems(2) by (auto simp: clear_def split: list.splits)
  have "matches k (at_path path (put_own l v) x) \<and> first_of (values_of path l (at_path path (put_own l v) x)) = Some v"
    if "matches k x" for x
    using matches_at_path [OF matches_elem [OF that] c(2) Cons.prems(3)] Cons.IH [OF matches_elem [OF that] c(1) Cons.prems(3,4)]
      that by simp
  from kid_values_same [OF this matches_new] show ?case unfolding values_of_Cons by (simp add: e)
qed


text \<open>
  A store whose places do not interfere keeps every item.  This is stated for any store, and holds for
  the places in a tree.
\<close>

definition put_item :: "('p \<Rightarrow> string \<Rightarrow> 's \<Rightarrow> 's) \<Rightarrow> (string \<Rightarrow> 'p) \<Rightarrow> string \<times> string \<Rightarrow> 's \<Rightarrow> 's" where
  "put_item put pl item s = (case item of (n, v) \<Rightarrow> if v = [] then s else put (pl n) v s)"

locale item_store =
  fixes get :: "'p \<Rightarrow> 's \<Rightarrow> string option" and put :: "'p \<Rightarrow> string \<Rightarrow> 's \<Rightarrow> 's"
    and good :: "'p \<Rightarrow> bool" and separate :: "'p \<Rightarrow> 'p \<Rightarrow> bool" and ok :: "'s \<Rightarrow> bool"
  assumes put_ok: "ok s \<Longrightarrow> ok (put p v s)"
    and get_put: "ok s \<Longrightarrow> good p \<Longrightarrow> v \<noteq> [] \<Longrightarrow> get p (put p v s) = Some v"
    and get_put_separate: "ok s \<Longrightarrow> separate p q \<Longrightarrow> get q (put p v s) = get q s"
begin

lemma put_item_ok: "ok s \<Longrightarrow> ok (put_item put pl item s)"
  by (simp add: put_item_def put_ok split: prod.split)

lemma get_absent:
  "ok s \<Longrightarrow> \<forall>(m, w)\<in>set items. w \<noteq> [] \<longrightarrow> separate (pl m) q \<Longrightarrow> get q (fold (put_item put pl) items s) = get q s"
proof (induction items arbitrary: s)
  case (Cons item items)
  have "get q (put_item put pl item s) = get q s"
    using Cons.prems by (auto simp: put_item_def get_put_separate split: prod.splits)
  with Cons put_item_ok [OF Cons.prems(1)] show ?case by simp
qed simp

lemma get_stored:
  "ok s \<Longrightarrow> distinct (map fst items) \<Longrightarrow> (n, v) \<in> set items \<Longrightarrow> v \<noteq> [] \<Longrightarrow> good (pl n) \<Longrightarrow>
    \<forall>(m, w)\<in>set items. m \<noteq> n \<longrightarrow> separate (pl m) (pl n) \<Longrightarrow> get (pl n) (fold (put_item put pl) items s) = Some v"
proof (induction items arbitrary: s)
  case (Cons item items)
  show ?case
  proof (cases "item = (n, v)")
    case True
    then have sep: "\<forall>(m, w)\<in>set items. w \<noteq> [] \<longrightarrow> separate (pl m) (pl n)" using Cons.prems(2,6) by force
    have "put_item put pl item s = put (pl n) v s" using True Cons.prems(4) by (simp add: put_item_def)
    with get_absent [OF put_item_ok [OF Cons.prems(1)] sep, of pl item]
    show ?thesis using get_put [OF Cons.prems(1,5,4)] by simp
  next
    case False
    with Cons.prems Cons.IH [OF put_item_ok [OF Cons.prems(1)]] show ?thesis by simp
  qed
qed simp

end

interpretation places: item_store get_at put_at good_place apart_places is_elem
  by unfold_locales
    (auto simp: get_at_def put_at_def good_place_def apart_places_def at_path_elem values_same values_apart)

end
