(* ===== verification/Document_Properties.thy ===== *)
theory Document_Properties
  imports Document_Tree
begin

text \<open>
  What the documents of states contain and what is read from them (\<open>StateInfo.cpp\<close>), for every DOM that obeys
  \<open>dom_laws\<close>, and the errors that leave a document behind.  The witnesses use \<open>tree_dom\<close>, a DOM whose
  documents are the trees.
\<close>

section \<open>The document of a state\<close>

text \<open>
  A configuration in the documented form: every expression is written from steps below one root and a
  last part.  \<open>exprs_apart\<close> says that no two expressions interfere, and \<open>item_tree\<close> is the tree with all items
  that have a value.
\<close>

definition place_of :: "smap \<Rightarrow> xstep list \<times> xlast \<Rightarrow> place" where
  "place_of nsc c = (map (key_of nsc) (fst c), last_of (snd c))"

definition expr_ok :: "(string \<Rightarrow> bool) \<Rightarrow> (string \<Rightarrow> bool) \<Rightarrow> smap \<Rightarrow> xstep \<Rightarrow> xstep list \<times> xlast \<Rightarrow> string \<Rightarrow> bool" where
  "expr_ok valid legal nsc root c e \<longleftrightarrow>
     e = show_xpath (root # fst c) (snd c) \<and> list_all (step_valid valid legal nsc) (fst c) \<and> last_valid valid (snd c)
     \<and> good_place (place_of nsc c)"

definition root_ok :: "(string \<Rightarrow> bool) \<Rightarrow> (string \<Rightarrow> bool) \<Rightarrow> smap \<Rightarrow> xstep \<Rightarrow> bool" where
  "root_ok valid legal nsc root \<longleftrightarrow> step_valid valid legal nsc root \<and> xattr root = None \<and> xprefix root \<noteq> []"

definition exprs_ok :: "(string \<Rightarrow> bool) \<Rightarrow> (string \<Rightarrow> bool) \<Rightarrow> XPathInfoMapper \<Rightarrow> xstep \<Rightarrow> (string \<Rightarrow> xstep list \<times> xlast) \<Rightarrow> bool" where
  "exprs_ok valid legal xm root cfg \<longleftrightarrow>
     smap_ok (names2exprString xm) \<and> root_ok valid legal (namespacePrefixes xm) root
     \<and> (\<forall>(n, e)\<in>set (names2exprString xm). expr_ok valid legal (namespacePrefixes xm) root (cfg n) e)"

definition exprs_apart :: "XPathInfoMapper \<Rightarrow> (string \<Rightarrow> xstep list \<times> xlast) \<Rightarrow> bool" where
  "exprs_apart xm cfg \<longleftrightarrow>
     (\<forall>(n, e)\<in>set (names2exprString xm). \<forall>(m, e')\<in>set (names2exprString xm).
        n \<noteq> m \<longrightarrow> apart_places (place_of (namespacePrefixes xm) (cfg n)) (place_of (namespacePrefixes xm) (cfg m)))"

definition item_tree :: "XPathInfoMapper \<Rightarrow> xstep \<Rightarrow> (string \<Rightarrow> xstep list \<times> xlast) \<Rightarrow> smap \<Rightarrow> xml" where
  "item_tree xm root cfg items =
     fold (put_item put_at (\<lambda>n. place_of (namespacePrefixes xm) (cfg n))) items
       (fresh_elem (part_namespace (namespacePrefixes xm) (part_of root)) (xlocal root))"

definition items_legal :: "(string \<Rightarrow> bool) \<Rightarrow> smap \<Rightarrow> bool" where
  "items_legal legal items \<longleftrightarrow> (\<forall>(n, v)\<in>set items. legal v)"

definition root_tree :: "('d \<Rightarrow> xml) \<Rightarrow> smap \<Rightarrow> xstep \<Rightarrow> 'd option \<Rightarrow> xml" where
  "root_tree tree nsc root document =
     (case document of None \<Rightarrow> fresh_elem (part_namespace nsc (part_of root)) (xlocal root) | Some d \<Rightarrow> tree d)"

definition is_root :: "smap \<Rightarrow> xstep \<Rightarrow> xml \<Rightarrow> bool" where
  "is_root nsc root e \<longleftrightarrow> is_elem e \<and> e_ns e = part_namespace nsc (part_of root) \<and> e_name e = xlocal root"

lemma is_root_put: "is_root nsc root e \<Longrightarrow> is_root nsc root (put_at pl v e)"
  by (simp add: is_root_def put_at_def at_path_elem)

lemma enter_root_tree:
  assumes D: "dom_laws D tree loc valid legal" and r: "root_ok valid legal nsc root" "is_root nsc root (root_tree tree nsc root document)"
  shows "\<exists>d n. enter_root D nsc (part_of root) document = Inr (d, n) \<and> loc d n = Some [] \<and> tree d = root_tree tree nsc root document"
proof -
  let ?ns = "part_namespace nsc (part_of root)"
  have v: "valid (xlocal root)" "valid (xprefix root)" "?ns \<noteq> []" "legal ?ns" using r(1) by (auto simp: root_ok_def step_valid_def)
  show ?thesis
  proof (cases document)
    case None
    obtain d where 1: "newDocument D (xlocal root) ?ns = Some d" "tree d = fresh_elem ?ns (xlocal root)"
      using dom_create [OF D v(1,4)] by blast
    obtain d' where "setPrefix D d (documentElement D d) (xprefix root) = Some d'" "tree d' = tree d" "loc d' = loc d"
      using dom_setPrefix [OF D dom_root [OF D], of d] 1(2) v(2,3) by fastforce
    with None 1 dom_root [OF D, of d] show ?thesis by (simp add: enter_root_def part_names root_tree_def)
  next
    case (Some d)
    with r(2) obtain as ks where "tree d = Elem ?ns (xlocal root) as ks"
      by (auto simp: is_root_def root_tree_def is_elem_iff)
    then have "sub_at (tree d) [] = Some (Elem ?ns (xlocal root) as ks)" by simp
    from dom_elem [OF D dom_root [OF D] this] dom_root [OF D, of d] Some show ?thesis
      by (simp add: enter_root_def part_names root_tree_def)
  qed
qed

lemma store_item_tree:
  assumes D: "dom_laws D tree loc valid legal" and r: "root_ok valid legal nsc root" "is_root nsc root (root_tree tree nsc root document)"
    and c: "list_all (step_valid valid legal nsc) (fst c)" "last_valid valid (snd c)" and v: "v \<noteq> []" "legal v"
  shows "\<exists>d. store_item D nsc (map part_of (root # fst c) @ [last_of (snd c)]) v document = Inr d
    \<and> tree d = put_at (place_of nsc c) v (root_tree tree nsc root document)"
proof -
  obtain d n where 1: "enter_root D nsc (part_of root) document = Inr (d, n)" "loc d n = Some []"
      "tree d = root_tree tree nsc root document" using enter_root_tree [OF D r] by blast
  have "sub_at (tree d) [] = Some (tree d)" "is_elem (tree d)" using r(2) 1(3) by (simp_all add: is_root_def)
  from descend_tree [OF D 1(2) this c(1)] obtain d' n' q e where 2: "descend D nsc (map part_of (fst c)) d n = Inr (d', n')"
      "loc d' n' = Some q" "sub_at (tree d') q = Some e" "is_elem e"
      "\<And>g. change q g (tree d') = at_path (map (key_of nsc) (fst c)) g (tree d)" by auto
  from put_value_tree [OF D 2(2-4) c(2) v] obtain d'' where "put_value D (last_of (snd c)) v d' n' = Inr d''"
      "tree d'' = change q (put_own (last_of (snd c)) v) (tree d')" by blast
  with 1 2 show ?thesis by (simp add: store_item_def butlast_append put_at_def place_of_def)
qed


lemma is_root_put_item: "is_root nsc root e \<Longrightarrow> is_root nsc root (put_item put_at pl item e)"
  by (simp add: put_item_def is_root_put split: prod.split)

lemma store_items_tree:
  assumes D: "dom_laws D tree loc valid legal" and x: "exprs_ok valid legal xm root cfg"
  shows "\<forall>(n, v)\<in>set items. v \<noteq> [] \<longrightarrow> smap_get (names2exprString xm) n \<noteq> None \<and> legal v \<Longrightarrow>
    is_root (namespacePrefixes xm) root (root_tree tree (namespacePrefixes xm) root document) \<Longrightarrow>
    \<exists>document'. store_items D xm items document = Some (Inr document')
      \<and> root_tree tree (namespacePrefixes xm) root document'
          = fold (put_item put_at (\<lambda>n. place_of (namespacePrefixes xm) (cfg n))) items (root_tree tree (namespacePrefixes xm) root document)
      \<and> (document' = None \<longleftrightarrow> document = None \<and> (\<forall>(n, v)\<in>set items. v = []))"
proof (induction items arbitrary: document)
  case (Cons item items)
  let ?nsc = "namespacePrefixes xm" and ?pl = "\<lambda>n. place_of (namespacePrefixes xm) (cfg n)"
  obtain n v where i: "item = (n, v)" by (cases item)
  show ?case
  proof (cases "v = []")
    case True
    with i Cons.IH [of document] Cons.prems show ?thesis by (simp add: put_item_def)
  next
    case False
    obtain e where e: "smap_get (names2exprString xm) n = Some e" and lv: "legal v" using Cons.prems(1) i False by auto
    then have "(n, e) \<in> set (names2exprString xm)" using x by (simp add: exprs_ok_def smap_get_entry)
    then have eo: "expr_ok valid legal ?nsc root (cfg n) e" and ro: "root_ok valid legal ?nsc root" using x by (auto simp: exprs_ok_def)
    then have split: "splitXPathIntoParts e = Some (Inr (map part_of (root # fst (cfg n)) @ [last_of (snd (cfg n))]))"
      using split_xpath_show [of "root # fst (cfg n)" "snd (cfg n)"]
      by (auto simp: expr_ok_def root_ok_def step_valid_def last_valid_def list_all_iff list_ex_iff)
    from store_item_tree [OF D ro Cons.prems(2) _ _ False lv, of "cfg n"] eo obtain d where
      d: "store_item D ?nsc (map part_of (root # fst (cfg n)) @ [last_of (snd (cfg n))]) v document = Inr d"
      "tree d = put_at (?pl n) v (root_tree tree ?nsc root document)" unfolding expr_ok_def by blast
    then have t: "root_tree tree ?nsc root (Some d) = put_item put_at ?pl item (root_tree tree ?nsc root document)"
      using i False by (simp add: root_tree_def put_item_def)
    have "is_root ?nsc root (root_tree tree ?nsc root (Some d))"
      unfolding t by (rule is_root_put_item [OF Cons.prems(2)])
    from Cons.IH [OF _ this] Cons.prems(1) t show ?thesis using i False e split d(1) by auto
  qed
qed simp

text \<open>Reading: what each place has goes to the items.\<close>

lemma read_items_tree:
  assumes D: "dom_laws D tree loc valid legal" and r: "step_valid valid legal nsc root" "xattr root = None" "is_root nsc root (tree d)"
  shows "\<forall>(n, e)\<in>set xs. expr_ok valid legal nsc root (cfg n) e \<Longrightarrow> distinct (map fst xs) \<Longrightarrow> smap_ok m \<Longrightarrow>
    \<exists>m'. read_items D nsc d xs m = Inr m' \<and> smap_ok m'
      \<and> (\<forall>n. smap_get m' n = (if n \<in> fst ` set xs \<and> get_at (place_of nsc (cfg n)) (tree d) \<notin> {None, Some []}
                              then get_at (place_of nsc (cfg n)) (tree d) else smap_get m n))"
proof (induction xs arbitrary: m)
  case (Cons x xs)
  obtain n e where x: "x = (n, e)" by (cases x)
  let ?v = "get_at (place_of nsc (cfg n)) (tree d)"
  let ?m = "if ?v \<in> {None, Some []} then m else smap_put n (the ?v) m"
  have eo: "expr_ok valid legal nsc root (cfg n) e" using Cons.prems(1) x by simp
  have "matches (key_of nsc root) (tree d)"
    using r by (cases "tree d") (auto simp: is_root_def key_of_def part_of_def)
  then have "evaluateXPath D d (context_lookup nsc) (c_str e) = Some ?v"
    using dom_evaluate [OF D, of "root # fst (cfg n)" nsc "snd (cfg n)" d] eo r(1)
    by (simp add: expr_ok_def xpath_values_def get_at_def place_of_def)
  then have ri: "read_item D nsc d x m = Inr ?m" by (auto simp: read_item_def x split: option.split)
  have "smap_ok ?m" using Cons.prems(3) by (simp add: smap.ok_put)
  moreover have "\<forall>(n, e)\<in>set xs. expr_ok valid legal nsc root (cfg n) e" "distinct (map fst xs)" using Cons.prems by auto
  ultimately obtain m' where m': "read_items D nsc d xs ?m = Inr m'" "smap_ok m'"
      "\<And>k. smap_get m' k = (if k \<in> fst ` set xs \<and> get_at (place_of nsc (cfg k)) (tree d) \<notin> {None, Some []}
                              then get_at (place_of nsc (cfg k)) (tree d) else smap_get ?m k)"
    using Cons.IH [of ?m] by auto
  have "smap_get ?m k = (if k = n \<and> ?v \<notin> {None, Some []} then ?v else smap_get m k)" for k
    using Cons.prems(3) by (auto simp: smap.get_put)
  then have "smap_get m' k = (if k \<in> fst ` set (x # xs) \<and> get_at (place_of nsc (cfg k)) (tree d) \<notin> {None, Some []}
      then get_at (place_of nsc (cfg k)) (tree d) else smap_get m k)" for k
    using m'(3) [of k] by (auto simp: x)
  with m'(1,2) ri show ?case by (intro exI [of _ m']) simp
qed simp

lemma fresh_empty: "values_of path l (fresh_elem ns nm) = []"
  by (cases path; cases l) (simp_all add: own_values_def)


lemma is_root_item_tree: "is_root (namespacePrefixes xm) root (item_tree xm root cfg items)"
proof -
  have "is_root nsc root (fold (put_item put_at pl) items e)" if "is_root nsc root e" for nsc pl e
    using that by (induction items arbitrary: e) (simp_all add: is_root_put_item)
  then show ?thesis by (simp add: item_tree_def is_root_def)
qed

lemma create_tree:
  assumes D: "dom_laws D tree loc valid legal" and x: "exprs_ok valid legal xm root cfg" and s: "state_ok xm s"
    and l: "items_legal legal (info s)" and v: "list_ex (\<lambda>(k, v). v \<noteq> []) (info s)" and n: "doc s = None"
  shows "\<exists>d. getDocument D xm s = Returns (None, s\<lparr>doc := Some d\<rparr>) \<and> tree d = item_tree xm root cfg (info s)"
proof -
  have "\<forall>(n, v)\<in>set (info s). v \<noteq> [] \<longrightarrow> smap_get (names2exprString xm) n \<noteq> None \<and> legal v"
    using s l by (auto simp: state_ok_def smap_get_entry items_legal_def)
  from store_items_tree [OF D x this, of None] obtain document where
    d: "store_items D xm (info s) None = Some (Inr document)" "root_tree tree (namespacePrefixes xm) root document = item_tree xm root cfg (info s)"
      "document \<noteq> None" using v by (auto simp: root_tree_def is_root_def item_tree_def list_ex_iff)
  then show ?thesis using n by (auto simp: getDocument_def createDocumentFromInfo_def root_tree_def)
qed

lemma read_any:
  assumes D: "dom_laws D tree loc valid legal" and x: "smap_ok (names2exprString xm)" "step_valid valid legal (namespacePrefixes xm) root" "xattr root = None"
      "\<forall>(n, e)\<in>set (names2exprString xm). expr_ok valid legal (namespacePrefixes xm) root (cfg n) e"
    and r: "is_root (namespacePrefixes xm) root (tree d)"
  shows "\<exists>s2. read_StateInfo D xm (Some d) w (xlocal root) (part_namespace (namespacePrefixes xm) (part_of root)) t = Inr s2
    \<and> (\<forall>k. smap_get (info s2) k =
        (if smap_get (names2exprString xm) k \<noteq> None
            \<and> get_at (place_of (namespacePrefixes xm) (cfg k)) (tree d) \<notin> {None, Some []}
         then get_at (place_of (namespacePrefixes xm) (cfg k)) (tree d) else None))"
proof -
  let ?nsc = "namespacePrefixes xm"
  from r obtain as ks where "tree d = Elem (part_namespace ?nsc (part_of root)) (xlocal root) as ks"
    by (auto simp: is_root_def is_elem_iff)
  then have "sub_at (tree d) [] = Some (Elem (part_namespace ?nsc (part_of root)) (xlocal root) as ks)" by simp
  note root = dom_elem(2,3) [OF D dom_root [OF D] this]
  have "distinct (map fst (names2exprString xm))" using x(1) by (simp add: smap_ok_def strict_sorted_iff)
  with read_items_tree [OF D x(2,3) r, of "names2exprString xm" cfg "[]"] x(4) obtain m where
    m: "read_items D ?nsc d (names2exprString xm) [] = Inr m"
      "\<And>k. smap_get m k = (if k \<in> fst ` set (names2exprString xm) \<and> get_at (place_of ?nsc (cfg k)) (tree d) \<notin> {None, Some []}
                              then get_at (place_of ?nsc (cfg k)) (tree d) else smap_get [] k)"
    by (auto simp: smap.ok_empty)
  have "k \<in> fst ` set (names2exprString xm) \<longleftrightarrow> smap_get (names2exprString xm) k \<noteq> None" for k
    by (simp add: smap_get_def map_of_eq_None_iff)
  with m(2) have "\<forall>k. smap_get m k = (if smap_get (names2exprString xm) k \<noteq> None
      \<and> get_at (place_of ?nsc (cfg k)) (tree d) \<notin> {None, Some []} then get_at (place_of ?nsc (cfg k)) (tree d) else None)"
    by (simp add: smap.get_empty)
  with m(1) root show ?thesis by (simp add: read_StateInfo_def analyseDocument_def)
qed

lemma read_tree:
  assumes D: "dom_laws D tree loc valid legal" and x: "exprs_ok valid legal xm root cfg" and d: "tree d = item_tree xm root cfg items"
  shows "\<exists>s2. read_StateInfo D xm (Some d) w (xlocal root) (part_namespace (namespacePrefixes xm) (part_of root)) t = Inr s2
    \<and> (\<forall>k. smap_get (info s2) k =
        (if smap_get (names2exprString xm) k \<noteq> None
            \<and> get_at (place_of (namespacePrefixes xm) (cfg k)) (item_tree xm root cfg items) \<notin> {None, Some []}
         then get_at (place_of (namespacePrefixes xm) (cfg k)) (item_tree xm root cfg items) else None))"
  using read_any [OF D, of xm root cfg d w t] x unfolding d by (simp add: is_root_item_tree exprs_ok_def root_ok_def)

text \<open>What the tree has at the place of an item, when no expressions interfere.\<close>

lemma item_at:
  assumes x: "exprs_ok valid legal xm root cfg" and ap: "exprs_apart xm cfg" and s: "state_ok xm s"
    and k: "smap_get (names2exprString xm) k \<noteq> None"
  shows "get_at (place_of (namespacePrefixes xm) (cfg k)) (item_tree xm root cfg (info s))
    = (if getInfo s k = [] then None else Some (getInfo s k))"
proof -
  let ?pl = "\<lambda>n. place_of (namespacePrefixes xm) (cfg n)"
  let ?fresh = "fresh_elem (part_namespace (namespacePrefixes xm) (part_of root)) (xlocal root)"
  have mem: "\<exists>e. (m, e) \<in> set (names2exprString xm)" if "smap_get (names2exprString xm) m \<noteq> None" for m
    using that x by (auto simp: exprs_ok_def smap_get_entry)
  have conf: "smap_get (names2exprString xm) m \<noteq> None" if "(m, w) \<in> set (info s)" for m w
    using that s unfolding state_ok_def by (auto simp: smap_get_entry)
  have apart: "apart_places (?pl m) (?pl k)" if "(m, w) \<in> set (info s)" "m \<noteq> k" for m w
    using mem [OF conf [OF that(1)]] mem [OF k] ap that(2) unfolding exprs_apart_def by fastforce
  have dist: "distinct (map fst (info s))" using s by (simp add: state_ok_def smap_ok_def strict_sorted_iff)
  show ?thesis
  proof (cases "getInfo s k = []")
    case True
    have "\<forall>(m, w)\<in>set (info s). w \<noteq> [] \<longrightarrow> apart_places (?pl m) (?pl k)"
    proof (intro ballI)
      fix item assume i: "item \<in> set (info s)"
      obtain m w where mw: "item = (m, w)" by (cases item)
      have "w = []" if "m = k" using i mw that True s by (simp add: getInfo_def state_ok_def smap_get_entry)
      with apart [of m w] i mw show "case item of (m, w) \<Rightarrow> w \<noteq> [] \<longrightarrow> apart_places (?pl m) (?pl k)" by auto
    qed
    from places.get_absent [where pl = ?pl and s = ?fresh, OF _ this] True show ?thesis
      by (simp add: item_tree_def get_at_def fresh_empty first_of_def)
  next
    case False
    then have i: "(k, getInfo s k) \<in> set (info s)" using s by (auto simp: getInfo_def state_ok_def smap_get_entry split: option.splits)
    have gd: "good_place (?pl k)" using mem [OF k] x by (auto simp: exprs_ok_def expr_ok_def)
    have "\<forall>(m, w)\<in>set (info s). m \<noteq> k \<longrightarrow> apart_places (?pl m) (?pl k)" using apart by auto
    from places.get_stored [where pl = ?pl and s = ?fresh, OF _ dist i False gd this] False show ?thesis
      by (simp add: item_tree_def)
  qed
qed

text \<open>So the items that are read from a document are the ones of the state.\<close>

lemma items_read:
  assumes "exprs_ok valid legal xm root cfg" "exprs_apart xm cfg" "state_ok xm s"
    and e: "smap_get (names2exprString xm) k \<noteq> None \<Longrightarrow> get_at (place_of (namespacePrefixes xm) (cfg k)) e
        = get_at (place_of (namespacePrefixes xm) (cfg k)) (item_tree xm root cfg (info s))"
    and i: "smap_get i k = (if smap_get (names2exprString xm) k \<noteq> None
          \<and> get_at (place_of (namespacePrefixes xm) (cfg k)) e \<notin> {None, Some []}
        then get_at (place_of (namespacePrefixes xm) (cfg k)) e else None)"
  shows "smap_get i k = (if getInfo s k = [] then None else Some (getInfo s k))"
proof (cases "smap_get (names2exprString xm) k")
  case None
  with assms(3) have "smap_get (info s) k = None" unfolding state_ok_def by fastforce
  with None i show ?thesis by (simp add: getInfo_def)
next
  case (Some expr)
  with item_at [OF assms(1-3), of k] e i show ?thesis by simp
qed

section \<open>Properties of the documents\<close>


text \<open>C4: A state survives its document: when no two expressions of the configuration interfere, the state that is read from the
  document of a state has the same value for every item, and has exactly the items whose value is not empty.\<close>

theorem document_roundtrip:
  assumes "dom_laws D tree loc valid legal" and "exprs_ok valid legal xm root cfg" and "exprs_apart xm cfg" and "state_ok xm s"
    and "items_legal legal (info s)" and "doc s = None" and "list_ex (\<lambda>(k, v). v \<noteq> []) (info s)"
  shows "\<exists>d s2. getDocument D xm s = Returns (None, s\<lparr>doc := Some d\<rparr>)
    \<and> read_StateInfo D xm (Some d) w (xlocal root) (part_namespace (namespacePrefixes xm) (part_of root)) t = Inr s2
    \<and> (\<forall>k. getInfo s2 k = getInfo s k \<and> (hasInfo s2 k \<longleftrightarrow> getInfo s k \<noteq> []))"
proof -
  let ?nsc = "namespacePrefixes xm" and ?pl = "\<lambda>n. place_of (namespacePrefixes xm) (cfg n)"
  obtain d where d: "getDocument D xm s = Returns (None, s\<lparr>doc := Some d\<rparr>)" "tree d = item_tree xm root cfg (info s)"
    using create_tree [OF assms(1,2,4,5,7,6)] by blast
  obtain s2 where r: "read_StateInfo D xm (Some d) w (xlocal root) (part_namespace ?nsc (part_of root)) t = Inr s2"
      "\<And>k. smap_get (info s2) k = (if smap_get (names2exprString xm) k \<noteq> None
          \<and> get_at (?pl k) (item_tree xm root cfg (info s)) \<notin> {None, Some []}
         then get_at (?pl k) (item_tree xm root cfg (info s)) else None)"
    using read_tree [OF assms(1,2) d(2), of w t] by blast
  have "smap_get (info s2) k = (if getInfo s k = [] then None else Some (getInfo s k))" for k
    by (rule items_read [OF assms(2-4) refl r(2)])
  with d(1) r(1) show ?thesis by (auto simp: getInfo_def hasInfo_def)
qed


section \<open>Errors that leave a document\<close>

lemma split_ok:
  "step_valid valid legal nsc root \<Longrightarrow> list_all (step_valid valid legal nsc) (fst c) \<Longrightarrow> last_valid valid (snd c) \<Longrightarrow>
    splitXPathIntoParts (show_xpath (root # fst c) (snd c)) = Some (Inr (map part_of (root # fst c) @ [last_of (snd c)]))"
  using split_xpath_show [of "root # fst c" "snd c"] by (simp add: step_valid_def last_valid_def list_all_iff list_ex_iff)

text \<open>The first item that has a value is the one that makes the document.\<close>

lemma store_items_first:
  "list_ex (\<lambda>(k, v). v \<noteq> []) items \<Longrightarrow> \<exists>n v rest. (n, v) \<in> set items \<and> v \<noteq> [] \<and> store_items D xm items None = store_items D xm ((n, v) # rest) None"
proof (induction items)
  case (Cons item items)
  obtain n v where i: "item = (n, v)" by (cases item)
  show ?case
  proof (cases "v = []")
    case True
    with Cons i obtain n' v' rest where "(n', v') \<in> set items" "v' \<noteq> []" "store_items D xm items None = store_items D xm ((n', v') # rest) None"
      by auto
    with True i show ?thesis by (metis list.set_intros(2) store_items.simps(2))
  qed (use i in auto)
qed simp

text \<open>C37: A configuration whose root has no prefix passes every check when it is loaded, and documents with such a root are read as any others; but asking
  for the document of a state with a value ends the program.  The prefix of the new root is
  set without the test that is made for other elements, the DOM refuses a prefix of an element without
  a namespace, and the exception is none that \<open>createDocumentFromInfo\<close> declares.\<close>

theorem root_without_prefix:
  assumes D: "dom_laws D tree loc valid legal"
    and x: "smap_ok (names2exprString xm)" "step_valid valid legal (namespacePrefixes xm) root" "xattr root = None" "xprefix root = []"
      "\<forall>(n, e)\<in>set (names2exprString xm). expr_ok valid legal (namespacePrefixes xm) root (cfg n) e"
    and s: "state_ok xm s" "doc s = None" "list_ex (\<lambda>(k, v). v \<noteq> []) (info s)"
  shows "(\<forall>(n, e)\<in>set (names2exprString xm). \<exists>parts. splitXPathIntoParts e = Some (Inr parts))
    \<and> (is_root (namespacePrefixes xm) root (tree d) \<longrightarrow> (\<exists>s2. read_StateInfo D xm (Some d) w (xlocal root) [] t = Inr s2))
    \<and> getDocument D xm s = Terminated"
proof -
  let ?nsc = "namespacePrefixes xm"
  have ns: "part_namespace ?nsc (part_of root) = []" using x(4) by (simp add: part_namespace_def part_names)
  have split: "splitXPathIntoParts e = Some (Inr (map part_of (root # fst (cfg n)) @ [last_of (snd (cfg n))]))"
    if "(n, e) \<in> set (names2exprString xm)" for n e
    using that x(2,5) split_ok [of valid legal ?nsc root "cfg n"] by (auto simp: expr_ok_def)
  obtain n v rest where f: "(n, v) \<in> set (info s)" "v \<noteq> []" "store_items D xm (info s) None = store_items D xm ((n, v) # rest) None"
    using store_items_first [OF s(3)] by blast
  then obtain e where e: "smap_get (names2exprString xm) n = Some e" using s(1) unfolding state_ok_def by (auto simp: smap_get_entry)
  then have e': "(n, e) \<in> set (names2exprString xm)" using x(1) by (simp add: smap_get_entry)
  obtain d' where d: "newDocument D (xlocal root) [] = Some d'" "tree d' = fresh_elem [] (xlocal root)"
    using dom_create [OF D _ dom_names(5) [OF D], of "xlocal root"] x(2) by (auto simp: step_valid_def)
  have "setPrefix D d' (documentElement D d') [] = None"
    using dom_setPrefix_none [OF D dom_root [OF D], of d'] d(2) by simp
  then have "enter_root D ?nsc (part_of root) None = Inl (Dom_exception, Some d')"
    using d(1) ns x(4) by (simp add: enter_root_def part_names)
  then have "store_item D ?nsc (map part_of (root # fst (cfg n)) @ [last_of (snd (cfg n))]) v None = Inl (Dom_exception, Some d')"
    by (simp add: store_item_def butlast_append)
  then have "store_items D xm (info s) None = Some (Inl (Dom_exception, Some d'))"
    using f(2,3) e split [OF e'] by simp
  then have "getDocument D xm s = Terminated" using s(2) by (simp add: getDocument_def createDocumentFromInfo_def)
  moreover have "\<exists>s2. read_StateInfo D xm (Some d) w (xlocal root) [] t = Inr s2" if "is_root ?nsc root (tree d)"
    using read_any [OF D x(1-3,5) that, of w t] unfolding ns by blast
  ultimately show ?thesis using split by blast
qed

text \<open>Expressions with different roots are refused when the second one is stored, with an error
  that names the difference; but the document with the first item stays in the state, so that a second call of
  \<open>getDocument\<close> returns it without an error.\<close>

theorem roots_differ:
  assumes D: "dom_laws D tree loc valid legal" and r: "root_ok valid legal (namespacePrefixes xm) root" "step_valid valid legal (namespacePrefixes xm) root2"
      "xlocal root2 \<noteq> xlocal root \<or> part_namespace (namespacePrefixes xm) (part_of root2) \<noteq> part_namespace (namespacePrefixes xm) (part_of root)"
    and c: "list_all (step_valid valid legal (namespacePrefixes xm)) (fst c)" "last_valid valid (snd c)"
      "list_all (step_valid valid legal (namespacePrefixes xm)) (fst c2)" "last_valid valid (snd c2)"
    and x: "smap_get (names2exprString xm) n = Some (show_xpath (root # fst c) (snd c))"
      "smap_get (names2exprString xm) n2 = Some (show_xpath (root2 # fst c2) (snd c2))"
    and s: "doc s = None" "info s = (n, v) # (n2, v2) # items" "v \<noteq> []" "v2 \<noteq> []" "legal v"
  shows "\<exists>d. getDocument D xm s
        = Returns (Some (if xlocal root2 \<noteq> xlocal root then Root_name else Root_namespace), s\<lparr>doc := Some d\<rparr>)
    \<and> getDocument D xm (s\<lparr>doc := Some d\<rparr>) = Returns (None, s\<lparr>doc := Some d\<rparr>)
    \<and> tree d = put_at (place_of (namespacePrefixes xm) c) v (fresh_elem (part_namespace (namespacePrefixes xm) (part_of root)) (xlocal root))"
proof -
  let ?nsc = "namespacePrefixes xm"
  let ?e = "if xlocal root2 \<noteq> xlocal root then Root_name else Root_namespace"
  have r1: "is_root ?nsc root (root_tree tree ?nsc root None)" by (simp add: is_root_def root_tree_def)
  obtain d where d: "store_item D ?nsc (map part_of (root # fst c) @ [last_of (snd c)]) v None = Inr d"
      "tree d = put_at (place_of ?nsc c) v (root_tree tree ?nsc root None)"
    using store_item_tree [OF D r(1) r1 c(1,2) s(3,5)] by blast
  have "is_root ?nsc root (tree d)" unfolding d(2) by (rule is_root_put [OF r1])
  then obtain as ks where "tree d = Elem (part_namespace ?nsc (part_of root)) (xlocal root) as ks"
    by (auto simp: is_root_def is_elem_iff)
  then have "sub_at (tree d) [] = Some (Elem (part_namespace ?nsc (part_of root)) (xlocal root) as ks)" by simp
  from dom_elem(2,3) [OF D dom_root [OF D] this]
  have "enter_root D ?nsc (part_of root2) (Some d) = Inl (?e, Some d)"
    using r(3) by (auto simp: enter_root_def part_names)
  then have "store_item D ?nsc (map part_of (root2 # fst c2) @ [last_of (snd c2)]) v2 (Some d) = Inl (?e, Some d)"
    by (simp add: store_item_def butlast_append)
  moreover have "step_valid valid legal ?nsc root" using r(1) by (simp add: root_ok_def)
  ultimately have "store_items D xm (info s) None = Some (Inl (?e, Some d))"
    using s(2-4) x split_ok [OF _ c(1,2), of root] split_ok [OF r(2) c(3,4)] d(1) by simp
  then show ?thesis using s(1) d(2)
    by (intro exI [of _ d]) (simp add: getDocument_def createDocumentFromInfo_def root_tree_def)
qed


section \<open>A DOM\<close>

text \<open>The trees themselves as documents, with places as nodes.  It shows that the laws can hold.\<close>

definition elem_at :: "xml \<Rightarrow> nat list \<Rightarrow> (string \<Rightarrow> string \<Rightarrow> (string \<Rightarrow> string option) \<Rightarrow> xml list \<Rightarrow> 'a) \<Rightarrow> 'a \<Rightarrow> 'a" where
  "elem_at d p g none = (case sub_at d p of Some (Elem ns nm as ks) \<Rightarrow> g ns nm as ks | _ \<Rightarrow> none)"

definition tree_key :: "(string \<Rightarrow> string option) \<Rightarrow> string list \<Rightarrow> xkey" where
  "tree_key look part = Key (if part ! 0 \<noteq> [] then transcode (look (part ! 0)) else []) (part ! 1) (part ! 2) (part ! 3)"

definition tree_evaluate :: "xml \<Rightarrow> (string \<Rightarrow> string option) \<Rightarrow> string \<Rightarrow> string option option" where
  "tree_evaluate d look expr =
     (case splitXPathIntoParts expr of
        Some (Inr parts) \<Rightarrow> Some (first_of (xpath_values (map (tree_key look) (butlast parts)) (last parts) d))
      | _ \<Rightarrow> None)"

definition tree_dom :: "(xml, nat list) dom_ops" where
  "tree_dom =
     \<lparr>createDocument = (\<lambda>ns q. Some (fresh_elem ns q)),
      documentElement = (\<lambda>d. []),
      childNodes = (\<lambda>d p. elem_at d p (\<lambda>ns nm as ks. map (\<lambda>i. p @ [i]) [0..<length ks]) []),
      isElement = (\<lambda>d p. elem_at d p (\<lambda>ns nm as ks. True) False),
      node_localName = (\<lambda>d p. elem_at d p (\<lambda>ns nm as ks. Some nm) None),
      node_namespaceURI = (\<lambda>d p. elem_at d p (\<lambda>ns nm as ks. Some ns) None),
      node_hasAttribute = (\<lambda>d p a. elem_at d p (\<lambda>ns nm as ks. as a \<noteq> None) False),
      node_getAttribute = (\<lambda>d p a. elem_at d p (\<lambda>ns nm as ks. as a) None),
      node_setAttribute = (\<lambda>d p a v. Some (change p (put_attr a v) d)),
      node_appendNew = (\<lambda>d p ns q. elem_at d p (\<lambda>ns' nm as ks. Some (p @ [length ks], change p (add_kid (fresh_elem ns q)) d)) None),
      node_setPrefix = (\<lambda>d p prefix. elem_at d p (\<lambda>ns nm as ks. if ns = [] then None else Some d) None),
      node_setTextContent = (\<lambda>d p v. Some (change p (put_text v) d)),
      evaluateXPath = tree_evaluate\<rparr>"

lemma tree_key_of: "tree_key (context_lookup nsc) (part_of st) = key_of nsc st"
  by (simp add: tree_key_def key_of_def part_names part_namespace_def context_lookup_def context_getNamespaceURI_def transcode_def)

lemma tree_evaluate_show:
  "steps \<noteq> [] \<Longrightarrow> list_all (step_valid valid legal nsc) steps \<Longrightarrow> last_valid valid l \<Longrightarrow>
    tree_evaluate d (context_lookup nsc) (show_xpath steps l)
      = Some (first_of (xpath_values (map (key_of nsc) steps) (last_of l) d))"
  using split_xpath_show [of steps l]
  by (simp add: tree_evaluate_def step_valid_def last_valid_def list_all_iff list_ex_iff butlast_append tree_key_of comp_def)

lemma tree_dom_laws_names:
  assumes "law_names valid legal"
  shows "dom_laws tree_dom (\<lambda>d. d) (\<lambda>d p. Some p) valid legal"
  unfolding dom_laws_def
proof (intro conjI)
  show "law_read tree_dom (\<lambda>d. d) (\<lambda>d p. Some p)"
    by (simp add: law_read_def tree_dom_def elem_at_def transcode_def)
  show "law_append tree_dom (\<lambda>d. d) (\<lambda>d p. Some p) valid legal"
    by (simp add: law_append_def tree_dom_def elem_at_def)
  show "law_xpath tree_dom (\<lambda>d. d) valid legal"
    unfolding law_xpath_def using tree_evaluate_show by (auto simp: tree_dom_def)
qed (use assms in \<open>simp_all add: tree_dom_def elem_at_def law_create_def law_attribute_def law_prefix_def law_text_def\<close>)

abbreviation no_nul :: "string \<Rightarrow> bool" where
  "no_nul v \<equiv> NUL \<notin> set v"

lemma tree_dom_laws: "dom_laws tree_dom (\<lambda>d. d) (\<lambda>d p. Some p) xml_name no_nul"
  by (rule tree_dom_laws_names) (simp add: law_names_def xml_name_def)

section \<open>The configuration of the project\<close>

text \<open>
  The section \<open>DialogState\<close> of \<open>stateinfo.config\<close>, and the expressions for faces of its section \<open>UserState\<close>.
\<close>

definition dialog_xm :: XPathInfoMapper where
  "dialog_xm = \<lparr>namespacePrefixes = [(''semaine'', ''http://www.semaine-project.eu/semaineml'')],
     names2exprString =
      [(''agentTurnState'', ''/semaine:dialog-state/semaine:agent/@believesHasTurn''),
       (''convState'', ''/semaine:dialog-state/semaine:agent/@convState''),
       (''userTurnState'', ''/semaine:dialog-state/semaine:user/@believesHasTurn'')]\<rparr>"

definition dialog_root :: xstep where
  "dialog_root = XStep ''semaine'' ''dialog-state'' None"

definition dialog_cfg :: "string \<Rightarrow> xstep list \<times> xlast" where
  "dialog_cfg n =
     ([XStep ''semaine'' (if n = ''userTurnState'' then ''user'' else ''agent'') None],
      XAttr (if n = ''convState'' then ''convState'' else ''believesHasTurn''))"

definition face_xm :: XPathInfoMapper where
  "face_xm = \<lparr>namespacePrefixes = [(''bml'', ''http://www.mindmakers.org/projects/BML''),
       (''semaine'', ''http://www.semaine-project.eu/semaineml'')],
     names2exprString =
      [(''facialActionUnits'', ''/semaine:user-state/bml:bml/bml:face/@au''),
       (''facialActionUnitsStarted'', ''/semaine:user-state/bml:bml/bml:face[@au]/@start''),
       (''facialExpression'', ''/semaine:user-state/bml:bml/bml:face/@shape''),
       (''facialExpressionStarted'', ''/semaine:user-state/bml:bml/bml:face[@shape]/@start'')]\<rparr>"

definition face_root :: xstep where
  "face_root = XStep ''semaine'' ''user-state'' None"

definition face_cfg :: "string \<Rightarrow> xstep list \<times> xlast" where
  "face_cfg n =
     (XStep ''bml'' ''bml'' None #
      (if n = ''facialActionUnits'' then [XStep ''bml'' ''face'' None]
       else if n = ''facialActionUnitsStarted'' then [XStep ''bml'' ''face'' (Some (''au'', None))]
       else if n = ''facialExpression'' then [XStep ''bml'' ''face'' None]
       else [XStep ''bml'' ''face'' (Some (''shape'', None))]),
      XAttr (if n = ''facialActionUnits'' then ''au'' else if n = ''facialExpression'' then ''shape'' else ''start''))"

lemmas written_defs = exprs_ok_def root_ok_def expr_ok_def step_valid_def last_valid_def step_ok_def name_ok_def attr_ok_def
  colon_misread_def ahead_def
  last_ok_def good_place_def place_of_def clear_def key_of_def part_of_def last_of_def part_namespace_def
  context_getNamespaceURI_def smap_get_def show_xpath_def show_step_def show_attr_def show_last_def

lemma dialog_ok: "list_all valid [''semaine'', ''dialog-state'', ''agent'', ''user'', ''believesHasTurn'', ''convState''] \<Longrightarrow>
    legal ''http://www.semaine-project.eu/semaineml'' \<Longrightarrow> exprs_ok valid legal dialog_xm dialog_root dialog_cfg"
  by (simp add: written_defs dialog_xm_def dialog_root_def dialog_cfg_def smap_ok_def)

lemma dialog_apart: "exprs_apart dialog_xm dialog_cfg"
  by (simp add: exprs_apart_def apart_places_def place_of_def dialog_xm_def dialog_cfg_def key_of_def part_of_def last_of_def)

lemma face_ok: "list_all valid [''semaine'', ''bml'', ''user-state'', ''face'', ''au'', ''shape'', ''start''] \<Longrightarrow>
    list_all legal [''http://www.semaine-project.eu/semaineml'', ''http://www.mindmakers.org/projects/BML''] \<Longrightarrow>
    exprs_ok valid legal face_xm face_root face_cfg"
  by (simp add: written_defs face_xm_def face_root_def face_cfg_def smap_ok_def)


lemma state_ok_keys:
  "smap_ok (info s) \<Longrightarrow> set (map fst (info s)) \<subseteq> set (map fst (names2exprString xm)) \<Longrightarrow> state_ok xm s"
  by (auto simp: state_ok_def smap_get_def map_of_eq_None_iff subset_iff image_iff dest!: map_of_SomeD) force

definition face_places :: "string \<Rightarrow> string \<Rightarrow> place" where
  "face_places b n =
     ([Key b ''bml'' [] [],
       Key b ''face'' (if n = ''facialActionUnitsStarted'' then ''au'' else if n = ''facialExpressionStarted'' then ''shape'' else []) []],
      [if n = ''facialActionUnits'' then ''au'' else if n = ''facialExpression'' then ''shape'' else ''start''])"

definition face_tree :: "string \<Rightarrow> string \<Rightarrow> string \<Rightarrow> string \<Rightarrow> string \<Rightarrow> string \<Rightarrow> xml" where
  "face_tree b x y au shape start =
     Elem x y (\<lambda>_. None) [Elem b ''bml'' (\<lambda>_. None)
       [Elem b ''face'' (\<lambda>a. if a = ''start'' then Some start else if a = ''shape'' then Some shape else if a = ''au'' then Some au else None) []]]"

lemma face_tree_built:
  "put_at (face_places b ''facialExpressionStarted'') shape_start (put_at (face_places b ''facialExpression'') shape
    (put_at (face_places b ''facialActionUnitsStarted'') au_start (put_at (face_places b ''facialActionUnits'') au (fresh_elem x y))))
   = face_tree b x y au shape shape_start"
  by (simp add: put_at_def put_own_def new_elem_def face_places_def face_tree_def fun_eq_iff)

lemma face_tree_read:
  "get_at (face_places b ''facialActionUnits'') (face_tree b x y au shape start) = Some au"
  "get_at (face_places b ''facialExpression'') (face_tree b x y au shape start) = Some shape"
  "get_at (face_places b ''facialActionUnitsStarted'') (face_tree b x y au shape start) = Some start"
  "get_at (face_places b ''facialExpressionStarted'') (face_tree b x y au shape start) = Some start"
  by (simp_all add: get_at_def own_values_def first_of_def face_places_def face_tree_def)

lemma face_place_of:
  "n \<in> {''facialActionUnits'', ''facialExpression'', ''facialActionUnitsStarted'', ''facialExpressionStarted''} \<Longrightarrow>
    place_of (namespacePrefixes face_xm) (face_cfg n) = face_places ''http://www.mindmakers.org/projects/BML'' n"
  by (auto simp: place_of_def face_cfg_def face_places_def key_of_def part_of_def last_of_def part_namespace_def
      context_getNamespaceURI_def smap_get_def face_xm_def)

lemma face_configured:
  "smap_get (names2exprString face_xm) ''facialActionUnits'' \<noteq> None"
  "smap_get (names2exprString face_xm) ''facialExpression'' \<noteq> None"
  "smap_get (names2exprString face_xm) ''facialActionUnitsStarted'' \<noteq> None"
  "smap_get (names2exprString face_xm) ''facialExpressionStarted'' \<noteq> None"
  by (simp_all add: face_xm_def smap_get_def)

lemma face_root_names:
  "xlocal face_root = ''user-state''"
  "part_namespace (namespacePrefixes face_xm) (part_of face_root) = ''http://www.semaine-project.eu/semaineml''"
  by (simp_all add: face_root_def face_xm_def part_of_def part_namespace_def context_getNamespaceURI_def smap_get_def)

definition face_state :: "string \<Rightarrow> string \<Rightarrow> string \<Rightarrow> string \<Rightarrow> 'd StateInfo" where
  "face_state au au_start shape shape_start =
     \<lparr>stateName = ''UserState'', si_type = UserState,
      info = [(''facialActionUnits'', au), (''facialActionUnitsStarted'', au_start), (''facialExpression'', shape),
              (''facialExpressionStarted'', shape_start)], doc = None\<rparr>"

lemma face_state_ok: "state_ok face_xm (face_state au au_start shape shape_start)"
  by (rule state_ok_keys) (simp_all add: face_state_def face_xm_def smap_ok_def)

lemma face_item_tree:
  assumes "au \<noteq> []" "au_start \<noteq> []" "shape \<noteq> []" "shape_start \<noteq> []"
  shows "item_tree face_xm face_root face_cfg (info (face_state au au_start shape shape_start))
    = face_tree ''http://www.mindmakers.org/projects/BML'' ''http://www.semaine-project.eu/semaineml'' ''user-state'' au shape shape_start"
  using assms by (simp add: item_tree_def face_root_names face_state_def put_item_def face_place_of face_tree_built)


text \<open>C38: In the configuration of the project two expressions for faces interfere: a state with
  action units, an expression of the face and a start time of each comes back from its document with the start time of the expression for both, because
  both are put into one element, which has both attributes.\<close>

theorem face_starts_mixed:
  fixes D :: "('d, 'n) dom_ops"
  assumes "dom_laws D tree loc valid legal" and "list_all valid [''semaine'', ''bml'', ''user-state'', ''face'', ''au'', ''shape'', ''start'']"
    and "list_all legal [''http://www.semaine-project.eu/semaineml'', ''http://www.mindmakers.org/projects/BML'']"
    and "list_all legal [au, au_start, shape, shape_start]"
    and "au \<noteq> []" "au_start \<noteq> []" "shape \<noteq> []" "shape_start \<noteq> []"
  shows "\<exists>d s2. getDocument D face_xm (face_state au au_start shape shape_start)
        = Returns (None, (face_state au au_start shape shape_start)\<lparr>doc := Some d\<rparr>)
    \<and> read_StateInfo D face_xm (Some d) ''UserState'' ''user-state'' ''http://www.semaine-project.eu/semaineml'' UserState = Inr s2
    \<and> getInfo s2 ''facialActionUnits'' = au \<and> getInfo s2 ''facialExpression'' = shape
    \<and> getInfo s2 ''facialExpressionStarted'' = shape_start \<and> getInfo s2 ''facialActionUnitsStarted'' = shape_start"
proof -
  let ?s = "face_state au au_start shape shape_start :: 'd StateInfo"
  note ok = face_ok [OF assms(2,3)]
  have "items_legal legal (info ?s)" "list_ex (\<lambda>(k, v). v \<noteq> []) (info ?s)" "doc ?s = None"
    using assms(4,5) by (simp_all add: face_state_def items_legal_def)
  from create_tree [OF assms(1) ok face_state_ok this] obtain d where d: "getDocument D face_xm ?s = Returns (None, ?s\<lparr>doc := Some d\<rparr>)" "tree d = item_tree face_xm face_root face_cfg (info ?s)"
    by (elim exE conjE)
  from read_tree [OF assms(1) ok d(2), of "''UserState''" UserState, unfolded face_root_names face_item_tree [OF assms(5-8)]]
  obtain s2 where r: "read_StateInfo D face_xm (Some d) ''UserState'' ''user-state'' ''http://www.semaine-project.eu/semaineml'' UserState = Inr s2"
      "\<And>k. smap_get (info s2) k = (let v = get_at (place_of (namespacePrefixes face_xm) (face_cfg k)) (face_tree
          ''http://www.mindmakers.org/projects/BML'' ''http://www.semaine-project.eu/semaineml'' ''user-state'' au shape shape_start)
        in if smap_get (names2exprString face_xm) k \<noteq> None \<and> v \<notin> {None, Some []} then v else None)"
    unfolding Let_def by blast
  have "getInfo s2 ''facialActionUnits'' = au \<and> getInfo s2 ''facialExpression'' = shape
    \<and> getInfo s2 ''facialExpressionStarted'' = shape_start \<and> getInfo s2 ''facialActionUnitsStarted'' = shape_start"
    using assms(5,7,8) by (simp add: getInfo_def r(2) face_place_of face_tree_read face_configured)
  with d(1) r(1) show ?thesis by blast
qed

theorem face_starts_mixed_witness:
  "\<exists>d s2. getDocument tree_dom face_xm (face_state ''AU12'' ''3'' ''smile'' ''7'') = Returns (None, (face_state ''AU12'' ''3'' ''smile'' ''7'')\<lparr>doc := Some d\<rparr>)
    \<and> read_StateInfo tree_dom face_xm (Some d) ''UserState'' ''user-state'' ''http://www.semaine-project.eu/semaineml'' UserState = Inr s2
    \<and> getInfo s2 ''facialActionUnitsStarted'' = ''7''"
  using face_starts_mixed [OF tree_dom_laws, of "''AU12''" "''3''" "''smile''" "''7''"] by (auto simp: xml_name_def is_declaration_def)

section \<open>Witnesses\<close>

definition dialog_state :: "'d StateInfo" where
  "dialog_state = \<lparr>stateName = ''DialogState'', si_type = DialogState,
     info = [(''agentTurnState'', ''true''), (''convState'', []), (''userTurnState'', ''false'')], doc = None\<rparr>"

lemma dialog_state_ok: "state_ok dialog_xm dialog_state"
  by (rule state_ok_keys) (simp_all add: dialog_state_def dialog_xm_def smap_ok_def)

lemma dialog_state_some: "items_legal no_nul (info dialog_state)" "doc dialog_state = None" "list_ex (\<lambda>(k, v). v \<noteq> []) (info dialog_state)"
  by (simp_all add: dialog_state_def items_legal_def)

lemma dialog_ok_tree: "exprs_ok xml_name no_nul dialog_xm dialog_root dialog_cfg"
  by (rule dialog_ok) (simp_all add: xml_name_def is_declaration_def)


theorem document_roundtrip_witness:
  "\<exists>d s2. getDocument tree_dom dialog_xm dialog_state = Returns (None, dialog_state\<lparr>doc := Some d\<rparr>)
    \<and> read_StateInfo tree_dom dialog_xm (Some d) ''DialogState'' ''dialog-state'' ''http://www.semaine-project.eu/semaineml'' DialogState = Inr s2
    \<and> getInfo s2 ''agentTurnState'' = ''true'' \<and> getInfo s2 ''userTurnState'' = ''false'' \<and> \<not> hasInfo s2 ''convState''"
proof -
  have rt: "xlocal dialog_root = ''dialog-state''"
      "part_namespace (namespacePrefixes dialog_xm) (part_of dialog_root) = ''http://www.semaine-project.eu/semaineml''"
    by (simp_all add: dialog_root_def dialog_xm_def part_of_def part_namespace_def context_getNamespaceURI_def smap_get_def)
  have v: "getInfo (dialog_state :: xml StateInfo) ''agentTurnState'' = ''true''"
      "getInfo (dialog_state :: xml StateInfo) ''userTurnState'' = ''false''" "getInfo (dialog_state :: xml StateInfo) ''convState'' = []"
    by (simp_all add: getInfo_def dialog_state_def smap_get_def)
  show ?thesis
    using document_roundtrip [OF tree_dom_laws dialog_ok_tree dialog_apart dialog_state_ok dialog_state_some,
        of "''DialogState''" DialogState, unfolded rt] v by metis
qed

text \<open>A configuration whose second expression has another root, and one whose root has no prefix.\<close>

definition ex_xm :: XPathInfoMapper where
  "ex_xm = \<lparr>namespacePrefixes = [(''s'', ''http://semaine'')],
     names2exprString = [(''a'', ''/s:x/@u''), (''b'', ''/s:y/@u''), (''c'', ''/z/@u'')]\<rparr>"

theorem roots_differ_witness:
  "\<exists>d. getDocument tree_dom ex_xm \<lparr>stateName = ''S'', si_type = UserState, info = [(''a'', ''1''), (''b'', ''2'')], doc = None\<rparr>
        = Returns (Some Root_name, \<lparr>stateName = ''S'', si_type = UserState, info = [(''a'', ''1''), (''b'', ''2'')], doc = Some d\<rparr>)
    \<and> d = Elem ''http://semaine'' ''x'' [''u'' \<mapsto> ''1''] []"
  using roots_differ [OF tree_dom_laws, of ex_xm "XStep ''s'' ''x'' None" "XStep ''s'' ''y'' None" "([], XAttr ''u'')"
      "([], XAttr ''u'')" "''a''" "''b''" "\<lparr>stateName = ''S'', si_type = UserState, info = [(''a'', ''1''), (''b'', ''2'')], doc = None\<rparr>"
      "''1''" "''2''" "[]"]
  by (simp add: written_defs ex_xm_def put_at_def put_own_def xml_name_def is_declaration_def)

text \<open>A configuration in which no root has a prefix, and a document with such a root.\<close>

definition bare_xm :: XPathInfoMapper where
  "bare_xm = \<lparr>namespacePrefixes = [], names2exprString = [(''c'', ''/z/@u'')]\<rparr>"

theorem root_without_prefix_witness:
  "(\<exists>s2. read_StateInfo tree_dom bare_xm (Some (Elem [] ''z'' [''u'' \<mapsto> ''1''] [])) ''S'' ''z'' [] UserState = Inr s2)
    \<and> getDocument tree_dom bare_xm \<lparr>stateName = ''S'', si_type = UserState, info = [(''c'', ''1'')], doc = None\<rparr> = Terminated"
proof -
  have "state_ok bare_xm \<lparr>stateName = ''S'', si_type = UserState, info = [(''c'', ''1'')], doc = None :: xml option\<rparr>"
    by (rule state_ok_keys) (simp_all add: bare_xm_def smap_ok_def)
  from root_without_prefix [OF tree_dom_laws, of bare_xm "XStep [] ''z'' None" "\<lambda>_. ([], XAttr ''u'')", OF _ _ _ _ _ this,
      of "Elem [] ''z'' [''u'' \<mapsto> ''1''] []" "''S''" UserState]
  show ?thesis
    by (simp add: written_defs bare_xm_def xml_name_def is_declaration_def smap_ok_def is_root_def)
qed

end
