(* ===== verification/Cms_Logger.thy ===== *)
theory Cms_Logger
  imports Cpp_String
begin

text \<open>
  The loggers of SEMAINE (\<open>cms/CMSLogger.cpp\<close>): one for every source, all on one connection and session that the first
  one sets up, and the standard error output when there is no session.  Loggers are records in a store with addresses, as components keep pointers to them
  and delete them.  What the middleware does is a parameter of each operation; \<open>None\<close> is an access
  through \<open>NULL\<close> or to a logger that was deleted.
\<close>

section \<open>Loggers\<close>

datatype level = Error | Warn | Info | Debug

fun level_name :: "level \<Rightarrow> string" where
  "level_name Error = ''error''"
| "level_name Warn = ''warn''"
| "level_name Info = ''info''"
| "level_name Debug = ''debug''"

text \<open>A producer is known by the session that made it; \<open>None\<close> is \<open>NULL\<close>.\<close>

record logger =
  lg_source :: string
  lg_producer :: "level \<Rightarrow> nat option"

text \<open>\<open>sessions\<close> counts the sessions made so far; a key of \<open>registry\<close> may have the value \<open>NULL\<close>.\<close>

record log_state =
  connection :: bool
  session :: "nat option"
  sessions :: nat
  registry :: "string \<Rightarrow> nat option"
  store :: "nat \<Rightarrow> logger option"
  next_address :: nat

definition initial_log :: log_state where
  "initial_log = \<lparr>connection = False, session = None, sessions = 0, registry = (\<lambda>_. None), store = (\<lambda>_. None), next_address = 0\<rparr>"

text \<open>Where setting up stops: no connection, no session, or nowhere.\<close>

datatype set_up = No_connection | No_session | Set_up

definition set_up_connection :: "set_up \<Rightarrow> log_state \<Rightarrow> log_state" where
  "set_up_connection w s =
     (if connection s then s
      else case w of
          No_connection \<Rightarrow> s
        | No_session \<Rightarrow> s\<lparr>connection := True\<rparr>
        | Set_up \<Rightarrow> s\<lparr>connection := True, session := Some (sessions s), sessions := sessions s + 1\<rparr>)"

text \<open>The producers are made in this order, until an exception; \<open>made\<close> is how many there are then.\<close>

fun order_of :: "level \<Rightarrow> nat" where
  "order_of Error = 0"
| "order_of Warn = 1"
| "order_of Info = 2"
| "order_of Debug = 3"

definition new_logger :: "nat \<Rightarrow> nat option \<Rightarrow> string \<Rightarrow> logger" where
  "new_logger made sess src =
     \<lparr>lg_source = src, lg_producer = (\<lambda>l. if order_of l < made then sess else None)\<rparr>"

definition getLog :: "set_up \<Rightarrow> nat \<Rightarrow> string \<Rightarrow> log_state \<Rightarrow> nat \<times> log_state" where
  "getLog w made src s =
     (case registry s src of
        Some a \<Rightarrow> (a, s)
      | None \<Rightarrow>
          let s1 = set_up_connection w s; a = next_address s1
          in (a, s1\<lparr>store := (store s1)(a := Some (new_logger made (session s1) src)),
                    registry := (registry s1)(src := Some a), next_address := a + 1\<rparr>))"

definition delete_logger :: "nat \<Rightarrow> log_state \<Rightarrow> log_state option" where
  "delete_logger a s =
     map_option (\<lambda>l. s\<lparr>registry := (registry s)(lg_source l := None), store := (store s)(a := None),
                       session := None, connection := False\<rparr>) (store s a)"

text \<open>The text of an exception is added to the message; an exception of CMS has a trace too.\<close>

datatype exn = Cms_exn string string | Other_exn string

definition toLogMessageText :: "string \<Rightarrow> exn option \<Rightarrow> string" where
  "toLogMessageText message exc =
     (case exc of
        None \<Rightarrow> message
      | Some (Cms_exn m trace) \<Rightarrow> message @ '' '' @ m @ '' '' @ trace
      | Some (Other_exn what) \<Rightarrow> message @ '' '' @ what)"

text \<open>A line of the log: sent by a producer, or printed with its level.\<close>

datatype log_line = Sent nat level string | Printed string

text \<open>
  \<open>creates\<close> says whether the session makes the message and \<open>sends\<close> whether a producer of a session can send it; otherwise they
  throw.  The message is made before the producer is used.
\<close>

definition log_message :: "bool \<Rightarrow> (nat \<Rightarrow> bool) \<Rightarrow> nat \<Rightarrow> level \<Rightarrow> string \<Rightarrow> exn option \<Rightarrow> log_state \<Rightarrow> log_line option" where
  "log_message creates sends a lv message exc s =
     (let str = toLogMessageText message exc; printed = Printed (''['' @ level_name lv @ ''] '' @ str)
      in case store s a of
           None \<Rightarrow> None
         | Some l \<Rightarrow>
             if session s = None \<or> \<not> creates then Some printed
             else (case lg_producer l lv of
                     None \<Rightarrow> None
                   | Some p \<Rightarrow> Some (if sends p then Sent p lv str else printed)))"

section \<open>Reachable states\<close>

inductive log_step :: "log_state \<Rightarrow> log_state \<Rightarrow> bool" where
  get: "getLog w made src s = (a, s') \<Longrightarrow> log_step s s'"
| delete: "delete_logger a s = Some s' \<Longrightarrow> log_step s s'"

inductive log_reachable :: "log_state \<Rightarrow> bool" where
  init: "log_reachable initial_log"
| step: "log_reachable s \<Longrightarrow> log_step s s' \<Longrightarrow> log_reachable s'"

inductive_cases log_stepE: "log_step s s'"

text \<open>Every source has its own logger, and every logger is the one of its source.\<close>

definition registry_ok :: "log_state \<Rightarrow> bool" where
  "registry_ok s \<longleftrightarrow>
     (\<forall>src a. registry s src = Some a \<longleftrightarrow> (\<exists>l. store s a = Some l \<and> lg_source l = src))
     \<and> (\<forall>a. store s a \<noteq> None \<longrightarrow> a < next_address s)
     \<and> (session s \<noteq> None \<longrightarrow> connection s)"

lemma set_up_sel:
  "registry (set_up_connection w s) = registry s" "store (set_up_connection w s) = store s"
  "next_address (set_up_connection w s) = next_address s"
  by (simp_all add: set_up_connection_def split: set_up.split)

lemma set_up_session:
  "(session s \<noteq> None \<longrightarrow> connection s) \<Longrightarrow> session (set_up_connection w s) \<noteq> None \<Longrightarrow> connection (set_up_connection w s)"
  by (auto simp: set_up_connection_def split: set_up.split)

lemma registry_ok_get:
  assumes "registry_ok s" "getLog w made src s = (a, s')"
  shows "registry_ok s'"
proof (cases "registry s src")
  case None
  let ?l = "new_logger made (session (set_up_connection w s)) src"
  have s': "s' = (set_up_connection w s)\<lparr>store := (store s)(next_address s := Some ?l),
      registry := (registry s)(src := Some (next_address s)), next_address := next_address s + 1\<rparr>"
    using assms(2) None by (auto simp: getLog_def Let_def set_up_sel)
  have free: "store s (next_address s) = None" "\<And>b. registry s b \<noteq> Some (next_address s)" "\<And>b l. store s b = Some l \<Longrightarrow> lg_source l \<noteq> src"
    using assms(1) None unfolding registry_ok_def by (metis less_irrefl option.discI)+
  have old: "registry s b = Some a' \<longleftrightarrow> (\<exists>l. store s a' = Some l \<and> lg_source l = b)" for a' b
    using assms(1) by (simp add: registry_ok_def)
  have reg: "((registry s)(src := Some (next_address s))) b = Some a'
      \<longleftrightarrow> (\<exists>l. ((store s)(next_address s := Some ?l)) a' = Some l \<and> lg_source l = b)" for a' b
    using old [of b a'] free by (auto simp: new_logger_def)
  have "\<forall>a'. ((store s)(next_address s := Some ?l)) a' \<noteq> None \<longrightarrow> a' < next_address s + 1"
    using assms(1) by (simp add: registry_ok_def less_SucI)
  with reg set_up_session [of s w] assms(1) show ?thesis unfolding s' by (simp add: registry_ok_def)
qed (use assms in \<open>simp add: getLog_def\<close>)

lemma registry_ok_delete:
  assumes "registry_ok s" "delete_logger a s = Some s'"
  shows "registry_ok s'"
proof -
  obtain l where l: "store s a = Some l" "s' = s\<lparr>registry := (registry s)(lg_source l := None), store := (store s)(a := None),
      session := None, connection := False\<rparr>" using assms(2) by (auto simp: delete_logger_def)
  have old: "registry s b = Some c \<longleftrightarrow> (\<exists>l. store s c = Some l \<and> lg_source l = b)" for b c
    using assms(1) by (simp add: registry_ok_def)
  have own: "registry s (lg_source l) = Some a" using old l(1) by blast
  have "((registry s)(lg_source l := None)) b = Some c \<longleftrightarrow> (\<exists>l. ((store s)(a := None)) c = Some l \<and> lg_source l = b)" for b c
  proof (cases "b = lg_source l")
    case True
    have "c = a" if "store s c = Some l'" "lg_source l' = b" for l'
      using old [of b c] that own True by auto
    with True show ?thesis by auto
  next
    case False
    with old [of b c] l(1) show ?thesis by auto
  qed
  with assms(1) show ?thesis unfolding l(2) by (simp add: registry_ok_def)
qed

lemma registry_ok_reachable: "log_reachable s \<Longrightarrow> registry_ok s"
proof (induction rule: log_reachable.induct)
  case init
  then show ?case by (simp add: registry_ok_def initial_log_def)
next
  case (step s s')
  from step.hyps(2) step.IH show ?case by cases (auto intro: registry_ok_get registry_ok_delete)
qed


text \<open>Producers belong to sessions that were made before.\<close>

definition sessions_ok :: "log_state \<Rightarrow> bool" where
  "sessions_ok s \<longleftrightarrow>
     (\<forall>a l lv p. store s a = Some l \<and> lg_producer l lv = Some p \<longrightarrow> p < sessions s)
     \<and> (\<forall>p. session s = Some p \<longrightarrow> p < sessions s)"

lemma sessions_ok_set_up: "sessions_ok s \<Longrightarrow> sessions_ok (set_up_connection w s) \<and> sessions s \<le> sessions (set_up_connection w s)"
  by (auto simp: sessions_ok_def set_up_connection_def less_SucI split: set_up.split)

lemma sessions_ok_get: "sessions_ok s \<Longrightarrow> getLog w made src s = (a, s') \<Longrightarrow> sessions_ok s'"
proof (cases "registry s src")
  case None
  assume s: "sessions_ok s" and g: "getLog w made src s = (a, s')"
  let ?s = "set_up_connection w s"
  have "sessions_ok ?s" using sessions_ok_set_up [OF s] by simp
  moreover have "session ?s = Some p \<Longrightarrow> p < sessions ?s" for p using calculation by (simp add: sessions_ok_def)
  ultimately show ?thesis using g None
    by (auto simp: getLog_def Let_def sessions_ok_def new_logger_def split: if_splits)
qed (simp add: getLog_def)

lemma sessions_ok_delete: "sessions_ok s \<Longrightarrow> delete_logger a s = Some s' \<Longrightarrow> sessions_ok s'"
  by (auto simp: sessions_ok_def delete_logger_def split: if_splits)

lemma sessions_ok_reachable: "log_reachable s \<Longrightarrow> sessions_ok s"
proof (induction rule: log_reachable.induct)
  case init
  then show ?case by (simp add: sessions_ok_def initial_log_def)
next
  case (step s s')
  from step.hyps(2) step.IH show ?case by cases (auto intro: sessions_ok_get sessions_ok_delete)
qed

lemma getLog_new:
  assumes "registry s src = None"
  shows "getLog w made src s = (next_address s, (set_up_connection w s)\<lparr>
      store := (store s)(next_address s := Some (new_logger made (session (set_up_connection w s)) src)),
      registry := (registry s)(src := Some (next_address s)), next_address := next_address s + 1\<rparr>)"
  using assms by (simp add: getLog_def Let_def set_up_sel)

section \<open>Properties\<close>

text \<open>C21: In every reachable state \<open>getLog\<close> gives the logger of its source: a live logger with that source, the same one
  when it is asked again, another one than that of any other source, and it leaves every other logger as it is.\<close>

theorem logger_of_source:
  assumes "log_reachable s" and "getLog w made src s = (a, s')"
  shows "(\<exists>l. store s' a = Some l \<and> lg_source l = src) \<and> getLog w2 made2 src s' = (a, s')
    \<and> (src2 \<noteq> src \<longrightarrow> fst (getLog w2 made2 src2 s') \<noteq> a) \<and> (\<forall>b. b \<noteq> a \<longrightarrow> store s' b = store s b)"
proof -
  note ok = registry_ok_reachable [OF assms(1)]
  note ok' = registry_ok_get [OF ok assms(2)]
  have own: "registry s' src = Some a \<and> (\<forall>b. b \<noteq> a \<longrightarrow> store s' b = store s b)"
    using assms(2) by (cases "registry s src") (auto simp: getLog_def Let_def set_up_sel)
  then have l: "\<exists>l. store s' a = Some l \<and> lg_source l = src" using ok' by (simp add: registry_ok_def)
  have "fst (getLog w2 made2 src2 s') \<noteq> a" if "src2 \<noteq> src"
  proof (cases "registry s' src2")
    case None
    have "a < next_address s'" using ok' l by (auto simp: registry_ok_def)
    with None show ?thesis by (simp add: getLog_new)
  next
    case (Some b)
    then have "\<exists>l. store s' b = Some l \<and> lg_source l = src2" using ok' by (simp add: registry_ok_def)
    with l that Some show ?thesis by (auto simp: getLog_def)
  qed
  with own l show ?thesis by (simp add: getLog_def)
qed

text \<open>C39: A logger that was made while no connection could be set up prints its messages, until another logger sets the connection up;
  from then on it does not use the fallback that was announced: the session is there, its producers are not, and the next message, of any level, is an access through
  \<open>NULL\<close>, unless the session cannot make the message, which is printed then.\<close>

theorem late_connection_crash:
  assumes "log_reachable s" and "\<not> connection s" and "registry s src = None" "registry s src2 = None" "src \<noteq> src2"
    and "getLog No_connection made src s = (a, s1)" and "getLog Set_up made2 src2 s1 = (b, s2)"
  shows "log_message creates sends a lv message exc s1 = Some (Printed (''['' @ level_name lv @ ''] '' @ toLogMessageText message exc))
    \<and> log_message creates sends a lv message exc s2 =
        (if creates then None else Some (Printed (''['' @ level_name lv @ ''] '' @ toLogMessageText message exc)))"
proof -
  have "session s = None" using registry_ok_reachable [OF assms(1)] assms(2) by (auto simp: registry_ok_def)
  then have s1: "a = next_address s" "store s1 a = Some (new_logger made None src)" "\<not> connection s1" "session s1 = None"
    "registry s1 src2 = None" "next_address s1 = next_address s + 1"
    using assms(2,5,6) by (auto simp: getLog_new [OF assms(3)] set_up_connection_def assms(4))
  then have "store s2 a = Some (new_logger made None src)" "session s2 \<noteq> None"
    using assms(7) by (auto simp: getLog_new [OF s1(5)] set_up_connection_def)
  with s1 show ?thesis by (auto simp: log_message_def Let_def new_logger_def)
qed

text \<open>C40: Deleting one logger, as the destructor of a component does, closes what all of them share: every other logger only prints then, although a
  connection was there; and after a new logger has set up a connection again, the old ones use producers of the session that was
  closed and deleted.\<close>

theorem delete_breaks_others:
  assumes "log_reachable s" and "store s b = Some l" and "delete_logger a s = Some s1" and "b \<noteq> a"
    and "registry s1 src = None" and "getLog Set_up made src s1 = (c, s2)"
  shows "log_message creates sends b lv message exc s1 = Some (Printed (''['' @ level_name lv @ ''] '' @ toLogMessageText message exc))
    \<and> store s2 b = Some l \<and> session s2 \<noteq> None \<and> session s2 \<noteq> lg_producer l lv"
proof -
  have s1: "store s1 b = Some l" "session s1 = None" "\<not> connection s1" "sessions s1 = sessions s"
    using assms(2-4) by (auto simp: delete_logger_def)
  have "registry_ok s1" by (rule registry_ok_delete [OF registry_ok_reachable [OF assms(1)] assms(3)])
  then have "b < next_address s1" using s1(1) by (auto simp: registry_ok_def)
  then have s2: "store s2 b = Some l" "session s2 = Some (sessions s)"
    using assms(6) s1 by (auto simp: getLog_new [OF assms(5)] set_up_connection_def)
  have "p < sessions s" if "lg_producer l lv = Some p" for p
    using sessions_ok_reachable [OF assms(1)] assms(2) that unfolding sessions_ok_def by blast
  then have "session s2 \<noteq> lg_producer l lv" using s2(2) by force
  with s1(1,2) s2 show ?thesis by (simp add: log_message_def Let_def)
qed

text \<open>Runs in which the middleware always sets up the connection and makes all producers.\<close>

inductive log_good :: "log_state \<Rightarrow> bool" where
  init: "log_good initial_log"
| get: "log_good s \<Longrightarrow> made \<ge> 4 \<Longrightarrow> getLog Set_up made src s = (a, s') \<Longrightarrow> log_good s'"
| delete: "log_good s \<Longrightarrow> delete_logger a s = Some s' \<Longrightarrow> log_good s'"

definition producers_ok :: "log_state \<Rightarrow> bool" where
  "producers_ok s \<longleftrightarrow> (connection s \<longrightarrow> session s \<noteq> None) \<and> (\<forall>a l lv. store s a = Some l \<longrightarrow> lg_producer l lv \<noteq> None)"

lemma producers_ok_get:
  assumes "producers_ok s" "made \<ge> 4" "getLog Set_up made src s = (a, s')"
  shows "producers_ok s'"
proof (cases "registry s src")
  case None
  have "order_of lv < made" for lv using assms(2) by (cases lv) simp_all
  moreover have "session (set_up_connection Set_up s) \<noteq> None"
    using assms(1) by (simp add: producers_ok_def set_up_connection_def)
  ultimately have "lg_producer (new_logger made (session (set_up_connection Set_up s)) src) lv \<noteq> None" for lv
    by (simp add: new_logger_def)
  with assms(1,3) \<open>session (set_up_connection Set_up s) \<noteq> None\<close> None show ?thesis
    by (auto simp: getLog_new producers_ok_def split: if_splits)
qed (use assms in \<open>simp add: getLog_def\<close>)

text \<open>C22: While the middleware sets up connections and makes producers, whatever loggers are made and deleted, every logger that is alive writes
  every message: to the topic of its level or, without a session, to the standard error output.\<close>

theorem log_written:
  assumes "log_good s" and "store s a = Some l"
  shows "\<exists>line. log_message creates sends a lv message exc s = Some line
    \<and> (\<exists>p. line = Sent p lv (toLogMessageText message exc) \<and> lg_producer l lv = Some p \<and> creates \<and> sends p
       \<or> line = Printed (''['' @ level_name lv @ ''] '' @ toLogMessageText message exc))"
proof -
  have "producers_ok s" using assms(1)
  proof (induction rule: log_good.induct)
    case init
    then show ?case by (simp add: producers_ok_def initial_log_def)
  next
    case (get s made src a s')
    then show ?case by (blast intro: producers_ok_get)
  next
    case (delete s a s')
    then show ?case by (auto simp: producers_ok_def delete_logger_def split: if_splits)
  qed
  then obtain p where "lg_producer l lv = Some p" using assms(2) unfolding producers_ok_def by blast
  with assms(2) show ?thesis by (simp add: log_message_def Let_def)
qed

section \<open>Witnesses\<close>

definition one_logger :: "nat \<times> log_state" where
  "one_logger = getLog Set_up 4 ''a'' initial_log"

definition two_loggers :: "nat \<times> log_state" where
  "two_loggers = getLog Set_up 4 ''b'' (snd one_logger)"

lemma two_reachable: "log_reachable (snd two_loggers)"
  using log_reachable.intros log_step.get unfolding two_loggers_def one_logger_def by (metis prod.collapse)

theorem logger_of_source_witness:
  "fst (getLog Set_up 4 ''b'' (snd (getLog Set_up 4 ''a'' initial_log))) \<noteq> fst (getLog Set_up 4 ''a'' initial_log)"
  using logger_of_source [OF log_reachable.init, of Set_up 4 "''a''" "fst (getLog Set_up 4 ''a'' initial_log)"
      "snd (getLog Set_up 4 ''a'' initial_log)" Set_up 4 "''b''"] by simp

theorem late_connection_crash_witness:
  "log_message True (\<lambda>_. True) 0 Info ''started'' None
     (snd (getLog Set_up 4 ''b'' (snd (getLog No_connection 4 ''a'' initial_log)))) = None"
  using late_connection_crash [OF log_reachable.init, of "''a''" "''b''" 4 0 "snd (getLog No_connection 4 ''a'' initial_log)" 4 1
      "snd (getLog Set_up 4 ''b'' (snd (getLog No_connection 4 ''a'' initial_log)))" True "\<lambda>_. True"]
  by (simp add: initial_log_def getLog_def Let_def set_up_connection_def)

theorem delete_breaks_others_witness:
  "\<exists>s1. delete_logger 0 (snd two_loggers) = Some s1
    \<and> log_message True (\<lambda>_. True) 1 Error ''x'' None s1 = Some (Printed ''[error] x'')
    \<and> session (snd (getLog Set_up 4 ''c'' s1)) = Some 1 \<and> lg_producer (the (store (snd (getLog Set_up 4 ''c'' s1)) 1)) Error = Some 0"
proof -
  note eval = two_loggers_def one_logger_def initial_log_def getLog_def Let_def set_up_connection_def delete_logger_def new_logger_def
  obtain s1 where s1: "delete_logger 0 (snd two_loggers) = Some s1" by (simp add: eval)
  have "store (snd two_loggers) 1 = Some (new_logger 4 (Some 0) ''b'')" "registry s1 ''c'' = None" "sessions s1 = 1" "\<not> connection s1"
    using s1 by (auto simp: eval)
  with delete_breaks_others [OF two_reachable this(1) s1, of "''c''" 4 "fst (getLog Set_up 4 ''c'' s1)" "snd (getLog Set_up 4 ''c'' s1)"
      True "\<lambda>_. True" Error "''x''" None] s1
  show ?thesis by (auto simp: getLog_new set_up_connection_def toLogMessageText_def new_logger_def)
qed

theorem log_written_witness:
  "log_message True (\<lambda>p. True) 0 Warn ''low'' (Some (Other_exn ''battery'')) (snd one_logger) = Some (Sent 0 Warn ''low battery'')"
proof -
  have "log_good (snd one_logger)"
    using log_good.get [OF log_good.init, of 4 "''a''"] unfolding one_logger_def by (metis order_refl prod.collapse)
  moreover have "store (snd one_logger) 0 = Some (new_logger 4 (Some 0) ''a'')" "session (snd one_logger) = Some 0"
    by (simp_all add: one_logger_def initial_log_def getLog_def Let_def set_up_connection_def)
  ultimately show ?thesis
    using log_written [of "snd one_logger" 0 "new_logger 4 (Some 0) ''a''" True "\<lambda>p. True" Warn "''low''" "Some (Other_exn ''battery'')"]
    by (auto simp: log_message_def Let_def toLogMessageText_def new_logger_def)
qed

end
