(* ===== verification/State_Message.thy ===== *)
theory State_Message
  imports Document_Properties Semaine_Message
begin

text \<open>
  States that travel in messages: the sender of states (\<open>cms/sender/StateSender.cpp\<close>), the messages and
  receivers of states (\<open>cms/message/SEMAINEStateMessage.cpp\<close>, \<open>cms/receiver/StateReceiver.cpp\<close>) and the component
  that sends the context which a user types (\<open>components/control/ParticipantControl.cpp\<close>).  This puts together the
  items of states, their documents and the messages.  Writing a document as text and parsing it are parameters, in
  which \<open>None\<close> is an exception.
\<close>

section \<open>The kinds of states\<close>

fun state_name :: "Type \<Rightarrow> string" where
  "state_name AgentState = ''AgentStateInfo''"
| "state_name DialogState = ''DialogStateInfo''"
| "state_name UserState = ''UserStateInfo''"
| "state_name ContextState = ''ContextStateInfo''"
| "state_name SystemState = ''SystemStateInfo''"

fun root_name :: "Type \<Rightarrow> string" where
  "root_name AgentState = ''agent-state''"
| "root_name DialogState = ''dialog-state''"
| "root_name UserState = ''user-state''"
| "root_name ContextState = ''situational-context''"
| "root_name SystemState = ''setup''"

definition semaine_namespace :: string where
  "semaine_namespace = ''http://www.semaine-project.eu/semaineml''"

definition API_version :: string where
  "API_version = ''0.2''"

definition state_of_items :: "(Type \<Rightarrow> XPathInfoMapper) \<Rightarrow> Type \<Rightarrow> smap \<Rightarrow> si_error + 'd StateInfo" where
  "state_of_items infosByType t infoItems = new_StateInfo (infosByType t) infoItems (state_name t) t"

section \<open>Sending and receiving\<close>

datatype state_error = Doc_error doc_error | Send_error send_error | Cannot_write | Msg_error msg_error | Problem_reading
  | Item_error si_error

text \<open>
  The result is the message given to the producer or an exception, with the state, whose document is now
  there.  The text is made behind the tests.
\<close>

definition send_state ::
  "'m cms \<Rightarrow> Sender \<Rightarrow> ('d, 'n) dom_ops \<Rightarrow> (Type \<Rightarrow> XPathInfoMapper) \<Rightarrow> ('d \<Rightarrow> string option) \<Rightarrow> 'd StateInfo
    \<Rightarrow> int \<Rightarrow> string \<Rightarrow> int \<Rightarrow> ((state_error + 'm) \<times> 'd StateInfo) outcome" where
  "send_state C S D infosByType dom2string s usertime contentID creationTime =
     map_outcome (\<lambda>(e, s').
       (case e of
          Some e \<Rightarrow> Inl (Doc_error e)
        | None \<Rightarrow>
            (case sendStateInfo C S (stateName s') API_version
                    (map_option (\<lambda>d. transcode (dom2string d)) (doc s')) usertime contentID creationTime of
               Inl e \<Rightarrow> Inl (Send_error e)
             | Inr m \<Rightarrow> (case Option.bind (doc s') dom2string of None \<Rightarrow> Inl Cannot_write | Some _ \<Rightarrow> Inr m)), s'))
       (getDocument D (infosByType (si_type s)) s)"

definition createState :: "('d, 'n) dom_ops \<Rightarrow> (Type \<Rightarrow> XPathInfoMapper) \<Rightarrow> Type \<Rightarrow> 'd \<Rightarrow> doc_error + 'd StateInfo" where
  "createState D infosByType t d =
     read_StateInfo D (infosByType t) (Some d) (state_name t) (root_name t) semaine_namespace t"

text \<open>The state of a message, and whether a warning on different versions is logged.\<close>

definition SEMAINEStateMessage ::
  "'m cms \<Rightarrow> ('d, 'n) dom_ops \<Rightarrow> (Type \<Rightarrow> XPathInfoMapper) \<Rightarrow> (string \<Rightarrow> 'd option) \<Rightarrow> Type \<Rightarrow> 'm
    \<Rightarrow> state_error + ('d StateInfo \<times> bool)" where
  "SEMAINEStateMessage C D infosByType parse t m =
     (case SEMAINEXMLMessage C parse m of
        Inl e \<Rightarrow> Inl (Msg_error e)
      | Inr d \<Rightarrow>
          (case createState D infosByType t d of
             Inl e \<Rightarrow> Inl (Doc_error e)
           | Inr s \<Rightarrow>
               (case getStringProperty C m (stateName s @ ''APIVersion'') of
                  None \<Rightarrow> Inl Problem_reading
                | Some messageVersion \<Rightarrow> Inr (s, API_version \<noteq> messageVersion))))"

text \<open>
  The receiver keeps the message and updates its best guess; a message that cannot be read is logged and
  changes nothing.
\<close>

record 'd state_receiver =
  rc_type :: Type
  rc_message :: "'d StateInfo option"
  rc_guess :: smap

definition state_onMessage ::
  "'m cms \<Rightarrow> ('d, 'n) dom_ops \<Rightarrow> (Type \<Rightarrow> XPathInfoMapper) \<Rightarrow> (string \<Rightarrow> 'd option) \<Rightarrow> 'm option \<Rightarrow> 'd state_receiver \<Rightarrow> 'd state_receiver" where
  "state_onMessage C D infosByType parse m r =
     (case m of
        None \<Rightarrow> r
      | Some m \<Rightarrow>
          (case SEMAINEStateMessage C D infosByType parse (rc_type r) m of
             Inl e \<Rightarrow> r
           | Inr (s, w) \<Rightarrow> r\<lparr>rc_message := Some s, rc_guess := updateInformationState (info s) (rc_guess r)\<rparr>))"

section \<open>ParticipantControl\<close>

fun contains :: "string \<Rightarrow> string \<Rightarrow> bool" where
  "contains pat [] = (pat = [])"
| "contains pat (c # s) = (take (length pat) (c # s) = pat \<or> contains pat s)"

definition read_context_line :: "string \<Rightarrow> string \<times> string" where
  "read_context_line line =
     ((if contains ''user'' line then if contains ''present'' line then ''present'' else ''absent'' else []),
      (if contains ''Poppy'' line then ''Poppy''
       else if contains ''Prudence'' line then ''Prudence''
       else if contains ''Obadiah'' line then ''Obadiah''
       else if contains ''Spike'' line then ''Spike'' else []))"

text \<open>The lines that the thread of the standard input passes on, until the end of the input.\<close>

definition stdin_lines :: "string \<Rightarrow> (string \<times> string) list" where
  "stdin_lines input = map read_context_line (full_lines input)"

definition context_items :: "string \<Rightarrow> string \<Rightarrow> smap" where
  "context_items userPresent character =
     (let i1 = (if userPresent = ''present'' \<or> userPresent = ''absent'' then smap_put ''userPresent'' userPresent [] else [])
      in if character \<in> {''Spike'', ''Poppy'', ''Prudence'', ''Obadiah''} then smap_put ''character'' character i1 else i1)"

text \<open>Nothing is sent when nothing is known.\<close>

definition sendContextInfo ::
  "'m cms \<Rightarrow> Sender \<Rightarrow> ('d, 'n) dom_ops \<Rightarrow> (Type \<Rightarrow> XPathInfoMapper) \<Rightarrow> ('d \<Rightarrow> string option) \<Rightarrow> int \<Rightarrow> string \<Rightarrow> string
    \<Rightarrow> (state_error + 'm) option outcome" where
  "sendContextInfo C S D infosByType dom2string time userPresent character =
     (if context_items userPresent character = [] then Returns None
      else case state_of_items infosByType ContextState (context_items userPresent character) of
          Inl e \<Rightarrow> Returns (Some (Inl (Item_error e)))
        | Inr csi \<Rightarrow> map_outcome (\<lambda>(r, s). Some r) (send_state C S D infosByType dom2string csi time [] (-1)))"

text \<open>What the component prints of a state that it receives.\<close>

definition report_context :: "'d StateInfo \<Rightarrow> (string \<times> string) list" where
  "report_context s = map (\<lambda>n. (n, getInfo s n)) (filter (hasInfo s) [''userPresent'', ''character''])"

section \<open>Documents as text\<close>

text \<open>
  The writer inserts white space between elements, and declares the namespaces of elements, which a DOM shows as
  attributes when the text is parsed.  What survives are elements and the other attributes.
  \<open>valid\<close> holds for the names and \<open>writable\<close> for the values that XML and the local code page allow.
\<close>

primrec elements :: "xml \<Rightarrow> xml" where
  "elements (Text s) = Text s"
| "elements (Elem ns nm as ks) =
     Elem ns nm (\<lambda>a. if is_declaration a then None else as a) (filter is_elem (map elements ks))"

fun values_in :: "(string \<Rightarrow> bool) \<Rightarrow> (string \<Rightarrow> bool) \<Rightarrow> xml \<Rightarrow> bool" where
  "values_in valid writable (Text s) = writable s"
| "values_in valid writable (Elem ns nm as ks) =
     (writable ns \<and> valid nm \<and> (\<forall>a v. as a = Some v \<longrightarrow> valid a \<and> writable v) \<and> (\<forall>k\<in>set ks. values_in valid writable k))"

definition law_write ::
  "('d \<Rightarrow> xml) \<Rightarrow> ('d \<Rightarrow> string option) \<Rightarrow> (string \<Rightarrow> 'd option) \<Rightarrow> (string \<Rightarrow> bool) \<Rightarrow> (string \<Rightarrow> bool) \<Rightarrow> bool" where
  "law_write tree dom2string parse valid writable \<longleftrightarrow>
     (\<forall>d. values_in valid writable (tree d) \<longrightarrow>
        (\<exists>t d'. dom2string d = Some t \<and> parse t = Some d' \<and> elements (tree d') = elements (tree d)))"

text \<open>Places whose attributes are no declarations.\<close>

definition undeclared :: "place \<Rightarrow> bool" where
  "undeclared pl \<longleftrightarrow> (\<forall>k\<in>set (fst pl). \<not> is_declaration (k_att k)) \<and> (\<forall>a\<in>set (snd pl). \<not> is_declaration a)"

lemma elements_simps: "is_elem (elements e) = is_elem e" "\<not> is_declaration (k_att k) \<Longrightarrow> matches k (elements e) = matches k e"
  by (cases e; simp)+

lemma is_root_elements: "is_root nsc root (elements e) = is_root nsc root e"
  by (cases e) (simp_all add: is_root_def)

lemma own_attribute_elements: "is_elem e \<Longrightarrow> \<not> is_declaration a \<Longrightarrow> own_values [a] (elements e) = own_values [a] e"
  by (cases e) (simp_all add: own_values_def)

lemma values_elements: "is_elem e \<Longrightarrow> undeclared (path, [a]) \<Longrightarrow> values_of path [a] (elements e) = values_of path [a] e"
proof (induction path arbitrary: e)
  case Nil
  then show ?case by (simp add: own_attribute_elements undeclared_def)
next
  case (Cons k path)
  obtain ns nm as ks where e: "e = Elem ns nm as ks" using Cons.prems by (auto simp: is_elem_iff)
  have u: "\<not> is_declaration (k_att k)" "undeclared (path, [a])" using Cons.prems(2) by (auto simp: undeclared_def)
  have IH: "values_of path [a] (elements x) = values_of path [a] x" if "is_elem x" for x by (rule Cons.IH [OF that u(2)])
  have "kid_values k path [a] (filter is_elem (map elements ks)) = kid_values k path [a] ks"
  proof (induction ks)
    case (Cons x xs)
    have "matches k x \<Longrightarrow> is_elem x \<and> values_of path [a] (elements x) = values_of path [a] x"
      using matches_elem IH by blast
    with Cons show ?case by (auto simp: kid_values_simps elements_simps(1) elements_simps(2) [OF u(1)])
  qed simp
  then show ?case unfolding values_of_Cons by (simp add: e)
qed

lemma get_elements: "is_elem e \<Longrightarrow> undeclared (path, [a]) \<Longrightarrow> get_at (path, [a]) (elements e) = get_at (path, [a]) e"
  by (simp add: get_at_def values_elements)

text \<open>Values that can be written stay so.\<close>

lemma values_in_put_own:
  "values_in valid writable e \<Longrightarrow> writable v \<Longrightarrow> \<forall>a\<in>set l. valid a \<Longrightarrow> values_in valid writable (put_own l v e)"
  by (cases e) (auto simp: put_own_def split: list.split)

lemma in_kids_set: "set (in_kids m g new ks) \<subseteq> set ks \<union> g ` set ks \<union> {g new}"
  by (induction ks) auto

definition writable_key :: "(string \<Rightarrow> bool) \<Rightarrow> (string \<Rightarrow> bool) \<Rightarrow> xkey \<Rightarrow> bool" where
  "writable_key valid writable k \<longleftrightarrow>
     valid (k_name k) \<and> writable (k_ns k) \<and> (k_att k = [] \<or> valid (k_att k) \<and> writable (k_val k))"

lemma values_in_at_path:
  "values_in valid writable e \<Longrightarrow> writable v \<Longrightarrow> \<forall>a\<in>set l. valid a \<Longrightarrow> \<forall>k\<in>set path. writable_key valid writable k \<Longrightarrow>
    values_in valid writable (at_path path (put_own l v) e)"
proof (induction path arbitrary: e)
  case (Cons k path)
  show ?case
  proof (cases e)
    case (Elem ns nm as ks)
    have "values_in valid writable (new_elem k)" using Cons.prems(4) by (auto simp: new_elem_def writable_key_def)
    with Cons.IH Cons.prems(2-4) have "values_in valid writable (at_path path (put_own l v) (new_elem k))" by simp
    moreover have "\<forall>x\<in>set ks. values_in valid writable x \<and> values_in valid writable (at_path path (put_own l v) x)"
      using Cons.prems Cons.IH Elem by simp
    ultimately have "\<forall>x\<in>set (in_kids (matches k) (at_path path (put_own l v)) (new_elem k) ks). values_in valid writable x"
      using in_kids_set [of "matches k" "at_path path (put_own l v)" "new_elem k" ks] by blast
    with Cons.prems(1) Elem show ?thesis by simp
  qed (use Cons.prems in simp)
qed (simp add: values_in_put_own)

text \<open>The expressions of a configuration write what can be written.\<close>

lemma place_writable:
  assumes w: "writable []" and e: "expr_ok valid writable nsc root c e"
  shows "\<forall>k\<in>set (fst (place_of nsc c)). writable_key valid writable k" "\<forall>a\<in>set (snd (place_of nsc c)). valid a"
proof -
  have "writable_key valid writable (key_of nsc st)" if "step_valid valid writable nsc st" for st
    using that w by (auto simp: step_valid_def writable_key_def key_of_sel part_names part_of_def split: option.splits)
  then show "\<forall>k\<in>set (fst (place_of nsc c)). writable_key valid writable k"
    using e by (auto simp: expr_ok_def place_of_def list_all_iff)
  show "\<forall>a\<in>set (snd (place_of nsc c)). valid a"
    using e by (auto simp: expr_ok_def place_of_def last_of_def last_valid_def split: xlast.splits)
qed

lemma place_undeclared:
  assumes D: "dom_laws D tree loc valid writable" and e: "expr_ok valid writable nsc root c e"
  shows "undeclared (place_of nsc c)"
proof -
  note w = place_writable [OF dom_names(5) [OF D] e]
  have "\<not> is_declaration a" if "a = [] \<or> valid a" for a
    using that dom_names(1) [OF D, of a] by (auto simp: xml_name_def is_declaration_def)
  with w show ?thesis unfolding undeclared_def writable_key_def by metis
qed

lemma values_in_item_tree:
  assumes w: "writable []" and x: "exprs_ok valid writable xm root cfg" and "\<forall>(n, v)\<in>set items. writable v"
    and "fst ` set items \<subseteq> fst ` set (names2exprString xm)"
  shows "values_in valid writable (item_tree xm root cfg items)"
proof -
  let ?pl = "\<lambda>n. place_of (namespacePrefixes xm) (cfg n)"
  have "values_in valid writable (fold (put_item put_at ?pl) items e)" if "values_in valid writable e" for e
    using assms(3,4) that
  proof (induction items arbitrary: e)
    case (Cons item items)
    obtain n v where i: "item = (n, v)" by (cases item)
    have "\<exists>ex. (n, ex) \<in> set (names2exprString xm)" using Cons.prems(2) i by auto
    then obtain ex where "expr_ok valid writable (namespacePrefixes xm) root (cfg n) ex" using x by (auto simp: exprs_ok_def)
    note pw = place_writable [where writable = writable, OF w this]
    have "values_in valid writable (put_item put_at ?pl item e)"
      using Cons.prems(1,3) values_in_at_path [OF Cons.prems(3) _ pw(2,1)]
      by (auto simp: i put_item_def put_at_def)
    with Cons show ?case by simp
  qed simp
  moreover have "values_in valid writable (fresh_elem (part_namespace (namespacePrefixes xm) (part_of root)) (xlocal root))"
    using x by (simp add: exprs_ok_def root_ok_def step_valid_def)
  ultimately show ?thesis by (simp add: item_tree_def)
qed

section \<open>The message of a state\<close>

definition content_keys :: "string set" where
  "content_keys = {''usertime'', ''datatype'', ''source'', ''xml'', ''content-id'', ''content-type'', ''content-creation-time''}"

lemma content_kept:
  assumes "content_ok C S u i t ty m" "sets_only C k m m'" "k \<notin> content_keys"
  shows "content_ok C S u i t ty m'"
proof -
  have "''usertime'' \<noteq> k" "''datatype'' \<noteq> k" "''source'' \<noteq> k" "''xml'' \<noteq> k" "''content-id'' \<noteq> k" "''content-type'' \<noteq> k"
    "''content-creation-time'' \<noteq> k" using assms(3) by (auto simp: content_keys_def)
  then have "content_ok C S u i t ty m' = content_ok C S u i t ty m"
    by (simp add: content_ok_def getContentID_def getContentType_def getContentCreationTime_def sets_onlyD [OF assms(2)])
  with assms(1) show ?thesis by simp
qed

lemma version_key: "state_name t @ ''APIVersion'' \<notin> content_keys \<union> {''event'', ''period''}"
  by (cases t) (simp_all add: content_keys_def)

lemma state_message_ok:
  assumes C: "cms_ok C" and k: "kind S = XML" and m: "sendStateInfo C S (state_name t) v (Some text) u i ct = Inr m"
  shows "content_ok C S u i ct [] m" "getEventType C m = Inr ''single''" "SEMAINEXMLMessage C parse m = need Cannot_parse (parse text)"
    "getStringProperty C m (state_name t @ ''APIVersion'') = Some v"
proof -
  define m1 where "m1 = fillContentProperties C S u i ct [] (createTextMessage C text)"
  define m2 where "m2 = setStringProperty C (state_name t @ ''APIVersion'') v m1"
  have m': "m = setStringProperty C ''event'' ''single'' m2"
    using m by (auto simp: sendStateInfo_def m1_def m2_def err_bind_Inr split: if_splits)
  have new: "\<forall>k. \<not> propertyExists C (createTextMessage C text) k" by (simp add: cms_set(10) [OF C])
  note fill = fill_content [OF C new, where S = S and u = u and i = i and t = ct and ty = "[]", folded m1_def]
  have s2: "sets_only C (state_name t @ ''APIVersion'') m1 m2" unfolding m2_def by (rule cms_set(1) [OF C])
  have s3: "sets_only C ''event'' m2 m" unfolding m' by (rule cms_set(1) [OF C])
  have "content_ok C S u i ct [] m2" using content_kept [OF fill(1) s2] version_key by blast
  then show c: "content_ok C S u i ct [] m" using content_kept [OF _ s3] by (simp add: content_keys_def)
  show e: "getEventType C m = Inr ''single''"
    using sets_onlyD(5) [OF s3, of "''event''"] by (simp add: getEventType_def m' cms_set(2) [OF C] need_def)
  have "verifyProperties C m = Inr ()"
    using c sets_onlyD(5) [OF s3, of "''event''"] by (simp add: verifyProperties_def content_ok_def)
  moreover have "text_of C m = Some text"
    using sets_onlyD(6) [OF s2] sets_onlyD(6) [OF s3] fill(3) cms_set(9) [OF C] by simp
  ultimately show "SEMAINEXMLMessage C parse m = need Cannot_parse (parse text)"
    using c k by (simp add: SEMAINEXMLMessage_def getText_def need_def content_ok_def split: option.split)
  have "state_name t @ ''APIVersion'' \<noteq> ''event''" using version_key [of t] by auto
  then have "getStringProperty C m (state_name t @ ''APIVersion'') = getStringProperty C m2 (state_name t @ ''APIVersion'')"
    by (rule sets_onlyD(1) [OF s3])
  then show "getStringProperty C m (state_name t @ ''APIVersion'') = Some v" by (simp add: m2_def cms_set(2) [OF C])
qed


text \<open>A configuration for one kind of state, in which all expressions end with attributes.\<close>

definition state_config ::
  "(string \<Rightarrow> bool) \<Rightarrow> (string \<Rightarrow> bool) \<Rightarrow> XPathInfoMapper \<Rightarrow> xstep \<Rightarrow> (string \<Rightarrow> xstep list \<times> xlast) \<Rightarrow> Type \<Rightarrow> bool" where
  "state_config valid writable xm root cfg t \<longleftrightarrow>
     exprs_ok valid writable xm root cfg \<and> exprs_apart xm cfg \<and> (\<forall>n\<in>fst ` set (names2exprString xm). snd (cfg n) \<noteq> XText)
     \<and> xlocal root = root_name t \<and> part_namespace (namespacePrefixes xm) (part_of root) = semaine_namespace"

definition sendable :: "(string \<Rightarrow> bool) \<Rightarrow> XPathInfoMapper \<Rightarrow> Type \<Rightarrow> 'd StateInfo \<Rightarrow> bool" where
  "sendable writable xm t s \<longleftrightarrow>
     state_ok xm s \<and> doc s = None \<and> si_type s = t \<and> stateName s = state_name t \<and> items_legal writable (info s)"

definition sender_ready :: "Sender \<Rightarrow> bool" where
  "sender_ready S \<longleftrightarrow> period S = 0 \<and> isConnectionStarted S \<and> \<not> has_exception S"

lemma configured_names: "state_ok xm s \<Longrightarrow> fst ` set (info s) \<subseteq> fst ` set (names2exprString xm)"
proof
  fix n assume s: "state_ok xm s" and "n \<in> fst ` set (info s)"
  then obtain v where "(n, v) \<in> set (info s)" by auto
  then have "smap_get (names2exprString xm) n \<noteq> None" using s unfolding state_ok_def by (auto simp: smap_get_entry)
  then show "n \<in> fst ` set (names2exprString xm)" by (simp add: smap_get_def map_of_eq_None_iff)
qed

lemma sent_state:
  assumes D: "dom_laws D tree loc valid writable" and W: "law_write tree dom2string parse valid writable"
    and x: "state_config valid writable (infos t) root cfg t" and s: "sendable writable (infos t) t s"
    and v: "list_ex (\<lambda>(k, v). v \<noteq> []) (info s)"
  shows "\<exists>d d' str. getDocument D (infos t) s = Returns (None, s\<lparr>doc := Some d\<rparr>) \<and> dom2string d = Some str
    \<and> parse str = Some d' \<and> elements (tree d') = elements (item_tree (infos t) root cfg (info s))"
proof -
  have x': "exprs_ok valid writable (infos t) root cfg" using x by (simp add: state_config_def)
  have st: "state_ok (infos t) s" "doc s = None" "items_legal writable (info s)" using s by (auto simp: sendable_def)
  obtain d where d: "getDocument D (infos t) s = Returns (None, s\<lparr>doc := Some d\<rparr>)" "tree d = item_tree (infos t) root cfg (info s)"
    using create_tree [OF D x' st(1,3) v st(2)] by blast
  have "values_in valid writable (tree d)" unfolding d(2)
    using values_in_item_tree [OF dom_names(5) [OF D] x' _ configured_names [OF st(1)]] st(3) by (simp add: items_legal_def)
  then obtain str d' where "dom2string d = Some str" "parse str = Some d'" "elements (tree d') = elements (tree d)"
    using W unfolding law_write_def by blast
  with d show ?thesis by auto
qed

lemma send_state_message:
  assumes "dom_laws D tree loc valid writable" "law_write tree dom2string parse valid writable" "state_config valid writable (infos t) root cfg t"
    and s: "sendable writable (infos t) t s" "list_ex (\<lambda>(k, v). v \<noteq> []) (info s)" and S: "sender_ready S"
  shows "\<exists>d d' m str. send_state C S D infos dom2string s u i ct = Returns (Inr m, s\<lparr>doc := Some d\<rparr>)
    \<and> sendStateInfo C S (state_name t) API_version (Some str) u i ct = Inr m
    \<and> parse str = Some d' \<and> elements (tree d') = elements (item_tree (infos t) root cfg (info s))"
proof -
  obtain d d' str where d: "getDocument D (infos t) s = Returns (None, s\<lparr>doc := Some d\<rparr>)" "dom2string d = Some str"
    "parse str = Some d'" "elements (tree d') = elements (item_tree (infos t) root cfg (info s))"
    using sent_state [where infos = infos, OF assms(1-5)] by blast
  have "stateName s = state_name t" "si_type s = t" using s(1) by (simp_all add: sendable_def)
  moreover obtain m where "sendStateInfo C S (state_name t) API_version (Some str) u i ct = Inr m"
    using S by (simp add: sendStateInfo_def sender_ready_def isPeriodic_def check_connection_def)
  ultimately show ?thesis using d by (auto simp: send_state_def transcode_def)
qed

text \<open>Reading a document with these elements and attributes.\<close>

lemma createState_elements:
  assumes D: "dom_laws D tree loc valid writable" and x: "state_config valid writable (infos t) root cfg t"
    and s: "state_ok (infos t) s" and d: "elements (tree d) = elements (item_tree (infos t) root cfg (info s))"
  shows "\<exists>s2. createState D infos t d = Inr s2 \<and> stateName s2 = state_name t
    \<and> (\<forall>k. smap_get (info s2) k = (if getInfo s k = [] then None else Some (getInfo s k)))"
proof -
  let ?xm = "infos t" and ?nsc = "namespacePrefixes (infos t)" and ?e = "item_tree (infos t) root cfg (info s)"
  note x' = x [unfolded state_config_def]
  have r: "is_root ?nsc root (tree d)"
    using is_root_elements [of ?nsc root "tree d"] is_root_elements [of ?nsc root ?e] is_root_item_tree [of ?xm root cfg "info s"] d by simp
  have el: "is_elem (tree d)" "is_elem ?e" using r is_root_item_tree [of ?xm root cfg "info s"] by (simp_all add: is_root_def)
  have conf: "smap_ok (names2exprString ?xm)" "step_valid valid writable ?nsc root" "xattr root = None"
      "\<forall>(n, e)\<in>set (names2exprString ?xm). expr_ok valid writable ?nsc root (cfg n) e"
    using x' by (simp_all add: exprs_ok_def root_ok_def)
  obtain s2 where 2: "read_StateInfo D ?xm (Some d) (state_name t) (xlocal root) (part_namespace ?nsc (part_of root)) t = Inr s2"
      "\<And>k. smap_get (info s2) k = (if smap_get (names2exprString ?xm) k \<noteq> None
          \<and> get_at (place_of ?nsc (cfg k)) (tree d) \<notin> {None, Some []} then get_at (place_of ?nsc (cfg k)) (tree d) else None)"
    using read_any [OF D conf r, of "state_name t" t] by blast
  have "stateName s2 = state_name t" using 2(1)
    by (auto simp: read_StateInfo_def analyseDocument_def Let_def err_bind_Inr split: if_splits)
  moreover have "smap_get (info s2) k = (if getInfo s k = [] then None else Some (getInfo s k))" for k
  proof (rule items_read [OF _ _ s _ 2(2)])
    assume "smap_get (names2exprString ?xm) k \<noteq> None"
    then have "k \<in> fst ` set (names2exprString ?xm)" by (simp add: smap_get_def map_of_eq_None_iff)
    with x' obtain a e where a: "snd (cfg k) = XAttr a" "expr_ok valid writable ?nsc root (cfg k) e"
      by (cases "snd (cfg k)") (auto simp: exprs_ok_def)
    have "undeclared (fst (place_of ?nsc (cfg k)), [a])"
      using place_undeclared [OF D a(2)] a(1) by (simp add: place_of_def last_of_def)
    with a(1) show "get_at (place_of ?nsc (cfg k)) (tree d) = get_at (place_of ?nsc (cfg k)) ?e"
      using get_elements [OF el(1), of "fst (place_of ?nsc (cfg k))" a] get_elements [OF el(2), of "fst (place_of ?nsc (cfg k))" a] d
      by (auto simp: place_of_def last_of_def)
  qed (use x' in blast)+
  ultimately show ?thesis using 2(1) x' by (simp add: createState_def)
qed

section \<open>Properties\<close>

text \<open>C3: A state that is sent is the state that is received: for a configuration whose expressions do not interfere and end in attributes, a sender
  that is ready sends every state with a value, and the receiver of this kind of states accepts the message, whose properties are those of the sender, without a warning
  and gives every item the value it had, with exactly the items whose value is not empty.  This is shown through the document, its text, and the message.\<close>

theorem state_message_roundtrip:
  assumes "cms_ok C" and "dom_laws D tree loc valid writable" and "law_write tree dom2string parse valid writable"
    and "state_config valid writable (infos t) root cfg t" and "sendable writable (infos t) t s"
    and "list_ex (\<lambda>(k, v). v \<noteq> []) (info s)" and "sender_ready S" and "kind S = XML"
  shows "\<exists>d m s2. send_state C S D infos dom2string s u i ct = Returns (Inr m, s\<lparr>doc := Some d\<rparr>)
    \<and> SEMAINEStateMessage C D infos parse t m = Inr (s2, False) \<and> content_ok C S u i ct [] m \<and> getEventType C m = Inr ''single''
    \<and> (\<forall>k. getInfo s2 k = getInfo s k \<and> (hasInfo s2 k \<longleftrightarrow> getInfo s k \<noteq> []))"
proof -
  obtain d d' m str where m: "send_state C S D infos dom2string s u i ct = Returns (Inr m, s\<lparr>doc := Some d\<rparr>)"
    "sendStateInfo C S (state_name t) API_version (Some str) u i ct = Inr m"
    "parse str = Some d'" "elements (tree d') = elements (item_tree (infos t) root cfg (info s))"
    using send_state_message [where infos = infos and C = C and u = u and i = i and ct = ct, OF assms(2-7)] by (elim exE conjE)
  note msg = state_message_ok [OF assms(1,8) m(2)]
  obtain s2 where s2: "createState D infos t d' = Inr s2" "stateName s2 = state_name t"
      "\<forall>k. smap_get (info s2) k = (if getInfo s k = [] then None else Some (getInfo s k))"
    using createState_elements [where infos = infos, OF assms(2,4) _ m(4)] assms(5) by (auto simp: sendable_def)
  have "SEMAINEStateMessage C D infos parse t m = Inr (s2, False)"
    using msg(3) [of parse] msg(4) m(3) s2(1,2) by (simp add: SEMAINEStateMessage_def need_def)
  with m(1) msg(1,2) s2(3) show ?thesis by (auto simp: getInfo_def hasInfo_def)
qed

text \<open>A receiver for another kind of states refuses the message, because the name of the document element is another one.\<close>

theorem state_message_other_type:
  assumes "cms_ok C" and "dom_laws D tree loc valid writable" and "law_write tree dom2string parse valid writable"
    and "state_config valid writable (infos t) root cfg t" and "sendable writable (infos t) t s"
    and "list_ex (\<lambda>(k, v). v \<noteq> []) (info s)" and "sender_ready S" and "kind S = XML" and "t' \<noteq> t"
  shows "\<exists>d m. send_state C S D infos dom2string s u i ct = Returns (Inr m, s\<lparr>doc := Some d\<rparr>)
    \<and> SEMAINEStateMessage C D infos parse t' m = Inl (Doc_error Wrong_root)
    \<and> state_onMessage C D infos parse (Some m) \<lparr>rc_type = t', rc_message = old, rc_guess = g\<rparr> = \<lparr>rc_type = t', rc_message = old, rc_guess = g\<rparr>"
proof -
  obtain d d' m str where m: "send_state C S D infos dom2string s u i ct = Returns (Inr m, s\<lparr>doc := Some d\<rparr>)"
    "sendStateInfo C S (state_name t) API_version (Some str) u i ct = Inr m"
    "parse str = Some d'" "elements (tree d') = elements (item_tree (infos t) root cfg (info s))"
    using send_state_message [where infos = infos and C = C and u = u and i = i and ct = ct, OF assms(2-7)] by (elim exE conjE)
  let ?nsc = "namespacePrefixes (infos t)"
  have "is_root ?nsc root (tree d')"
    using is_root_elements [of ?nsc root "tree d'"] is_root_elements [of ?nsc root "item_tree (infos t) root cfg (info s)"]
      is_root_item_tree [of "infos t" root cfg "info s"] m(4) by simp
  then obtain ns as ks where "tree d' = Elem ns (root_name t) as ks" using assms(4) by (auto simp: is_root_def is_elem_iff state_config_def)
  then have "sub_at (tree d') [] = Some (Elem ns (root_name t) as ks)" by simp
  from dom_elem(2) [OF assms(2) dom_root [OF assms(2)] this] have "getLocalName D d' (documentElement D d') = root_name t" .
  moreover have "root_name t \<noteq> root_name t'" using assms(9) by (cases t; cases t') simp_all
  ultimately have "createState D infos t' d' = Inl Wrong_root"
    by (simp add: createState_def read_StateInfo_def analyseDocument_def)
  then have "SEMAINEStateMessage C D infos parse t' m = Inl (Doc_error Wrong_root)"
    using state_message_ok(3) [OF assms(1,8) m(2), of parse] m(3) by (simp add: SEMAINEStateMessage_def need_def)
  moreover from this have "state_onMessage C D infos parse (Some m) \<lparr>rc_type = t', rc_message = old, rc_guess = g\<rparr>
      = \<lparr>rc_type = t', rc_message = old, rc_guess = g\<rparr>" by (simp add: state_onMessage_def)
  ultimately show ?thesis using m(1) by blast
qed


text \<open>When a state is not sent: \<open>send_state\<close> of a state of a valid configuration gives a message exactly when the sender is ready and the state has a value;
  otherwise it throws the exception of the first test that fails: a state without a value has no document, which is tested first, then the period, the connection
  and its exceptions.\<close>

theorem send_state_result:
  assumes "dom_laws D tree loc valid writable" and "law_write tree dom2string parse valid writable"
    and "state_config valid writable (infos t) root cfg t" and "sendable writable (infos t) t s"
  shows "\<exists>r s'. send_state C S D infos dom2string s u i ct = Returns (r, s')
    \<and> (case r of
         Inr m \<Rightarrow> list_ex (\<lambda>(k, v). v \<noteq> []) (info s) \<and> sender_ready S
       | Inl e \<Rightarrow> e = Send_error
           (if \<not> list_ex (\<lambda>(k, v). v \<noteq> []) (info s) then Null_document else if period S \<noteq> 0 then Periodic_mode
            else if \<not> isConnectionStarted S then Not_started else Connection_exception)
           \<and> \<not> (list_ex (\<lambda>(k, v). v \<noteq> []) (info s) \<and> sender_ready S))"
proof (cases "list_ex (\<lambda>(k, v). v \<noteq> []) (info s)")
  case True
  obtain d str where d: "getDocument D (infos t) s = Returns (None, s\<lparr>doc := Some d\<rparr>)" "dom2string d = Some str"
    using sent_state [where infos = infos, OF assms True] by blast
  have "si_type s = t" using assms(4) by (simp add: sendable_def)
  with d True show ?thesis
    by (auto simp: send_state_def sendStateInfo_def check_connection_def isPeriodic_def sender_ready_def split: sum.split)
next
  case False
  then have e: "\<forall>(n, v)\<in>set (info s). v = []" by (auto simp: list_ex_iff)
  have "store_items D xm items None = Some (Inr None)" if "\<forall>(n, v)\<in>set items. v = []" for xm items
    using that by (induction items) auto
  from this [OF e, of "infos t"] have "getDocument D (infos t) s = Returns (None, s\<lparr>doc := None\<rparr>)"
    using assms(4) by (simp add: getDocument_def createDocumentFromInfo_def sendable_def)
  with assms(4) False show ?thesis by (simp add: send_state_def sendable_def sendStateInfo_def)
qed

section \<open>The context that a user types\<close>

lemma context_items_get:
  "smap_get (context_items u c) n =
     (if n = ''userPresent'' \<and> u \<in> {''present'', ''absent''} then Some u
      else if n = ''character'' \<and> c \<in> {''Spike'', ''Poppy'', ''Prudence'', ''Obadiah''} then Some c else None)"
  "smap_ok (context_items u c)"
  by (auto simp: context_items_def Let_def smap_get_def smap_ok_def)

lemma read_context_line_values:
  "fst (read_context_line line) \<in> {[], ''present'', ''absent''}"
  "snd (read_context_line line) \<in> {[], ''Spike'', ''Poppy'', ''Prudence'', ''Obadiah''}"
  by (simp_all add: read_context_line_def)


text \<open>The section \<open>ContextState\<close> of \<open>stateinfo.config\<close>.\<close>

definition context_xm :: XPathInfoMapper where
  "context_xm = \<lparr>namespacePrefixes = [(''semaine'', ''http://www.semaine-project.eu/semaineml'')],
     names2exprString =
      [(''character'', ''/semaine:situational-context/semaine:character/@name''),
       (''dialogContext'', ''/semaine:situational-context/semaine:dialog-context/@name''),
       (''nextCharacter'', ''/semaine:situational-context/semaine:character/@next''),
       (''userPresent'', ''/semaine:situational-context/semaine:user/@status'')]\<rparr>"

definition context_root :: xstep where
  "context_root = XStep ''semaine'' ''situational-context'' None"

definition context_cfg :: "string \<Rightarrow> xstep list \<times> xlast" where
  "context_cfg n =
     ([XStep ''semaine'' (if n = ''dialogContext'' then ''dialog-context'' else if n = ''userPresent'' then ''user'' else ''character'') None],
      XAttr (if n = ''nextCharacter'' then ''next'' else if n = ''userPresent'' then ''status'' else ''name''))"

definition context_names :: "string list" where
  "context_names = [''semaine'', ''situational-context'', ''character'', ''dialog-context'', ''user'', ''name'', ''next'', ''status'']"

lemma context_exprs_ok:
  "list_all valid context_names \<Longrightarrow> writable semaine_namespace \<Longrightarrow> exprs_ok valid writable context_xm context_root context_cfg"
  by (simp add: written_defs semaine_namespace_def context_names_def context_xm_def context_root_def context_cfg_def smap_ok_def)

lemma context_apart: "exprs_apart context_xm context_cfg"
  by (simp add: exprs_apart_def apart_places_def place_of_def context_xm_def context_cfg_def key_of_def part_of_def last_of_def)

lemma context_state_config:
  assumes "list_all valid context_names" "writable semaine_namespace"
  shows "state_config valid writable context_xm context_root context_cfg ContextState"
proof -
  have "part_namespace (namespacePrefixes context_xm) (part_of context_root) = semaine_namespace"
    by (simp add: context_xm_def context_root_def semaine_namespace_def part_of_def part_namespace_def context_getNamespaceURI_def smap_get_def)
  moreover have "snd (context_cfg n) \<noteq> XText" for n by (simp add: context_cfg_def)
  ultimately show ?thesis using context_exprs_ok [OF assms(1), of writable] assms(2) context_apart
    by (simp add: state_config_def context_root_def)
qed

text \<open>C15: What a user types is what is reported: when a line on the standard input of \<open>ParticipantControl\<close> speaks of the user or names a character,
  the state that is sent for it is received, and the report that the component gives of it is exactly what was read of the line; a line
  that does neither sends nothing.\<close>

theorem context_line_reported:
  fixes D :: "('d, 'n) dom_ops"
  assumes "cms_ok C" and "dom_laws D tree loc valid writable" and "law_write tree dom2string parse valid writable"
    and "infos ContextState = context_xm" and "list_all valid context_names"
    and "list_all writable [semaine_namespace, ''present'', ''absent'', ''Spike'', ''Poppy'', ''Prudence'', ''Obadiah'']"
    and "sender_ready S" and "kind S = XML" and "read_context_line line = (u, c)"
  shows "if u = [] \<and> c = [] then sendContextInfo C S D infos dom2string time u c = Returns None
    else \<exists>m s2. sendContextInfo C S D infos dom2string time u c = Returns (Some (Inr m))
      \<and> SEMAINEStateMessage C D infos parse ContextState m = Inr (s2, False)
      \<and> report_context s2 = filter (\<lambda>(n, v). v \<noteq> []) [(''userPresent'', u), (''character'', c)]"
proof (cases "u = [] \<and> c = []")
  case True
  then show ?thesis by (simp add: sendContextInfo_def context_items_def)
next
  case False
  have uc: "u \<in> {[], ''present'', ''absent''}" "c \<in> {[], ''Spike'', ''Poppy'', ''Prudence'', ''Obadiah''}"
    using read_context_line_values [of line] assms(9) by simp_all
  let ?i = "context_items u c"
  define s :: "'d StateInfo" where "s = \<lparr>stateName = state_name ContextState, si_type = ContextState, info = ?i, doc = None\<rparr>"
  have get: "getInfo s ''userPresent'' = u" "getInfo s ''character'' = c"
    using uc by (auto simp: s_def getInfo_def context_items_get)
  have conf: "smap_get (names2exprString context_xm) n \<noteq> None" if "n \<in> {''userPresent'', ''character''}" for n
    using that by (auto simp: context_xm_def smap_get_def)
  have ok: "state_ok context_xm s"
    using conf by (auto simp: state_ok_def s_def context_items_get split: if_splits)
  have entry: "(n, v) \<in> set ?i \<longleftrightarrow> smap_get ?i n = Some v" for n v by (rule smap_get_entry [OF context_items_get(2)])
  have w: "writable v" if "(n, v) \<in> set ?i" for n v
    using that assms(6) unfolding entry by (auto simp: context_items_get split: if_splits)
  then have send: "sendable writable (infos ContextState) ContextState s"
    using ok assms(4) by (auto simp: sendable_def s_def items_legal_def)
  have some: "list_ex (\<lambda>(k, v). v \<noteq> []) (info s)"
  proof -
    have "(''userPresent'', u) \<in> set ?i \<and> u \<noteq> [] \<or> (''character'', c) \<in> set ?i \<and> c \<noteq> []"
      using False uc unfolding entry by (auto simp: context_items_get)
    then show ?thesis by (auto simp: s_def list_ex_iff)
  qed
  have "\<not> list_ex (\<lambda>(key, v). smap_get (names2exprString context_xm) key = None) ?i"
    using conf unfolding list_ex_iff by (auto simp: entry context_items_get split: if_splits)
  then have new: "state_of_items infos ContextState ?i = Inr s"
    by (simp add: state_of_items_def new_StateInfo_def assms(4) s_def)
  have x: "state_config valid writable (infos ContextState) context_root context_cfg ContextState"
    using context_state_config [OF assms(5), of writable] assms(4,6) by simp
  obtain d d' m str where m: "send_state C S D infos dom2string s time [] (-1) = Returns (Inr m, s\<lparr>doc := Some d\<rparr>)"
    "sendStateInfo C S (state_name ContextState) API_version (Some str) time [] (-1) = Inr m"
    "parse str = Some d'" "elements (tree d') = elements (item_tree (infos ContextState) context_root context_cfg (info s))"
    using send_state_message [where infos = infos and C = C and u = time and i = "[]" and ct = "-1", OF assms(2,3) x send some assms(7)]
    by (elim exE conjE)
  note msg = state_message_ok [OF assms(1,8) m(2)]
  obtain s2 where s2: "createState D infos ContextState d' = Inr s2" "stateName s2 = state_name ContextState"
      "\<And>k. smap_get (info s2) k = (if getInfo s k = [] then None else Some (getInfo s k))"
    using createState_elements [where infos = infos, OF assms(2) x _ m(4)] ok assms(4) by auto
  have "SEMAINEStateMessage C D infos parse ContextState m = Inr (s2, False)"
    using msg(3) [of parse] msg(4) m(3) s2(1,2) by (simp add: SEMAINEStateMessage_def need_def)
  moreover have "sendContextInfo C S D infos dom2string time u c = Returns (Some (Inr m))"
    using some new m(1) by (auto simp: sendContextInfo_def s_def)
  moreover have "report_context s2 = filter (\<lambda>(n, v). v \<noteq> []) [(''userPresent'', u), (''character'', c)]"
  proof -
    have "getInfo s2 k = getInfo s k" "hasInfo s2 k \<longleftrightarrow> getInfo s k \<noteq> []" for k
      by (subst getInfo_def, simp add: s2(3)) (simp add: hasInfo_def s2(3))
    with get show ?thesis by (simp add: report_context_def)
  qed
  ultimately show ?thesis using False by auto
qed


section \<open>A written form of trees\<close>

text \<open>
  Trees whose attributes have names of a list are written in a simple form and read back, which shows that
  \<open>law_write\<close> can hold: a string is written with a mark before each character, an element with a value or nothing
  for each name of the list.  As in XML, an element that is read has its namespace also as a declaration.
\<close>

definition write_string :: "string \<Rightarrow> string" where
  "write_string s = concat (map (\<lambda>c. [CHR ''+'', c]) s) @ ''.''"

fun read_string :: "string \<Rightarrow> string \<times> string" where
  "read_string (m # c # r) = (if m = CHR ''+'' then apfst (Cons c) (read_string r) else ([], c # r))"
| "read_string s = ([], [])"

definition write_option :: "string option \<Rightarrow> string" where
  "write_option v = write_string (case v of None \<Rightarrow> [] | Some s \<Rightarrow> CHR ''v'' # s)"

definition read_option :: "string \<Rightarrow> string option \<times> string" where
  "read_option r = apfst (\<lambda>s. case s of [] \<Rightarrow> None | _ # v \<Rightarrow> Some v) (read_string r)"

fun read_attrs :: "string list \<Rightarrow> string \<Rightarrow> (string \<Rightarrow> string option) \<times> string" where
  "read_attrs [] r = ((\<lambda>_. None), r)"
| "read_attrs (a # names) r =
     (case read_option r of (v, r1) \<Rightarrow> (case read_attrs names r1 of (as, r2) \<Rightarrow> (as(a := v), r2)))"

primrec write_tree :: "string list \<Rightarrow> xml \<Rightarrow> string" where
  "write_tree names (Text s) = CHR ''t'' # write_string s"
| "write_tree names (Elem ns nm as ks) =
     CHR ''e'' # write_string ns @ write_string nm @ concat (map (\<lambda>a. write_option (as a)) names)
       @ concat (map (write_tree names) ks) @ ''.''"

partial_function (option) read_forest :: "string list \<Rightarrow> string \<Rightarrow> (xml list \<times> string) option" where
  "read_forest names r =
     (if r = [] then None
      else if hd r = CHR ''t'' then
        (case read_string (tl r) of (s, r1) \<Rightarrow>
           Option.bind (read_forest names r1) (\<lambda>(xs, r2). Some (Text s # xs, r2)))
      else if hd r = CHR ''e'' then
        (case read_string (tl r) of (ns, r1) \<Rightarrow> case read_string r1 of (nm, r2) \<Rightarrow> case read_attrs names r2 of (as, r3) \<Rightarrow>
           Option.bind (read_forest names r3) (\<lambda>(ks, r4).
           Option.bind (read_forest names r4) (\<lambda>(xs, r5). Some (Elem ns nm as ks # xs, r5))))
      else Some ([], tl r))"

definition tree_to_string :: "string list \<Rightarrow> xml \<Rightarrow> string option" where
  "tree_to_string names x = Some (write_tree names x @ ''.'')"

primrec declared :: "xml \<Rightarrow> xml" where
  "declared (Text s) = Text s"
| "declared (Elem ns nm as ks) = Elem ns nm (if ns = [] then as else as(''xmlns'' := Some ns)) (map declared ks)"

definition string_to_tree :: "string list \<Rightarrow> string \<Rightarrow> xml option" where
  "string_to_tree names s = (case read_forest names s of Some ([x], r) \<Rightarrow> Some (declared x) | _ \<Rightarrow> None)"

lemma elements_declared: "elements (declared x) = elements x"
proof (induction x)
  case (Elem ns nm as ks)
  then have "map (\<lambda>k. elements (declared k)) ks = map elements ks" by simp
  then show ?case by (auto simp: fun_eq_iff is_declaration_def comp_def simp del: map_eq_conv)
qed simp

lemma read_write_string: "read_string (write_string s @ r) = (s, r)"
  by (induction s) (cases r; simp add: write_string_def)+

lemma read_write_option: "read_option (write_option v @ r) = (v, r)"
  by (cases v) (simp_all add: read_option_def write_option_def read_write_string)

lemma read_write_attrs:
  "read_attrs names (concat (map (\<lambda>a. write_option (as a)) names) @ r) = ((\<lambda>a. if a \<in> set names then as a else None), r)"
  by (induction names) (auto simp: read_write_option fun_eq_iff)

lemma read_end: "read_forest names (CHR ''.'' # r) = Some ([], r)"
  by (subst read_forest.simps) simp

lemma read_write_tree:
  "values_in (\<lambda>a. a \<in> set names) writable x \<Longrightarrow> read_forest names r = Some (xs, r') \<Longrightarrow>
    read_forest names (write_tree names x @ r) = Some (x # xs, r')"
proof (induction x arbitrary: r xs r')
  case (Text s)
  then show ?case by (subst read_forest.simps) (simp add: read_write_string)
next
  case (Elem ns nm as ks)
  have ks: "read_forest names (concat (map (write_tree names) ks) @ CHR ''.'' # r) = Some (ks, r)"
    using Elem.IH Elem.prems(1) by (induction ks) (simp_all add: read_end)
  have as: "(\<lambda>a. if a \<in> set names then as a else None) = as"
  proof
    fix a show "(if a \<in> set names then as a else None) = as a" using Elem.prems(1) by (cases "as a") auto
  qed
  show ?case
    by (subst read_forest.simps) (simp add: read_write_string read_write_attrs as ks Elem.prems(2))
qed

lemma tree_law_write: "law_write (\<lambda>d. d) (tree_to_string names) (string_to_tree names) (\<lambda>a. a \<in> set names) writable"
  unfolding law_write_def
proof (intro allI impI)
  fix d assume "values_in (\<lambda>a. a \<in> set names) writable d"
  from read_write_tree [OF this read_end, of "[]"]
  have "string_to_tree names (write_tree names d @ ''.'') = Some (declared d)" by (simp add: string_to_tree_def)
  with elements_declared show "\<exists>t d'. tree_to_string names d = Some t \<and> string_to_tree names t = Some d' \<and> elements d' = elements d"
    by (simp add: tree_to_string_def)
qed


section \<open>Witnesses\<close>

abbreviation known :: "string \<Rightarrow> bool" where
  "known a \<equiv> a \<in> set context_names"

lemma context_dom: "dom_laws tree_dom (\<lambda>d. d) (\<lambda>d p. Some p) known no_nul"
  by (rule tree_dom_laws_names) (auto simp: law_names_def context_names_def xml_name_def is_declaration_def)

lemma namespace_legal: "no_nul semaine_namespace"
  by (simp add: semaine_namespace_def)

lemma context_known: "list_all known context_names"
  by (simp add: list_all_iff)

definition context_state :: "'d StateInfo" where
  "context_state = \<lparr>stateName = ''ContextStateInfo'', si_type = ContextState,
     info = [(''character'', ''Poppy''), (''nextCharacter'', []), (''userPresent'', ''present'')], doc = None\<rparr>"

lemma context_sendable: "sendable no_nul context_xm ContextState context_state"
proof -
  have "state_ok context_xm context_state"
    by (rule state_ok_keys) (simp_all add: context_state_def context_xm_def smap_ok_def)
  then show ?thesis by (simp add: sendable_def context_state_def items_legal_def)
qed

lemma context_some: "list_ex (\<lambda>(k, v). v \<noteq> []) (info context_state)"
  by (simp add: context_state_def)

lemma tester_ready: "sender_ready (tester XML 0)" "kind (tester XML 0) = XML"
  by (simp_all add: sender_ready_def tester_def)

theorem state_message_roundtrip_witness:
  "\<exists>d m s2. send_state map_cms (tester XML 0) tree_dom (\<lambda>_. context_xm) (tree_to_string context_names) context_state 7 [] (-1)
        = Returns (Inr m, context_state\<lparr>doc := Some d\<rparr>)
    \<and> SEMAINEStateMessage map_cms tree_dom (\<lambda>_. context_xm) (string_to_tree context_names) ContextState m = Inr (s2, False)
    \<and> getInfo s2 ''character'' = ''Poppy'' \<and> \<not> hasInfo s2 ''nextCharacter''"
proof -
  have v: "getInfo (context_state :: xml StateInfo) ''character'' = ''Poppy''" "getInfo (context_state :: xml StateInfo) ''nextCharacter'' = []"
    by (simp_all add: getInfo_def context_state_def smap_get_def)
  from state_message_roundtrip [where infos = "\<lambda>_. context_xm" and t = ContextState and u = 7 and i = "[]" and ct = "-1",
      OF map_cms_ok context_dom tree_law_write context_state_config [where writable = no_nul, OF context_known namespace_legal]
        context_sendable context_some tester_ready] v
  show ?thesis by metis
qed

theorem state_message_other_type_witness:
  "\<exists>m. SEMAINEStateMessage map_cms tree_dom (\<lambda>_. context_xm) (string_to_tree context_names) UserState m = Inl (Doc_error Wrong_root)"
  using state_message_other_type [where infos = "\<lambda>_. context_xm" and t = ContextState and t' = UserState,
      OF map_cms_ok context_dom tree_law_write context_state_config [where writable = no_nul, OF context_known namespace_legal]
        context_sendable context_some tester_ready] by blast

theorem send_state_result_witness:
  "\<exists>r s'. send_state map_cms (tester XML 40) tree_dom (\<lambda>_. context_xm) (tree_to_string context_names) context_state 7 [] (-1)
        = Returns (r, s') \<and> r = Inl (Send_error Periodic_mode)"
proof -
  from send_state_result [where infos = "\<lambda>_. context_xm" and C = map_cms and S = "tester XML 40" and u = 7 and i = "[]" and ct = "-1",
      OF context_dom tree_law_write context_state_config [where writable = no_nul, OF context_known namespace_legal] context_sendable]
  obtain r s' where r: "send_state map_cms (tester XML 40) tree_dom (\<lambda>_. context_xm) (tree_to_string context_names) context_state 7 [] (-1)
        = Returns (r, s')"
      "case r of Inr m \<Rightarrow> list_ex (\<lambda>(k, v). v \<noteq> []) (info (context_state :: xml StateInfo)) \<and> sender_ready (tester XML 40)
       | Inl e \<Rightarrow> e = Send_error
           (if \<not> list_ex (\<lambda>(k, v). v \<noteq> []) (info (context_state :: xml StateInfo)) then Null_document
            else if period (tester XML 40) \<noteq> 0 then Periodic_mode
            else if \<not> isConnectionStarted (tester XML 40) then Not_started else Connection_exception)
           \<and> \<not> (list_ex (\<lambda>(k, v). v \<noteq> []) (info (context_state :: xml StateInfo)) \<and> sender_ready (tester XML 40))"
    by blast
  have "\<not> sender_ready (tester XML 40)" "period (tester XML 40) = 40" by (simp_all add: sender_ready_def tester_def)
  with r context_some [where 'a = xml] show ?thesis by (cases r) auto
qed

theorem context_line_reported_witness:
  "\<exists>m s2. sendContextInfo map_cms (tester XML 0) tree_dom (\<lambda>_. context_xm) (tree_to_string context_names) 7 ''present'' ''Spike''
        = Returns (Some (Inr m))
    \<and> SEMAINEStateMessage map_cms tree_dom (\<lambda>_. context_xm) (string_to_tree context_names) ContextState m = Inr (s2, False)
    \<and> report_context s2 = [(''userPresent'', ''present''), (''character'', ''Spike'')]"
proof -
  have l: "read_context_line ''user present, Spike'' = (''present'', ''Spike'')"
    by (simp add: read_context_line_def)
  from context_line_reported [where infos = "\<lambda>_. context_xm" and time = 7, OF map_cms_ok context_dom tree_law_write refl context_known _ tester_ready l]
  show ?thesis by (simp add: semaine_namespace_def)
qed

end
