(* ===== verification/Emma_Message.thy ===== *)
theory Emma_Message
  imports State_Message "HOL-Library.Multiset"
begin

text \<open>
  The functions of \<open>XMLTool.cpp\<close> that look for children and attributes, and the messages with EMMA documents
  (\<open>cms/message/SEMAINEEmmaMessage.cpp\<close>), which are read with them.  The qualified names of elements are a
  parameter (\<open>nodeName\<close>); the result \<open>None\<close> of a function that needs a child is an access through \<open>NULL\<close>.
\<close>

section \<open>Looking for children\<close>

text \<open>The loop over the child nodes that stops at the first one that fits.\<close>

fun first_child :: "('n \<Rightarrow> bool) \<Rightarrow> 'n list \<Rightarrow> 'n option" where
  "first_child fits [] = None"
| "first_child fits (n # ns) = (if fits n then Some n else first_child fits ns)"

definition getChildElementByTagNameNS ::
  "('d, 'n) dom_ops \<Rightarrow> ('d \<Rightarrow> 'n \<Rightarrow> string option) \<Rightarrow> 'd \<Rightarrow> 'n \<Rightarrow> string \<Rightarrow> string \<Rightarrow> 'n option" where
  "getChildElementByTagNameNS D nodeName d node childName childNamespace =
     first_child (\<lambda>n. isElement D d n \<and> xml_equals (nodeName d n) childName \<and> xml_equals (node_namespaceURI D d n) childNamespace)
       (childNodes D d node)"

definition getChildElementByLocalNameNS :: "('d, 'n) dom_ops \<Rightarrow> 'd \<Rightarrow> 'n \<Rightarrow> string \<Rightarrow> string \<Rightarrow> 'n option" where
  "getChildElementByLocalNameNS D d node childName childNamespace =
     first_child (\<lambda>n. isElement D d n \<and> xml_equals (node_localName D d n) childName \<and> xml_equals (node_namespaceURI D d n) childNamespace)
       (childNodes D d node)"

definition getChildrenByTagNameNS ::
  "('d, 'n) dom_ops \<Rightarrow> ('d \<Rightarrow> 'n \<Rightarrow> string option) \<Rightarrow> 'd \<Rightarrow> 'n \<Rightarrow> string \<Rightarrow> string \<Rightarrow> 'n list" where
  "getChildrenByTagNameNS D nodeName d node childName childNamespace =
     filter (\<lambda>n. isElement D d n \<and> xml_equals (nodeName d n) childName \<and> xml_equals (node_namespaceURI D d n) childNamespace)
       (childNodes D d node)"

datatype need_error = Needs_child | Needs_attribute

definition needChildElementByTagNameNS ::
  "('d, 'n) dom_ops \<Rightarrow> ('d \<Rightarrow> 'n \<Rightarrow> string option) \<Rightarrow> 'd \<Rightarrow> 'n \<Rightarrow> string \<Rightarrow> string \<Rightarrow> (need_error + 'n) option" where
  "needChildElementByTagNameNS D nodeName d node childName childNamespace =
     (case getChildElementByTagNameNS D nodeName d node childName childNamespace of
        None \<Rightarrow> Some (Inl Needs_child)
      | Some e \<Rightarrow> Some (Inr e))"

text \<open>The message of the exception asks the missing child for its name.\<close>

definition needChildElementByLocalNameNS ::
  "('d, 'n) dom_ops \<Rightarrow> 'd \<Rightarrow> 'n \<Rightarrow> string \<Rightarrow> string \<Rightarrow> (need_error + 'n) option" where
  "needChildElementByLocalNameNS D d node childName childNamespace =
     (case getChildElementByLocalNameNS D d node childName childNamespace of
        None \<Rightarrow> None
      | Some e \<Rightarrow> Some (Inr e))"

definition needAttribute :: "('d, 'n) dom_ops \<Rightarrow> 'd \<Rightarrow> 'n \<Rightarrow> string \<Rightarrow> need_error + string" where
  "needAttribute D d e attributeName =
     (if \<not> node_hasAttribute D d e (c_str attributeName) then Inl Needs_attribute
      else Inr (transcode (node_getAttribute D d e (c_str attributeName))))"

definition newDocument_version :: "('d, 'n) dom_ops \<Rightarrow> string \<Rightarrow> string \<Rightarrow> string \<Rightarrow> 'd option" where
  "newDocument_version D rootTagname aNamespace version =
     Option.bind (newDocument D rootTagname aNamespace) (\<lambda>d. setAttribute D d (documentElement D d) ''version'' version)"

definition appendChildElement_here :: "('d, 'n) dom_ops \<Rightarrow> 'd \<Rightarrow> 'n \<Rightarrow> string \<Rightarrow> ('n \<times> 'd) option" where
  "appendChildElement_here D d node childName = node_appendNew D d node (transcode (node_namespaceURI D d node)) (c_str childName)"

section \<open>EMMA documents\<close>

definition emma_namespace :: string where
  "emma_namespace = ''http://www.w3.org/2003/04/emma''"

definition emotion_namespace :: string where
  "emotion_namespace = ''http://www.w3.org/2009/10/emotionml''"

definition bml_namespace :: string where
  "bml_namespace = ''http://www.mindmakers.org/projects/BML''"

definition getOneOf :: "('d, 'n) dom_ops \<Rightarrow> 'd \<Rightarrow> 'n option" where
  "getOneOf D document = getChildElementByLocalNameNS D document (documentElement D document) ''one-of'' emma_namespace"

definition getSequence :: "('d, 'n) dom_ops \<Rightarrow> 'd \<Rightarrow> 'n option" where
  "getSequence D document = getChildElementByLocalNameNS D document (documentElement D document) ''sequence'' emma_namespace"

definition getTopLevelInterpretation :: "('d, 'n) dom_ops \<Rightarrow> 'd \<Rightarrow> 'n option" where
  "getTopLevelInterpretation D document =
     getChildElementByLocalNameNS D document (documentElement D document) ''interpretation'' emma_namespace"

definition getEmotionElements :: "('d, 'n) dom_ops \<Rightarrow> 'd \<Rightarrow> 'n \<Rightarrow> 'n list" where
  "getEmotionElements D d interpretation = getChildrenByLocalNameNS D d interpretation ''emotion'' emotion_namespace"

definition getBMLElements :: "('d, 'n) dom_ops \<Rightarrow> 'd \<Rightarrow> 'n \<Rightarrow> 'n list" where
  "getBMLElements D d interpretation = getChildrenByLocalNameNS D d interpretation ''bml'' bml_namespace"

definition getGenderElements :: "('d, 'n) dom_ops \<Rightarrow> 'd \<Rightarrow> 'n \<Rightarrow> 'n list" where
  "getGenderElements D d interpretation = getChildrenByLocalNameNS D d interpretation ''gender'' semaine_namespace"

definition getSpeakingElements :: "('d, 'n) dom_ops \<Rightarrow> 'd \<Rightarrow> 'n \<Rightarrow> 'n list" where
  "getSpeakingElements D d interpretation = getChildrenByLocalNameNS D d interpretation ''speaking'' semaine_namespace"

definition getPitchElements :: "('d, 'n) dom_ops \<Rightarrow> 'd \<Rightarrow> 'n \<Rightarrow> 'n list" where
  "getPitchElements D d interpretation = getChildrenByLocalNameNS D d interpretation ''pitch'' semaine_namespace"

definition getVocalizationElements :: "('d, 'n) dom_ops \<Rightarrow> 'd \<Rightarrow> 'n \<Rightarrow> 'n list" where
  "getVocalizationElements D d interpretation = getChildrenByLocalNameNS D d interpretation ''vocalization'' semaine_namespace"

definition getFacePresentElements :: "('d, 'n) dom_ops \<Rightarrow> 'd \<Rightarrow> 'n \<Rightarrow> 'n list" where
  "getFacePresentElements D d interpretation = getChildrenByLocalNameNS D d interpretation ''face-present'' semaine_namespace"

definition getNonverbalElements :: "('d, 'n) dom_ops \<Rightarrow> 'd \<Rightarrow> 'n \<Rightarrow> 'n list" where
  "getNonverbalElements D d interpretation =
     getGenderElements D d interpretation @ getSpeakingElements D d interpretation @ getPitchElements D d interpretation
     @ getVocalizationElements D d interpretation @ getFacePresentElements D d interpretation @ getBMLElements D d interpretation"

section \<open>Properties\<close>

definition of_kind :: "('d, 'n) dom_ops \<Rightarrow> 'd \<Rightarrow> string \<times> string \<Rightarrow> 'n \<Rightarrow> bool" where
  "of_kind D d k n \<longleftrightarrow> isElement D d n \<and> (getLocalName D d n, getNamespaceURI D d n) = k"

definition nonverbal_kinds :: "(string \<times> string) list" where
  "nonverbal_kinds = map (\<lambda>n. (n, semaine_namespace)) [''gender'', ''speaking'', ''pitch'', ''vocalization'', ''face-present'']
     @ [(''bml'', bml_namespace)]"

lemma children_of_kind: "getChildrenByLocalNameNS D d n nm ns = filter (of_kind D d (c_str nm, c_str ns)) (childNodes D d n)"
  by (simp add: getChildrenByLocalNameNS_def of_kind_def [abs_def] xml_equals_def getLocalName_def getNamespaceURI_def)

lemma first_child_filter: "first_child fits ns = first_of (filter fits ns)"
  by (induction ns) (simp_all add: first_of_def)

lemma child_of_kind: "getChildElementByLocalNameNS D d n nm ns = first_of (filter (of_kind D d (c_str nm, c_str ns)) (childNodes D d n))"
  by (simp add: getChildElementByLocalNameNS_def first_child_filter of_kind_def [abs_def] xml_equals_def getLocalName_def getNamespaceURI_def)

text \<open>Sorting by kinds, of which every node has at most one, loses and repeats nothing.\<close>

lemma mset_kinds:
  assumes "distinct kinds"
  shows "mset (concat (map (\<lambda>k. filter (of_kind D d k) cs) kinds)) = mset (filter (\<lambda>c. \<exists>k\<in>set kinds. of_kind D d k c) cs)"
  using assms
proof (induction kinds)
  case (Cons k kinds)
  have "mset (filter (\<lambda>c. \<exists>k'\<in>set (k # kinds). of_kind D d k' c) cs)
    = mset (filter (of_kind D d k) cs) + mset (filter (\<lambda>c. \<exists>k'\<in>set kinds. of_kind D d k' c) cs)"
  proof (induction cs)
    case (Cons c cs)
    have "\<not> (\<exists>k'\<in>set kinds. of_kind D d k' c)" if "of_kind D d k c"
      using that \<open>distinct (k # kinds)\<close> by (auto simp: of_kind_def)
    with Cons show ?case by auto
  qed simp
  with Cons show ?case by simp
qed simp

text \<open>The nonverbal elements of an interpretation are exactly its child elements of the six kinds, each one once, whatever their order in the
  document, and those of a kind come in the order of the document: gender, speaking, pitch, vocalization and presence of a face of SemaineML, and BML.\<close>

theorem nonverbal_elements:
  "mset (getNonverbalElements D d i) = mset (filter (\<lambda>c. \<exists>k\<in>set nonverbal_kinds. of_kind D d k c) (childNodes D d i))
    \<and> getNonverbalElements D d i = concat (map (\<lambda>k. filter (of_kind D d k) (childNodes D d i)) nonverbal_kinds)"
proof -
  have e: "getNonverbalElements D d i = concat (map (\<lambda>k. filter (of_kind D d k) (childNodes D d i)) nonverbal_kinds)"
    by (simp add: getNonverbalElements_def getGenderElements_def getSpeakingElements_def getPitchElements_def
        getVocalizationElements_def getFacePresentElements_def getBMLElements_def children_of_kind nonverbal_kinds_def
        c_str_def semaine_namespace_def bml_namespace_def)
  have "distinct nonverbal_kinds" by (simp add: nonverbal_kinds_def semaine_namespace_def bml_namespace_def)
  from mset_kinds [OF this] e show ?thesis by metis
qed

text \<open>The child that is needed is the first of its kind.  Without one, the search by tag names throws the exception it declares, while
  the search by local names accesses the missing child, through \<open>NULL\<close>, for the text of its exception.\<close>

theorem need_child:
  "needChildElementByTagNameNS D nodeName d n nm ns =
     (case getChildrenByTagNameNS D nodeName d n nm ns of [] \<Rightarrow> Some (Inl Needs_child) | c # _ \<Rightarrow> Some (Inr c))
   \<and> needChildElementByLocalNameNS D d n nm ns =
     (case getChildrenByLocalNameNS D d n nm ns of [] \<Rightarrow> None | c # _ \<Rightarrow> Some (Inr c))"
  by (simp add: needChildElementByTagNameNS_def getChildElementByTagNameNS_def getChildrenByTagNameNS_def first_child_filter
      first_of_def needChildElementByLocalNameNS_def child_of_kind children_of_kind split: list.split)

end
