(* ===== verification/Spec2Isabelle.thy ===== *)
theory Spec2Isabelle
  imports Jconf_File Plugin Instances Vsegment Spsegment Realtime Word_Align Recogmain
    State_Config Component_Thread Semaine_Message Next_Word
    Document_Properties Cms_Logger Emma_Message
begin

text \<open>
  The components of SEMAINE-3.1 in C++ and its speech recogniser in C.

  \<^bold>\<open>The program.\<close>  SEMAINE is a system of components that talk over message queues.  The C++ interface
  under \<open>src/c++/src/semaine\<close> gives every component a thread that waits for messages of its receivers
  and reacts to them (\<open>components/Component.cpp\<close>, \<open>cms/receiver\<close>), a messenger that reports to the
  system manager whether it is alive (\<open>components/meta\<close>), messages and senders (\<open>cms/message\<close>,
  \<open>cms/sender\<close>), and information on the state of user, agent, dialogue, context and system, whose items
  a configuration file maps to places in XML documents (\<open>datatypes/stateinfo\<close>).

  The C part is the modified Julius recognition engine under \<open>src/c++/src/tum/julius4.mod\<close>.  The engine reads its
  configuration (\<open>m_jconf.c\<close>), keeps lists of recognition processes, language models and acoustic
  models that a client adds and removes while it runs (\<open>jfunc.c\<close>), loads plugins (\<open>plugin.c\<close>), and
  runs the recognition loop (\<open>recogmain.c\<close>).  A round of the loop takes one input segment: the first
  pass runs on the fly, frame by frame, on samples or feature vectors (\<open>realtime-1stpass.c\<close>), or on
  buffered input; short pauses cut the input into segments, and triggers found late rewind it
  (\<open>spsegment.c\<close>); the second pass extends hypotheses word by word from the end of the input, with
  scores joined from a scan of their last word and the word trellis of the first pass
  (\<open>search_bestfirst_v1.c\<close>); the sentences are aligned with the frames (\<open>word_align.c\<close>) by a Viterbi
  search (\<open>vsegment.c\<close>); the results go to callbacks and plugins.

  \<^bold>\<open>The theories.\<close>

  \<^item> \<open>Prelude\<close>: lemmas on lists and options, writing with a check (\<open>put_all\<close>), and the locale
    \<open>checked_writes\<close> of a bounded or growing array.
  \<^item> \<open>Jconf_File\<close> (\<open>m_jconf.c\<close>): \<open>fgets_jconf\<close>, \<open>get_dirname\<close>, \<open>expand_env\<close>, the word splitting and the
    argument vector of \<open>config_file_parse\<close>.  Bytes are \<open>char\<close>, a stream is the list of its bytes.
    Shown: printing arguments and reading them back gives the arguments, the expansion meets its
    specification, all stores stay in their arrays; two defects.
  \<^item> \<open>Plugin\<close> (\<open>plugin.c\<close>, \<open>plugin.h\<close>): the registry of plugin functions, its execution points, and the
    feature vector module.  Shown: look-up after loading, the best sentence is the one passed on,
    every branch of reading a vector; one defect.
  \<^item> \<open>Instances\<close> (\<open>jfunc.c\<close>): requests, look-up, activation, adding and removing of processes, the switches of
    messages, with a store from addresses to records, in which access through a released address is \<open>None\<close>.
    Shown: removal is safe and keeps the engine well-formed; sequences of requests refine a small
    specification; one defect.
  \<^item> \<open>Vsegment\<close> (\<open>vsegment.c\<close>): token passing over an HMM.  Shown: the result is a best path, with its
    units; the units cover the frames.
  \<^item> \<open>Spsegment\<close> (\<open>spsegment.c\<close>): detection of segment ends, splitting and rewinding, in the builds with
    and without \<open>SPSEGMENT_NAIST\<close> and \<open>GMM_VAD\<close>.  Shown: where a segment ends, that no frame is lost by
    splitting or rewinding; one defect.
  \<^item> \<open>Realtime\<close> (\<open>realtime-1stpass.c\<close>): the first pass on the fly.  Shown: the result does not depend on
    how the samples are cut into chunks, the windows are those of the whole stream, the search is
    called once for every vector of vector input, in order; three defects.
  \<^item> \<open>Word_Align\<close> (\<open>word_align.c\<close>): alignment by words, phonemes and states.  Shown: the end states fit
    and increase, an alignment without multipath covers all frames, for all three units, the codes of
    the states are read back right, every sentence gets the alignments asked for; one defect.
  \<^item> \<open>Recogmain\<close> (\<open>recogmain.c\<close>): results, buffering of speech, streams and the recognition loop.
    Shown: recording keeps all samples, the frames behind a segment end are the next segment, how
    the loop ends (\<open>loop_result\<close>); two defects.
  \<^item> \<open>Search_Node\<close> (\<open>search_bestfirst_v1.c\<close>): the nodes of hypotheses and their stock, \<open>newnode\<close>, \<open>free_node\<close>,
    \<open>cpy_node\<close>, \<open>clear_stocker\<close>, with a store from addresses to nodes.  Shown: no node is used and in stock
    (\<open>stock_step\<close>, \<open>stock_inv\<close>), and a new node is initialised.
  \<^item> \<open>Scan_Word\<close>: \<open>scan_word\<close>, the Viterbi search through the last word of a hypothesis, in all modes.  The
    preparation of the HMM is \<open>prepare_scan\<close>, one state \<open>scan_node\<close>, one frame \<open>scan_frame\<close>, all frames
    \<open>scan_frames\<close>, the checks before the first frame \<open>scan_check\<close>; \<open>scan_path\<close> says what a path is.
    Shown: every score is the best of all paths, and what the scores stored for a backscan are
    (\<open>kept_ok\<close>, \<open>copied\<close>), in all modes.
  \<^item> \<open>Back_Scan\<close>: what a scan leaves for the next.  Shown: without multipath, scanning the head phone again
    from the stored scores is exact (\<open>whole\<close> is the HMM of both words, \<open>word_hmm_law\<close> what is relied on);
    no scan leaves the work area, because of the length test; two wrong final scores and wrong word boundaries.
  \<^item> \<open>Next_Word\<close>: \<open>next_word\<close>, \<open>start_word\<close> and \<open>last_next_word\<close>.  Shown: the connection of a word is the
    best one of the searched frames, and of all frames when those of the word are a run; scan and expansion
    together give the score of a best path; the sentence score without multipath.
  \<^item> \<open>Cpp_String\<close>: positions and parts of \<open>std::string\<close>, results that are an exception or a value
    (\<open>err_bind\<close>), and \<open>std::map\<close> of strings as a sorted association list (\<open>smap\<close>) with the locale
    \<open>string_map\<close> of its laws.
  \<^item> \<open>State_Info\<close> (\<open>splitXPathIntoParts\<close> of \<open>StateInfo.cpp\<close>): Shown: the written form of every expression of
    the documented grammar is split into its parts, but for colons in the predicate of a step without prefix
    (\<open>colon_misread\<close>), the shape of all results, when the loop ends, what an unclosed predicate
    leads to; two defects.
  \<^item> \<open>State_Config\<close> (\<open>StateInfo.cpp\<close>, \<open>StateReceiver.cpp\<close>): the configuration file, the items of a state, the
    best guess of a receiver.  Shown: a written configuration is read back, what an accepted section
    guarantees, the effect of setting items; one defect.
  \<^item> \<open>State_Document\<close> (\<open>StateInfo.cpp\<close>, \<open>XMLTool.cpp\<close>, \<open>NamespaceContext.cpp\<close>): \<open>createDocumentFromInfo\<close> and
    \<open>analyseDocument\<close>, over a DOM as the record \<open>dom_ops\<close>.  \<open>dom_laws\<close> says that its operations are those on
    trees, for names that are valid and strings that the local code page has (\<open>valid\<close>, \<open>legal\<close>).  Strings are
    cut at a NUL (\<open>c_str\<close>) as by \<open>XMLString::transcode\<close>, and an exception that a function does not declare
    ends the program (\<open>Terminated\<close>).
  \<^item> \<open>Document_Tree\<close>: these functions on trees; the locale \<open>item_store\<close> of stores with places that do not
    interfere.
  \<^item> \<open>Document_Properties\<close>: Shown: a document is the tree of the items, a state is read back from its
    document when no expressions interfere; three defects.
  \<^item> \<open>Meta_Messenger\<close> (\<open>MetaMessenger.cpp\<close>): statistics on words of 64 bits, reports, pings.  Shown: what is
    remembered, averages, the answer to a ping; two defects.
  \<^item> \<open>Component_Thread\<close> (\<open>Component.cpp\<close>, \<open>Receiver.cpp\<close>): the threads of a component, of its receivers and
    of its messenger as one step relation (\<open>step\<close>, \<open>reachable\<close>), with a program counter each; the
    invariant is \<open>handshake\<close>.  The outcome of a step (\<open>outcome\<close>) says what each call of the middleware in it
    does.  Shown: messages are handled exactly once and in order, announced messages are handled in every
    interleaving, a request to exit ends the thread, a failure is the last state for ever but for one
    race with the messenger.
  \<^item> \<open>Semaine_Message\<close> (\<open>cms/message\<close>, \<open>cms/sender\<close>): what senders put into messages and receivers read
    from them, and the synchronous \<open>receive\<close>.  Shown: text, bytes, documents and feature vectors are
    received as they were sent; two defects.
  \<^item> \<open>State_Message\<close> (\<open>SEMAINEStateMessage.cpp\<close>, \<open>StateSender.cpp\<close>, \<open>ParticipantControl.cpp\<close>): states as
    messages, from the sender through document, text and message to the receiver.  Shown: a state is
    received as it was sent, a context typed by the operator is reported; another type of state, an
    unset state or version.  \<open>law_write\<close> lets the parser add the namespace declarations a text needs.
  \<^item> \<open>Cms_Logger\<close> (\<open>CMSLogger.cpp\<close>): the loggers of all sources, with a store from addresses to loggers, on
    one connection and session.  Shown: there is one logger for each source, every message is written
    as long as connections and producers can be set up; two defects.
  \<^item> \<open>Emma_Message\<close> (\<open>SEMAINEEmmaMessage.cpp\<close>, \<open>XMLTool.cpp\<close>): looking for children and attributes, and what a
    message of analysers holds.  Shown: the elements found are those of the kinds asked for; one defect.

  \<^bold>\<open>Conventions.\<close>  A C function is a HOL function of the same name; a loop inside one is a function
  with a name of its own.  State is passed as a record.  The result \<open>None\<close> of an option is always an
  undefined behaviour of the program (an access outside an array or through NULL, a freed block
  used, an unset variable read) or, for the loops defined by \<open>partial_function\<close>
  (\<open>backstep_loop\<close>, \<open>resume_loop\<close>, \<open>flush_loop\<close>, \<open>go_frames\<close>, \<open>recog_loop\<close>, \<open>j_recognize_stream\<close>,
  \<open>split_loop\<close>, \<open>clear_loop\<close>), a loop that does not end; error
  codes and exceptions of the program are values, except that \<open>getDocument\<close> and what uses it tell apart a
  loop that does not end (\<open>Endless\<close>), a program ended by an undeclared exception (\<open>Terminated\<close>) and a return
  (\<open>Returns\<close>), and that \<open>scan_check\<close> tells the end of the program by \<open>j_internal_error\<close> from accesses outside an
  array, which are both \<open>None\<close> in \<open>scan_word\<close>.  No definition uses fuel: loops that always end are defined by
  structural or measured recursion.  Integers of the program are \<open>int\<close> and \<open>nat\<close>; array lengths, at
  which the program computes with them, are below the range of the machine types.  Scores and
  feature values are real numbers in place of floating point.

  Code that is not in the repository is a parameter: the search of libjulius (\<open>ops\<close>,
  \<open>get_back_trellis\<close>, \<open>wchmm_fbs\<close>), the feature extraction and phone models of libsent (\<open>mfcc_ops\<close>,
  \<open>hmm_ops\<close>, \<open>scan_ops\<close>), the word trellis (\<open>trellis\<close>) and the release of word graphs, audio input (\<open>adin_go\<close>), the functions of plugins, callbacks of the application,
  \<open>getenv\<close> and files, the messages of the middleware (\<open>cms\<close>) and its answers when something is sent, the
  clock, documents and XPath (\<open>dom_ops\<close>), writing documents as text and parsing them
  (\<open>law_write\<close>), the functions \<open>act\<close> and \<open>react\<close> of a component, and the conversion of numbers by streams.  What a theorem needs of them is a hypothesis in its statement, and its
  witness has an instance of them.

  \<^bold>\<open>Not modelled.\<close>  Messages to the log and the release of memory that nothing reads again, as in
  \<open>free_wordtrellis\<close>; the report \<open>m_info.c\<close>, which only prints; the builds with \<open>POWER_REJECT\<close>,
  \<open>PASS2_STRICT_IWCD\<close> (which leaves out \<open>search_bestfirst_v1.c\<close>), \<open>CM_MULTIPLE_ALPHA\<close> and \<open>VISUALIZE\<close>.  Of the C++ interface: the functions of \<open>XMLTool\<close> that start Xerces and
  read and write files and strings, \<open>IOBase\<close> and the main functions, which only call the XML library and
  the message transport, both outside the repository; \<open>message2logString\<close>, which only formats; the time to
  live of messages, which is ignored; constructors that call the middleware and destructors; the example
  components under \<open>components/dummy\<close>.  The Java system, the speech synthesis distribution, vendored libraries, and the
  copies of the C sources for Windows.
\<close>

end
